(* ===== verification/Vaani_Prelude.thy ===== *)
theory Vaani_Prelude
  imports Main "HOL-Library.Word" "HOL-Library.Multiset"
begin

text \<open>
  Shared vocabulary of the development: the machine types of the Go sources, the two
  non-blocking channel operations the media plane and the agent are built from
  (\<open>select { case ch <- x: default: }\<close> and \<open>select { case x := <-ch: default: }\<close>),
  the collections of facts the component theories add to, and a few generic lemmas on lists
  and maps.
\<close>

unbundle bit_operations_syntax

named_theorems chan_simps \<open>evaluation of the non-blocking channel operations\<close>
named_theorems invs \<open>preservation of a component's invariant, one fact per operation\<close>
named_theorems op_defs \<open>definitions unfolded to run a component's operation\<close>

type_synonym byte = "8 word"
type_synonym u16 = "16 word"
type_synonym u32 = "32 word"

section \<open>Fixed-width conversions\<close>

text \<open>Go's \<open>int16(n)\<close> on an \<open>int\<close> (truncating) and on a \<open>uint16\<close> (reinterpreting).\<close>

definition int16_of_int :: "int \<Rightarrow> int" where
  "int16_of_int n = sint (word_of_int n :: u16)"

definition int16_of_u16 :: "u16 \<Rightarrow> int" where
  "int16_of_u16 w = sint w"

lemma sint16_shift: "sint (w :: u16) = (uint w + 32768) mod 65536 - 32768"
  by (simp add: sint_uint signed_take_bit_eq_take_bit_shift take_bit_eq_mod)

lemma uint16_range: "0 \<le> uint (w :: u16) \<and> uint w < 65536"
  using uint_bounded [of w] by simp

lemma int16_of_int_small [simp]:
  assumes "0 \<le> n" and "n < 32768"
  shows "int16_of_int n = n"
proof -
  have "uint (word_of_int n :: u16) = n"
    using assms by (simp add: uint_word_of_int)
  then show ?thesis unfolding int16_of_int_def sint16_shift using assms by simp
qed

text \<open>An \<open>int16\<close> read of a word that is \<open>n\<close> as an unsigned number.\<close>

lemma int16_of_u16_unat:
  assumes "unat w = n"
  shows "int16_of_u16 w = (if n < 32768 then int n else int n - 65536)" and "n < 65536"
proof -
  have u: "uint w = int n" using assms by (metis of_nat_unat)
  show r: "n < 65536" using uint16_range [of w] u by linarith
  have "(int n + 32768) mod 65536 - 32768 = (if n < 32768 then int n else int n - 65536)"
  proof (cases "n < 32768")
    case False
    then have "(int n - 32768 + 65536) mod 65536 = int n - 32768"
      using r by (simp only: mod_add_self2) (rule mod_pos_pos_trivial, linarith, linarith)
    then have "(int n + 32768) mod 65536 = int n - 32768" by (simp add: algebra_simps)
    with False show ?thesis by simp
  qed (simp add: mod_pos_pos_trivial)
  then show "int16_of_u16 w = (if n < 32768 then int n else int n - 65536)"
    by (simp only: int16_of_u16_def sint16_shift u)
qed

lemma int16_of_u16_nonneg: "0 \<le> int16_of_u16 w \<longleftrightarrow> unat w < 32768"
  using int16_of_u16_unat [OF refl, of w] by (simp del: of_nat_unat split: if_splits)

lemma int16_of_u16_less:
  assumes "n \<le> 32768" and "0 \<le> int16_of_u16 w"
  shows "int16_of_u16 w < int n \<longleftrightarrow> unat w < n"
  using int16_of_u16_unat [OF refl, of w] assms by (simp del: of_nat_unat split: if_splits)

section \<open>Buffered channels without blocking\<close>

text \<open>\<open>try_send cap x q\<close>: the send happens when the buffer has room, and is dropped otherwise.\<close>

definition try_send :: "nat \<Rightarrow> 'a \<Rightarrow> 'a list \<Rightarrow> 'a list \<times> bool" where
  "try_send cap x q = (if length q < cap then (q @ [x], True) else (q, False))"

fun try_recv :: "'a list \<Rightarrow> ('a \<times> 'a list) option" where
  "try_recv [] = None"
| "try_recv (x # q) = Some (x, q)"

lemma try_send_length [chan_simps]: "length q \<le> cap \<Longrightarrow> length (fst (try_send cap x q)) \<le> cap"
  by (simp add: try_send_def)

lemma try_send_set: "set (fst (try_send cap x q)) \<subseteq> insert x (set q)"
  by (auto simp: try_send_def)

lemma try_send_room [chan_simps]: "length q < cap \<Longrightarrow> try_send cap x q = (q @ [x], True)"
  by (simp add: try_send_def)

lemma try_send_full [chan_simps]: "cap \<le> length q \<Longrightarrow> try_send cap x q = (q, False)"
  by (simp add: try_send_def)

lemma try_recv_eq_None [chan_simps]: "try_recv q = None \<longleftrightarrow> q = []"
  by (cases q) auto

lemma try_recv_eq_Some [chan_simps]: "try_recv q = Some (x, r) \<longleftrightarrow> q = x # r"
  by (cases q) auto

section \<open>Lists of optional entries\<close>

text \<open>The entries that are there, in order: the contents of a slot array.\<close>

fun somes :: "'a option list \<Rightarrow> 'a list" where
  "somes [] = []"
| "somes (None # xs) = somes xs"
| "somes (Some x # xs) = x # somes xs"

lemma somes_append [simp]: "somes (xs @ ys) = somes xs @ somes ys"
  by (induction xs rule: somes.induct) auto

lemma somes_replicate_None [simp]: "somes (replicate n None) = []"
  by (induction n) auto

lemma somes_filter [simp]:
  "somes (filter (\<lambda>x. x \<noteq> None) xs) = somes xs"
  "somes (filter (\<lambda>x. \<exists>y. x = Some y) xs) = somes xs"
  by (induction xs rule: somes.induct) auto

lemma set_somes: "set (somes xs) = {x. Some x \<in> set xs}"
  by (induction xs rule: somes.induct) auto

lemma mset_somes_put:
  "i < length xs \<Longrightarrow> xs ! i = None \<Longrightarrow> mset (somes (xs[i := Some x])) = add_mset x (mset (somes xs))"
proof (induction xs arbitrary: i)
  case (Cons y ys)
  then show ?case by (cases i; cases y) auto
qed simp

lemma mset_somes_take:
  "i < length xs \<Longrightarrow> xs ! i = Some x \<Longrightarrow> mset (somes xs) = add_mset x (mset (somes (xs[i := None])))"
proof (induction xs arbitrary: i)
  case (Cons y ys)
  then show ?case by (cases i; cases y) auto
qed simp

end
