(* ===== verification/Port_Alloc.thy ===== *)
theory Port_Alloc
  imports Vaani_Prelude
begin

text \<open>
  \<open>internal/media/portalloc.go\<close>: the allocator of UDP/TCP media ports. One port belongs to
  one call. The call managers use it through the interface \<open>port_pool\<close> below.
\<close>

section \<open>The interface a call manager relies on\<close>

locale port_pool =
  fixes alloc :: "'s \<Rightarrow> 'e + (int \<times> 's)"
    and free :: "int \<Rightarrow> 's \<Rightarrow> 's"
    and taken :: "'s \<Rightarrow> int set"
    and inv :: "'s \<Rightarrow> bool"
  assumes alloc_fresh: "inv s \<Longrightarrow> alloc s = Inr (p, s') \<Longrightarrow> p \<notin> taken s"
    and alloc_taken: "inv s \<Longrightarrow> alloc s = Inr (p, s') \<Longrightarrow> taken s' = insert p (taken s)"
    and alloc_inv: "inv s \<Longrightarrow> alloc s = Inr (p, s') \<Longrightarrow> inv s'"
    and free_taken: "inv s \<Longrightarrow> taken (free p s) = taken s - {p}"
    and free_inv: "inv s \<Longrightarrow> inv (free p s)"
begin

lemma alloc_free_taken:
  assumes "inv s" and "alloc s = Inr (p, s')"
  shows "taken (free p s') = taken s"
  using alloc_fresh [OF assms] alloc_taken [OF assms] free_taken [OF alloc_inv [OF assms]]
  by simp

lemma alloc_twice_distinct:
  assumes "inv s" and "alloc s = Inr (p, s')" and "alloc s' = Inr (q, s'')"
  shows "p \<noteq> q"
  using alloc_fresh [OF alloc_inv [OF assms(1,2)] assms(3)] alloc_taken [OF assms(1,2)] by auto

lemma free_keeps_others:
  assumes "inv s" and "q \<in> taken s" and "p \<noteq> q"
  shows "q \<in> taken (free p s)"
  using assms free_taken by simp

end

section \<open>PortAllocator\<close>

text \<open>\<open>inUse\<close> is Go's \<open>map[int]bool\<close>; a missing key reads as \<open>false\<close>.\<close>

record port_alloc =
  pa_base :: int
  pa_count :: int
  pa_inUse :: "int \<rightharpoonup> bool"

datatype port_error = NoFreePorts int int

definition NewPortAllocator :: "int \<Rightarrow> int \<Rightarrow> port_alloc" where
  "NewPortAllocator base n = \<lparr>pa_base = base, pa_count = n, pa_inUse = Map.empty\<rparr>"

text \<open>The loop \<open>for i := 0; i < a.count; i++\<close>, from port \<open>p\<close> with \<open>n\<close> iterations left.\<close>

fun pa_scan :: "(int \<rightharpoonup> bool) \<Rightarrow> int \<Rightarrow> nat \<Rightarrow> int option" where
  "pa_scan m p 0 = None"
| "pa_scan m p (Suc n) = (if m p \<noteq> Some True then Some p else pa_scan m (p + 1) n)"

definition Alloc :: "port_alloc \<Rightarrow> port_error + (int \<times> port_alloc)" where
  "Alloc a = (case pa_scan (pa_inUse a) (pa_base a) (nat (pa_count a)) of
      Some port \<Rightarrow> Inr (port, a\<lparr>pa_inUse := (pa_inUse a)(port \<mapsto> True)\<rparr>)
    | None \<Rightarrow> Inl (NoFreePorts (pa_base a) (pa_base a + pa_count a - 1)))"

definition Free :: "int \<Rightarrow> port_alloc \<Rightarrow> port_alloc" where
  "Free port a = a\<lparr>pa_inUse := (pa_inUse a)(port := None)\<rparr>"

definition InUse :: "port_alloc \<Rightarrow> nat" where
  "InUse a = card (dom (pa_inUse a))"

definition pa_range :: "port_alloc \<Rightarrow> int set" where
  "pa_range a = {pa_base a ..< pa_base a + pa_count a}"

definition pa_inv :: "port_alloc \<Rightarrow> bool" where
  "pa_inv a \<longleftrightarrow> dom (pa_inUse a) \<subseteq> pa_range a \<and> ran (pa_inUse a) \<subseteq> {True}"

lemma pa_scan_Some: "pa_scan m p n = Some q \<Longrightarrow> p \<le> q \<and> q < p + int n \<and> m q \<noteq> Some True"
  by (induction m p n rule: pa_scan.induct) (auto split: if_splits)

lemma pa_scan_least: "pa_scan m p n = Some q \<Longrightarrow> p \<le> r \<Longrightarrow> r < q \<Longrightarrow> m r = Some True"
proof (induction m p n rule: pa_scan.induct)
  case (2 m p n)
  then show ?case
    by (cases "r = p") (auto split: if_splits)
qed auto

lemma pa_scan_None: "pa_scan m p n = None \<Longrightarrow> p \<le> r \<Longrightarrow> r < p + int n \<Longrightarrow> m r = Some True"
proof (induction m p n rule: pa_scan.induct)
  case (2 m p n)
  then show ?case
    by (cases "r = p") (auto split: if_splits)
qed auto

lemma pa_inv_new [invs]: "pa_inv (NewPortAllocator base n)"
  by (simp add: pa_inv_def NewPortAllocator_def)

lemma Alloc_Inr: "Alloc a = Inr (p, a') \<Longrightarrow>
    p \<in> pa_range a \<and> pa_inUse a p \<noteq> Some True \<and> a' = a\<lparr>pa_inUse := (pa_inUse a)(p \<mapsto> True)\<rparr>"
  by (auto simp: Alloc_def pa_range_def split: option.splits if_splits dest!: pa_scan_Some)

lemma pa_inv_Alloc [invs]: "pa_inv a \<Longrightarrow> Alloc a = Inr (p, a') \<Longrightarrow> pa_inv a'"
  by (drule Alloc_Inr) (auto simp: pa_inv_def pa_range_def ran_def)

lemma pa_inv_Free [invs]: "pa_inv a \<Longrightarrow> pa_inv (Free p a)"
  by (auto simp: pa_inv_def Free_def pa_range_def ran_def split: if_splits)

interpretation ports: port_pool Alloc Free "\<lambda>a. dom (pa_inUse a)" pa_inv
proof
  fix a p a' assume inv: "pa_inv a" and al: "Alloc a = Inr (p, a')"
  have "pa_inUse a p \<noteq> Some True" using Alloc_Inr [OF al] by simp
  with inv show "p \<notin> dom (pa_inUse a)" by (auto simp: pa_inv_def ran_def)
  show "dom (pa_inUse a') = insert p (dom (pa_inUse a))" using Alloc_Inr [OF al] by auto
next
  fix a p assume "pa_inv a"
  then show "pa_inv (Free p a)" by (rule pa_inv_Free)
qed (auto simp: Free_def intro: pa_inv_Alloc)

lemma pa_inv_finite: "pa_inv a \<Longrightarrow> finite (dom (pa_inUse a))"
  by (rule finite_subset [of _ "pa_range a"]) (auto simp: pa_inv_def pa_range_def)

lemma Alloc_Inl_full:
  assumes "pa_inv a" and "Alloc a = Inl e"
  shows "dom (pa_inUse a) = pa_range a"
proof
  show "dom (pa_inUse a) \<subseteq> pa_range a" using assms(1) by (simp add: pa_inv_def)
  have "pa_scan (pa_inUse a) (pa_base a) (nat (pa_count a)) = None"
    using assms(2) by (simp add: Alloc_def split: option.splits)
  then have "pa_inUse a r = Some True" if "r \<in> pa_range a" for r
    using that by (intro pa_scan_None [of _ "pa_base a" "nat (pa_count a)"]) (auto simp: pa_range_def)
  then show "pa_range a \<subseteq> dom (pa_inUse a)" by auto
qed

section \<open>Properties\<close>

text \<open>One port, one call: an allocation fails only when every port of the range is taken, and
  otherwise hands out the lowest free port, which nobody held; freeing it restores exactly the
  ports that were taken before, and allocating twice never gives the same port.\<close>

theorem alloc_exact:
  assumes "pa_inv a"
  shows "case Alloc a of
      Inl e \<Rightarrow> e = NoFreePorts (pa_base a) (pa_base a + pa_count a - 1) \<and> dom (pa_inUse a) = pa_range a
    | Inr (p, a') \<Rightarrow> p \<in> pa_range a \<and> {pa_base a ..< p} \<subseteq> dom (pa_inUse a) \<and> p \<notin> dom (pa_inUse a)
        \<and> dom (pa_inUse a') = insert p (dom (pa_inUse a)) \<and> dom (pa_inUse (Free p a')) = dom (pa_inUse a)
        \<and> (case Alloc a' of Inl e \<Rightarrow> True | Inr (q, a'') \<Rightarrow> p \<noteq> q)"
proof (cases "Alloc a")
  case (Inl e)
  then show ?thesis
    using Alloc_Inl_full [OF assms Inl] by (auto simp: Alloc_def split: option.splits)
next
  case (Inr r)
  obtain p a' where r: "Alloc a = Inr (p, a')" using Inr by (cases r) auto
  have "pa_scan (pa_inUse a) (pa_base a) (nat (pa_count a)) = Some p"
    using r by (simp add: Alloc_def split: option.splits)
  from pa_scan_least [OF this] have low: "{pa_base a ..< p} \<subseteq> dom (pa_inUse a)" by auto
  have "p \<noteq> q" if "Alloc a' = Inr (q, a'')" for q a'' using ports.alloc_twice_distinct [OF assms r that] .
  then have twice: "case Alloc a' of Inl e \<Rightarrow> True | Inr (q, a'') \<Rightarrow> p \<noteq> q"
    by (auto split: sum.split)
  show ?thesis
    unfolding r using Alloc_Inr [OF r] low twice ports.alloc_fresh [OF assms r]
      ports.alloc_taken [OF assms r] ports.alloc_free_taken [OF assms r] by simp
qed

theorem alloc_exact_witness:
  "case Alloc (NewPortAllocator 20000 2) of Inl e \<Rightarrow> False | Inr (p, a') \<Rightarrow> p = 20000 \<and> dom (pa_inUse a') = {20000}"
  using alloc_exact [OF pa_inv_new, of 20000 2]
  by (simp add: Alloc_def NewPortAllocator_def numeral_2_eq_2)

end
