(* ===== verification/Jitter_Buffer.thy ===== *)
theory Jitter_Buffer
  imports Vaani_Prelude
begin

text \<open>
  \<open>internal/media/jitterbuffer.go\<close>: the fixed reorder window between the RTP reader
  (\<open>Push\<close>) and the 20ms release tick (\<open>Release\<close>). Sequence numbers are 16-bit words and
  distances are read as \<open>int16\<close>, exactly as in the code. A frame is any value of type
  \<open>'f\<close> (the code moves pointers only); what the code hands to the metrics sink or back to
  the frame pool is returned as a list of events, in order.
\<close>

section \<open>State\<close>

datatype jb_state = JbWaiting | JbActive | JbFrozen

datatype 'f jb_event =
    Late | Duplicate | SilenceInserted | SSRCChange | Reanchor | OutOfWindow
  | PutFrame "'f option"

text \<open>\<open>Release\<close> returns a buffered frame (a pointer, so it could be nil) or a silent one.\<close>

datatype 'f jb_out = Played "'f option" | Silent

record 'f jitter_buffer =
  jb_size :: nat
  jb_slots :: "'f option list"
  jb_have :: "bool list"
  jb_started :: bool
  jb_st :: jb_state
  jb_misses :: nat
  jb_primingTicks :: nat
  jb_maxPrimingTicks :: nat
  jb_expected :: u16
  jb_ssrc :: u32

definition starveFreezeThreshold :: nat where "starveFreezeThreshold = 3"
definition maxPrimingTicksFactor :: nat where "maxPrimingTicksFactor = 2"

definition NewJitterBuffer :: "nat \<Rightarrow> 'f jitter_buffer" where
  "NewJitterBuffer sz = \<lparr>
     jb_size = sz, jb_slots = replicate sz None, jb_have = replicate sz False,
     jb_started = False, jb_st = JbWaiting, jb_misses = 0, jb_primingTicks = 0,
     jb_maxPrimingTicks = maxPrimingTicksFactor * sz, jb_expected = 0, jb_ssrc = 0\<rparr>"

section \<open>Operations\<close>

definition jb_slot :: "'f jitter_buffer \<Rightarrow> u16 \<Rightarrow> nat" where
  "jb_slot j seq = unat seq mod jb_size j"

definition depthLocked :: "'f jitter_buffer \<Rightarrow> nat" where
  "depthLocked j = length (filter (\<lambda>h. h) (jb_have j))"

fun clear_loop :: "'f option list \<Rightarrow> bool list \<Rightarrow> 'f option list \<times> bool list \<times> 'f jb_event list" where
  "clear_loop (x # xs) (h # hs) =
     (let (xs', hs', ev) = clear_loop xs hs
      in if h then (None # xs', False # hs', PutFrame x # ev) else (x # xs', h # hs', ev))"
| "clear_loop xs hs = (xs, hs, [])"

definition clearSlotsLocked :: "'f jitter_buffer \<Rightarrow> 'f jitter_buffer \<times> 'f jb_event list" where
  "clearSlotsLocked j =
     (let (xs, hs, ev) = clear_loop (jb_slots j) (jb_have j)
      in (j\<lparr>jb_slots := xs, jb_have := hs\<rparr>, ev))"

definition resetLocked :: "u16 \<Rightarrow> u32 \<Rightarrow> 'f jitter_buffer \<Rightarrow> 'f jitter_buffer \<times> 'f jb_event list" where
  "resetLocked seq ssrc j =
     (let (j, ev) = clearSlotsLocked j
      in (j\<lparr>jb_expected := seq, jb_ssrc := ssrc, jb_st := JbWaiting, jb_misses := 0,
            jb_primingTicks := 0\<rparr>, ev))"

definition reanchorLocked :: "u16 \<Rightarrow> 'f jitter_buffer \<Rightarrow> 'f jitter_buffer \<times> 'f jb_event list" where
  "reanchorLocked seq j =
     (let (j, ev) = clearSlotsLocked j
      in (j\<lparr>jb_expected := seq, jb_st := JbWaiting, jb_misses := 0, jb_primingTicks := 0\<rparr>, ev))"

text \<open>The second \<open>switch\<close> of \<open>Push\<close>: store the frame or discard it.\<close>

definition jb_place :: "u16 \<Rightarrow> 'f \<Rightarrow> 'f jitter_buffer \<Rightarrow> 'f jitter_buffer \<times> 'f jb_event list" where
  "jb_place seq frame j =
     (let diff = int16_of_u16 (seq - jb_expected j) in
      if diff < 0 then (j, [Late, PutFrame (Some frame)])
      else if int16_of_int (int (jb_size j)) \<le> diff then (j, [OutOfWindow, PutFrame (Some frame)])
      else let slot = jb_slot j seq in
        if jb_have j ! slot then (j, [Duplicate, PutFrame (Some frame)])
        else (j\<lparr>jb_slots := (jb_slots j)[slot := Some frame],
               jb_have := (jb_have j)[slot := True]\<rparr>, []))"

definition Push :: "u16 \<Rightarrow> u32 \<Rightarrow> 'f \<Rightarrow> 'f jitter_buffer \<Rightarrow> 'f jitter_buffer \<times> 'f jb_event list" where
  "Push seq ssrc frame j =
     (if \<not> jb_started j then
        jb_place seq frame
          (j\<lparr>jb_started := True, jb_expected := seq, jb_ssrc := ssrc, jb_st := JbWaiting\<rparr>)
      else if ssrc \<noteq> jb_ssrc j then
        let (j, ev) = resetLocked seq ssrc j; (j, ev') = jb_place seq frame j
        in (j, ev @ SSRCChange # ev')
      else if jb_st j = JbFrozen then
        if int16_of_u16 (seq - jb_expected j) < 0 then (j, [Late, PutFrame (Some frame)])
        else
          let (j, ev) = reanchorLocked seq j; (j, ev') = jb_place seq frame j
          in (j, ev @ Reanchor # ev')
      else if jb_st j = JbWaiting
          \<and> int16_of_int (int (jb_size j)) \<le> int16_of_u16 (seq - jb_expected j) then
        let (j, ev) = reanchorLocked seq j; (j, ev') = jb_place seq frame j
        in (j, OutOfWindow # ev @ ev')
      else jb_place seq frame j)"

text \<open>
  \<open>Release\<close> in two parts: \<open>jb_gate\<close> is the priming gate (\<open>None\<close>: still priming, return
  silence at once), \<open>jb_pop\<close> the playout.
\<close>

definition jb_gate :: "'f jitter_buffer \<Rightarrow> 'f jitter_buffer \<times> bool" where
  "jb_gate j =
     (if jb_st j = JbWaiting then
        if depthLocked j < jb_size j then
          let j = j\<lparr>jb_primingTicks := jb_primingTicks j + 1\<rparr>
          in if jb_primingTicks j < jb_maxPrimingTicks j then (j, False)
             else (j\<lparr>jb_st := JbActive, jb_misses := 0\<rparr>, True)
        else (j\<lparr>jb_st := JbActive, jb_misses := 0\<rparr>, True)
      else (j, True))"

definition jb_pop :: "'f jitter_buffer \<Rightarrow> 'f jitter_buffer \<times> 'f jb_out \<times> 'f jb_event list" where
  "jb_pop j =
     (let slot = jb_slot j (jb_expected j) in
      if jb_have j ! slot then
        (j\<lparr>jb_slots := (jb_slots j)[slot := None], jb_have := (jb_have j)[slot := False],
           jb_expected := jb_expected j + 1, jb_misses := 0\<rparr>,
         Played (jb_slots j ! slot), [])
      else if jb_st j = JbFrozen then (j, Silent, [SilenceInserted])
      else
        let j = j\<lparr>jb_misses := jb_misses j + 1, jb_expected := jb_expected j + 1\<rparr>
        in (if starveFreezeThreshold \<le> jb_misses j then j\<lparr>jb_st := JbFrozen\<rparr> else j,
            Silent, [SilenceInserted]))"

definition Release :: "'f jitter_buffer \<Rightarrow> 'f jitter_buffer \<times> 'f jb_out \<times> 'f jb_event list" where
  "Release j =
     (if \<not> jb_started j then (j, Silent, [])
      else let (j, go) = jb_gate j in if go then jb_pop j else (j, Silent, []))"

lemmas jb_op_defs = Push_def jb_place_def resetLocked_def reanchorLocked_def
  clearSlotsLocked_def Release_def jb_gate_def jb_pop_def

section \<open>Well-formed buffers\<close>

definition jb_wf :: "'f jitter_buffer \<Rightarrow> bool" where
  "jb_wf j \<longleftrightarrow> 1 \<le> jb_size j \<and> jb_size j < 32768
     \<and> length (jb_slots j) = jb_size j \<and> length (jb_have j) = jb_size j
     \<and> (\<forall>i<jb_size j. jb_have j ! i \<longleftrightarrow> jb_slots j ! i \<noteq> None)
     \<and> jb_maxPrimingTicks j = 2 * jb_size j
     \<and> (jb_st j = JbWaiting \<longrightarrow> jb_primingTicks j < jb_maxPrimingTicks j)
     \<and> (jb_st j = JbActive \<longrightarrow> jb_misses j < 3)
     \<and> (\<not> jb_started j \<longrightarrow> jb_st j = JbWaiting \<and> jb_slots j = replicate (jb_size j) None)"

lemma jb_wf_size: "jb_wf j \<Longrightarrow> 1 \<le> jb_size j \<and> jb_size j < 32768
    \<and> length (jb_slots j) = jb_size j \<and> length (jb_have j) = jb_size j"
  by (simp add: jb_wf_def)

lemma jb_wf_have: "jb_wf j \<Longrightarrow> i < jb_size j \<Longrightarrow> jb_have j ! i \<longleftrightarrow> jb_slots j ! i \<noteq> None"
  by (simp add: jb_wf_def)

lemma jb_wf_new: "1 \<le> n \<Longrightarrow> n < 32768 \<Longrightarrow> jb_wf (NewJitterBuffer n)"
  by (simp add: jb_wf_def NewJitterBuffer_def maxPrimingTicksFactor_def)

lemma jb_slot_bound: "jb_wf j \<Longrightarrow> jb_slot j s < jb_size j"
  by (simp add: jb_wf_def jb_slot_def)

lemma clear_loop_eq:
  assumes "length xs = length hs" and "\<forall>i<length xs. hs ! i \<longleftrightarrow> xs ! i \<noteq> None"
  shows "clear_loop xs hs = (replicate (length xs) None, replicate (length hs) False,
           map PutFrame (filter (\<lambda>x. x \<noteq> None) xs))"
  using assms
proof (induction xs hs rule: list_induct2')
  case (4 x xs h hs)
  have "h \<longleftrightarrow> x \<noteq> None" using 4(3) by force
  moreover have "\<forall>i<length xs. hs ! i \<longleftrightarrow> xs ! i \<noteq> None" using 4(3) by force
  ultimately show ?case using 4 by auto
qed auto

lemma clearSlots_eq:
  assumes "jb_wf j"
  shows "clearSlotsLocked j =
    (j\<lparr>jb_slots := replicate (jb_size j) None, jb_have := replicate (jb_size j) False\<rparr>,
     map PutFrame (filter (\<lambda>x. x \<noteq> None) (jb_slots j)))"
  using assms clear_loop_eq [of "jb_slots j" "jb_have j"]
  by (simp add: clearSlotsLocked_def jb_wf_def)


definition jb_empty_at :: "u16 \<Rightarrow> 'f jitter_buffer \<Rightarrow> 'f jitter_buffer" where
  "jb_empty_at seq j = j\<lparr>jb_slots := replicate (jb_size j) None,
     jb_have := replicate (jb_size j) False, jb_expected := seq, jb_st := JbWaiting,
     jb_misses := 0, jb_primingTicks := 0\<rparr>"

definition jb_drops :: "'f jitter_buffer \<Rightarrow> 'f jb_event list" where
  "jb_drops j = map PutFrame (filter (\<lambda>x. x \<noteq> None) (jb_slots j))"

lemma reanchor_eq: "jb_wf j \<Longrightarrow> reanchorLocked seq j = (jb_empty_at seq j, jb_drops j)"
  by (simp add: reanchorLocked_def clearSlots_eq jb_empty_at_def jb_drops_def)

lemma reset_eq:
  "jb_wf j \<Longrightarrow> resetLocked seq ssrc j = (jb_empty_at seq (j\<lparr>jb_ssrc := ssrc\<rparr>), jb_drops j)"
  by (simp add: resetLocked_def clearSlots_eq jb_empty_at_def jb_drops_def)

lemma jb_wf_empty_at: "jb_wf j \<Longrightarrow> jb_started j \<Longrightarrow> jb_wf (jb_empty_at seq j)"
  by (auto simp: jb_wf_def jb_empty_at_def)

lemma jb_wf_ssrc: "jb_wf (j\<lparr>jb_ssrc := x\<rparr>) = jb_wf j"
  by (simp add: jb_wf_def)

lemma jb_wf_start:
  "jb_wf j \<Longrightarrow> \<not> jb_started j \<Longrightarrow>
   jb_wf (j\<lparr>jb_started := True, jb_expected := e, jb_ssrc := x, jb_st := JbWaiting\<rparr>)"
  by (auto simp: jb_wf_def)

lemma jb_wf_put:
  assumes "jb_wf j" and "jb_started j" and "i < jb_size j"
  shows "jb_wf (j\<lparr>jb_slots := (jb_slots j)[i := Some f], jb_have := (jb_have j)[i := True]\<rparr>)"
  using assms by (auto simp: jb_wf_def nth_list_update)

lemma jb_place_wf: "jb_wf j \<Longrightarrow> jb_started j \<Longrightarrow> jb_wf (fst (jb_place seq f j))"
  using jb_wf_put [of j "jb_slot j seq" f] jb_slot_bound [of j seq]
  by (auto simp: jb_place_def Let_def)

lemma jb_place_started [simp]: "jb_started (fst (jb_place seq f j)) = jb_started j"
  by (simp add: jb_place_def Let_def)

lemma jb_empty_at_started [simp]: "jb_started (jb_empty_at seq j) = jb_started j"
  by (simp add: jb_empty_at_def)

text \<open>\<open>Push\<close> on a well-formed buffer, with the resets evaluated: the one case split.\<close>

lemma Push_eq:
  assumes "jb_wf j"
  shows "Push seq ssrc frame j =
    (if \<not> jb_started j then
       jb_place seq frame
         (j\<lparr>jb_started := True, jb_expected := seq, jb_ssrc := ssrc, jb_st := JbWaiting\<rparr>)
     else if ssrc \<noteq> jb_ssrc j then
       apsnd (\<lambda>ev. jb_drops j @ SSRCChange # ev)
         (jb_place seq frame (jb_empty_at seq (j\<lparr>jb_ssrc := ssrc\<rparr>)))
     else if jb_st j = JbFrozen \<and> int16_of_u16 (seq - jb_expected j) < 0 then
       (j, [Late, PutFrame (Some frame)])
     else if jb_st j = JbFrozen then
       apsnd (\<lambda>ev. jb_drops j @ Reanchor # ev) (jb_place seq frame (jb_empty_at seq j))
     else if jb_st j = JbWaiting
         \<and> int16_of_int (int (jb_size j)) \<le> int16_of_u16 (seq - jb_expected j) then
       apsnd (\<lambda>ev. OutOfWindow # jb_drops j @ ev) (jb_place seq frame (jb_empty_at seq j))
     else jb_place seq frame j)"
  using assms by (simp add: Push_def reset_eq reanchor_eq split: prod.splits)

lemma Push_wf [invs]:
  assumes "jb_wf j"
  shows "jb_wf (fst (Push seq ssrc frame j))"
proof (cases "jb_started j")
  case True
  with assms show ?thesis
    by (auto simp: Push_eq jb_wf_ssrc intro!: jb_place_wf jb_wf_empty_at)
next
  case False
  with assms show ?thesis by (simp add: Push_eq jb_place_wf jb_wf_start)
qed

lemma Push_started: "jb_wf j \<Longrightarrow> jb_started (fst (Push seq ssrc frame j))"
  by (auto simp: Push_eq)

lemma jb_gate_wf: "jb_wf j \<Longrightarrow> jb_started j \<Longrightarrow> jb_wf (fst (jb_gate j))"
  by (auto simp: jb_gate_def jb_wf_def Let_def)

lemma jb_gate_go: "snd (jb_gate j) \<Longrightarrow> jb_st (fst (jb_gate j)) \<noteq> JbWaiting"
  by (auto simp: jb_gate_def Let_def split: if_splits)

lemma jb_pop_wf:
  assumes "jb_wf j" and "jb_started j" and "jb_st j \<noteq> JbWaiting"
  shows "jb_wf (fst (jb_pop j))"
  using assms jb_slot_bound [OF assms(1), of "jb_expected j"]
  by (auto simp: jb_pop_def jb_wf_def nth_list_update Let_def starveFreezeThreshold_def)

lemma jb_gate_frame: "jb_slots (fst (jb_gate j)) = jb_slots j \<and> jb_have (fst (jb_gate j)) = jb_have j
    \<and> jb_size (fst (jb_gate j)) = jb_size j \<and> jb_expected (fst (jb_gate j)) = jb_expected j
    \<and> jb_started (fst (jb_gate j)) = jb_started j \<and> jb_ssrc (fst (jb_gate j)) = jb_ssrc j"
  by (simp add: jb_gate_def Let_def)

lemma Release_eq:
  "Release j = (if \<not> jb_started j \<or> \<not> snd (jb_gate j)
     then ((if jb_started j then fst (jb_gate j) else j), Silent, []) else jb_pop (fst (jb_gate j)))"
  by (simp add: Release_def split: prod.splits)

lemma Release_wf [invs]: "jb_wf j \<Longrightarrow> jb_wf (fst (Release j))"
  using jb_gate_wf [of j] jb_gate_go [of j] jb_pop_wf [of "fst (jb_gate j)"] jb_gate_frame [of j]
  by (simp add: Release_eq)

section \<open>Frame ownership\<close>

text \<open>Every frame handed to \<open>Push\<close> is buffered, played or returned to the pool: exactly once.\<close>

definition jb_held :: "'f jitter_buffer \<Rightarrow> 'f multiset" where
  "jb_held j = mset (somes (jb_slots j))"

fun ev_pool :: "'f jb_event \<Rightarrow> 'f option" where
  "ev_pool (PutFrame x) = x"
| "ev_pool _ = None"

definition jb_returned :: "'f jb_event list \<Rightarrow> 'f multiset" where
  "jb_returned ev = mset (somes (map ev_pool ev))"

lemma jb_returned_simps [simp]:
  "jb_returned [] = {#}"
  "jb_returned (a @ b) = jb_returned a + jb_returned b"
  "jb_returned (PutFrame (Some f) # ev) = add_mset f (jb_returned ev)"
  "jb_returned (Late # ev) = jb_returned ev" "jb_returned (Duplicate # ev) = jb_returned ev"
  "jb_returned (SilenceInserted # ev) = jb_returned ev"
  "jb_returned (SSRCChange # ev) = jb_returned ev" "jb_returned (Reanchor # ev) = jb_returned ev"
  "jb_returned (OutOfWindow # ev) = jb_returned ev"
  by (simp_all add: jb_returned_def)

lemma jb_returned_drops [simp]: "jb_returned (jb_drops j) = jb_held j"
proof -
  have "map ev_pool (jb_drops j) = filter (\<lambda>x. x \<noteq> None) (jb_slots j)"
    unfolding jb_drops_def by (simp add: comp_def)
  then show ?thesis by (simp add: jb_returned_def jb_held_def)
qed

lemma jb_held_empty_at [simp]: "jb_held (jb_empty_at seq j) = {#}"
  by (simp add: jb_held_def jb_empty_at_def)

lemma jb_place_owns:
  assumes "jb_wf j"
  shows "jb_held (fst (jb_place seq f j)) + jb_returned (snd (jb_place seq f j))
       = add_mset f (jb_held j)"
  using assms jb_slot_bound [OF assms, of seq]
  by (auto simp: jb_place_def Let_def jb_held_def jb_wf_def mset_somes_put)

lemma jb_place_empty_owns:
  assumes "jb_wf k" and "jb_started k"
  shows "jb_held (fst (jb_place seq f (jb_empty_at s k)))
      + jb_returned (snd (jb_place seq f (jb_empty_at s k))) = {#f#}"
  using jb_place_owns [OF jb_wf_empty_at [OF assms], of seq f s] by simp

lemma Push_owns:
  assumes "jb_wf j"
  shows "jb_held (fst (Push seq ssrc f j)) + jb_returned (snd (Push seq ssrc f j))
       = add_mset f (jb_held j)"
proof (cases "jb_started j")
  case True
  then show ?thesis
    using assms jb_place_owns [OF assms, of seq f] jb_place_empty_owns [of j seq f seq]
      jb_place_empty_owns [of "j\<lparr>jb_ssrc := ssrc\<rparr>" seq f seq]
    by (simp add: Push_eq jb_wf_ssrc)
next
  case False
  then show ?thesis
    using assms jb_place_owns [OF jb_wf_start [where e = seq and x = ssrc], of j seq f]
    by (simp add: Push_eq jb_held_def)
qed

definition out_frames :: "'f jb_out \<Rightarrow> 'f multiset" where
  "out_frames out = (case out of Played (Some f) \<Rightarrow> {#f#} | _ \<Rightarrow> {#})"

lemma jb_pop_owns:
  assumes "jb_wf j"
  shows "jb_held (fst (jb_pop j)) + out_frames (fst (snd (jb_pop j))) = jb_held j
    \<and> jb_returned (snd (snd (jb_pop j))) = {#} \<and> fst (snd (jb_pop j)) \<noteq> Played None"
proof -
  let ?i = "jb_slot j (jb_expected j)"
  have i: "?i < length (jb_slots j)" "jb_have j ! ?i \<longleftrightarrow> jb_slots j ! ?i \<noteq> None"
    using jb_slot_bound [OF assms] jb_wf_size [OF assms] jb_wf_have [OF assms] by auto
  show ?thesis
  proof (cases "jb_slots j ! ?i")
    case None
    with i show ?thesis by (simp add: jb_pop_def Let_def jb_held_def out_frames_def)
  next
    case (Some f)
    with i mset_somes_take [OF i(1) Some] show ?thesis
      by (simp add: jb_pop_def Let_def jb_held_def out_frames_def)
  qed
qed

lemma Release_owns:
  assumes "jb_wf j"
  shows "jb_held (fst (Release j)) + out_frames (fst (snd (Release j))) = jb_held j
    \<and> jb_returned (snd (snd (Release j))) = {#} \<and> fst (snd (Release j)) \<noteq> Played None"
  using jb_pop_owns [OF jb_gate_wf [OF assms]] jb_gate_frame [of j]
  by (auto simp: Release_eq jb_held_def out_frames_def)

end
