(* ===== verification/Jitter_Window.thy ===== *)
theory Jitter_Window
  imports Jitter_Buffer
begin

text \<open>
  What the jitter buffer delivers and when. Frames are tagged with the sequence number they
  were pushed under; the window invariant says where a tagged frame can be. The size of the
  window matters: a slot is picked by \<open>seq mod size\<close>, and sequence numbers wrap at \<open>65536\<close>.
\<close>

section \<open>Sequence numbers and slots\<close>

lemma unat_sub_1:
  assumes "(s :: u16) \<noteq> e"
  shows "unat (s - (e + 1)) = unat (s - e) - 1" and "0 < unat (s - e)"
proof -
  have "s - e \<noteq> 0" using assms by simp
  then show "0 < unat (s - e)" by (simp add: unat_gt_0)
  have "s - (e + 1) = s - e - 1" by (simp add: algebra_simps)
  moreover have "unat (s - e - 1) = unat (s - e) - 1"
    using \<open>s - e \<noteq> 0\<close> by (rule unat_minus_one)
  ultimately show "unat (s - (e + 1)) = unat (s - e) - 1" by (simp only:)
qed

lemma unat_add_off: "unat (s :: u16) = (unat e + unat (s - e)) mod 65536"
  using unat_word_ariths(1) [of e "s - e"] by simp

text \<open>No two numbers of the window share a slot, unless the window straddles the wrap.\<close>

definition slot_safe :: "nat \<Rightarrow> u16 \<Rightarrow> bool" where
  "slot_safe n e \<longleftrightarrow> n dvd 65536 \<or> unat e + n \<le> 65536"

lemma slot_off:
  assumes "slot_safe n e" and "unat (s - e) < n"
  shows "unat s mod n = (unat e + unat (s - e)) mod n"
proof (cases "n dvd 65536")
  case True
  then show ?thesis by (subst unat_add_off [of s e]) (simp add: mod_mod_cancel)
next
  case False
  with assms have "unat e + unat (s - e) < 65536" by (simp add: slot_safe_def)
  then show ?thesis by (subst unat_add_off [of s e]) simp
qed

lemma add_mod_eq_imp: "(a + x) mod n = (a + y) mod n \<Longrightarrow> x < n \<Longrightarrow> y < n \<Longrightarrow> x = (y :: nat)"
proof (induction x y rule: linorder_wlog)
  case (le x y)
  then have "n dvd (a + y) - (a + x)" by (intro mod_eq_dvd_iff_nat [THEN iffD1]) auto
  with le show ?case by (cases "y - x = 0") (auto dest: dvd_imp_le)
qed simp

lemma slot_inj:
  assumes "slot_safe n e" and "unat (s - e) < n" and "unat (t - e) < n"
    and "unat s mod n = unat t mod n"
  shows "s = t"
proof -
  have "unat (s - e) = unat (t - e)"
    using add_mod_eq_imp [of "unat e"] assms slot_off [OF assms(1,2)] slot_off [OF assms(1,3)]
    by metis
  then have "s - e = t - e" by (simp add: word_unat_eq_iff)
  then show ?thesis by simp
qed

lemma slot_inj_expected:
  assumes "slot_safe n e" and "unat (s - e) < n" and "unat s mod n = unat e mod n"
  shows "s = e"
  using assms by (intro slot_inj [OF assms(1,2), of e]) auto

lemma diff_in_window:
  assumes "n < 32768" and "\<not> int16_of_u16 d < 0" and "\<not> int16_of_int (int n) \<le> int16_of_u16 d"
  shows "unat d < n"
  using assms int16_of_u16_less [of n d] by simp

section \<open>The window invariant\<close>

definition jb_window :: "(u16 \<times> 'p) jitter_buffer \<Rightarrow> bool" where
  "jb_window j \<longleftrightarrow> (\<forall>i < jb_size j. \<forall>s p. jb_slots j ! i = Some (s, p) \<longrightarrow>
     i = jb_slot j s \<and> unat (s - jb_expected j) < jb_size j)"

lemma jb_window_empty: "jb_slots j = replicate (jb_size j) None \<Longrightarrow> jb_window j"
  by (simp add: jb_window_def)

lemma jb_window_empty_at: "jb_window (jb_empty_at e j)"
  by (simp add: jb_window_def jb_empty_at_def)

lemma jb_window_place:
  assumes "jb_wf j" and "jb_window j"
  shows "jb_window (fst (jb_place seq (seq, p) j))"
  using assms diff_in_window [of "jb_size j" "seq - jb_expected j"] jb_slot_bound [OF assms(1)]
  by (auto simp: jb_place_def Let_def jb_window_def jb_wf_def nth_list_update jb_slot_def)

lemma Push_window [invs]:
  assumes "jb_wf j" and "jb_window j"
  shows "jb_window (fst (Push seq ssrc (seq, p) j))"
proof (cases "jb_started j")
  case True
  with assms show ?thesis
    by (auto simp: Push_eq jb_wf_ssrc intro!: jb_window_place jb_wf_empty_at jb_window_empty_at)
next
  case False
  with assms have "jb_slots j = replicate (jb_size j) None" by (simp add: jb_wf_def)
  with False assms show ?thesis
    by (simp add: Push_eq jb_window_place jb_wf_start jb_window_empty)
qed

lemma jb_window_advance:
  assumes "jb_window j" and "jb_size k = jb_size j" and "jb_expected k = jb_expected j + 1"
    and "\<And>i s p. i < jb_size j \<Longrightarrow> jb_slots k ! i = Some (s, p) \<Longrightarrow>
      jb_slots j ! i = Some (s, p) \<and> s \<noteq> jb_expected j"
  shows "jb_window k"
  unfolding jb_window_def
proof (intro allI impI)
  fix i s p assume "i < jb_size k" and "jb_slots k ! i = Some (s, p)"
  then have "jb_slots j ! i = Some (s, p)" and "s \<noteq> jb_expected j" and "i < jb_size j"
    using assms by auto
  then have "i = jb_slot j s \<and> unat (s - jb_expected j) < jb_size j"
    using assms(1) by (simp add: jb_window_def)
  moreover have "unat (s - (jb_expected j + 1)) = unat (s - jb_expected j) - 1"
    using \<open>s \<noteq> jb_expected j\<close> by (rule unat_sub_1)
  ultimately show "i = jb_slot k s \<and> unat (s - jb_expected k) < jb_size k"
    using assms(2,3) by (auto simp: jb_slot_def)
qed

lemma jb_window_pop:
  assumes "jb_wf j" and "jb_window j"
  shows "jb_window (fst (jb_pop j))"
proof -
  let ?i = "jb_slot j (jb_expected j)"
  have len: "?i < length (jb_slots j)" "length (jb_slots j) = jb_size j"
    using jb_slot_bound [OF assms(1)] jb_wf_size [OF assms(1)] by auto
  have ne: "i = ?i" if "jb_slots j ! i = Some (jb_expected j, p)" "i < jb_size j" for i p
    using that assms(2) by (auto simp: jb_window_def)
  show ?thesis
  proof (cases "jb_have j ! ?i \<or> jb_st j = JbFrozen")
    case True
    then show ?thesis
      using assms(2) len ne
      by (auto simp: jb_pop_def Let_def nth_list_update
          intro!: jb_window_advance [OF assms(2)] split: if_splits)
  next
    case False
    then have "jb_slots j ! ?i = None" using jb_wf_have [OF assms(1)] len
      by (cases "jb_slots j ! ?i") auto
    with False show ?thesis
      using ne by (auto simp: jb_pop_def Let_def intro!: jb_window_advance [OF assms(2)])
  qed
qed

lemma jb_window_gate: "jb_window (fst (jb_gate j)) = jb_window j"
  using jb_gate_frame [of j] by (simp add: jb_window_def jb_slot_def)

lemma Release_window [invs]:
  assumes "jb_wf j" and "jb_window j"
  shows "jb_window (fst (Release j))"
  using assms jb_window_pop [OF jb_gate_wf, of j] by (simp add: Release_eq jb_window_gate)

section \<open>Delivery in sequence order\<close>

lemma Release_expected:
  assumes "fst (snd (Release j)) = Played (Some f)"
  shows "jb_expected (fst (Release j)) = jb_expected j + 1"
  using assms jb_gate_frame [of j]
  by (auto simp: Release_eq jb_pop_def Let_def split: if_splits)

lemma Release_in_order:
  assumes "jb_wf j" and "jb_window j" and "slot_safe (jb_size j) (jb_expected j)"
    and "fst (snd (Release j)) = Played (Some (s, p))"
  shows "s = jb_expected j"
proof -
  let ?i = "jb_slot j (jb_expected j)"
  have "jb_slots j ! ?i = Some (s, p)"
    using assms(4) jb_gate_frame [of j]
    by (auto simp: Release_eq jb_pop_def Let_def jb_slot_def split: if_splits)
  then have "?i = jb_slot j s \<and> unat (s - jb_expected j) < jb_size j"
    using assms(2) jb_slot_bound [OF assms(1)] by (auto simp: jb_window_def)
  then show ?thesis using slot_inj_expected [OF assms(3), of s] by (simp add: jb_slot_def)
qed

text \<open>A packet is only called a duplicate when its own number is already buffered.\<close>

lemma Duplicate_is_duplicate:
  assumes "jb_wf j" and "jb_window j" and "slot_safe (jb_size j) (jb_expected j)"
    and "Duplicate \<in> set (snd (jb_place seq f j))"
  shows "\<exists>p. jb_slots j ! jb_slot j seq = Some (seq, p)"
proof -
  have w: "unat (seq - jb_expected j) < jb_size j" and h: "jb_have j ! jb_slot j seq"
    using assms(4) diff_in_window [of "jb_size j" "seq - jb_expected j"] jb_wf_size [OF assms(1)]
    by (auto simp: jb_place_def Let_def split: if_splits)
  then obtain s p where s: "jb_slots j ! jb_slot j seq = Some (s, p)"
    using jb_wf_have [OF assms(1) jb_slot_bound [OF assms(1)]] by auto
  then have "jb_slot j seq = jb_slot j s \<and> unat (s - jb_expected j) < jb_size j"
    using assms(2) jb_slot_bound [OF assms(1)] by (auto simp: jb_window_def)
  then have "seq = s" using slot_inj [OF assms(3) w, of s] by (simp add: jb_slot_def)
  with s show ?thesis by auto
qed

section \<open>Priming is bounded, starvation freezes\<close>

fun quiet_ticks :: "nat \<Rightarrow> 'f jitter_buffer \<Rightarrow> 'f jitter_buffer" where
  "quiet_ticks 0 j = j"
| "quiet_ticks (Suc n) j = quiet_ticks n (fst (Release j))"

lemma quiet_ticks_wf: "jb_wf j \<Longrightarrow> jb_wf (quiet_ticks n j)"
  by (induction n arbitrary: j) (simp_all add: Release_wf)

lemma Release_started: "jb_started (fst (Release j)) = jb_started j"
  using jb_gate_frame [of j] by (auto simp: Release_eq jb_pop_def Let_def)

lemma quiet_ticks_started: "jb_started (quiet_ticks n j) = jb_started j"
  by (induction n arbitrary: j) (simp_all add: Release_started)

lemma Release_not_waiting: "jb_st j \<noteq> JbWaiting \<Longrightarrow> jb_st (fst (Release j)) \<noteq> JbWaiting"
  by (auto simp: Release_eq jb_gate_def jb_pop_def Let_def)

lemma quiet_ticks_not_waiting: "jb_st j \<noteq> JbWaiting \<Longrightarrow> jb_st (quiet_ticks n j) \<noteq> JbWaiting"
  by (induction n arbitrary: j) (simp_all add: Release_not_waiting)

lemma Release_primes:
  assumes "jb_wf j" and "jb_started j" and "jb_st j = JbWaiting"
  shows "jb_st (fst (Release j)) \<noteq> JbWaiting
    \<or> jb_primingTicks (fst (Release j)) = jb_primingTicks j + 1
      \<and> jb_maxPrimingTicks (fst (Release j)) = jb_maxPrimingTicks j"
  using assms by (auto simp: Release_def jb_gate_def jb_pop_def Let_def)

lemma priming_ends:
  assumes "jb_wf j" and "jb_started j"
    and "jb_maxPrimingTicks j - jb_primingTicks j \<le> n"
  shows "jb_st (quiet_ticks n j) \<noteq> JbWaiting"
  using assms
proof (induction n arbitrary: j)
  case 0
  then show ?case by (auto simp: jb_wf_def)
next
  case (Suc n)
  show ?case
  proof (cases "jb_st j = JbWaiting \<and> jb_st (fst (Release j)) = JbWaiting")
    case True
    with Suc.prems Release_primes [of j]
    have "jb_maxPrimingTicks (fst (Release j)) - jb_primingTicks (fst (Release j)) \<le> n" by auto
    with Suc.prems show ?thesis by (simp add: Suc.IH Release_wf Release_started)
  next
    case False
    then have "jb_st (fst (Release j)) \<noteq> JbWaiting" using Release_not_waiting [of j] by auto
    then show ?thesis by (simp add: quiet_ticks_not_waiting)
  qed
qed

end
