(* ===== verification/Jitter_Refine.thy ===== *)
theory Jitter_Refine
  imports Jitter_Window
begin

text \<open>
  A reference buffer that keeps the frames in a map keyed by sequence number, with none of
  the slot arithmetic, and the proof that \<open>Push\<close> and \<open>Release\<close> implement it when the window
  size divides \<open>65536\<close>. On the reference the delivery of a lossless stream is computed.
\<close>

section \<open>The reference buffer\<close>

record 'f jb_ref =
  rf_size :: nat
  rf_buf :: "u16 \<rightharpoonup> 'f"
  rf_started :: bool
  rf_st :: jb_state
  rf_misses :: nat
  rf_ticks :: nat
  rf_expected :: u16
  rf_ssrc :: u32

fun jb_sink :: "'f jb_event \<Rightarrow> bool" where
  "jb_sink (PutFrame _) = False"
| "jb_sink _ = True"

definition sink_events :: "'f jb_event list \<Rightarrow> 'f jb_event list" where
  "sink_events ev = filter jb_sink ev"

definition ref_restart :: "u16 \<Rightarrow> 'f jb_ref \<Rightarrow> 'f jb_ref" where
  "ref_restart seq r = r\<lparr>rf_buf := Map.empty, rf_expected := seq, rf_st := JbWaiting,
     rf_misses := 0, rf_ticks := 0\<rparr>"

definition ref_place :: "u16 \<Rightarrow> 'f \<Rightarrow> 'f jb_ref \<Rightarrow> 'f jb_ref \<times> 'f jb_event list" where
  "ref_place seq f r =
     (let diff = int16_of_u16 (seq - rf_expected r) in
      if diff < 0 then (r, [Late])
      else if int (rf_size r) \<le> diff then (r, [OutOfWindow])
      else if rf_buf r seq \<noteq> None then (r, [Duplicate])
      else (r\<lparr>rf_buf := (rf_buf r)(seq \<mapsto> f)\<rparr>, []))"

definition ref_push :: "u16 \<Rightarrow> u32 \<Rightarrow> 'f \<Rightarrow> 'f jb_ref \<Rightarrow> 'f jb_ref \<times> 'f jb_event list" where
  "ref_push seq ssrc f r =
     (let diff = int16_of_u16 (seq - rf_expected r) in
      if \<not> rf_started r then
        ref_place seq f (r\<lparr>rf_started := True, rf_expected := seq, rf_ssrc := ssrc, rf_st := JbWaiting\<rparr>)
      else if ssrc \<noteq> rf_ssrc r then
        apsnd (Cons SSRCChange) (ref_place seq f (ref_restart seq (r\<lparr>rf_ssrc := ssrc\<rparr>)))
      else if rf_st r = JbFrozen \<and> diff < 0 then (r, [Late])
      else if rf_st r = JbFrozen then apsnd (Cons Reanchor) (ref_place seq f (ref_restart seq r))
      else if rf_st r = JbWaiting \<and> int (rf_size r) \<le> diff then
        apsnd (Cons OutOfWindow) (ref_place seq f (ref_restart seq r))
      else ref_place seq f r)"

definition ref_pop :: "'f jb_ref \<Rightarrow> 'f jb_ref \<times> 'f option \<times> 'f jb_event list" where
  "ref_pop r =
     (case rf_buf r (rf_expected r) of
        Some f \<Rightarrow> (r\<lparr>rf_buf := (rf_buf r)(rf_expected r := None),
                     rf_expected := rf_expected r + 1, rf_misses := 0\<rparr>, Some f, [])
      | None \<Rightarrow>
          if rf_st r = JbFrozen then (r, None, [SilenceInserted])
          else (r\<lparr>rf_misses := rf_misses r + 1, rf_expected := rf_expected r + 1,
                  rf_st := (if 3 \<le> rf_misses r + 1 then JbFrozen else rf_st r)\<rparr>,
                None, [SilenceInserted]))"

definition ref_activate :: "'f jb_ref \<Rightarrow> 'f jb_ref" where
  "ref_activate r = r\<lparr>rf_st := JbActive, rf_misses := 0\<rparr>"

definition ref_release :: "'f jb_ref \<Rightarrow> 'f jb_ref \<times> 'f option \<times> 'f jb_event list" where
  "ref_release r =
     (if \<not> rf_started r then (r, None, [])
      else if rf_st r \<noteq> JbWaiting then ref_pop r
      else if rf_size r \<le> card (dom (rf_buf r)) then ref_pop (ref_activate r)
      else if rf_ticks r + 1 < 2 * rf_size r then (r\<lparr>rf_ticks := rf_ticks r + 1\<rparr>, None, [])
      else ref_pop (ref_activate (r\<lparr>rf_ticks := rf_ticks r + 1\<rparr>)))"

section \<open>Abstraction\<close>

definition abs_buf :: "'f jitter_buffer \<Rightarrow> u16 \<rightharpoonup> 'f" where
  "abs_buf j s = (if unat (s - jb_expected j) < jb_size j then jb_slots j ! jb_slot j s else None)"

definition jb_abs :: "'f jitter_buffer \<Rightarrow> 'f jb_ref" where
  "jb_abs j = \<lparr>rf_size = jb_size j, rf_buf = abs_buf j, rf_started = jb_started j,
     rf_st = jb_st j, rf_misses = jb_misses j, rf_ticks = jb_primingTicks j,
     rf_expected = jb_expected j, rf_ssrc = jb_ssrc j\<rparr>"

definition out_opt :: "'f jb_out \<Rightarrow> 'f option" where
  "out_opt out = (case out of Played f \<Rightarrow> f | Silent \<Rightarrow> None)"

lemma abs_buf_empty_at: "abs_buf (jb_empty_at e j) = Map.empty"
  if "jb_wf j" for j :: "'f jitter_buffer"
proof
  fix s show "abs_buf (jb_empty_at e j) s = None"
    using jb_slot_bound [OF that, of s]
    by (simp add: abs_buf_def jb_empty_at_def jb_slot_def)
qed

lemma jb_abs_empty_at: "jb_wf j \<Longrightarrow> jb_abs (jb_empty_at e j) = ref_restart e (jb_abs j)"
  by (simp add: jb_abs_def abs_buf_empty_at ref_restart_def) (simp add: jb_empty_at_def)

lemma jb_abs_ssrc: "jb_abs (j\<lparr>jb_ssrc := x\<rparr>) = (jb_abs j)\<lparr>rf_ssrc := x\<rparr>"
  by (simp add: jb_abs_def abs_buf_def jb_slot_def fun_eq_iff)

lemma abs_buf_put:
  assumes "jb_wf j" and "jb_size j dvd 65536" and "unat (seq - jb_expected j) < jb_size j"
  shows "abs_buf (j\<lparr>jb_slots := (jb_slots j)[jb_slot j seq := Some f], jb_have := h\<rparr>)
       = (abs_buf j)(seq \<mapsto> f)"
proof
  fix s
  have safe: "slot_safe (jb_size j) (jb_expected j)" using assms(2) by (simp add: slot_safe_def)
  have b: "jb_slot j seq < length (jb_slots j)"
    using jb_slot_bound [OF assms(1)] jb_wf_size [OF assms(1)] by auto
  have "jb_slot j s \<noteq> jb_slot j seq" if "s \<noteq> seq" "unat (s - jb_expected j) < jb_size j"
    using that slot_inj [OF safe that(2) assms(3)] by (auto simp: jb_slot_def)
  then show "abs_buf (j\<lparr>jb_slots := (jb_slots j)[jb_slot j seq := Some f], jb_have := h\<rparr>) s
      = ((abs_buf j)(seq \<mapsto> f)) s"
    using b assms(3) by (auto simp: abs_buf_def jb_slot_def)
qed

lemma place_refines:
  assumes "jb_wf j" and "jb_size j dvd 65536"
  shows "jb_abs (fst (jb_place seq f j)) = fst (ref_place seq f (jb_abs j))"
    and "sink_events (snd (jb_place seq f j)) = snd (ref_place seq f (jb_abs j))"
proof -
  let ?d = "int16_of_u16 (seq - jb_expected j)" and ?n = "jb_size j"
  have n: "int16_of_int (int ?n) = int ?n" "?n < 32768" using jb_wf_size [OF assms(1)] by auto
  have *: "jb_abs (fst (jb_place seq f j)) = fst (ref_place seq f (jb_abs j))
    \<and> sink_events (snd (jb_place seq f j)) = snd (ref_place seq f (jb_abs j))"
  proof (cases "?d < 0 \<or> int ?n \<le> ?d")
    case True
    then show ?thesis
      using n by (auto simp: jb_place_def ref_place_def Let_def jb_abs_def sink_events_def)
  next
    case False
    then have w: "unat (seq - jb_expected j) < ?n"
      using n diff_in_window [of ?n "seq - jb_expected j"] by auto
    then have "jb_have j ! jb_slot j seq \<longleftrightarrow> abs_buf j seq \<noteq> None"
      using jb_wf_have [OF assms(1) jb_slot_bound [OF assms(1)]] by (simp add: abs_buf_def)
    with False show ?thesis
      using n abs_buf_put [OF assms w]
      by (auto simp: jb_place_def ref_place_def Let_def jb_abs_def sink_events_def)
  qed
  show "jb_abs (fst (jb_place seq f j)) = fst (ref_place seq f (jb_abs j))"
    and "sink_events (snd (jb_place seq f j)) = snd (ref_place seq f (jb_abs j))"
    using * by auto
qed

lemma sink_events_simps [simp]:
  "sink_events [] = []" "sink_events (a @ b) = sink_events a @ sink_events b"
  "sink_events (jb_drops j) = []"
  "sink_events (e # ev) = (if jb_sink e then e # sink_events ev else sink_events ev)"
  by (auto simp: sink_events_def jb_drops_def)

lemma abs_buf_start:
  assumes "jb_wf j" and "\<not> jb_started j"
  shows "abs_buf (j\<lparr>jb_started := True, jb_expected := e, jb_ssrc := x, jb_st := JbWaiting\<rparr>) = Map.empty"
    and "abs_buf j = Map.empty"
  using assms jb_slot_bound [OF assms(1)]
  by (auto simp: abs_buf_def jb_wf_def jb_slot_def fun_eq_iff)

lemma Push_refines_aux:
  assumes "jb_wf j" and "jb_size j dvd 65536"
  shows "jb_abs (fst (Push seq ssrc f j)) = fst (ref_push seq ssrc f (jb_abs j))
    \<and> sink_events (snd (Push seq ssrc f j)) = snd (ref_push seq ssrc f (jb_abs j))"
proof (cases "jb_started j")
  case False
  let ?k = "j\<lparr>jb_started := True, jb_expected := seq, jb_ssrc := ssrc, jb_st := JbWaiting\<rparr>"
  have "jb_abs ?k = (jb_abs j)\<lparr>rf_started := True, rf_expected := seq, rf_ssrc := ssrc, rf_st := JbWaiting\<rparr>"
    using abs_buf_start [OF assms(1) False] by (simp add: jb_abs_def)
  with False show ?thesis
    using place_refines [OF jb_wf_start [OF assms(1) False, where e = seq and x = ssrc], of seq f] assms
    by (simp add: Push_eq ref_push_def) (simp add: jb_abs_def)
next
  case True
  have n: "int16_of_int (int (jb_size j)) = int (jb_size j)" using jb_wf_size [OF assms(1)] by simp
  have e: "jb_wf (jb_empty_at seq j)" "jb_wf (jb_empty_at seq (j\<lparr>jb_ssrc := ssrc\<rparr>))"
    using jb_wf_empty_at [of j] jb_wf_empty_at [of "j\<lparr>jb_ssrc := ssrc\<rparr>"] assms True
    by (auto simp: jb_wf_ssrc)
  have d: "jb_size (jb_empty_at seq k) = jb_size k" for k :: "'a jitter_buffer"
    by (simp add: jb_empty_at_def)
  have fields: "rf_started (jb_abs j) = jb_started j" "rf_ssrc (jb_abs j) = jb_ssrc j"
    "rf_st (jb_abs j) = jb_st j" "rf_size (jb_abs j) = jb_size j" "rf_expected (jb_abs j) = jb_expected j"
    by (auto simp: jb_abs_def)
  show ?thesis
    using True assms place_refines [OF assms, of seq f]
      place_refines [OF e(1), of seq f] place_refines [OF e(2), of seq f]
    by (simp add: Push_eq ref_push_def Let_def fields n d jb_abs_empty_at jb_wf_ssrc jb_abs_ssrc)
qed


section \<open>Release\<close>

lemma depth_abs:
  assumes "jb_wf j" and "jb_size j dvd 65536"
  shows "depthLocked j = card (dom (abs_buf j))"
proof -
  let ?n = "jb_size j" and ?e = "jb_expected j"
  let ?W = "{s. unat (s - ?e) < ?n}"
  have safe: "slot_safe ?n ?e" using assms(2) by (simp add: slot_safe_def)
  have n: "0 < ?n" "?n < 32768" "length (jb_have j) = ?n" using jb_wf_size [OF assms(1)] by auto
  have inj: "inj_on (jb_slot j) ?W"
    using slot_inj [OF safe] by (auto simp: inj_on_def jb_slot_def)
  have "bij_betw (\<lambda>k. ?e + of_nat k) {..<?n} ?W"
  proof (rule bij_betw_byWitness [where f' = "\<lambda>s. unat (s - ?e)"])
    show "\<forall>k\<in>{..<?n}. unat (?e + of_nat k - ?e) = k"
      using n by (simp add: unat_of_nat)
    show "(\<lambda>k. ?e + of_nat k) ` {..<?n} \<subseteq> ?W" using n by (auto simp: unat_of_nat)
  qed auto
  then have card: "card ?W = ?n" using bij_betw_same_card by fastforce
  have "jb_slot j ` ?W = {..<?n}"
  proof (rule card_subset_eq)
    show "jb_slot j ` ?W \<subseteq> {..<?n}" using n by (auto simp: jb_slot_def)
    show "card (jb_slot j ` ?W) = card {..<?n}" by (simp add: card_image [OF inj] card)
  qed simp
  moreover have "dom (abs_buf j) = {s \<in> ?W. jb_have j ! jb_slot j s}"
    using jb_wf_have [OF assms(1) jb_slot_bound [OF assms(1)]]
    by (auto simp: abs_buf_def split: if_splits)
  moreover have "jb_slot j ` {s \<in> ?W. jb_have j ! jb_slot j s} = {i \<in> jb_slot j ` ?W. jb_have j ! i}"
    by auto
  ultimately have img: "jb_slot j ` dom (abs_buf j) = {i. i < ?n \<and> jb_have j ! i}"
    by (simp only: lessThan_iff)
  have "dom (abs_buf j) \<subseteq> ?W" by (auto simp: abs_buf_def split: if_splits)
  from card_image [OF inj_on_subset [OF inj this]]
  have "card (dom (abs_buf j)) = card {i. i < ?n \<and> jb_have j ! i}" by (simp only: img)
  then show ?thesis
    using n by (simp add: depthLocked_def length_filter_conv_card)
qed

lemma abs_buf_advance:
  assumes "jb_wf j" and "jb_size j dvd 65536"
    and "jb_slots k = (jb_slots j)[jb_slot j (jb_expected j) := None]"
    and "jb_size k = jb_size j" and "jb_expected k = jb_expected j + 1"
  shows "abs_buf k = (abs_buf j)(jb_expected j := None)"
proof
  fix s
  let ?n = "jb_size j" and ?e = "jb_expected j"
  have safe: "slot_safe ?n ?e" using assms(2) by (simp add: slot_safe_def)
  have n: "0 < ?n" "?n < 32768" "length (jb_slots j) = ?n" using jb_wf_size [OF assms(1)] by auto
  have slot: "jb_slot k t = jb_slot j t" for t by (simp add: jb_slot_def assms(4))
  show "abs_buf k s = ((abs_buf j)(?e := None)) s"
  proof (cases "s = ?e")
    case True
    have "unat (?e - (?e + 1)) = 65535" 
      using unsigned_minus_1_eq_mask [where 'b = 16 and 'a = nat] by (simp add: mask_eq_exp_minus_1)
    with True n show ?thesis by (simp add: abs_buf_def assms(4,5))
  next
    case False
    note u = unat_sub_1 [OF False]
    show ?thesis
    proof (cases "unat (s - ?e) < ?n")
      case True
      then have "jb_slot j s \<noteq> jb_slot j ?e"
        using False slot_inj_expected [OF safe True] by (auto simp: jb_slot_def)
      moreover have "unat (s - ?e) - 1 < ?n" using True u by linarith
      ultimately show ?thesis using True False u(1) by (simp add: abs_buf_def assms(3-5) slot)
    next
      case out: False
      show ?thesis
      proof (cases "unat (s - ?e) = ?n")
        case True
        have "unat s mod ?n = unat ?e mod ?n"
          using assms(2) True by (subst unat_add_off [of s ?e]) (simp add: mod_mod_cancel)
        with True False u n show ?thesis by (simp add: abs_buf_def assms(3-5) jb_slot_def)
      next
        case False
        with out \<open>s \<noteq> ?e\<close> u show ?thesis by (auto simp: abs_buf_def assms(4,5))
      qed
    qed
  qed
qed

lemma pop_refines:
  assumes "jb_wf j" and "jb_size j dvd 65536"
  shows "jb_abs (fst (jb_pop j)) = fst (ref_pop (jb_abs j))
    \<and> out_opt (fst (snd (jb_pop j))) = fst (snd (ref_pop (jb_abs j)))
    \<and> snd (snd (jb_pop j)) = snd (snd (ref_pop (jb_abs j)))"
proof -
  let ?e = "jb_expected j" and ?i = "jb_slot j (jb_expected j)"
  have i: "?i < length (jb_slots j)" "0 < jb_size j"
    using jb_slot_bound [OF assms(1)] jb_wf_size [OF assms(1)] by auto
  have h: "jb_have j ! ?i \<longleftrightarrow> jb_slots j ! ?i \<noteq> None" "abs_buf j ?e = jb_slots j ! ?i"
    using jb_wf_have [OF assms(1) jb_slot_bound [OF assms(1)]] i by (auto simp: abs_buf_def)
  show ?thesis
  proof (cases "jb_slots j ! ?i")
    case None
    have "abs_buf k = abs_buf j"
      if "jb_slots k = jb_slots j" "jb_size k = jb_size j" "jb_expected k = ?e + 1" for k
    proof -
      have "jb_slots k = (jb_slots j)[?i := None]" using that(1) None list_update_id [of "jb_slots j" ?i] by metis
      from abs_buf_advance [OF assms this that(2,3)] show ?thesis using h(2) None by (simp add: fun_upd_idem)
    qed
    with None h show ?thesis
      by (auto simp: jb_pop_def ref_pop_def Let_def jb_abs_def out_opt_def starveFreezeThreshold_def)
  next
    case (Some f)
    with h show ?thesis
      by (simp add: jb_pop_def ref_pop_def Let_def jb_abs_def out_opt_def abs_buf_advance [OF assms])
  qed
qed

lemma Release_refines_aux:
  assumes "jb_wf j" and "jb_size j dvd 65536"
  shows "jb_abs (fst (Release j)) = fst (ref_release (jb_abs j))
    \<and> out_opt (fst (snd (Release j))) = fst (snd (ref_release (jb_abs j)))
    \<and> snd (snd (Release j)) = snd (snd (ref_release (jb_abs j)))"
proof (cases "jb_started j")
  case False
  then show ?thesis by (simp add: Release_def ref_release_def jb_abs_def out_opt_def)
next
  case True
  have mp: "jb_maxPrimingTicks j = 2 * jb_size j" using assms(1) by (simp add: jb_wf_def)
  have ab: "abs_buf (k\<lparr>jb_primingTicks := t\<rparr>) = abs_buf k" "abs_buf (k\<lparr>jb_st := st, jb_misses := m\<rparr>) = abs_buf k"
    for k :: "'a jitter_buffer" and t st m
    by (simp_all add: abs_buf_def jb_slot_def fun_eq_iff)
  have gate: "jb_abs (fst (jb_gate j)) =
      (if jb_st j \<noteq> JbWaiting then jb_abs j
       else if jb_size j \<le> depthLocked j then ref_activate (jb_abs j)
       else if jb_primingTicks j + 1 < 2 * jb_size j
         then (jb_abs j)\<lparr>rf_ticks := rf_ticks (jb_abs j) + 1\<rparr>
       else ref_activate ((jb_abs j)\<lparr>rf_ticks := rf_ticks (jb_abs j) + 1\<rparr>))"
    "snd (jb_gate j) \<longleftrightarrow> jb_st j \<noteq> JbWaiting \<or> jb_size j \<le> depthLocked j
       \<or> 2 * jb_size j \<le> jb_primingTicks j + 1"
    by (auto simp: jb_gate_def Let_def mp ref_activate_def jb_abs_def ab)
  have fields: "rf_started (jb_abs j) = jb_started j" "rf_st (jb_abs j) = jb_st j"
    "rf_size (jb_abs j) = jb_size j" "rf_ticks (jb_abs j) = jb_primingTicks j"
    "rf_buf (jb_abs j) = abs_buf j" by (auto simp: jb_abs_def)
  have size: "jb_size (fst (jb_gate j)) dvd 65536" using jb_gate_frame [of j] assms by simp
  note pop = pop_refines [OF jb_gate_wf [OF assms(1) True] size]
  show ?thesis
  proof (cases "snd (jb_gate j)")
    case go: True
    then have "ref_release (jb_abs j) = ref_pop (jb_abs (fst (jb_gate j)))"
      using True by (auto simp: ref_release_def fields gate simp flip: depth_abs [OF assms])
    with go True pop show ?thesis by (simp add: Release_eq)
  next
    case stay: False
    then have "ref_release (jb_abs j) = (jb_abs (fst (jb_gate j)), None, [])"
      using True by (simp add: ref_release_def fields gate flip: depth_abs [OF assms])
    with stay True show ?thesis by (simp add: Release_eq out_opt_def)
  qed
qed

end
