(* ===== verification/Rtp.thy ===== *)
theory Rtp
  imports Vaani_Prelude
begin

text \<open>
  \<open>internal/media/rtp.go\<close>: classification of inbound datagrams, sequence-gap detection,
  construction of the outbound stream and the endpoint locked to its first peer.
  \<open>pion/rtp\<close>'s \<open>Unmarshal\<close> is not under \<open>src/\<close>: it is a parameter of \<open>ParseRTP\<close>.
  A network address is any value; \<open>None\<close> is the zero (not valid) \<open>netip.AddrPort\<close>.
\<close>

section \<open>Packets\<close>

record rtp_packet =
  pk_Version :: nat
  pk_Marker :: bool
  pk_PayloadType :: byte
  pk_SequenceNumber :: u16
  pk_Timestamp :: u32
  pk_SSRC :: u32
  pk_Payload :: "byte list"

definition SampleRate :: nat where "SampleRate = 16000"
definition SamplesPerFrame :: nat where "SamplesPerFrame = SampleRate * 20 div 1000"
definition DefaultPayloadType :: nat where "DefaultPayloadType = 118"
definition FrameSize :: nat where "FrameSize = 640"

definition IsRTCP :: "byte list \<Rightarrow> bool" where
  "IsRTCP buf = (if length buf < 2 then False
     else let pt = buf ! 1 in 200 \<le> pt \<and> pt \<le> 204)"

datatype parse_error = Malformed_Unmarshal string | Malformed_Version nat

definition ParseRTP :: "(byte list \<Rightarrow> string + rtp_packet) \<Rightarrow> byte list \<Rightarrow> parse_error + rtp_packet" where
  "ParseRTP unmarshal buf = (case unmarshal buf of
      Inl e \<Rightarrow> Inl (Malformed_Unmarshal e)
    | Inr pkt \<Rightarrow> if pk_Version pkt \<noteq> 2 then Inl (Malformed_Version (pk_Version pkt)) else Inr pkt)"

lemma ParseRTP_version: "ParseRTP unmarshal buf = Inr pkt \<Longrightarrow> pk_Version pkt = 2"
  by (auto simp: ParseRTP_def split: sum.splits if_splits)

section \<open>SeqTracker\<close>

record seq_tracker =
  st_have :: bool
  st_last :: u16

definition new_seq_tracker :: seq_tracker where
  "new_seq_tracker = \<lparr>st_have = False, st_last = 0\<rparr>"

definition Observe :: "u16 \<Rightarrow> seq_tracker \<Rightarrow> seq_tracker \<times> bool" where
  "Observe seq t =
     (if \<not> st_have t then (t\<lparr>st_have := True, st_last := seq\<rparr>, False)
      else let expected = st_last t + 1 in (t\<lparr>st_last := seq\<rparr>, seq \<noteq> expected))"

fun observe_all :: "u16 list \<Rightarrow> seq_tracker \<Rightarrow> bool list" where
  "observe_all [] t = []"
| "observe_all (s # ss) t = (let (t, gap) = Observe s t in gap # observe_all ss t)"

lemma observe_all_running:
  "st_have t \<Longrightarrow> observe_all ss t = map (\<lambda>(p, s). s \<noteq> p + 1) (zip (st_last t # ss) ss)"
  by (induction ss arbitrary: t) (auto simp: Observe_def Let_def)

section \<open>Sender\<close>

record sender =
  sn_ssrc :: u32
  sn_seq :: u16
  sn_ts :: u32
  sn_pt :: u32
  sn_first :: bool

text \<open>The three random draws of \<open>NewSender\<close> are its arguments.\<close>

definition NewSender :: "u32 \<Rightarrow> u16 \<Rightarrow> u32 \<Rightarrow> sender" where
  "NewSender ssrc seq ts =
     \<lparr>sn_ssrc = ssrc, sn_seq = seq, sn_ts = ts, sn_pt = of_nat DefaultPayloadType, sn_first = True\<rparr>"

definition SetPayloadType :: "byte \<Rightarrow> sender \<Rightarrow> sender" where
  "SetPayloadType pt s = s\<lparr>sn_pt := ucast pt\<rparr>"

definition Build :: "byte list \<Rightarrow> sender \<Rightarrow> sender \<times> rtp_packet" where
  "Build payload s =
     (let marker = sn_first s;
          pkt = \<lparr>pk_Version = 2, pk_Marker = marker, pk_PayloadType = ucast (sn_pt s),
                 pk_SequenceNumber = sn_seq s, pk_Timestamp = sn_ts s, pk_SSRC = sn_ssrc s,
                 pk_Payload = payload\<rparr>
      in (s\<lparr>sn_first := False, sn_seq := sn_seq s + 1,
            sn_ts := sn_ts s + of_nat SamplesPerFrame\<rparr>, pkt))"

text \<open>A run of the sender: payload types learned by the reader between the ticks of the writer.\<close>

datatype sender_op = Learn byte | Tick "byte list"

fun sender_run :: "sender_op list \<Rightarrow> sender \<Rightarrow> sender \<times> rtp_packet list" where
  "sender_run [] s = (s, [])"
| "sender_run (Learn pt # ops) s = sender_run ops (SetPayloadType pt s)"
| "sender_run (Tick pl # ops) s =
     (let (s, pkt) = Build pl s; (s, pkts) = sender_run ops s in (s, pkt # pkts))"

fun ticks :: "sender_op list \<Rightarrow> byte list list" where
  "ticks [] = []"
| "ticks (Learn pt # ops) = ticks ops"
| "ticks (Tick pl # ops) = pl # ticks ops"

lemma SamplesPerFrame_320 [simp]: "SamplesPerFrame = 320"
  by (simp add: SamplesPerFrame_def SampleRate_def)

lemma sender_run_length: "length (snd (sender_run ops s)) = length (ticks ops)"
  by (induction ops s rule: sender_run.induct) (auto simp: Let_def split: prod.splits)

lemma sender_run_nth:
  "k < length (ticks ops) \<Longrightarrow>
   (let pkt = snd (sender_run ops s) ! k in
      pk_Version pkt = 2 \<and> pk_SSRC pkt = sn_ssrc s \<and> pk_Payload pkt = ticks ops ! k
    \<and> pk_SequenceNumber pkt = sn_seq s + of_nat k \<and> pk_Timestamp pkt = sn_ts s + of_nat (320 * k)
    \<and> (pk_Marker pkt \<longleftrightarrow> sn_first s \<and> k = 0))"
proof (induction ops s arbitrary: k rule: sender_run.induct)
  case (2 pt ops s)
  then show ?case by (simp add: SetPayloadType_def Let_def)
next
  case (3 pl ops s)
  obtain s' pkt where b: "Build pl s = (s', pkt)" by (cases "Build pl s")
  obtain s'' pkts where r: "sender_run ops s' = (s'', pkts)" by (cases "sender_run ops s'")
  show ?case
  proof (cases k)
    case 0
    with b r show ?thesis by (auto simp: Build_def Let_def)
  next
    case (Suc k')
    with 3(2) have k': "k' < length (ticks ops)" by simp
    have s': "sn_ssrc s' = sn_ssrc s" "sn_seq s' = sn_seq s + 1" "sn_ts s' = sn_ts s + 320" "\<not> sn_first s'"
      using b by (auto simp: Build_def Let_def)
    have nth: "snd (sender_run (Tick pl # ops) s) ! k = snd (sender_run ops s') ! k'"
      using b r Suc by simp
    have seq: "sn_seq s + of_nat k = sn_seq s' + of_nat k'" using s' Suc by simp
    have ts: "sn_ts s + of_nat (320 * k) = sn_ts s' + of_nat (320 * k')"
      unfolding Suc mult_Suc_right of_nat_add s' by simp
    have pl: "ticks (Tick pl # ops) ! k = ticks ops ! k'" using Suc by simp
    show ?thesis
      unfolding nth seq ts pl using 3(1) [OF b [symmetric] refl k'] s' Suc by (simp only: Let_def) simp
  qed
qed simp

section \<open>Endpoint\<close>

record 'a endpoint =
  ep_remote :: "'a option"

definition NewEndpoint :: "'a endpoint" where
  "NewEndpoint = \<lparr>ep_remote = None\<rparr>"

definition LockRemote :: "'a option \<Rightarrow> 'a endpoint \<Rightarrow> 'a endpoint \<times> bool" where
  "LockRemote addr e = (if ep_remote e = None then (e\<lparr>ep_remote := addr\<rparr>, True) else (e, False))"

definition Remote :: "'a endpoint \<Rightarrow> 'a option" where
  "Remote e = ep_remote e"

text \<open>What the kernel answers a datagram with.\<close>

datatype udp_result = UdpOk | UdpRefused | UdpError string

text \<open>\<open>WriteTo\<close> also returns the datagrams handed to the kernel.\<close>

definition WriteTo :: "(byte list \<Rightarrow> 'a \<Rightarrow> udp_result) \<Rightarrow> byte list \<Rightarrow> 'a endpoint
    \<Rightarrow> (string + bool) \<times> ('a \<times> byte list) list" where
  "WriteTo udp b e = (case Remote e of
      None \<Rightarrow> (Inr False, [])
    | Some remote \<Rightarrow> (case udp b remote of
          UdpRefused \<Rightarrow> (Inr False, [(remote, b)])
        | UdpError err \<Rightarrow> (Inl err, [(remote, b)])
        | UdpOk \<Rightarrow> (Inr True, [(remote, b)])))"

fun lock_all :: "'a list \<Rightarrow> 'a endpoint \<Rightarrow> 'a endpoint \<times> bool list" where
  "lock_all [] e = (e, [])"
| "lock_all (a # as) e =
     (let (e, b) = LockRemote (Some a) e; (e, bs) = lock_all as e in (e, b # bs))"

lemma lock_all_locked: "Remote e = Some r \<Longrightarrow> lock_all as e = (e, replicate (length as) False)"
  by (induction as) (auto simp: LockRemote_def Remote_def)

section \<open>Properties\<close>

text \<open>The outbound stream: whatever payload types are learned in between, the \<open>k\<close>-th packet
  built carries sequence number \<open>seq + k\<close> and timestamp \<open>ts + 320 k\<close> (both wrapping), one SSRC,
  its own payload, and the marker only when it is the first.\<close>

theorem sender_stream:
  assumes "k < length (ticks ops)"
  shows "length (snd (sender_run ops (NewSender ssrc seq ts))) = length (ticks ops)
    \<and> (let pkt = snd (sender_run ops (NewSender ssrc seq ts)) ! k in
        pk_Version pkt = 2 \<and> pk_SSRC pkt = ssrc \<and> pk_Payload pkt = ticks ops ! k
      \<and> pk_SequenceNumber pkt = seq + of_nat k \<and> pk_Timestamp pkt = ts + of_nat (320 * k)
      \<and> (pk_Marker pkt \<longleftrightarrow> k = 0))"
  using sender_run_nth [OF assms, of "NewSender ssrc seq ts"]
  by (simp add: sender_run_length NewSender_def)

theorem sender_stream_witness:
  "pk_SequenceNumber (snd (sender_run [Learn 10, Tick [1], Tick [2]] (NewSender 5 65535 7)) ! 1) = 0
   \<and> pk_Timestamp (snd (sender_run [Learn 10, Tick [1], Tick [2]] (NewSender 5 65535 7)) ! 1) = 327"
  using sender_stream [of 1 "[Learn 10, Tick [1], Tick [2]]" 5 65535 7] by (simp add: Let_def)

text \<open>Gap detection: a packet after the first is reported as a gap exactly when its number is
  not the successor (modulo 65536) of the number before it.\<close>

theorem gaps_exact:
  "observe_all (s # ss) new_seq_tracker = False # map (\<lambda>(p, n). n \<noteq> p + 1) (zip (s # ss) ss)"
  by (simp add: Observe_def new_seq_tracker_def observe_all_running)

text \<open>The endpoint: among any arriving addresses the first is locked for good, its lock is
  reported once, and from then on every datagram written goes to it and to nobody else.\<close>

theorem remote_locked_to_first:
  "Remote (fst (lock_all (a # as) NewEndpoint)) = Some a
   \<and> snd (lock_all (a # as) NewEndpoint) = True # replicate (length as) False
   \<and> map fst (snd (WriteTo udp b (fst (lock_all (a # as) NewEndpoint)))) = [a]
   \<and> (fst (WriteTo udp b (fst (lock_all (a # as) NewEndpoint))) = Inr True \<longleftrightarrow> udp b a = UdpOk)
   \<and> WriteTo udp b NewEndpoint = (Inr False, [])"
proof -
  let ?e = "\<lparr>ep_remote = Some a\<rparr>"
  have l: "LockRemote (Some a) NewEndpoint = (?e, True)" "Remote ?e = Some a"
    and n: "Remote (NewEndpoint :: 'a endpoint) = None"
    by (simp_all add: LockRemote_def NewEndpoint_def Remote_def)
  show ?thesis
    using l n lock_all_locked [OF l(2), of as]
    by (simp add: Let_def WriteTo_def split: udp_result.split)
qed

end
