(* ===== verification/Pcm.thy ===== *)
theory Pcm
  imports Rtp
begin

text \<open>
  16-bit PCM buffers as byte lists: \<open>internal/media/byteorder.go\<close> (wire byte order),
  \<open>mixrecorder.go\<close> (\<open>mixInto\<close>) and \<open>wav.go\<close> (the WAV header).
\<close>

section \<open>Little-endian integers\<close>

text \<open>\<open>binary.LittleEndian\<close> and \<open>binary.BigEndian\<close> on 16- and 32-bit values.\<close>

definition get16 :: "byte \<Rightarrow> byte \<Rightarrow> u16" where
  "get16 b0 b1 = ucast b0 OR push_bit 8 (ucast b1)"

definition put16 :: "u16 \<Rightarrow> byte list" where
  "put16 w = [ucast w, ucast (drop_bit 8 w)]"

definition put16_be :: "u16 \<Rightarrow> byte list" where
  "put16_be w = [ucast (drop_bit 8 w), ucast w]"

definition put32 :: "u32 \<Rightarrow> byte list" where
  "put32 w = [ucast w, ucast (drop_bit 8 w), ucast (drop_bit 16 w), ucast (drop_bit 24 w)]"

definition get32 :: "byte \<Rightarrow> byte \<Rightarrow> byte \<Rightarrow> byte \<Rightarrow> u32" where
  "get32 b0 b1 b2 b3 = ucast b0 OR push_bit 8 (ucast b1) OR push_bit 16 (ucast b2) OR push_bit 24 (ucast b3)"

lemma get16_put16 [simp]: "get16 (ucast w) (ucast (drop_bit 8 w)) = w"
  by (rule bit_word_eqI) (auto simp: get16_def bit_simps)

lemma put16_get16 [simp]: "put16 (get16 b0 b1) = [b0, b1]"
proof -
  have "ucast (get16 b0 b1) = b0" by (rule bit_word_eqI) (auto simp: get16_def bit_simps)
  moreover have "ucast (drop_bit 8 (get16 b0 b1)) = b1"
    by (rule bit_word_eqI) (auto simp: get16_def bit_simps dest: bit_imp_le_length)
  ultimately show ?thesis by (simp add: put16_def)
qed

lemma get32_put32 [simp]:
  "get32 (ucast w) (ucast (drop_bit 8 w)) (ucast (drop_bit 16 w)) (ucast (drop_bit 24 w)) = w"
proof (rule bit_word_eqI)
  fix n assume n: "n < LENGTH(32)"
  consider "n < 8" | "8 \<le> n" "n < 16" | "16 \<le> n" "n < 24" | "24 \<le> n" by linarith
  then show "bit (get32 (ucast w) (ucast (drop_bit 8 w)) (ucast (drop_bit 16 w)) (ucast (drop_bit 24 w))) n
      = bit w n"
    using n by cases (auto simp: get32_def bit_simps)
qed

section \<open>Byte order\<close>

datatype endianness = LittleEndian | BigEndian

text \<open>The loop over \<open>i = 0, 2, ..\<close> of \<open>NormalizeToLE\<close> and \<open>FromLE\<close>: a trailing odd byte stays.\<close>

fun swap_pairs :: "byte list \<Rightarrow> byte list" where
  "swap_pairs (a # b # bs) = b # a # swap_pairs bs"
| "swap_pairs bs = bs"

definition NormalizeToLE :: "byte list \<Rightarrow> endianness \<Rightarrow> byte list" where
  "NormalizeToLE pcm from = (if from = LittleEndian then pcm else swap_pairs pcm)"

definition FromLE :: "byte list \<Rightarrow> endianness \<Rightarrow> byte list" where
  "FromLE pcm to = (if to = LittleEndian then pcm else swap_pairs pcm)"

lemma swap_pairs_swap [simp]: "swap_pairs (swap_pairs bs) = bs"
  by (induction bs rule: swap_pairs.induct) auto

lemma length_swap_pairs [simp]: "length (swap_pairs bs) = length bs"
  by (induction bs rule: swap_pairs.induct) auto

lemma length_NormalizeToLE [simp]: "length (NormalizeToLE pcm e) = length pcm"
  by (simp add: NormalizeToLE_def)

lemma length_FromLE [simp]: "length (FromLE pcm e) = length pcm"
  by (simp add: FromLE_def)

text \<open>The samples of a buffer, as signed integers; a trailing odd byte is not a sample.\<close>

fun samples :: "byte list \<Rightarrow> int list" where
  "samples (a # b # bs) = int16_of_u16 (get16 a b) # samples bs"
| "samples bs = []"

fun samples_be :: "byte list \<Rightarrow> int list" where
  "samples_be (a # b # bs) = int16_of_u16 (get16 b a) # samples_be bs"
| "samples_be bs = []"

lemma samples_swap: "samples (swap_pairs bs) = samples_be bs"
  by (induction bs rule: swap_pairs.induct) auto

lemma length_samples: "length (samples bs) = length bs div 2"
  by (induction bs rule: samples.induct) auto

section \<open>Mixing\<close>

text \<open>\<open>max(MinInt16, min(MaxInt16, s))\<close>.\<close>

definition clip16 :: "int \<Rightarrow> int" where
  "clip16 s = max (- 32768) (min 32767 s)"

text \<open>The sum of two \<open>int16\<close> values fits the \<open>int32\<close> of the code, so it is an integer here;
  the last conversion \<open>uint16(int16(s))\<close> keeps the low 16 bits.\<close>

fun mixInto :: "byte list \<Rightarrow> byte list \<Rightarrow> byte list" where
  "mixInto (d0 # d1 # ds) (s0 # s1 # ss) =
     (let s = int16_of_u16 (get16 d0 d1) + int16_of_u16 (get16 s0 s1)
      in put16 (word_of_int (clip16 s)) @ mixInto ds ss)"
| "mixInto ds ss = ds"

lemma length_mixInto [simp]: "length (mixInto ds ss) = length ds"
  by (induction ds ss rule: mixInto.induct) (auto simp: Let_def put16_def)

lemma int16_of_u16_word_of_int:
  assumes "- 32768 \<le> s" and "s < 32768"
  shows "int16_of_u16 (word_of_int s) = s"
proof -
  have "(s mod 65536 + 32768) mod 65536 - 32768 = (s + 32768) mod 65536 - 32768"
    by (simp add: mod_add_left_eq)
  also have "\<dots> = s" using assms by simp
  finally show ?thesis unfolding int16_of_u16_def sint16_shift
    by (simp add: uint_word_of_int)
qed

lemma clip16_range: "- 32768 \<le> clip16 s \<and> clip16 s < 32768"
  by (simp add: clip16_def)

lemma int16_range: "- 32768 \<le> int16_of_u16 w \<and> int16_of_u16 w < 32768"
  using int16_of_u16_unat [OF refl, of w] by (simp del: of_nat_unat split: if_splits)

lemma samples_put16 [simp]: "samples (put16 w @ bs) = int16_of_u16 w # samples bs"
  by (simp add: put16_def)

lemma samples_mixInto:
  "samples (mixInto ds ss) =
     map (\<lambda>(d, s). clip16 (d + s)) (zip (samples ds) (samples ss)) @ drop (length (samples ss)) (samples ds)"
proof (induction ds ss rule: mixInto.induct)
  case (1 d0 d1 ds s0 s1 ss)
  then show ?case
    by (simp add: Let_def int16_of_u16_word_of_int clip16_range)
qed simp_all

section \<open>The WAV header\<close>

definition bytes_of :: "string \<Rightarrow> byte list" where
  "bytes_of s = map of_char s"

definition wavBitsPerSample :: nat where "wavBitsPerSample = 16"
definition wavNumChannels :: nat where "wavNumChannels = 1"
definition wavHeaderSize :: nat where "wavHeaderSize = 44"

definition wav_header :: "nat \<Rightarrow> byte list" where
  "wav_header dataBytes =
     (let byteRate = SampleRate * wavNumChannels * wavBitsPerSample div 8;
          blockAlign = wavNumChannels * wavBitsPerSample div 8;
          riffSize = wavHeaderSize - 8 + dataBytes
      in bytes_of ''RIFF'' @ put32 (of_nat riffSize) @ bytes_of ''WAVE'' @ bytes_of ''fmt ''
         @ put32 16 @ put16 1 @ put16 (of_nat wavNumChannels) @ put32 (of_nat SampleRate)
         @ put32 (of_nat byteRate) @ put16 (of_nat blockAlign) @ put16 (of_nat wavBitsPerSample)
         @ bytes_of ''data'' @ put32 (of_nat dataBytes))"

text \<open>What a reader of a WAV file takes from it: the two sizes, the rate and the samples.\<close>

definition u32_at :: "byte list \<Rightarrow> nat \<Rightarrow> u32" where
  "u32_at f i = get32 (f ! i) (f ! (i + 1)) (f ! (i + 2)) (f ! (i + 3))"

definition wav_read :: "byte list \<Rightarrow> nat \<times> nat \<times> byte list" where
  "wav_read f = (unat (u32_at f 4), unat (u32_at f 24), take (unat (u32_at f 40)) (drop 44 f))"

lemma length_wav_header [simp]: "length (wav_header n) = 44"
  by (simp add: wav_header_def Let_def bytes_of_def put16_def put32_def)

lemma wav_header_sizes:
  "u32_at (wav_header n @ pcm) 4 = of_nat (36 + n)"
  "u32_at (wav_header n @ pcm) 24 = 16000"
  "u32_at (wav_header n @ pcm) 40 = of_nat n"
  by (simp_all add: u32_at_def wav_header_def Let_def bytes_of_def put16_def put32_def
      wavHeaderSize_def SampleRate_def nth_append nth_Cons' del: of_nat_add of_nat_numeral)
    simp

end
