(* ===== verification/Audio_Socket.thy ===== *)
theory Audio_Socket
  imports Pcm
begin

text \<open>
  The two framed wires of a call: Asterisk's AudioSocket frames over TCP
  (\<open>internal/media/audiosocket.go\<close>, \<open>audioSocketWire\<close> of \<open>audiosocket_call.go\<close>) and
  FreeSWITCH's mod_earshot WebSocket (\<open>internal/media/earshot.go\<close>), both read as 640-byte frames.
  An inbound TCP stream is the list of the bytes the far end sends before it closes; an inbound
  WebSocket message is the list of chunks its reader returns.
\<close>

section \<open>Reading exactly n bytes\<close>

datatype io_error = EOF | UnexpectedEOF

definition ReadFull :: "nat \<Rightarrow> byte list \<Rightarrow> io_error + (byte list \<times> byte list)" where
  "ReadFull n r = (if n \<le> length r then Inr (take n r, drop n r)
     else if r = [] then Inl EOF else Inl UnexpectedEOF)"

section \<open>AudioSocket frames\<close>

definition AudioSocketKindHangup :: byte where "AudioSocketKindHangup = 0x00"
definition AudioSocketKindSlin16 :: byte where "AudioSocketKindSlin16 = 0x12"

definition audioSocketHeaderSize :: nat where "audioSocketHeaderSize = 3"
definition audioSocketMaxPayload :: nat where "audioSocketMaxPayload = 65535"

record as_frame =
  fr_Kind :: byte
  fr_Payload :: "byte list"

definition ReadAudioSocketFrame :: "byte list \<Rightarrow> io_error + (as_frame \<times> byte list)" where
  "ReadAudioSocketFrame r = (case ReadFull audioSocketHeaderSize r of
      Inl e \<Rightarrow> Inl e
    | Inr (header, r) \<Rightarrow>
        let kind = header ! 0; len = unat (get16 (header ! 2) (header ! 1)) in
        if len > 0 then (case ReadFull len r of
            Inl e \<Rightarrow> Inl e
          | Inr (payload, r) \<Rightarrow> Inr (\<lparr>fr_Kind = kind, fr_Payload = payload\<rparr>, r))
        else Inr (\<lparr>fr_Kind = kind, fr_Payload = []\<rparr>, r))"

text \<open>\<open>writeAudioSocketFrameInto\<close> builds the frame in a buffer of capacity \<open>cap\<close>; slicing beyond
  the capacity panics. The result is what the single \<open>Write\<close> is given.\<close>

datatype frame_error = FrameTooLarge nat | SlicePanic

definition writeAudioSocketFrameInto :: "nat \<Rightarrow> byte \<Rightarrow> byte list \<Rightarrow> frame_error + byte list" where
  "writeAudioSocketFrameInto cap kind payload =
     (if length payload > audioSocketMaxPayload then Inl (FrameTooLarge (length payload))
      else if audioSocketHeaderSize + length payload > cap then Inl SlicePanic
      else Inr ([kind] @ put16_be (of_nat (length payload)) @ payload))"

definition WriteAudioSocketFrame :: "byte \<Rightarrow> byte list \<Rightarrow> frame_error + byte list" where
  "WriteAudioSocketFrame kind payload =
     (if length payload > audioSocketMaxPayload then Inl (FrameTooLarge (length payload))
      else writeAudioSocketFrameInto (audioSocketHeaderSize + length payload) kind payload)"

lemma WriteAudioSocketFrame_eq:
  "WriteAudioSocketFrame kind payload =
     (if length payload > 65535 then Inl (FrameTooLarge (length payload))
      else Inr (kind # put16_be (of_nat (length payload)) @ payload))"
  by (simp add: WriteAudioSocketFrame_def writeAudioSocketFrameInto_def audioSocketMaxPayload_def)

lemma unat_of_length: "length payload \<le> 65535 \<Longrightarrow> unat (of_nat (length payload) :: u16) = length payload"
  by (simp add: unat_of_nat)

lemma header_len:
  assumes "length payload \<le> 65535"
  shows "unat (get16 (ucast (of_nat (length payload) :: u16))
           (ucast (drop_bit 8 (of_nat (length payload) :: u16)))) = length payload"
  using unat_of_length [OF assms] get16_put16 [of "of_nat (length payload)"] by metis

lemma read_written:
  assumes "WriteAudioSocketFrame kind payload = Inr bytes"
  shows "ReadAudioSocketFrame (bytes @ rest) = Inr (\<lparr>fr_Kind = kind, fr_Payload = payload\<rparr>, rest)"
proof -
  have len: "length payload \<le> 65535" and b: "bytes = kind # put16_be (of_nat (length payload)) @ payload"
    using assms by (auto simp: WriteAudioSocketFrame_eq split: if_splits)
  show ?thesis
    using header_len [OF len]
    by (auto simp: b ReadAudioSocketFrame_def ReadFull_def audioSocketHeaderSize_def put16_be_def Let_def)
qed

lemma read_truncated:
  assumes "WriteAudioSocketFrame kind payload = Inr bytes" and "k < length bytes"
  shows "\<exists>e. ReadAudioSocketFrame (take k bytes) = Inl e"
proof -
  have len: "length payload \<le> 65535" and b: "bytes = kind # put16_be (of_nat (length payload)) @ payload"
    using assms by (auto simp: WriteAudioSocketFrame_eq split: if_splits)
  have l: "length bytes = length payload + 3" by (simp add: b put16_be_def)
  show ?thesis
  proof (cases "k < 3")
    case True
    then show ?thesis
      using l by (simp add: ReadAudioSocketFrame_def ReadFull_def audioSocketHeaderSize_def)
  next
    case False
    then obtain m where k: "k = m + 3" by (metis add.commute le_add_diff_inverse not_less)
    have "take k bytes = kind # put16_be (of_nat (length payload)) @ take m payload"
      by (simp add: b k put16_be_def numeral_3_eq_3)
    then show ?thesis
      using header_len [OF len] assms(2) l k
      by (auto simp: ReadAudioSocketFrame_def ReadFull_def audioSocketHeaderSize_def put16_be_def Let_def)
  qed
qed

lemma ReadAudioSocketFrame_shorter: "ReadAudioSocketFrame r = Inr (f, r') \<Longrightarrow> length r' < length r"
  by (auto simp: ReadAudioSocketFrame_def ReadFull_def audioSocketHeaderSize_def Let_def
      split: if_splits)

text \<open>A whole connection: the frames read until the first error.\<close>

function read_all :: "byte list \<Rightarrow> as_frame list \<times> io_error" where
  "read_all r = (case ReadAudioSocketFrame r of
      Inl e \<Rightarrow> ([], e)
    | Inr (f, r') \<Rightarrow> let (fs, e) = read_all r' in (f # fs, e))"
  by pat_completeness auto
termination
  by (relation "measure length") (auto dest: ReadAudioSocketFrame_shorter)

declare read_all.simps [simp del]

definition encode_frame :: "as_frame \<Rightarrow> byte list" where
  "encode_frame f = (case WriteAudioSocketFrame (fr_Kind f) (fr_Payload f) of Inr b \<Rightarrow> b | Inl e \<Rightarrow> [])"

lemma encode_frame_Inr:
  "length (fr_Payload f) \<le> 65535 \<Longrightarrow> WriteAudioSocketFrame (fr_Kind f) (fr_Payload f) = Inr (encode_frame f)"
  by (simp add: encode_frame_def WriteAudioSocketFrame_eq)

lemma read_all_written:
  "\<forall>f\<in>set fs. length (fr_Payload f) \<le> 65535 \<Longrightarrow>
   read_all (concat (map encode_frame fs) @ rest) = (let (fs', e) = read_all rest in (fs @ fs', e))"
proof (induction fs)
  case (Cons f fs)
  then have "ReadAudioSocketFrame (encode_frame f @ concat (map encode_frame fs) @ rest)
      = Inr (f, concat (map encode_frame fs) @ rest)"
    using read_written [OF encode_frame_Inr] by simp
  with Cons show ?case by (subst read_all.simps) (simp add: Let_def split: prod.split)
qed simp

section \<open>audioSocketWire.ReadFrame and WriteFrame\<close>

text \<open>\<open>Inr None\<close> is the \<open>nil, nil\<close> of the code: not audio, skip. The flag is \<open>sink.Malformed()\<close>.\<close>

definition wire_ReadFrame :: "byte list \<Rightarrow> (io_error + (byte list option \<times> byte list)) \<times> bool" where
  "wire_ReadFrame r = (case ReadAudioSocketFrame r of
      Inl e \<Rightarrow> (Inl e, False)
    | Inr (frame, r) \<Rightarrow>
        if fr_Kind frame = AudioSocketKindHangup then (Inl EOF, False)
        else if fr_Kind frame = AudioSocketKindSlin16 then
          if length (fr_Payload frame) \<noteq> FrameSize then (Inr (None, r), True)
          else (Inr (Some (fr_Payload frame), r), False)
        else (Inr (None, r), False))"

definition wire_WriteFrame :: "byte list \<Rightarrow> frame_error + byte list" where
  "wire_WriteFrame pcm =
     writeAudioSocketFrameInto (audioSocketHeaderSize + FrameSize) AudioSocketKindSlin16 pcm"

lemma wire_roundtrip:
  assumes "length pcm = FrameSize"
  obtains bytes where "wire_WriteFrame pcm = Inr bytes"
    and "\<And>rest. wire_ReadFrame (bytes @ rest) = (Inr (Some pcm, rest), False)"
proof -
  have w: "wire_WriteFrame pcm = WriteAudioSocketFrame AudioSocketKindSlin16 pcm"
    using assms by (simp add: wire_WriteFrame_def WriteAudioSocketFrame_def FrameSize_def
        audioSocketMaxPayload_def)
  moreover obtain bytes where b: "WriteAudioSocketFrame AudioSocketKindSlin16 pcm = Inr bytes"
    using assms by (simp add: WriteAudioSocketFrame_eq FrameSize_def)
  ultimately show ?thesis
    using that [of bytes] read_written [OF b] assms
    by (simp add: wire_ReadFrame_def AudioSocketKindHangup_def AudioSocketKindSlin16_def)
qed

section \<open>Earshot\<close>

datatype ws_message = WsBinary "byte list list" | WsText

record earshot_stats =
  es_Messages :: nat
  es_Bytes :: nat
  es_OddMessages :: nat
  es_TextMessages :: nat

record earshot =
  ea_r :: "byte list list option"
  ea_n :: nat
  ea_stats :: earshot_stats
  ea_in :: "ws_message list"

definition endMessage :: "earshot \<Rightarrow> earshot" where
  "endMessage w = w\<lparr>ea_stats := (ea_stats w)\<lparr>
       es_Messages := es_Messages (ea_stats w) + 1,
       es_Bytes := es_Bytes (ea_stats w) + ea_n w,
       es_OddMessages := es_OddMessages (ea_stats w) + (if ea_n w \<noteq> FrameSize then 1 else 0)\<rparr>,
     ea_r := None\<rparr>"

definition ea_text :: "earshot \<Rightarrow> earshot" where
  "ea_text w = w\<lparr>ea_stats := (ea_stats w)\<lparr>es_TextMessages := es_TextMessages (ea_stats w) + 1\<rparr>\<rparr>"

text \<open>One pass of the loop of \<open>ReadFrame\<close> with the bytes filled so far; the reader returns at most
  the room left in the frame. \<open>None\<close>: the connection has nothing more (its read error).\<close>

definition ea_step :: "byte list \<Rightarrow> earshot \<Rightarrow> (byte list \<times> earshot) option" where
  "ea_step filled w = (case ea_r w of
      None \<Rightarrow> (case ea_in w of
          [] \<Rightarrow> None
        | WsText # ms \<Rightarrow> Some (filled, ea_text (w\<lparr>ea_in := ms\<rparr>))
        | WsBinary cs # ms \<Rightarrow> Some (filled, w\<lparr>ea_r := Some cs, ea_n := 0, ea_in := ms\<rparr>))
    | Some [] \<Rightarrow> Some (filled, endMessage w)
    | Some (c # cs) \<Rightarrow>
        let n = min (FrameSize - length filled) (length c)
        in Some (filled @ take n c,
             w\<lparr>ea_r := Some (if n = length c then cs else drop n c # cs), ea_n := ea_n w + n\<rparr>))"

fun chunks_weight :: "byte list list \<Rightarrow> nat" where
  "chunks_weight [] = 1"
| "chunks_weight (c # cs) = length c + 1 + chunks_weight cs"

fun msgs_weight :: "ws_message list \<Rightarrow> nat" where
  "msgs_weight [] = 0"
| "msgs_weight (WsText # ms) = 1 + msgs_weight ms"
| "msgs_weight (WsBinary cs # ms) = chunks_weight cs + 1 + msgs_weight ms"

definition ea_weight :: "earshot \<Rightarrow> nat" where
  "ea_weight w = (case ea_r w of None \<Rightarrow> 0 | Some cs \<Rightarrow> chunks_weight cs) + msgs_weight (ea_in w)"

lemma chunks_weight_pos [simp]: "0 < chunks_weight cs"
  by (cases cs) auto

lemma weight_drops: "f < s \<Longrightarrow> x + f + chunks_weight cs - s < x + chunks_weight cs"
  using chunks_weight_pos [of cs] by arith

lemma ea_step_weight:
  "ea_step filled w = Some (filled', w') \<Longrightarrow> length filled < FrameSize \<Longrightarrow> ea_weight w' < ea_weight w"
  by (auto simp: ea_step_def ea_weight_def endMessage_def ea_text_def Let_def weight_drops
      split: option.splits list.splits ws_message.splits)

function ea_loop :: "byte list \<Rightarrow> earshot \<Rightarrow> byte list option \<times> earshot" where
  "ea_loop filled w =
     (if length filled < FrameSize then (case ea_step filled w of
          None \<Rightarrow> (None, w)
        | Some (filled, w) \<Rightarrow> ea_loop filled w)
      else (Some filled, w))"
  by pat_completeness auto
termination
  by (relation "measure (\<lambda>(filled, w). ea_weight w)") (auto simp: ea_step_weight)

declare ea_loop.simps [simp del]

definition ea_ReadFrame :: "earshot \<Rightarrow> byte list option \<times> earshot" where
  "ea_ReadFrame w = ea_loop [] w"

text \<open>The audio the connection still has to deliver: the binary messages, joined.\<close>

fun msgs_audio :: "ws_message list \<Rightarrow> byte list" where
  "msgs_audio [] = []"
| "msgs_audio (WsText # ms) = msgs_audio ms"
| "msgs_audio (WsBinary cs # ms) = concat cs @ msgs_audio ms"

definition ea_audio :: "earshot \<Rightarrow> byte list" where
  "ea_audio w = (case ea_r w of None \<Rightarrow> [] | Some cs \<Rightarrow> concat cs) @ msgs_audio (ea_in w)"

lemma ea_step_audio:
  "ea_step filled w = Some (filled', w') \<Longrightarrow> length filled \<le> FrameSize \<Longrightarrow>
   filled' @ ea_audio w' = filled @ ea_audio w \<and> length filled' \<le> FrameSize"
  by (auto simp: ea_step_def ea_audio_def endMessage_def ea_text_def Let_def
      split: option.splits list.splits ws_message.splits if_splits)

lemma ea_step_None: "ea_step filled w = None \<Longrightarrow> ea_audio w = []"
  by (auto simp: ea_step_def ea_audio_def Let_def split: option.splits list.splits ws_message.splits)

lemma ea_loop_spec:
  "length filled \<le> FrameSize \<Longrightarrow> ea_loop filled w = (res, w') \<Longrightarrow>
   (case res of
      Some f \<Rightarrow> length f = FrameSize \<and> filled @ ea_audio w = f @ ea_audio w'
    | None \<Rightarrow> length (filled @ ea_audio w) < FrameSize)"
proof (induction filled w arbitrary: res w' rule: ea_loop.induct)
  case (1 filled w)
  show ?case
  proof (cases "length filled < FrameSize")
    case True
    show ?thesis
    proof (cases "ea_step filled w")
      case None
      with True 1(3) have "res = None" by (simp add: ea_loop.simps)
      then show ?thesis using ea_step_None [OF None] True by simp
    next
      case (Some s)
      obtain fl v where s: "s = (fl, v)" by (cases s)
      have "ea_loop fl v = (res, w')" using 1(3) True Some s by (subst (asm) ea_loop.simps) simp
      moreover note ea_step_audio [OF Some [unfolded s] 1(2)]
      ultimately show ?thesis
        using 1(1) [OF True Some s [symmetric], of res w'] by (cases res) auto
    qed
  next
    case False
    with 1(2,3) have "res = Some filled" "w' = w" by (auto simp: ea_loop.simps)
    then show ?thesis using False 1(2) by simp
  qed
qed

lemma ea_ReadFrame_spec:
  "ea_ReadFrame w = (res, w') \<Longrightarrow>
   (case res of Some f \<Rightarrow> length f = FrameSize \<and> ea_audio w = f @ ea_audio w'
              | None \<Rightarrow> length (ea_audio w) < FrameSize)"
  using ea_loop_spec [of "[]" w res w'] by (cases res) (simp_all add: ea_ReadFrame_def)

text \<open>All the frames of a connection, in order, until its read error.\<close>

function ea_frames :: "earshot \<Rightarrow> byte list list" where
  "ea_frames w = (case ea_ReadFrame w of (None, w') \<Rightarrow> [] | (Some f, w') \<Rightarrow> f # ea_frames w')"
  by pat_completeness auto
termination
  by (relation "measure (\<lambda>w. length (ea_audio w))")
     (auto dest!: ea_ReadFrame_spec [OF sym] simp: FrameSize_def)

declare ea_frames.simps [simp del]

section \<open>Properties\<close>

text \<open>The AudioSocket framing round-trips: whatever frames of at most 65535 bytes are written
  one after the other, the reader returns exactly those frames, in order, and then the end of the
  stream; and a longer payload is refused and nothing is written.\<close>

theorem audiosocket_roundtrip:
  assumes "\<forall>f\<in>set fs. length (fr_Payload f) \<le> 65535"
  shows "(\<forall>f\<in>set fs. WriteAudioSocketFrame (fr_Kind f) (fr_Payload f) = Inr (encode_frame f))
    \<and> read_all (concat (map encode_frame fs)) = (fs, EOF)"
  using read_all_written [OF assms, of "[]"] assms
  by (simp add: encode_frame_Inr read_all.simps [of "[]"] ReadAudioSocketFrame_def ReadFull_def
      audioSocketHeaderSize_def)

theorem audiosocket_roundtrip_witness:
  "read_all [0x12, 0, 2, 7, 8, 0, 0, 0]
     = ([\<lparr>fr_Kind = 0x12, fr_Payload = [7, 8]\<rparr>, \<lparr>fr_Kind = 0, fr_Payload = []\<rparr>], EOF)"
  using audiosocket_roundtrip
    [of "[\<lparr>fr_Kind = 0x12, fr_Payload = [7, 8]\<rparr>, \<lparr>fr_Kind = 0, fr_Payload = []\<rparr>]"]
  by (simp add: encode_frame_def WriteAudioSocketFrame_eq put16_be_def)

text \<open>A connection cut inside a frame never yields a frame made of the bytes that did arrive:
  the complete frames before it are delivered and then the read fails.\<close>

theorem audiosocket_truncated:
  assumes "\<forall>f\<in>set fs. length (fr_Payload f) \<le> 65535" and "length (fr_Payload g) \<le> 65535"
    and "k < length (encode_frame g)"
  shows "fst (read_all (concat (map encode_frame fs) @ take k (encode_frame g))) = fs"
  using read_all_written [OF assms(1), of "take k (encode_frame g)"]
    read_truncated [OF encode_frame_Inr [OF assms(2)] assms(3)]
  by (auto simp: read_all.simps [of "take k (encode_frame g)"])

theorem audiosocket_truncated_witness:
  "fst (read_all [0, 0, 0, 0x12, 0, 2, 7]) = [\<lparr>fr_Kind = 0, fr_Payload = []\<rparr>]"
  using audiosocket_truncated [of "[\<lparr>fr_Kind = 0, fr_Payload = []\<rparr>]"
      "\<lparr>fr_Kind = 0x12, fr_Payload = [7, 8]\<rparr>" 4]
  by (simp add: encode_frame_def WriteAudioSocketFrame_eq put16_be_def)

text \<open>Re-framing: however FreeSWITCH cuts the audio into messages and chunks, the frames read
  are 640 bytes each and joined are the audio received, in order, up to the last whole frame.\<close>

theorem earshot_reframes:
  "list_all (\<lambda>f. length f = FrameSize) (ea_frames w)
   \<and> (\<exists>rest. concat (ea_frames w) @ rest = ea_audio w \<and> length rest < FrameSize)"
proof (induction w rule: ea_frames.induct)
  case (1 w)
  obtain res w' where r: "ea_ReadFrame w = (res, w')" by (cases "ea_ReadFrame w")
  show ?case
  proof (cases res)
    case None
    with ea_ReadFrame_spec [OF r] r show ?thesis by (simp add: ea_frames.simps [of w])
  next
    case (Some f)
    with ea_ReadFrame_spec [OF r] r 1 [of res w' f] show ?thesis
      by (auto simp: ea_frames.simps [of w])
  qed
qed

end
