(* ===== verification/Frame_Handler.thy ===== *)
theory Frame_Handler
  imports Pcm
begin

text \<open>
  \<open>internal/media/handler.go\<close>: the seam between the transport and the agent. A handler is called
  once per 20ms tick with one frame of \<open>FrameSize\<close> bytes and answers with the frames to send.
  \<open>frame_handler\<close> is that contract; \<open>LoopbackHandler\<close>, \<open>SilentHandler\<close> and the \<open>MixRecorder\<close>
  decorator of \<open>mixrecorder.go\<close> satisfy it.
\<close>

definition frame_ok :: "byte list \<Rightarrow> bool" where
  "frame_ok f \<longleftrightarrow> length f = FrameSize"

text \<open>The zeroed frame of \<open>silentFrame()\<close>.\<close>

definition silentFrame :: "byte list" where
  "silentFrame = replicate FrameSize 0"

lemma frame_ok_silent [simp, intro]: "frame_ok silentFrame"
  by (simp add: frame_ok_def silentFrame_def)

section \<open>The contract\<close>

locale frame_handler =
  fixes process :: "byte list \<Rightarrow> 'h \<Rightarrow> 'h \<times> byte list list"
    and hinv :: "'h \<Rightarrow> bool"
  assumes process_inv: "hinv h \<Longrightarrow> frame_ok pcm \<Longrightarrow> hinv (fst (process pcm h))"
    and process_frames: "hinv h \<Longrightarrow> frame_ok pcm \<Longrightarrow> list_all frame_ok (snd (process pcm h))"

section \<open>LoopbackHandler and SilentHandler\<close>

definition Loopback_ProcessFrame :: "byte list \<Rightarrow> unit \<Rightarrow> unit \<times> byte list list" where
  "Loopback_ProcessFrame pcm h = (h, [pcm])"

definition Silent_ProcessFrame :: "byte list \<Rightarrow> unit \<Rightarrow> unit \<times> byte list list" where
  "Silent_ProcessFrame pcm h = (h, [])"

interpretation loopback: frame_handler Loopback_ProcessFrame "\<lambda>h. True"
  by unfold_locales (simp_all add: Loopback_ProcessFrame_def)

interpretation silent: frame_handler Silent_ProcessFrame "\<lambda>h. True"
  by unfold_locales (simp_all add: Silent_ProcessFrame_def)

section \<open>MixRecorder\<close>

definition maxMixRecording :: nat where "maxMixRecording = 100 * 2 ^ 20"

record 'h mix_recorder =
  mx_handler :: 'h
  mx_pcm :: "byte list"
  mx_max :: nat
  mx_truncated :: bool

definition NewMixRecorder :: "'h \<Rightarrow> 'h mix_recorder" where
  "NewMixRecorder h = \<lparr>mx_handler = h, mx_pcm = [], mx_max = maxMixRecording, mx_truncated = False\<rparr>"

definition Mix_ProcessFrame :: "(byte list \<Rightarrow> 'h \<Rightarrow> 'h \<times> byte list list)
    \<Rightarrow> byte list \<Rightarrow> 'h mix_recorder \<Rightarrow> 'h mix_recorder \<times> byte list list" where
  "Mix_ProcessFrame process pcm r =
     (let (h, out) = process pcm (mx_handler r); r = r\<lparr>mx_handler := h\<rparr> in
      if length (mx_pcm r) + length pcm > mx_max r then (r\<lparr>mx_truncated := True\<rparr>, out)
      else (r\<lparr>mx_pcm := mx_pcm r @ foldl mixInto pcm out\<rparr>, out))"

definition Truncated :: "'h mix_recorder \<Rightarrow> bool" where
  "Truncated r = mx_truncated r"

definition WAV :: "'h mix_recorder \<Rightarrow> byte list option" where
  "WAV r = (if mx_pcm r = [] then None else Some (wav_header (length (mx_pcm r)) @ mx_pcm r))"

lemma length_foldl_mixInto [simp]: "length (foldl mixInto pcm out) = length pcm"
  by (induction out arbitrary: pcm) auto

lemma Mix_out: "snd (Mix_ProcessFrame process pcm r) = snd (process pcm (mx_handler r))"
  by (simp add: Mix_ProcessFrame_def Let_def split: prod.split)

lemma Mix_handler: "mx_handler (fst (Mix_ProcessFrame process pcm r)) = fst (process pcm (mx_handler r))"
  by (simp add: Mix_ProcessFrame_def Let_def split: prod.split)

text \<open>Recording a handler that keeps the contract gives a handler that keeps it: one frame of
  recording per tick, never past the cap.\<close>

locale recorded_handler = frame_handler process hinv
  for process :: "byte list \<Rightarrow> 'h \<Rightarrow> 'h \<times> byte list list" and hinv :: "'h \<Rightarrow> bool"

definition mix_inv :: "('h \<Rightarrow> bool) \<Rightarrow> 'h mix_recorder \<Rightarrow> bool" where
  "mix_inv hinv r \<longleftrightarrow> hinv (mx_handler r) \<and> length (mx_pcm r) mod FrameSize = 0
     \<and> length (mx_pcm r) \<le> mx_max r"

lemma mix_inv_new: "hinv h \<Longrightarrow> mix_inv hinv (NewMixRecorder h)"
  by (simp add: mix_inv_def NewMixRecorder_def)

sublocale recorded_handler < mix: frame_handler "Mix_ProcessFrame process" "mix_inv hinv"
proof
  fix r :: "'h mix_recorder" and pcm
  assume inv: "mix_inv hinv r" and ok: "frame_ok pcm"
  then show "mix_inv hinv (fst (Mix_ProcessFrame process pcm r))"
    using process_inv [of "mx_handler r" pcm]
    by (auto simp: mix_inv_def Mix_ProcessFrame_def frame_ok_def Let_def split: prod.split)
  show "list_all frame_ok (snd (Mix_ProcessFrame process pcm r))"
    using inv process_frames [OF _ ok] by (simp add: Mix_out mix_inv_def)
qed

interpretation rec_loopback: recorded_handler Loopback_ProcessFrame "\<lambda>h. True" ..
interpretation rec_silent: recorded_handler Silent_ProcessFrame "\<lambda>h. True" ..

text \<open>A run of ticks: what went in and what came out, per tick.\<close>

fun mix_run :: "(byte list \<Rightarrow> 'h \<Rightarrow> 'h \<times> byte list list) \<Rightarrow> byte list list \<Rightarrow> 'h mix_recorder
    \<Rightarrow> 'h mix_recorder \<times> byte list list list" where
  "mix_run process [] r = (r, [])"
| "mix_run process (pcm # ps) r =
     (let (r, out) = Mix_ProcessFrame process pcm r; (r, outs) = mix_run process ps r in (r, out # outs))"

fun handler_run :: "(byte list \<Rightarrow> 'h \<Rightarrow> 'h \<times> byte list list) \<Rightarrow> byte list list \<Rightarrow> 'h
    \<Rightarrow> 'h \<times> byte list list list" where
  "handler_run process [] h = (h, [])"
| "handler_run process (pcm # ps) h =
     (let (h, out) = process pcm h; (h, outs) = handler_run process ps h in (h, out # outs))"

lemma mix_run_transparent:
  "mx_handler (fst (mix_run process ps r)) = fst (handler_run process ps (mx_handler r))
   \<and> snd (mix_run process ps r) = snd (handler_run process ps (mx_handler r))"
proof (induction ps arbitrary: r)
  case (Cons pcm ps)
  from Cons [of "fst (Mix_ProcessFrame process pcm r)"] show ?case
    using Mix_out [of process pcm r] Mix_handler [of process pcm r]
    by (simp add: Let_def split: prod.split) (metis fst_conv snd_conv prod.collapse)
qed simp

lemma mix_run_records:
  "length (mx_pcm r) + sum_list (map length ps) \<le> mx_max r \<Longrightarrow>
   mx_pcm (fst (mix_run process ps r))
     = mx_pcm r @ concat (map (\<lambda>(pcm, out). foldl mixInto pcm out)
         (zip ps (snd (handler_run process ps (mx_handler r)))))
   \<and> mx_truncated (fst (mix_run process ps r)) = mx_truncated r
   \<and> mx_max (fst (mix_run process ps r)) = mx_max r"
proof (induction ps arbitrary: r)
  case (Cons pcm ps)
  obtain h out where p: "process pcm (mx_handler r) = (h, out)" by (cases "process pcm (mx_handler r)")
  let ?r = "r\<lparr>mx_handler := h, mx_pcm := mx_pcm r @ foldl mixInto pcm out\<rparr>"
  have m: "Mix_ProcessFrame process pcm r = (?r, out)"
    using Cons.prems p by (simp add: Mix_ProcessFrame_def)
  have "length (mx_pcm ?r) + sum_list (map length ps) \<le> mx_max ?r" using Cons.prems by simp
  from Cons.IH [OF this] show ?case using m p by (auto simp: Let_def split: prod.split)
qed simp

lemma wav_read_header:
  assumes "length pcm < 2 ^ 32 - 36"
  shows "wav_read (wav_header (length pcm) @ pcm) = (length pcm + 36, 16000, pcm)"
proof -
  have "unat (of_nat (36 + length pcm) :: u32) = 36 + length pcm"
    "unat (of_nat (length pcm) :: u32) = length pcm"
    using assms by (simp_all add: unat_of_nat del: of_nat_add of_nat_numeral)
  moreover have "unat (16000 :: u32) = 16000" by (simp add: unat_numeral)
  ultimately show ?thesis
    unfolding wav_read_def wav_header_sizes by (simp add: add.commute)
qed

section \<open>Properties\<close>

text \<open>Mixing two tracks: sample by sample the sum, clipped to the range of \<open>int16\<close> and never
  wrapped, over their common length; the rest of the destination and its length are kept.\<close>

theorem mix_is_clipped_sum:
  "samples (mixInto dst src) =
     map (\<lambda>(d, s). max (- 32768) (min 32767 (d + s))) (zip (samples dst) (samples src))
       @ drop (length (samples src)) (samples dst)
   \<and> length (mixInto dst src) = length dst"
  by (simp add: samples_mixInto clip16_def)

text \<open>The call recording: wrapping a handler in a \<open>MixRecorder\<close> changes nothing it sends, the
  track is the inbound frames with everything sent on the same tick mixed in, and the file
  returned by \<open>WAV\<close> reads back as that track at 16 kHz.\<close>

theorem mix_recording_faithful:
  assumes "sum_list (map length ps) \<le> maxMixRecording"
  shows "snd (mix_run process ps (NewMixRecorder h)) = snd (handler_run process ps h)
    \<and> mx_pcm (fst (mix_run process ps (NewMixRecorder h)))
        = concat (map (\<lambda>(pcm, out). foldl mixInto pcm out) (zip ps (snd (handler_run process ps h))))
    \<and> \<not> Truncated (fst (mix_run process ps (NewMixRecorder h)))
    \<and> (case WAV (fst (mix_run process ps (NewMixRecorder h))) of
          None \<Rightarrow> mx_pcm (fst (mix_run process ps (NewMixRecorder h))) = []
        | Some f \<Rightarrow> wav_read f = (length f - 8, 16000, mx_pcm (fst (mix_run process ps (NewMixRecorder h)))))"
proof -
  let ?r = "fst (mix_run process ps (NewMixRecorder h))"
  have r: "mx_pcm ?r = concat (map (\<lambda>(pcm, out). foldl mixInto pcm out)
      (zip ps (snd (handler_run process ps h))))" "\<not> Truncated ?r"
    using mix_run_records [of "NewMixRecorder h" ps process] assms
    by (simp_all add: NewMixRecorder_def Truncated_def)
  have "length (concat (map (\<lambda>(pcm, out). foldl mixInto pcm out) (zip ps os))) \<le> sum_list (map length ps)"
    for os by (induction ps os rule: list_induct2') auto
  then have "length (mx_pcm ?r) < 2 ^ 32 - 36"
    unfolding r(1) by (rule le_less_trans) (use assms in \<open>simp add: maxMixRecording_def\<close>)
  then show ?thesis
    using r mix_run_transparent [of process ps "NewMixRecorder h"]
    by (simp add: WAV_def wav_read_header) (simp add: NewMixRecorder_def)
qed

theorem mix_recording_faithful_witness:
  "snd (mix_run Loopback_ProcessFrame [[1, 0], [2, 0]] (NewMixRecorder ())) = [[[1, 0]], [[2, 0]]]
   \<and> \<not> Truncated (fst (mix_run Loopback_ProcessFrame [[1, 0], [2, 0]] (NewMixRecorder ())))"
  using mix_recording_faithful [of "[[1, 0], [2, 0]]" Loopback_ProcessFrame "()"]
  by (simp add: maxMixRecording_def Loopback_ProcessFrame_def)

end
