(* ===== verification/Call_Media.thy ===== *)
theory Call_Media
  imports Jitter_Buffer Frame_Handler Audio_Socket "HOL-Library.Sublist"
begin

text \<open>
  The media pipelines of one call: \<open>CallMedia\<close> over RTP (\<open>internal/media/loopback.go\<close>) and
  \<open>AudioSocketCallMedia\<close> over AudioSocket or earshot (\<open>audiosocket_call.go\<close>), and the watchdog
  (\<open>watchdog.go\<close>). One definition per pass of the read loop, the release tick and the write tick;
  the handler is an argument with its own state. What a tick hands to the sink, the recorder,
  the tap or the network is the list of events it returns, in order.
\<close>

datatype 'a media_event =
    PacketIn nat | PacketOut | SeqGap | MalformedPkt | PayloadSizeMismatch | QueueDropped
  | SendError | SilenceSent | JbEv "byte list jb_event" | Touch | RemoteLocked 'a
  | RecordIn "byte list" | AudioLevel "byte list" | Publish "byte list" | RecordOut "byte list"
  | Built rtp_packet | Datagram 'a "byte list" | WroteFrame "byte list" | WireClosed

definition queueCap :: nat where "queueCap = 5"

text \<open>Copy each frame of the handler and offer it to the writer, dropping what does not fit.\<close>

fun queue_out :: "byte list list \<Rightarrow> byte list list \<Rightarrow> byte list list \<times> 'a media_event list" where
  "queue_out [] q = (q, [])"
| "queue_out (frame # fs) q =
     (let (q, ok) = try_send queueCap frame q; (q, ev) = queue_out fs q
      in (q, (if ok then [] else [QueueDropped]) @ ev))"

lemma queue_out_spec:
  fixes ev :: "'x media_event list"
  shows "list_all frame_ok fs \<Longrightarrow> list_all frame_ok q \<Longrightarrow> length q \<le> queueCap \<Longrightarrow> queue_out fs q = (q', ev) \<Longrightarrow>
   list_all frame_ok q' \<and> length q' \<le> queueCap"
proof (induction fs arbitrary: q q' ev)
  case (Cons f fs)
  obtain q1 ok where s: "try_send queueCap f q = (q1, ok)" by (cases "try_send queueCap f q")
  obtain q2 and ev2 :: "'x media_event list" where r: "queue_out fs q1 = (q2, ev2)" "q' = q2"
    using Cons.prems(4) s by (auto simp: Let_def split: prod.splits)
  have "list_all frame_ok q1" "length q1 \<le> queueCap"
    using s Cons.prems by (auto simp: try_send_def split: if_splits)
  with Cons.IH [OF _ this r(1)] Cons.prems(1) r(2) show ?case by simp
qed simp

lemma queue_out_events: "queue_out fs q = (q', ev) \<Longrightarrow> \<exists>n. ev = replicate n QueueDropped"
proof (induction fs arbitrary: q q' ev)
  case (Cons f fs)
  then obtain q1 ok ev1 n where "queue_out fs q1 = (q', ev1)" "ev1 = replicate n QueueDropped"
    "ev = (if ok then [] else [QueueDropped]) @ ev1"
    by (auto simp: Let_def split: prod.splits) blast
  then have "ev = replicate (if ok then n else Suc n) QueueDropped" by simp
  then show ?case by blast
qed simp

section \<open>CallMedia: RTP\<close>

record ('h, 'a) rtp_media =
  rm_ep :: "'a endpoint"
  rm_jb :: "byte list jitter_buffer"
  rm_handler :: 'h
  rm_fromWire :: endianness
  rm_toWire :: endianness
  rm_seq :: seq_tracker
  rm_sender :: sender
  rm_outbound :: "byte list list"

definition NewCallMedia :: "nat \<Rightarrow> endianness \<Rightarrow> endianness \<Rightarrow> sender \<Rightarrow> 'h \<Rightarrow> ('h, 'a) rtp_media" where
  "NewCallMedia packets from to snder h = \<lparr>rm_ep = NewEndpoint, rm_jb = NewJitterBuffer packets,
     rm_handler = h, rm_fromWire = from, rm_toWire = to, rm_seq = new_seq_tracker,
     rm_sender = snder, rm_outbound = []\<rparr>"

text \<open>One datagram of \<open>readLoop\<close>.\<close>

definition rtp_read :: "(byte list \<Rightarrow> string + rtp_packet) \<Rightarrow> byte list \<Rightarrow> 'a
    \<Rightarrow> ('h, 'a) rtp_media \<Rightarrow> ('h, 'a) rtp_media \<times> 'a media_event list" where
  "rtp_read unmarshal buf addr c =
     (if IsRTCP buf then (c, [])
      else case ParseRTP unmarshal buf of
        Inl e \<Rightarrow> (c, [MalformedPkt])
      | Inr pkt \<Rightarrow>
          if length (pk_Payload pkt) \<noteq> FrameSize then (c, [PayloadSizeMismatch])
          else
            let (ep, locked) = LockRemote (Some addr) (rm_ep c);
                snder = SetPayloadType (pk_PayloadType pkt) (rm_sender c);
                (seq, gap) = Observe (pk_SequenceNumber pkt) (rm_seq c);
                (jb, ev) = Push (pk_SequenceNumber pkt) (pk_SSRC pkt) (pk_Payload pkt) (rm_jb c)
            in (c\<lparr>rm_ep := ep, rm_sender := snder, rm_seq := seq, rm_jb := jb\<rparr>,
                (if locked then [RemoteLocked addr] else []) @ [PacketIn (length (pk_Payload pkt)), Touch]
                @ (if gap then [SeqGap] else []) @ map JbEv ev))"

text \<open>One release tick. \<open>None\<close> is the nil dereference the buffer would cause by handing out a nil
  frame.\<close>

definition release_pcm :: "byte list jb_out \<Rightarrow> byte list option" where
  "release_pcm out = (case out of Played x \<Rightarrow> x | Silent \<Rightarrow> Some silentFrame)"

definition rtp_release :: "(byte list \<Rightarrow> 'h \<Rightarrow> 'h \<times> byte list list)
    \<Rightarrow> ('h, 'a) rtp_media \<Rightarrow> (('h, 'a) rtp_media \<times> 'a media_event list) option" where
  "rtp_release process c =
     (let (jb, out, ev) = Release (rm_jb c) in
      case release_pcm out of
        None \<Rightarrow> None
      | Some raw \<Rightarrow>
          let pcm = NormalizeToLE raw (rm_fromWire c);
              (h, outs) = process pcm (rm_handler c);
              (q, drops) = queue_out outs (rm_outbound c)
          in Some (c\<lparr>rm_jb := jb, rm_handler := h, rm_outbound := q\<rparr>,
                   map JbEv ev @ [RecordIn pcm, AudioLevel pcm, Publish pcm] @ drops))"

text \<open>One write tick; \<open>marshal\<close> is \<open>pion/rtp\<close>'s.\<close>

definition rtp_write :: "(rtp_packet \<Rightarrow> string + byte list) \<Rightarrow> (byte list \<Rightarrow> 'a \<Rightarrow> udp_result)
    \<Rightarrow> ('h, 'a) rtp_media \<Rightarrow> ('h, 'a) rtp_media \<times> 'a media_event list" where
  "rtp_write marshal udp c =
     (let (frame, q, isSilenceFallback) = (case try_recv (rm_outbound c) of
             Some (f, q) \<Rightarrow> (f, q, False) | None \<Rightarrow> (silentFrame, rm_outbound c, True));
          (snder, pkt) = Build (FromLE frame (rm_toWire c)) (rm_sender c);
          c = c\<lparr>rm_outbound := q, rm_sender := snder\<rparr>;
          ev = [RecordOut frame, Built pkt]
      in case marshal pkt of
           Inl err \<Rightarrow> (c, ev)
         | Inr out \<Rightarrow> (case WriteTo udp out (rm_ep c) of
               (Inl err, ds) \<Rightarrow> (c, ev @ map (\<lambda>(a, b). Datagram a b) ds @ [SendError])
             | (Inr sent, ds) \<Rightarrow>
                 (c, ev @ map (\<lambda>(a, b). Datagram a b) ds @
                   (if sent then PacketOut # (if isSilenceFallback then [SilenceSent] else []) else []))))"

datatype 'a rtp_op = RtpRead "byte list" 'a | RtpRelease | RtpWrite

fun rtp_step where
  "rtp_step process unmarshal marshal udp (RtpRead buf addr) c = Some (rtp_read unmarshal buf addr c)"
| "rtp_step process unmarshal marshal udp RtpRelease c = rtp_release process c"
| "rtp_step process unmarshal marshal udp RtpWrite c = Some (rtp_write marshal udp c)"

text \<open>Any interleaving of the three goroutines, pass by pass.\<close>

fun rtp_run where
  "rtp_run process unmarshal marshal udp [] c = Some (c, [])"
| "rtp_run process unmarshal marshal udp (op # ops) c =
     (case rtp_step process unmarshal marshal udp op c of
        None \<Rightarrow> None
      | Some (c, ev) \<Rightarrow> (case rtp_run process unmarshal marshal udp ops c of
            None \<Rightarrow> None | Some (c, ev') \<Rightarrow> Some (c, ev @ ev')))"

definition rtp_inv :: "('h \<Rightarrow> bool) \<Rightarrow> ('h, 'a) rtp_media \<Rightarrow> bool" where
  "rtp_inv hinv c \<longleftrightarrow> hinv (rm_handler c) \<and> jb_wf (rm_jb c)
     \<and> (\<forall>f. f \<in># jb_held (rm_jb c) \<longrightarrow> frame_ok f)
     \<and> list_all frame_ok (rm_outbound c) \<and> length (rm_outbound c) \<le> queueCap"

fun built :: "'a media_event list \<Rightarrow> rtp_packet list" where
  "built [] = []"
| "built (Built pkt # ev) = pkt # built ev"
| "built (_ # ev) = built ev"

lemma built_append [simp]: "built (a @ b) = built a @ built b"
  by (induction a rule: built.induct) auto

lemma built_JbEv [simp]: "built (map JbEv ev) = []"
  by (induction ev) auto

lemma built_Datagram [simp]: "built (map (\<lambda>(a, b). Datagram a b) ds) = []"
  by (induction ds) auto

lemma built_drops: "queue_out fs q = (q', ev) \<Longrightarrow> built ev = []"
proof -
  have "built (replicate n QueueDropped) = []" for n by (induction n) auto
  then show "queue_out fs q = (q', ev) \<Longrightarrow> built ev = []" using queue_out_events by blast
qed

lemma rtp_inv_new:
  assumes "1 \<le> n" and "n < 32768" and "hinv h"
  shows "rtp_inv hinv (NewCallMedia n from to snder h)"
  using assms jb_wf_new [OF assms(1,2)]
  by (simp add: rtp_inv_def NewCallMedia_def jb_held_def) (simp add: NewJitterBuffer_def)

lemma rtp_read_inv [invs]:
  assumes "rtp_inv hinv c"
  shows "rtp_inv hinv (fst (rtp_read unmarshal buf addr c)) \<and> built (snd (rtp_read unmarshal buf addr c)) = []"
proof (cases "ParseRTP unmarshal buf")
  case (Inr pkt)
  obtain jb ev where p: "Push (pk_SequenceNumber pkt) (pk_SSRC pkt) (pk_Payload pkt) (rm_jb c) = (jb, ev)"
    by (cases "Push (pk_SequenceNumber pkt) (pk_SSRC pkt) (pk_Payload pkt) (rm_jb c)")
  have wf: "jb_wf (rm_jb c)" using assms by (simp add: rtp_inv_def)
  have "jb_held jb \<subseteq># add_mset (pk_Payload pkt) (jb_held (rm_jb c))"
    using Push_owns [OF wf, of "pk_SequenceNumber pkt" "pk_SSRC pkt" "pk_Payload pkt"] p
    by (metis fst_conv mset_subset_eq_add_left)
  then have "f = pk_Payload pkt \<or> f \<in># jb_held (rm_jb c)" if "f \<in># jb_held jb" for f
    using that by (auto dest: mset_subset_eqD)
  moreover have "jb_wf jb"
    using Push_wf [OF wf, of "pk_SequenceNumber pkt" "pk_SSRC pkt" "pk_Payload pkt"] p by simp
  ultimately show ?thesis
    using assms Inr p by (auto simp: rtp_read_def rtp_inv_def frame_ok_def Let_def split: prod.split)
qed (use assms in \<open>auto simp: rtp_read_def\<close>)

context frame_handler
begin

lemma rtp_release_inv:
  fixes c :: "('h, 'x) rtp_media"
  assumes "rtp_inv hinv c"
  obtains c' ev where "rtp_release process c = Some (c', ev)" and "rtp_inv hinv c'" and "built ev = []"
proof -
  obtain jb out ev where r: "Release (rm_jb c) = (jb, out, ev)" by (cases "Release (rm_jb c)")
  have wf: "jb_wf (rm_jb c)" and held: "\<And>f. f \<in># jb_held (rm_jb c) \<Longrightarrow> frame_ok f"
    using assms by (auto simp: rtp_inv_def)
  have o: "jb_held jb + out_frames out = jb_held (rm_jb c)" "out \<noteq> Played None"
    using Release_owns [OF wf] r by simp_all
  have jb: "\<And>f. f \<in># jb_held jb \<Longrightarrow> frame_ok f" using o(1) held by (metis union_iff)
  have played: "\<And>f. f \<in># out_frames out \<Longrightarrow> frame_ok f" using o(1) held by (metis union_iff)
  obtain raw where raw: "release_pcm out = Some raw" "frame_ok raw"
    using o(2) played by (cases out) (auto simp: release_pcm_def out_frames_def)
  let ?pcm = "NormalizeToLE raw (rm_fromWire c)"
  have pcm: "frame_ok ?pcm" using raw(2) by (simp add: frame_ok_def)
  obtain h outs where h: "process ?pcm (rm_handler c) = (h, outs)" by (cases "process ?pcm (rm_handler c)")
  have hi: "hinv h" "list_all frame_ok outs"
    using process_inv [OF _ pcm, of "rm_handler c"] process_frames [OF _ pcm, of "rm_handler c"] assms h
    by (simp_all add: rtp_inv_def)
  obtain q and drops :: "'x media_event list" where q: "queue_out outs (rm_outbound c) = (q, drops)"
    by (rule prod.exhaust)
  have qi: "list_all frame_ok q" "length q \<le> queueCap" "built drops = []"
    using queue_out_spec [OF hi(2) _ _ q] built_drops [OF q] assms by (simp_all add: rtp_inv_def)
  let ?c = "c\<lparr>rm_jb := jb, rm_handler := h, rm_outbound := q\<rparr>"
  have "rtp_release process c = Some (?c, map JbEv ev @ [RecordIn ?pcm, AudioLevel ?pcm, Publish ?pcm] @ drops)"
    using r raw(1) h q by (simp add: rtp_release_def Let_def)
  moreover have "rtp_inv hinv ?c"
    using hi(1) qi jb Release_wf [OF wf] r by (simp add: rtp_inv_def)
  ultimately show thesis using that qi(3) by simp
qed

lemma rtp_write_inv:
  assumes "rtp_inv hinv c"
  shows "rtp_inv hinv (fst (rtp_write marshal udp c))
    \<and> (\<exists>payload. frame_ok payload \<and> built (snd (rtp_write marshal udp c)) = [snd (Build payload (rm_sender c))]
        \<and> rm_sender (fst (rtp_write marshal udp c)) = fst (Build payload (rm_sender c)))"
proof (cases "rm_outbound c")
  case Nil
  then show ?thesis
    using assms by (auto simp: rtp_write_def rtp_inv_def frame_ok_def silentFrame_def Let_def
        intro!: exI [of _ "FromLE silentFrame (rm_toWire c)"] split: prod.split sum.split)
next
  case (Cons f q)
  then show ?thesis
    using assms by (auto simp: rtp_write_def rtp_inv_def frame_ok_def Let_def
        intro!: exI [of _ "FromLE f (rm_toWire c)"] split: prod.split sum.split)
qed

end

definition rtp_writes :: "'a rtp_op list \<Rightarrow> nat" where
  "rtp_writes ops = length (filter (\<lambda>op. op = RtpWrite) ops)"

lemma rtp_read_sender:
  "rm_sender (fst (rtp_read unmarshal buf addr c)) = rm_sender c
   \<or> (\<exists>pt. rm_sender (fst (rtp_read unmarshal buf addr c)) = SetPayloadType pt (rm_sender c))"
  by (auto simp: rtp_read_def Let_def split: sum.split prod.split)

lemma rtp_release_sender: "rtp_release process c = Some (c', ev) \<Longrightarrow> rm_sender c' = rm_sender c"
  by (auto simp: rtp_release_def Let_def split: prod.splits option.splits)

text \<open>A run never panics, keeps the invariant, and what it builds is a run of the sender.\<close>

context frame_handler
begin

lemma rtp_run_sender:
  fixes c :: "('h, 'x) rtp_media"
  assumes "rtp_inv hinv c"
  shows "\<exists>c' ev sops. rtp_run process unmarshal marshal udp ops c = Some (c', ev) \<and> rtp_inv hinv c'
    \<and> built ev = snd (sender_run sops (rm_sender c)) \<and> length (ticks sops) = rtp_writes ops
    \<and> list_all frame_ok (ticks sops)"
  using assms
proof (induction ops arbitrary: c)
  case Nil
  then show ?case by (auto simp: rtp_writes_def intro: exI [of _ "[]"])
next
  case (Cons op ops)
  show ?case
  proof (cases op)
    case (RtpRead buf addr)
    obtain c1 ev1 where s: "rtp_read unmarshal buf addr c = (c1, ev1)" by (rule prod.exhaust)
    note i = rtp_read_inv [OF Cons.prems, of unmarshal buf addr, unfolded s fst_conv snd_conv]
    obtain c' ev sops where r: "rtp_run process unmarshal marshal udp ops c1 = Some (c', ev)"
      "rtp_inv hinv c'" "built ev = snd (sender_run sops (rm_sender c1))"
      "length (ticks sops) = rtp_writes ops" "list_all frame_ok (ticks sops)"
      using Cons.IH [of c1] i by blast
    obtain sops' where "snd (sender_run sops' (rm_sender c)) = snd (sender_run sops (rm_sender c1))"
      "ticks sops' = ticks sops"
      using rtp_read_sender [of unmarshal buf addr c] unfolding s fst_conv
      by (metis sender_run.simps(2) ticks.simps(2))
    with r i s RtpRead show ?thesis
      by (intro exI [of _ c'] exI [of _ "ev1 @ ev"] exI [of _ sops']) (simp add: rtp_writes_def)
  next
    case RtpRelease
    obtain c1 ev1 where s: "rtp_release process c = Some (c1, ev1)" "rtp_inv hinv c1" "built ev1 = []"
      using rtp_release_inv [OF Cons.prems] by blast
    obtain c' ev sops where r: "rtp_run process unmarshal marshal udp ops c1 = Some (c', ev)"
      "rtp_inv hinv c'" "built ev = snd (sender_run sops (rm_sender c1))"
      "length (ticks sops) = rtp_writes ops" "list_all frame_ok (ticks sops)"
      using Cons.IH [of c1] s by blast
    with s RtpRelease rtp_release_sender [OF s(1)] show ?thesis
      by (intro exI [of _ c'] exI [of _ "ev1 @ ev"] exI [of _ sops]) (simp add: rtp_writes_def)
  next
    case RtpWrite
    obtain c1 ev1 where s: "rtp_write marshal udp c = (c1, ev1)" by (rule prod.exhaust)
    obtain payload where i: "rtp_inv hinv c1" "frame_ok payload"
      "built ev1 = [snd (Build payload (rm_sender c))]" "rm_sender c1 = fst (Build payload (rm_sender c))"
      using rtp_write_inv [OF Cons.prems, of marshal udp] unfolding s by auto
    obtain c' ev sops where r: "rtp_run process unmarshal marshal udp ops c1 = Some (c', ev)"
      "rtp_inv hinv c'" "built ev = snd (sender_run sops (rm_sender c1))"
      "length (ticks sops) = rtp_writes ops" "list_all frame_ok (ticks sops)"
      using Cons.IH [of c1] i by blast
    with s i RtpWrite show ?thesis
      by (intro exI [of _ c'] exI [of _ "ev1 @ ev"] exI [of _ "Tick payload # sops"])
        (simp add: rtp_writes_def Let_def split: prod.split)
  qed
qed

end

section \<open>AudioSocketCallMedia: a framed wire\<close>

record 'h framed_media =
  fm_handler :: 'h
  fm_toWire :: endianness
  fm_inbound :: "byte list list"
  fm_outbound :: "byte list list"
  fm_readDone :: bool
  fm_dead :: bool

definition newFramedCallMedia :: "endianness \<Rightarrow> 'h \<Rightarrow> 'h framed_media" where
  "newFramedCallMedia to h = \<lparr>fm_handler = h, fm_toWire = to, fm_inbound = [], fm_outbound = [],
     fm_readDone = False, fm_dead = False\<rparr>"

text \<open>What \<open>wire.ReadFrame\<close> answers: a frame, \<open>nil, nil\<close> (not audio), or an error, after which the
  read loop ends.\<close>

datatype read_result = GotFrame "byte list" | NotAudio | ReadError

definition framed_read :: "read_result \<Rightarrow> 'h framed_media \<Rightarrow> 'h framed_media \<times> unit media_event list" where
  "framed_read res c =
     (if fm_readDone c then (c, [])
      else case res of
        ReadError \<Rightarrow> (c\<lparr>fm_readDone := True\<rparr>, [])
      | NotAudio \<Rightarrow> (c, [])
      | GotFrame buf \<Rightarrow> (c\<lparr>fm_inbound := fst (try_send queueCap buf (fm_inbound c))\<rparr>,
                        [PacketIn (length buf), Touch]))"

definition framed_release :: "(byte list \<Rightarrow> 'h \<Rightarrow> 'h \<times> byte list list)
    \<Rightarrow> 'h framed_media \<Rightarrow> 'h framed_media \<times> unit media_event list" where
  "framed_release process c =
     (let (raw, inb) = (case try_recv (fm_inbound c) of
             Some (f, q) \<Rightarrow> (f, q) | None \<Rightarrow> (silentFrame, fm_inbound c));
          pcm = raw;
          (h, outs) = process pcm (fm_handler c);
          (q, drops) = queue_out outs (fm_outbound c)
      in (c\<lparr>fm_inbound := inb, fm_handler := h, fm_outbound := q\<rparr>,
          [RecordIn pcm, AudioLevel pcm, Publish pcm] @ drops))"

text \<open>One write tick. \<open>quiet\<close>: the wire is a \<open>quietWire\<close>; \<open>ok\<close>: the write of this frame succeeds.\<close>

definition framed_write :: "bool \<Rightarrow> (byte list \<Rightarrow> bool)
    \<Rightarrow> 'h framed_media \<Rightarrow> 'h framed_media \<times> unit media_event list" where
  "framed_write quiet ok c =
     (if fm_dead c then (c, [])
      else
        let (frame, q, isSilenceFallback) = (case try_recv (fm_outbound c) of
               Some (f, q) \<Rightarrow> (f, q, False) | None \<Rightarrow> (silentFrame, fm_outbound c, True));
            c = c\<lparr>fm_outbound := q\<rparr>;
            ev = [RecordOut frame]
        in if isSilenceFallback \<and> quiet then (c, ev)
           else
             let frame = FromLE frame (fm_toWire c) in
             if \<not> ok frame then
               (c\<lparr>fm_dead := True\<rparr>, ev @ [SendError, WireClosed])
             else (c, ev @ [WroteFrame frame, PacketOut] @ (if isSilenceFallback then [SilenceSent] else [])))"

datatype fm_op = FmRead read_result | FmRelease | FmWrite "byte list \<Rightarrow> bool"

fun framed_step where
  "framed_step quiet process (FmRead res) c = framed_read res c"
| "framed_step quiet process FmRelease c = framed_release process c"
| "framed_step quiet process (FmWrite ok) c = framed_write quiet ok c"

fun framed_run where
  "framed_run quiet process [] c = (c, [])"
| "framed_run quiet process (op # ops) c =
     (let (c, ev) = framed_step quiet process op c; (c, ev') = framed_run quiet process ops c
      in (c, ev @ ev'))"

definition read_ok :: "fm_op \<Rightarrow> bool" where
  "read_ok op = (case op of FmRead (GotFrame f) \<Rightarrow> frame_ok f | _ \<Rightarrow> True)"

definition framed_inv :: "('h \<Rightarrow> bool) \<Rightarrow> 'h framed_media \<Rightarrow> bool" where
  "framed_inv hinv c \<longleftrightarrow> hinv (fm_handler c)
     \<and> list_all frame_ok (fm_inbound c) \<and> length (fm_inbound c) \<le> queueCap
     \<and> list_all frame_ok (fm_outbound c) \<and> length (fm_outbound c) \<le> queueCap"

fun wrote :: "'a media_event list \<Rightarrow> byte list list" where
  "wrote [] = []"
| "wrote (WroteFrame f # ev) = f # wrote ev"
| "wrote (_ # ev) = wrote ev"

lemma wrote_append [simp]: "wrote (a @ b) = wrote a @ wrote b"
  by (induction a rule: wrote.induct) auto

lemma wrote_drops: "queue_out fs q = (q', ev) \<Longrightarrow> wrote ev = []"
proof -
  have "wrote (replicate n QueueDropped) = []" for n by (induction n) auto
  then show "queue_out fs q = (q', ev) \<Longrightarrow> wrote ev = []" using queue_out_events by blast
qed

context frame_handler
begin

lemma framed_release_inv:
  assumes "framed_inv hinv c" and "framed_release process c = (c', ev)"
  shows "framed_inv hinv c' \<and> wrote ev = [] \<and> fm_dead c' = fm_dead c"
proof -
  obtain raw inb where r: "(case try_recv (fm_inbound c) of
      Some (f, q) \<Rightarrow> (f, q) | None \<Rightarrow> (silentFrame, fm_inbound c)) = (raw, inb)" by (rule prod.exhaust)
  then have raw: "frame_ok raw" "list_all frame_ok inb" "length inb \<le> queueCap"
    using assms(1) by (cases "fm_inbound c"; auto simp: framed_inv_def)+
  obtain h outs where h: "process raw (fm_handler c) = (h, outs)" by (rule prod.exhaust)
  obtain q and drops :: "unit media_event list" where q: "queue_out outs (fm_outbound c) = (q, drops)"
    by (rule prod.exhaust)
  have "hinv h" "list_all frame_ok outs"
    using process_inv [OF _ raw(1), of "fm_handler c"] process_frames [OF _ raw(1), of "fm_handler c"]
      assms(1) h by (simp_all add: framed_inv_def)
  then show ?thesis
    using queue_out_spec [OF _ _ _ q] wrote_drops [OF q] assms raw r h q
    by (auto simp: framed_release_def framed_inv_def Let_def)
qed

lemma framed_step_inv:
  assumes "framed_inv hinv c" and "read_ok op" and "framed_step quiet process op c = (c', ev)"
  shows "framed_inv hinv c' \<and> list_all frame_ok (wrote ev) \<and> length (wrote ev) \<le> 1
    \<and> (fm_dead c \<longrightarrow> fm_dead c' \<and> wrote ev = [])"
proof (cases op)
  case (FmRead res)
  then show ?thesis
    using assms by (cases res) (auto simp: framed_read_def framed_inv_def read_ok_def try_send_def
        split: if_splits)
next
  case FmRelease
  then show ?thesis using assms framed_release_inv [OF assms(1)] by simp
next
  case (FmWrite ok)
  then show ?thesis
    using assms by (cases "fm_outbound c") (auto simp: framed_write_def framed_inv_def Let_def frame_ok_def
        silentFrame_def split: if_splits)
qed

lemma framed_run_inv:
  "framed_inv hinv c \<Longrightarrow> list_all read_ok ops \<Longrightarrow> framed_run quiet process ops c = (c', ev) \<Longrightarrow>
   framed_inv hinv c' \<and> list_all frame_ok (wrote ev) \<and> (fm_dead c \<longrightarrow> wrote ev = [])"
proof (induction ops arbitrary: c ev)
  case (Cons op ops)
  obtain c1 ev1 where s: "framed_step quiet process op c = (c1, ev1)" by (rule prod.exhaust)
  obtain ev2 where r: "framed_run quiet process ops c1 = (c', ev2)" "ev = ev1 @ ev2"
    using Cons.prems(3) s by (auto simp: Let_def split: prod.splits)
  show ?case
    using framed_step_inv [OF Cons.prems(1) _ s] Cons.prems(2) Cons.IH [OF _ _ r(1)] r(2) by auto
qed simp

end

section \<open>What reaches the wire is what the handler said\<close>

fun recorded :: "'a media_event list \<Rightarrow> byte list list" where
  "recorded [] = []"
| "recorded (RecordIn f # ev) = f # recorded ev"
| "recorded (_ # ev) = recorded ev"

lemma recorded_append [simp]: "recorded (a @ b) = recorded a @ recorded b"
  by (induction a rule: recorded.induct) auto

lemma recorded_drops: "queue_out fs q = (q', ev) \<Longrightarrow> recorded ev = []"
proof -
  have "recorded (replicate n QueueDropped) = []" for n by (induction n) auto
  then show "queue_out fs q = (q', ev) \<Longrightarrow> recorded ev = []" using queue_out_events by blast
qed

lemma queue_out_subseq:
  fixes ev :: "'x media_event list"
  shows "queue_out fs q = (q', ev) \<Longrightarrow> subseq q' (q @ fs)"
proof (induction fs arbitrary: q q' ev)
  case (Cons f fs)
  obtain q1 ok where s: "try_send queueCap f q = (q1, ok)" by (cases "try_send queueCap f q")
  then obtain ev1 :: "'x media_event list" where r: "queue_out fs q1 = (q', ev1)"
    using Cons.prems by (auto simp: Let_def split: prod.splits)
  have "subseq q1 (q @ [f])" using s by (auto simp: try_send_def split: if_splits)
  then have "subseq (q1 @ fs) ((q @ [f]) @ fs)" by (intro list_emb_append_mono) auto
  then show ?case using Cons.IH [OF r] by (auto intro: subseq_order.order_trans)
qed simp

text \<open>What the handler answers during a step, and its next state.\<close>

definition step_frames where
  "step_frames process ev c = concat (snd (handler_run process (recorded ev) (fm_handler c)))"

lemma framed_step_subseq:
  assumes "framed_step True process op c = (c', ev)"
  shows "subseq (wrote ev @ map (\<lambda>f. FromLE f (fm_toWire c)) (fm_outbound c'))
      (map (\<lambda>f. FromLE f (fm_toWire c)) (fm_outbound c @ step_frames process ev c))
    \<and> fm_handler c' = fst (handler_run process (recorded ev) (fm_handler c))
    \<and> fm_toWire c' = fm_toWire c"
proof (cases op)
  case (FmRead res)
  then show ?thesis
    using assms by (cases res) (auto simp: framed_read_def step_frames_def split: if_splits)
next
  case FmRelease
  obtain raw inb where r: "(case try_recv (fm_inbound c) of
      Some (f, q) \<Rightarrow> (f, q) | None \<Rightarrow> (silentFrame, fm_inbound c)) = (raw, inb)" by (rule prod.exhaust)
  obtain h outs where h: "process raw (fm_handler c) = (h, outs)" by (rule prod.exhaust)
  obtain q and drops :: "unit media_event list" where q: "queue_out outs (fm_outbound c) = (q, drops)"
    by (rule prod.exhaust)
  have "subseq (map (\<lambda>f. FromLE f (fm_toWire c)) q) (map (\<lambda>f. FromLE f (fm_toWire c)) (fm_outbound c @ outs))"
    using queue_out_subseq [OF q] by (rule subseq_map)
  then show ?thesis
    using assms FmRelease r h q recorded_drops [OF q] wrote_drops [OF q]
    by (auto simp: framed_release_def step_frames_def Let_def)
next
  case (FmWrite ok)
  then show ?thesis
    using assms by (cases "fm_outbound c")
      (auto simp: framed_write_def step_frames_def Let_def split: if_splits)
qed

lemma handler_run_append:
  "handler_run process (a @ b) h =
     (let (h, x) = handler_run process a h; (h, y) = handler_run process b h in (h, x @ y))"
  by (induction a arbitrary: h) (auto simp: Let_def split: prod.split)

lemma framed_run_subseq:
  "framed_run True process ops c = (c', ev) \<Longrightarrow>
   subseq (wrote ev) (map (\<lambda>f. FromLE f (fm_toWire c)) (fm_outbound c @ step_frames process ev c))"
proof (induction ops arbitrary: c ev)
  case (Cons op ops)
  obtain c1 ev1 where s: "framed_step True process op c = (c1, ev1)" by (rule prod.exhaust)
  obtain ev2 where r: "framed_run True process ops c1 = (c', ev2)" and ev: "ev = ev1 @ ev2"
    using Cons.prems s by (auto simp: Let_def split: prod.splits)
  let ?F = "map (\<lambda>f. FromLE f (fm_toWire c))"
  note st = framed_step_subseq [OF s]
  have split: "step_frames process ev c = step_frames process ev1 c @ step_frames process ev2 c1"
    using st by (simp add: ev step_frames_def handler_run_append Let_def split: prod.split)
  have "subseq (wrote ev2) (?F (fm_outbound c1) @ ?F (step_frames process ev2 c1))"
    using Cons.IH [OF r] st by simp
  then have "subseq (wrote ev1 @ wrote ev2) ((wrote ev1 @ ?F (fm_outbound c1)) @ ?F (step_frames process ev2 c1))"
    by (simp add: list_emb_append_mono)
  also have "subseq \<dots> (?F (fm_outbound c @ step_frames process ev1 c) @ ?F (step_frames process ev2 c1))"
    using st by (intro list_emb_append_mono) auto
  finally show ?case unfolding split by (simp add: ev)
qed (simp add: step_frames_def)

lemma framed_step_dead:
  "fm_dead c \<Longrightarrow> framed_step quiet process op c = (c', ev) \<Longrightarrow> fm_dead c' \<and> wrote ev = []"
proof (cases op)
  case (FmRead res)
  then show "fm_dead c \<Longrightarrow> framed_step quiet process op c = (c', ev) \<Longrightarrow> ?thesis"
    by (cases res) (auto simp: framed_read_def split: if_splits)
next
  case FmRelease
  then show "fm_dead c \<Longrightarrow> framed_step quiet process op c = (c', ev) \<Longrightarrow> ?thesis"
    by (auto simp: framed_release_def Let_def wrote_drops split: prod.splits)
qed (auto simp: framed_write_def)

text \<open>On a wire that needs a steady stream, a write tick sends exactly one frame while the wire
  accepts them.\<close>

definition writes_ok :: "fm_op \<Rightarrow> bool" where
  "writes_ok op = (case op of FmWrite ok \<Rightarrow> ok = (\<lambda>f. True) | _ \<Rightarrow> True)"

definition write_ticks :: "fm_op list \<Rightarrow> nat" where
  "write_ticks ops = length (filter (\<lambda>op. case op of FmWrite ok \<Rightarrow> True | _ \<Rightarrow> False) ops)"

lemma framed_step_steady:
  assumes "\<not> fm_dead c" and "writes_ok op" and "framed_step False process op c = (c', ev)"
  shows "\<not> fm_dead c' \<and> length (wrote ev) = write_ticks [op]"
proof (cases op)
  case (FmRead res)
  then show ?thesis using assms by (cases res) (auto simp: framed_read_def write_ticks_def split: if_splits)
next
  case FmRelease
  then show ?thesis
    using assms by (auto simp: framed_release_def Let_def wrote_drops write_ticks_def split: prod.splits)
next
  case (FmWrite ok)
  then show ?thesis
    using assms by (cases "fm_outbound c") (auto simp: framed_write_def writes_ok_def write_ticks_def Let_def)
qed

lemma framed_run_steady:
  "\<not> fm_dead c \<Longrightarrow> list_all writes_ok ops \<Longrightarrow> framed_run False process ops c = (c', ev) \<Longrightarrow>
   length (wrote ev) = write_ticks ops"
proof (induction ops arbitrary: c ev)
  case (Cons op ops)
  obtain c1 ev1 where s: "framed_step False process op c = (c1, ev1)" by (rule prod.exhaust)
  obtain ev2 where r: "framed_run False process ops c1 = (c', ev2)" "ev = ev1 @ ev2"
    using Cons.prems(3) s by (auto simp: Let_def split: prod.splits)
  show ?case
    using framed_step_steady [OF Cons.prems(1) _ s] Cons.prems(2) Cons.IH [OF _ _ r(1)] r(2)
    by (auto simp: write_ticks_def)
qed (simp add: write_ticks_def)

section \<open>Watchdog\<close>

text \<open>Times are \<open>int\<close> nanoseconds; the clock readings of \<open>Touch\<close> and of each poll are arguments.\<close>

record watchdog =
  wd_timeout :: int
  wd_deadTimeout :: int
  wd_lastPkt :: int
  wd_closed :: bool

datatype wd_event = WatchdogTimeout | DeadClosed

definition NewWatchdog :: "int \<Rightarrow> int \<Rightarrow> int \<Rightarrow> watchdog" where
  "NewWatchdog timeout deadTimeout now = \<lparr>wd_timeout = timeout, wd_deadTimeout = deadTimeout,
     wd_lastPkt = now, wd_closed = False\<rparr>"

definition wd_Touch :: "int \<Rightarrow> watchdog \<Rightarrow> watchdog" where
  "wd_Touch now w = w\<lparr>wd_lastPkt := now\<rparr>"

definition wd_poll :: "int \<Rightarrow> watchdog \<Rightarrow> watchdog \<times> wd_event list" where
  "wd_poll now w =
     (let since = now - wd_lastPkt w;
          ev = (if since \<ge> wd_timeout w then [WatchdogTimeout] else [])
      in if wd_deadTimeout w > 0 \<and> since \<ge> wd_deadTimeout w then
           if wd_closed w then (w, ev) else (w\<lparr>wd_closed := True\<rparr>, ev @ [DeadClosed])
         else (w, ev))"

datatype wd_op = WdTouch int | WdPoll int

fun wd_run :: "wd_op list \<Rightarrow> watchdog \<Rightarrow> watchdog \<times> wd_event list" where
  "wd_run [] w = (w, [])"
| "wd_run (WdTouch now # ops) w = wd_run ops (wd_Touch now w)"
| "wd_run (WdPoll now # ops) w =
     (let (w, ev) = wd_poll now w; (w, ev') = wd_run ops w in (w, ev @ ev'))"

text \<open>Some poll of the run finds \<open>d\<close> or more without a packet, the last one at \<open>last\<close>.\<close>

fun silent_for :: "int \<Rightarrow> int \<Rightarrow> wd_op list \<Rightarrow> bool" where
  "silent_for d since [] = False"
| "silent_for d since (WdTouch now # ops) = silent_for d now ops"
| "silent_for d since (WdPoll now # ops) = (d \<le> now - since \<or> silent_for d since ops)"

lemma wd_run_dead:
  "count (mset (snd (wd_run ops w))) DeadClosed =
     (if \<not> wd_closed w \<and> 0 < wd_deadTimeout w \<and> silent_for (wd_deadTimeout w) (wd_lastPkt w) ops
      then 1 else 0)"
proof (induction ops arbitrary: w)
  case (Cons op ops)
  show ?case
  proof (cases op)
    case (WdTouch now)
    with Cons [of "wd_Touch now w"] show ?thesis by (simp add: wd_Touch_def)
  next
    case (WdPoll now)
    with Cons [of "fst (wd_poll now w)"] show ?thesis
      by (auto simp: wd_poll_def Let_def split: prod.splits if_splits)
  qed
qed simp

section \<open>Properties\<close>

text \<open>C37: the RTP pipeline, for any handler that keeps the frame contract and any interleaving of
  its three goroutines: it never panics, builds exactly one packet per write tick whatever arrived
  or not, every payload is one 640-byte frame, the packets are one run of the sender, and the
  outbound queue never exceeds its five slots.\<close>

theorem rtp_pipeline_paced:
  assumes "frame_handler process hinv" and "hinv h" and "1 \<le> n" and "n < 32768"
  shows "\<exists>c ev sops.
    rtp_run process unmarshal marshal udp ops (NewCallMedia n fw tw (NewSender ssrc seq ts) h) = Some (c, ev)
    \<and> built ev = snd (sender_run sops (NewSender ssrc seq ts))
    \<and> length (built ev) = rtp_writes ops
    \<and> list_all (\<lambda>pkt. frame_ok (pk_Payload pkt)) (built ev)
    \<and> length (rm_outbound c) \<le> queueCap"
proof -
  obtain c ev sops where r:
    "rtp_run process unmarshal marshal udp ops (NewCallMedia n fw tw (NewSender ssrc seq ts) h) = Some (c, ev)"
    "rtp_inv hinv c" "built ev = snd (sender_run sops (NewSender ssrc seq ts))"
    "length (ticks sops) = rtp_writes ops" "list_all frame_ok (ticks sops)"
    using frame_handler.rtp_run_sender [OF assms(1) rtp_inv_new [OF assms(3,4), of hinv h fw tw "NewSender ssrc seq ts"]]
      assms(2) by (fastforce simp: NewCallMedia_def)
  have "list_all (\<lambda>pkt. frame_ok (pk_Payload pkt)) (built ev)"
    using r(5) sender_run_nth [of _ sops "NewSender ssrc seq ts"]
    by (simp add: list_all_length r(3) sender_run_length Let_def)
  then show ?thesis
    using r by (intro exI [of _ c] exI [of _ ev] exI [of _ sops]) (simp add: rtp_inv_def sender_run_length)
qed

theorem rtp_pipeline_paced_witness:
  "\<exists>c ev sops. rtp_run (Mix_ProcessFrame Loopback_ProcessFrame) (\<lambda>b. Inl []) (\<lambda>p. Inr [])
      (\<lambda>b a. UdpOk) [RtpRelease, RtpWrite, RtpRead [1] True, RtpWrite]
      (NewCallMedia 3 LittleEndian LittleEndian (NewSender 1 2 3) (NewMixRecorder ())) = Some (c, ev)
    \<and> built ev = snd (sender_run sops (NewSender 1 2 3)) \<and> length (built ev) = 2"
proof -
  have "mix_inv (\<lambda>h. True) (NewMixRecorder ())" by (rule mix_inv_new) simp
  from rtp_pipeline_paced [OF rec_loopback.mix.frame_handler_axioms this, of 3
      "\<lambda>b. Inl []" "\<lambda>p. Inr []" "\<lambda>b a. UdpOk" "[RtpRelease, RtpWrite, RtpRead [1] True, RtpWrite]"
      LittleEndian LittleEndian 1 2 3]
  show ?thesis by (auto simp: rtp_writes_def)
qed

text \<open>A quiet wire (earshot) never gets filler: whatever the interleaving of reads, releases and
  writes, what is written is a subsequence, in order, of the frames the handler produced for the
  inbound frames it was given.\<close>

theorem quiet_wire_no_filler:
  assumes "framed_run True process ops (newFramedCallMedia to h) = (c, ev)"
  shows "subseq (wrote ev) (map (\<lambda>f. FromLE f to) (concat (snd (handler_run process (recorded ev) h))))"
  using framed_run_subseq [OF assms] by (simp add: newFramedCallMedia_def step_frames_def)

theorem quiet_wire_no_filler_witness:
  "subseq (wrote (snd (framed_run True Loopback_ProcessFrame
      [FmRead (GotFrame [5]), FmWrite (\<lambda>f. True), FmRelease, FmWrite (\<lambda>f. True)]
      (newFramedCallMedia LittleEndian ())))) [[5]]"
proof -
  have "framed_run True Loopback_ProcessFrame
      [FmRead (GotFrame [5]), FmWrite (\<lambda>f. True), FmRelease, FmWrite (\<lambda>f. True)]
      (newFramedCallMedia LittleEndian ())
    = (newFramedCallMedia LittleEndian (),
       [PacketIn 1, Touch, RecordOut silentFrame, RecordIn [5], AudioLevel [5], Publish [5],
        RecordOut [5], WroteFrame [5], PacketOut])"
    by (simp add: newFramedCallMedia_def framed_read_def framed_write_def framed_release_def
        Loopback_ProcessFrame_def try_send_def queueCap_def Let_def FromLE_def)
  from quiet_wire_no_filler [OF this] this show ?thesis
    by (simp add: Loopback_ProcessFrame_def FromLE_def)
qed

text \<open>A steady wire (AudioSocket) gets exactly one whole frame per write tick while its writes
  succeed; and after one failed write nothing is ever written again.\<close>

theorem steady_wire:
  assumes "frame_handler process hinv" and "framed_inv hinv c" and "list_all read_ok ops"
    and "framed_run False process ops c = (c', ev)"
  shows "list_all frame_ok (wrote ev)
    \<and> (list_all writes_ok ops \<and> \<not> fm_dead c \<longrightarrow> length (wrote ev) = write_ticks ops)
    \<and> (fm_dead c \<longrightarrow> wrote ev = [])"
  using frame_handler.framed_run_inv [OF assms] framed_run_steady [OF _ _ assms(4)] by simp

theorem steady_wire_witness:
  "length (wrote (snd (framed_run False Silent_ProcessFrame [FmRelease, FmWrite (\<lambda>f. True)]
      (newFramedCallMedia LittleEndian ())))) = 1"
proof -
  obtain c ev where run: "framed_run False Silent_ProcessFrame [FmRelease, FmWrite (\<lambda>f. True)]
      (newFramedCallMedia LittleEndian ()) = (c, ev)" by (rule prod.exhaust)
  show ?thesis
    using steady_wire [OF silent.frame_handler_axioms _ _ run] unfolding run
    by (simp add: newFramedCallMedia_def framed_inv_def read_ok_def writes_ok_def write_ticks_def)
qed

text \<open>The dead-call signal: over any run of packets and polls \<open>Dead\<close> is closed exactly once if
  some poll finds inbound media silent for \<open>deadTimeout\<close> or longer, and never otherwise, nor when the
  timeout is 0.\<close>

theorem dead_call_declared_once:
  "count (mset (snd (wd_run ops (NewWatchdog t d now)))) DeadClosed
     = (if 0 < d \<and> silent_for d now ops then 1 else 0)"
  unfolding wd_run_dead by (simp add: NewWatchdog_def)

end
