(* ===== verification/Stt_Gate.thy ===== *)
theory Stt_Gate
  imports Frame_Handler "HOL-Library.Sublist"
begin

text \<open>
  \<open>internal/ai/agent/sttgate.go\<close>: which of the caller's frames reach the STT. The ring buffer of
  the last frames is modelled slot by slot; times are \<open>int\<close> nanoseconds, 0 being the zero
  \<open>time.Time\<close>. \<open>feed\<close> is the STT connection's answer to a send. What is sent is returned as a list,
  keepalive silence apart from frames.
\<close>

definition gateFrameDur :: int where "gateFrameDur = 20000000"
definition gateKeepalive :: int where "gateKeepalive = 20000000000"
definition gateKeepaliveChunk :: int where "gateKeepaliveChunk = 100000000"
definition gateVoicedWindow :: int where "gateVoicedWindow = 100000000"

datatype gateWhy = GateQuiet | GateVAD | GateRMS

datatype sent = SentFrame "byte list" | SentSilence "byte list"

fun sent_bytes :: "sent \<Rightarrow> byte list" where
  "sent_bytes (SentFrame f) = f"
| "sent_bytes (SentSilence f) = f"

record stt_gate =
  sg_hangover :: int
  sg_ring :: "byte list list"
  sg_head :: nat
  sg_count :: nat
  sg_open :: bool
  sg_lastVoiced :: int
  sg_lastSent :: int
  sg_silence :: "byte list"
  sg_sent :: nat

definition newSTTGate :: "int \<Rightarrow> int \<Rightarrow> int \<Rightarrow> stt_gate" where
  "newSTTGate preroll hangover now =
     (let frames = max 1 (preroll div gateFrameDur) in
      \<lparr>sg_hangover = hangover, sg_ring = replicate (nat frames) [], sg_head = 0, sg_count = 0,
       sg_open = False, sg_lastVoiced = 0, sg_lastSent = now,
       sg_silence = replicate (nat (gateKeepaliveChunk div gateFrameDur) * FrameSize) 0, sg_sent = 0\<rparr>)"

definition gate_send :: "(byte list \<Rightarrow> string option) \<Rightarrow> sent \<Rightarrow> int \<Rightarrow> stt_gate
    \<Rightarrow> stt_gate \<times> string option \<times> sent list" where
  "gate_send feed s now g =
     (g\<lparr>sg_sent := sg_sent g + length (sent_bytes s), sg_lastSent := now\<rparr>, feed (sent_bytes s), [s])"

definition gate_push :: "byte list \<Rightarrow> stt_gate \<Rightarrow> stt_gate" where
  "gate_push pcm g = g\<lparr>sg_ring := (sg_ring g)[sg_head g := pcm],
     sg_head := (sg_head g + 1) mod length (sg_ring g),
     sg_count := min (sg_count g + 1) (length (sg_ring g))\<rparr>"

text \<open>The loop of \<open>sendPreroll\<close> over the indices still to send.\<close>

fun preroll_loop :: "(byte list \<Rightarrow> string option) \<Rightarrow> nat list \<Rightarrow> int \<Rightarrow> stt_gate
    \<Rightarrow> stt_gate \<times> string option \<times> sent list" where
  "preroll_loop feed [] now g = (g, None, [])"
| "preroll_loop feed (idx # is) now g =
     (let (g, err, out) = gate_send feed (SentFrame (sg_ring g ! idx)) now g;
          (g, err', out') = preroll_loop feed is now g
      in (g, if err \<noteq> None then err else err', out @ out'))"

definition ring_index :: "stt_gate \<Rightarrow> nat \<Rightarrow> nat" where
  "ring_index g i = (sg_head g + length (sg_ring g) + i - sg_count g) mod length (sg_ring g)"

definition sendPreroll :: "(byte list \<Rightarrow> string option) \<Rightarrow> int \<Rightarrow> stt_gate
    \<Rightarrow> stt_gate \<times> string option \<times> sent list" where
  "sendPreroll feed now g =
     (let (g, err, out) = preroll_loop feed (map (ring_index g) [0..<sg_count g]) now g
      in (g\<lparr>sg_count := 0\<rparr>, err, out))"

definition gate_frame :: "(byte list \<Rightarrow> string option) \<Rightarrow> int \<Rightarrow> gateWhy \<Rightarrow> byte list \<Rightarrow> stt_gate
    \<Rightarrow> stt_gate \<times> string option \<times> sent list" where
  "gate_frame feed now why pcm g =
     (let voiced = (why \<noteq> GateQuiet);
          g = (if voiced then g\<lparr>sg_lastVoiced := now\<rparr> else g);
          g = (if sg_open g \<and> now - sg_lastVoiced g > sg_hangover g then g\<lparr>sg_open := False\<rparr> else g)
      in if sg_open g then gate_send feed (SentFrame pcm) now g
         else if voiced then
           let g = g\<lparr>sg_open := True\<rparr>;
               (g, err, out) = sendPreroll feed now g;
               (g, e, out') = gate_send feed (SentFrame pcm) now g
           in (g, if err = None then e else err, out @ out')
         else
           let g = gate_push pcm g in
           if now - sg_lastSent g \<ge> gateKeepalive then gate_send feed (SentSilence (sg_silence g)) now g
           else (g, None, []))"

text \<open>\<open>STTGateConfig.voiced\<close>; \<open>loud\<close> is \<open>RMSFloor > 0 \<and> RMS(pcm) \<ge> RMSFloor\<close> (a float comparison).\<close>

definition gate_voiced :: "(byte list \<Rightarrow> bool) \<Rightarrow> int \<Rightarrow> int \<Rightarrow> byte list \<Rightarrow> gateWhy" where
  "gate_voiced loud lastSpeech now pcm =
     (if lastSpeech \<noteq> 0 \<and> now - lastSpeech < gateVoicedWindow then GateVAD
      else if loud pcm then GateRMS else GateQuiet)"

fun gate_run :: "(byte list \<Rightarrow> string option) \<Rightarrow> (int \<times> gateWhy \<times> byte list) list \<Rightarrow> stt_gate
    \<Rightarrow> stt_gate \<times> sent list list" where
  "gate_run feed [] g = (g, [])"
| "gate_run feed ((now, why, pcm) # fs) g =
     (let (g, err, out) = gate_frame feed now why pcm g; (g, outs) = gate_run feed fs g in (g, out # outs))"

section \<open>The gate without the ring\<close>

text \<open>The abstract gate keeps the last \<open>n\<close> quiet frames as a list.\<close>

record gate_spec =
  gs_n :: nat
  gs_hangover :: int
  gs_kept :: "byte list list"
  gs_open :: bool
  gs_lastVoiced :: int
  gs_lastSent :: int

definition last_n :: "nat \<Rightarrow> 'a list \<Rightarrow> 'a list" where
  "last_n n xs = drop (length xs - n) xs"

definition spec_frame :: "int \<Rightarrow> gateWhy \<Rightarrow> byte list \<Rightarrow> byte list \<Rightarrow> gate_spec \<Rightarrow> gate_spec \<times> sent list" where
  "spec_frame now why sil pcm s =
     (let voiced = (why \<noteq> GateQuiet);
          lv = (if voiced then now else gs_lastVoiced s);
          op = gs_open s \<and> now - lv \<le> gs_hangover s;
          s = s\<lparr>gs_lastVoiced := lv, gs_open := op\<rparr>
      in if op then (s\<lparr>gs_lastSent := now\<rparr>, [SentFrame pcm])
         else if voiced then
           (s\<lparr>gs_open := True, gs_lastSent := now, gs_kept := []\<rparr>, map SentFrame (gs_kept s) @ [SentFrame pcm])
         else
           let s = s\<lparr>gs_kept := last_n (gs_n s) (gs_kept s @ [pcm])\<rparr> in
           if now - gs_lastSent s \<ge> gateKeepalive then (s\<lparr>gs_lastSent := now\<rparr>, [SentSilence sil])
           else (s, []))"

definition gate_wf :: "stt_gate \<Rightarrow> bool" where
  "gate_wf g \<longleftrightarrow> 0 < length (sg_ring g) \<and> sg_head g < length (sg_ring g) \<and> sg_count g \<le> length (sg_ring g)"

definition ring_frames :: "stt_gate \<Rightarrow> byte list list" where
  "ring_frames g = map (\<lambda>i. sg_ring g ! ring_index g i) [0..<sg_count g]"

definition gate_abs :: "stt_gate \<Rightarrow> gate_spec" where
  "gate_abs g = \<lparr>gs_n = length (sg_ring g), gs_hangover = sg_hangover g, gs_kept = ring_frames g,
     gs_open = sg_open g, gs_lastVoiced = sg_lastVoiced g, gs_lastSent = sg_lastSent g\<rparr>"

lemma preroll_loop_eq:
  "preroll_loop feed is now g = (g', err, out) \<Longrightarrow>
   out = map (\<lambda>i. SentFrame (sg_ring g ! i)) is
   \<and> sg_sent g' = sg_sent g + sum_list (map (\<lambda>i. length (sg_ring g ! i)) is)
   \<and> g' = g\<lparr>sg_sent := sg_sent g', sg_lastSent := (if is = [] then sg_lastSent g else now)\<rparr>"
proof (induction "is" arbitrary: g err out)
  case (Cons i "is")
  let ?g = "g\<lparr>sg_sent := sg_sent g + length (sg_ring g ! i), sg_lastSent := now\<rparr>"
  obtain e o' where r: "preroll_loop feed is now ?g = (g', e, o')" "out = SentFrame (sg_ring g ! i) # o'"
    using Cons.prems by (auto simp: gate_send_def Let_def split: prod.splits)
  from Cons.IH [OF r(1)] r(2) show ?case by (auto split: if_splits)
qed simp

lemma ring_index_bound: "gate_wf g \<Longrightarrow> ring_index g i < length (sg_ring g)"
  by (simp add: ring_index_def gate_wf_def)

lemma gate_push_wf [invs]: "gate_wf g \<Longrightarrow> gate_wf (gate_push pcm g)"
  by (auto simp: gate_wf_def gate_push_def)

text \<open>The slots of the ring in order, addressed from the head.\<close>

lemma ring_room:
  fixes n :: nat
  assumes "c \<le> n" and "0 < n"
  shows "c < n + (i + (c + 1 - min (c + 1) n))"
  using assms by (cases "c < n") (simp_all add: min_def)

lemma ring_shift:
  fixes n :: nat
  assumes "c \<le> n" and "0 < n" and "i < min (c + 1) n" and "i \<noteq> min (c + 1) n - 1"
  shows "h + 1 + n + i - min (c + 1) n = h + n + (i + (c + 1 - min (c + 1) n)) - c
    \<and> i + (c + 1 - min (c + 1) n) < c"
proof (cases "c < n")
  case True
  then have "min (c + 1) n = c + 1" by simp
  then show ?thesis using assms True by (simp only:) linarith
next
  case False
  then have "min (c + 1) n = n" "c = n" using assms by simp_all
  then show ?thesis using assms by (simp only:) linarith
qed

lemma ring_other:
  fixes n :: nat
  assumes "h < n" and "k < c" and "c < n + k"
  shows "(h + n + k - c) mod n \<noteq> h"
proof (cases "c \<le> h + k")
  case True
  then have "h + n + k - c = n + (h + k - c)" by simp
  moreover have "(n + (h + k - c)) mod n = h + k - c" using assms by (simp only: mod_add_self1) simp
  ultimately have "(h + n + k - c) mod n = h + k - c" by simp
  then show ?thesis using assms True by simp
next
  case False
  then have "(h + n + k - c) mod n = h + n + k - c" using assms by simp
  then show ?thesis using assms by linarith
qed

lemma ring_index_push:
  assumes "gate_wf g" and "i < sg_count (gate_push pcm g)"
  shows "sg_ring (gate_push pcm g) ! ring_index (gate_push pcm g) i
    = (if i = sg_count (gate_push pcm g) - 1 then pcm
       else sg_ring g ! ring_index g (i + (sg_count g + 1 - sg_count (gate_push pcm g))))"
proof -
  let ?n = "length (sg_ring g)" and ?h = "sg_head g" and ?c = "sg_count g"
  let ?c' = "min (?c + 1) ?n" and ?h' = "(?h + 1) mod ?n"
  have b: "0 < ?n" "?h < ?n" "?c \<le> ?n" "i < ?c'" using assms by (auto simp: gate_wf_def gate_push_def)
  have head: "(?h' + ?n + i - ?c') mod ?n = (?h + 1 + ?n + i - ?c') mod ?n"
  proof (cases "?h + 1 = ?n")
    case True
    then have "?h' = 0" by simp
    moreover have "?h + 1 + ?n + i - ?c' = ?n + (?n + i - ?c')" using b True by simp
    ultimately show ?thesis by (simp only: mod_add_self1 add_0)
  qed (use b in simp)
  have idx: "ring_index (gate_push pcm g) i = (?h + 1 + ?n + i - ?c') mod ?n"
    using head by (simp add: ring_index_def gate_push_def)
  show ?thesis
  proof (cases "i = ?c' - 1")
    case True
    then have "?h + 1 + ?n + i - ?c' = ?h + ?n" using b by simp
    then have "ring_index (gate_push pcm g) i = ?h" using idx b by simp
    then show ?thesis using True b by (simp add: gate_push_def)
  next
    case False
    let ?k = "i + (?c + 1 - ?c')"
    have k: "?h + 1 + ?n + i - ?c' = ?h + ?n + ?k - ?c" "?k < ?c"
      using ring_shift [OF b(3,1,4) False, of ?h] by simp_all
    then have eq: "ring_index (gate_push pcm g) i = ring_index g ?k"
      unfolding idx k(1) by (simp only: ring_index_def)
    have "ring_index g ?k \<noteq> ?h"
      using ring_other [OF b(2) k(2) ring_room [OF b(3,1), of i]] by (simp add: ring_index_def)
    then show ?thesis using False eq by (simp add: gate_push_def)
  qed
qed

lemma last_n_snoc:
  assumes "0 < n" and "length xs \<le> n"
  shows "last_n n (xs @ [x]) = (if length xs < n then xs @ [x] else tl xs @ [x])"
proof (cases "length xs < n")
  case False
  then obtain y ys where "xs = y # ys" "length xs = n" using assms by (cases xs) auto
  then show ?thesis by (simp add: last_n_def)
qed (simp add: last_n_def)

lemma ring_frames_push:
  assumes "gate_wf g"
  shows "ring_frames (gate_push pcm g) = last_n (length (sg_ring g)) (ring_frames g @ [pcm])"
proof -
  let ?f = "\<lambda>i. sg_ring g ! ring_index g i" and ?c = "sg_count g" and ?n = "length (sg_ring g)"
  have b: "0 < ?n" "?c \<le> ?n" using assms by (auto simp: gate_wf_def)
  have c: "sg_count (gate_push pcm g) = min (?c + 1) ?n" by (simp add: gate_push_def)
  have nth: "ring_frames (gate_push pcm g) ! i =
      (if i = min (?c + 1) ?n - 1 then pcm else ?f (i + (?c + 1 - min (?c + 1) ?n)))"
    if "i < min (?c + 1) ?n" for i
    using ring_index_push [OF assms, of i pcm] that c by (simp add: ring_frames_def)
  have "ring_frames (gate_push pcm g) = (if ?c < ?n then ring_frames g @ [pcm] else tl (ring_frames g) @ [pcm])"
  proof (cases "?c < ?n")
    case True
    then have "ring_frames (gate_push pcm g) = ring_frames g @ [pcm]"
      using nth c by (intro nth_equalityI) (auto simp: ring_frames_def nth_append)
    with True show ?thesis by simp
  next
    case False
    with b have "?c = ?n" by simp
    then have "ring_frames (gate_push pcm g) = tl (ring_frames g) @ [pcm]"
      using nth c b by (intro nth_equalityI) (auto simp: ring_frames_def nth_append nth_tl)
    with False show ?thesis by simp
  qed
  then show ?thesis using last_n_snoc [OF b(1), of "ring_frames g" pcm] b(2) by (simp add: ring_frames_def)
qed

lemma gate_send_abs: "gate_send feed s now g = (g', err, out) \<Longrightarrow>
   gate_abs g' = (gate_abs g)\<lparr>gs_lastSent := now\<rparr> \<and> out = [s] \<and> (gate_wf g' \<longleftrightarrow> gate_wf g)
   \<and> sg_sent g' = sg_sent g + length (sent_bytes s) \<and> sg_silence g' = sg_silence g"
  by (auto simp: gate_send_def gate_abs_def gate_wf_def ring_frames_def ring_index_def)

lemma sendPreroll_abs: "sendPreroll feed now g = (g', err, out) \<Longrightarrow>
   gate_abs g' = (gate_abs g)\<lparr>gs_kept := [], gs_lastSent := (if ring_frames g = [] then sg_lastSent g else now)\<rparr>
   \<and> out = map SentFrame (ring_frames g) \<and> (gate_wf g \<longrightarrow> gate_wf g')
   \<and> sg_sent g' = sg_sent g + sum_list (map length (ring_frames g)) \<and> sg_silence g' = sg_silence g"
proof -
  assume s: "sendPreroll feed now g = (g', err, out)"
  obtain g1 where r: "preroll_loop feed (map (ring_index g) [0..<sg_count g]) now g = (g1, err, out)"
    "g' = g1\<lparr>sg_count := 0\<rparr>"
    using s by (auto simp: sendPreroll_def Let_def split: prod.splits)
  note e = preroll_loop_eq [OF r(1)]
  have "g' = g\<lparr>sg_sent := sg_sent g1, sg_lastSent := (if ring_frames g = [] then sg_lastSent g else now), sg_count := 0\<rparr>"
    using e r(2) by (cases g) (auto simp: ring_frames_def)
  then show ?thesis
    using e by (auto simp: gate_abs_def gate_wf_def ring_frames_def comp_def)
qed

text \<open>One frame: the ring buffer does what the list of the last frames does.\<close>

lemma gate_frame_refines:
  assumes "gate_wf g" and "gate_frame feed now why pcm g = (g', err, out)"
  shows "(gate_abs g', out) = spec_frame now why (sg_silence g) pcm (gate_abs g) \<and> gate_wf g'
    \<and> sg_sent g' = sg_sent g + sum_list (map (\<lambda>s. length (sent_bytes s)) out) \<and> sg_silence g' = sg_silence g"
proof -
  define lv where "lv = (if why \<noteq> GateQuiet then now else sg_lastVoiced g)"
  define op where "op \<longleftrightarrow> sg_open g \<and> now - lv \<le> sg_hangover g"
  define G where "G = g\<lparr>sg_lastVoiced := lv, sg_open := op\<rparr>"
  have abs: "gate_abs G = (gate_abs g)\<lparr>gs_lastVoiced := lv, gs_open := op\<rparr>" "gate_wf G"
    using assms(1) by (auto simp: G_def gate_abs_def gate_wf_def ring_frames_def ring_index_def)
  have fieldsG: "sg_lastSent G = sg_lastSent g" "sg_silence G = sg_silence g" "sg_sent G = sg_sent g"
    "sg_ring G = sg_ring g" "ring_frames G = ring_frames g" "sg_hangover G = sg_hangover g"
    by (simp_all add: G_def ring_frames_def ring_index_def)
  have spec: "spec_frame now why sil pcm (gate_abs g) =
     (if op then ((gate_abs G)\<lparr>gs_lastSent := now\<rparr>, [SentFrame pcm])
      else if why \<noteq> GateQuiet then ((gate_abs G)\<lparr>gs_open := True, gs_lastSent := now, gs_kept := []\<rparr>,
        map SentFrame (ring_frames g) @ [SentFrame pcm])
      else let s = (gate_abs G)\<lparr>gs_kept := last_n (length (sg_ring g)) (ring_frames g @ [pcm])\<rparr> in
        if now - sg_lastSent g \<ge> gateKeepalive then (s\<lparr>gs_lastSent := now\<rparr>, [SentSilence sil]) else (s, []))" for sil
    unfolding spec_frame_def Let_def abs(1) by (simp add: gate_abs_def lv_def op_def)
  have frame: "gate_frame feed now why pcm g =
     (if op then gate_send feed (SentFrame pcm) now G
      else if why \<noteq> GateQuiet then
        let (g, err, out) = sendPreroll feed now (G\<lparr>sg_open := True\<rparr>);
            (g, e, out') = gate_send feed (SentFrame pcm) now g
        in (g, if err = None then e else err, out @ out')
      else
        let g = gate_push pcm G in
        if now - sg_lastSent g \<ge> gateKeepalive then gate_send feed (SentSilence (sg_silence g)) now g
        else (g, None, []))"
    by (cases g) (auto simp: gate_frame_def Let_def G_def op_def lv_def)
  consider (opened) "op" | (starting) "\<not> op" "why \<noteq> GateQuiet" | (closed) "\<not> op" "why = GateQuiet" by blast
  then show ?thesis
  proof cases
    case opened
    then have "gate_send feed (SentFrame pcm) now G = (g', err, out)" using frame assms(2) by simp
    from gate_send_abs [OF this] abs(2) opened fieldsG show ?thesis by (simp add: spec)
  next
    case starting
    obtain g1 err1 out1 where p: "sendPreroll feed now (G\<lparr>sg_open := True\<rparr>) = (g1, err1, out1)"
      by (rule prod_cases3)
    obtain err2 out2 where s: "gate_send feed (SentFrame pcm) now g1 = (g', err2, out2)" "out = out1 @ out2"
      using frame assms(2) starting p by (auto simp: Let_def split: prod.splits)
    have "ring_frames (G\<lparr>sg_open := True\<rparr>) = ring_frames g" "gate_wf (G\<lparr>sg_open := True\<rparr>)"
      "gate_abs (G\<lparr>sg_open := True\<rparr>) = (gate_abs G)\<lparr>gs_open := True\<rparr>"
      using abs(2) fieldsG(5) by (auto simp: ring_frames_def ring_index_def gate_wf_def gate_abs_def)
    with sendPreroll_abs [OF p] gate_send_abs [OF s(1)] s(2) starting fieldsG show ?thesis
      by (simp add: spec comp_def)
  next
    case closed
    have push: "gate_abs (gate_push pcm G) = (gate_abs G)\<lparr>gs_kept := last_n (length (sg_ring g)) (ring_frames g @ [pcm])\<rparr>"
      using ring_frames_push [OF abs(2), of pcm] fieldsG
      by (simp add: gate_abs_def) (simp add: gate_push_def)
    have wf: "gate_wf (gate_push pcm G)" using abs(2) by (rule gate_push_wf)
    have nq: "\<not> why \<noteq> GateQuiet" using closed(2) by simp
    have f: "(g', err, out) =
      (if now - sg_lastSent (gate_push pcm G) \<ge> gateKeepalive
       then gate_send feed (SentSilence (sg_silence (gate_push pcm G))) now (gate_push pcm G)
       else (gate_push pcm G, None, []))"
      using assms(2) unfolding frame if_not_P [OF closed(1)] if_not_P [OF nq] Let_def by (rule sym)
    have fields: "sg_lastSent (gate_push pcm G) = sg_lastSent g" "sg_silence (gate_push pcm G) = sg_silence g"
      "sg_sent (gate_push pcm G) = sg_sent g"
      by (simp_all add: gate_push_def fieldsG)
    show ?thesis
    proof (cases "now - sg_lastSent g \<ge> gateKeepalive")
      case True
      then have "gate_send feed (SentSilence (sg_silence g)) now (gate_push pcm G) = (g', err, out)"
        using f unfolding fields if_P [OF True] by simp
      from gate_send_abs [OF this] push wf closed True fields show ?thesis
        unfolding spec if_not_P [OF closed(1)] if_not_P [OF nq] by (simp add: Let_def)
    next
      case False
      then have "g' = gate_push pcm G" "out = []"
        using f unfolding fields if_not_P [OF False] by simp_all
      with push wf closed False fields show ?thesis
        unfolding spec if_not_P [OF closed(1)] if_not_P [OF nq] by (simp add: Let_def)
    qed
  qed
qed

section \<open>Runs\<close>

fun spec_run :: "byte list \<Rightarrow> (int \<times> gateWhy \<times> byte list) list \<Rightarrow> gate_spec \<Rightarrow> gate_spec \<times> sent list list" where
  "spec_run sil [] s = (s, [])"
| "spec_run sil ((now, why, pcm) # fs) s =
     (let (s, out) = spec_frame now why sil pcm s; (s, outs) = spec_run sil fs s in (s, out # outs))"

lemma gate_run_refines:
  assumes "gate_wf g" and "gate_run feed fs g = (g', outs)"
  shows "spec_run (sg_silence g) fs (gate_abs g) = (gate_abs g', outs)
    \<and> sg_sent g' = sg_sent g + sum_list (map (\<lambda>s. length (sent_bytes s)) (concat outs))"
  using assms
proof (induction fs arbitrary: g outs)
  case (Cons f fs)
  obtain now why pcm where f: "f = (now, why, pcm)" by (cases f)
  obtain g1 err out where s: "gate_frame feed now why pcm g = (g1, err, out)" by (rule prod_cases3)
  obtain outs1 where r: "gate_run feed fs g1 = (g', outs1)" "outs = out # outs1"
    using Cons.prems(2) f s by (auto simp: Let_def split: prod.splits)
  note st = gate_frame_refines [OF Cons.prems(1) s]
  show ?case
    using Cons.IH [OF _ r(1)] st r(2) f by (auto simp: Let_def split: prod.split)
qed simp

text \<open>The caller's frames among what was sent.\<close>

definition real_frames :: "sent list \<Rightarrow> byte list list" where
  "real_frames out = concat (map (\<lambda>s. case s of SentFrame f \<Rightarrow> [f] | SentSilence f \<Rightarrow> []) out)"

lemma real_frames_simps [simp]:
  "real_frames [] = []" "real_frames (SentFrame f # out) = f # real_frames out"
  "real_frames (SentSilence f # out) = real_frames out" "real_frames (a @ b) = real_frames a @ real_frames b"
  "real_frames (map SentFrame fs) = fs"
  by (simp_all add: real_frames_def) (induction fs, simp_all)

lemma suffix_last_n: "suffix (last_n n xs) xs"
  by (simp add: last_n_def suffix_drop)

lemma length_last_n: "length (last_n n xs) = min n (length xs)"
  by (simp add: last_n_def)

lemma last_n_small: "length xs \<le> n \<Longrightarrow> last_n n xs = xs"
  by (simp add: last_n_def)

text \<open>\<open>xs\<close> are the frames heard so far, \<open>R\<close> those of them sent.\<close>

definition gate_hist :: "byte list list \<Rightarrow> byte list list \<Rightarrow> gate_spec \<Rightarrow> bool" where
  "gate_hist xs R s \<longleftrightarrow> suffix (last_n (gs_n s) xs) (R @ gs_kept s) \<and> subseq (R @ gs_kept s) xs
     \<and> (gs_open s \<longrightarrow> gs_kept s = [])"

lemma subseq_prefix: "subseq xs (xs @ ys)"
  by (rule prefix_imp_subseq) simp

lemma gate_hist_step:
  assumes h: "gate_hist xs R s" and sp: "spec_frame now why sil pcm s = (s', out)"
  shows "gate_hist (xs @ [pcm]) (R @ real_frames out) s' \<and> gs_n s' = gs_n s
    \<and> (why \<noteq> GateQuiet \<longrightarrow> suffix (last_n (gs_n s) xs @ [pcm]) (R @ real_frames out))"
proof -
  let ?n = "gs_n s"
  have suf: "suffix (last_n ?n xs @ [pcm]) (R @ gs_kept s @ [pcm])"
    using h by (auto simp: gate_hist_def suffix_def)
  have sub: "subseq (R @ gs_kept s @ [pcm]) (xs @ [pcm])"
    using h list_emb_append_mono [of "(=)" "R @ gs_kept s" xs "[pcm]" "[pcm]"] by (simp add: gate_hist_def)
  have "suffix (last_n ?n (xs @ [pcm])) (last_n ?n xs @ [pcm])"
  proof (rule suffix_length_suffix [of _ "xs @ [pcm]"])
    show "suffix (last_n ?n xs @ [pcm]) (xs @ [pcm])"
      using suffix_last_n [of ?n xs] by (auto simp: suffix_def)
    show "suffix (last_n ?n (xs @ [pcm])) (xs @ [pcm])" by (rule suffix_last_n)
  qed (simp add: length_last_n)
  then have suf': "suffix (last_n ?n (xs @ [pcm])) (R @ gs_kept s @ [pcm])"
    using suf by (rule suffix_order.order_trans)
  consider (sent) "real_frames out = gs_kept s @ [pcm]" "gs_kept s' = []" "gs_n s' = ?n"
    | (kept) "why = GateQuiet" "real_frames out = []" "gs_kept s' = last_n ?n (gs_kept s @ [pcm])"
        "gs_n s' = ?n" "\<not> gs_open s'"
    using h sp by (auto simp: spec_frame_def Let_def gate_hist_def split: if_splits)
  then show ?thesis
  proof cases
    case sent
    then show ?thesis using suf suf' sub by (simp add: gate_hist_def)
  next
    case kept
    let ?k = "last_n ?n (gs_kept s @ [pcm])"
    have "suffix (last_n ?n (xs @ [pcm])) (R @ ?k)"
    proof (cases "length (gs_kept s @ [pcm]) \<le> ?n")
      case True
      then show ?thesis using suf' by (simp only: last_n_small)
    next
      case False
      have "suffix ?k (R @ gs_kept s @ [pcm])"
        using suffix_last_n [of ?n "gs_kept s @ [pcm]"] by (rule suffix_appendI)
      then have "suffix (last_n ?n (xs @ [pcm])) ?k"
        using suf' False by (intro suffix_length_suffix [OF suf']) (simp_all add: length_last_n)
      then show ?thesis by (rule suffix_appendI)
    qed
    moreover have "subseq (R @ ?k) (xs @ [pcm])"
      using sub suffix_last_n [of ?n "gs_kept s @ [pcm]"]
      by (meson list_emb_append_mono subseq_order.order_refl subseq_order.order_trans suffix_imp_subseq)
    ultimately show ?thesis using kept by (simp add: gate_hist_def)
  qed
qed

lemma gate_hist_run:
  "gate_hist xs R s \<Longrightarrow> spec_run sil fs s = (s', outs) \<Longrightarrow>
   gate_hist (xs @ map (snd \<circ> snd) fs) (R @ real_frames (concat outs)) s' \<and> gs_n s' = gs_n s"
proof (induction fs arbitrary: xs R s outs)
  case (Cons f fs)
  obtain now why pcm where f: "f = (now, why, pcm)" by (cases f)
  obtain s1 out where st: "spec_frame now why sil pcm s = (s1, out)" by (rule prod.exhaust)
  obtain outs1 where r: "spec_run sil fs s1 = (s', outs1)" "outs = out # outs1"
    using Cons.prems(2) f st by (auto simp: Let_def split: prod.splits)
  note h = gate_hist_step [OF Cons.prems(1) st]
  then show ?case using Cons.IH [OF _ r(1), of "xs @ [pcm]" "R @ real_frames out"] r(2) f by simp
qed simp

lemma gate_run_append:
  "gate_run feed (a @ b) g = (let (g, x) = gate_run feed a g; (g, y) = gate_run feed b g in (g, x @ y))"
  by (induction a arbitrary: g) (auto simp: Let_def split: prod.split)

lemma gate_wf_new: "gate_wf (newSTTGate preroll hangover now)"
  by (auto simp: gate_wf_def newSTTGate_def Let_def)

lemma gate_hist_new: "gate_hist [] [] (gate_abs (newSTTGate preroll hangover now))"
  by (simp add: gate_hist_def gate_abs_def newSTTGate_def Let_def ring_frames_def last_n_def)

definition preroll_frames :: "int \<Rightarrow> nat" where
  "preroll_frames preroll = nat (max 1 (preroll div gateFrameDur))"

section \<open>Properties\<close>

text \<open>The ring buffer of the gate implements a plain list of the last frames: run for run, the
  frames and keepalives sent are those of the abstract gate, and the billed bytes are exactly the
  bytes sent.\<close>

theorem gate_refines_list:
  assumes "gate_run feed fs (newSTTGate preroll hangover now) = (g', outs)"
  shows "spec_run (sg_silence (newSTTGate preroll hangover now)) fs (gate_abs (newSTTGate preroll hangover now))
      = (gate_abs g', outs)
    \<and> sg_sent g' = sum_list (map (\<lambda>s. length (sent_bytes s)) (concat outs))"
  using gate_run_refines [OF gate_wf_new assms] by (simp add: newSTTGate_def Let_def)

theorem gate_refines_list_witness:
  "sg_sent (fst (gate_run (\<lambda>b. None) [(5, GateQuiet, [1, 2]), (6, GateVAD, [3, 4, 5])] (newSTTGate 0 9 0))) = 5"
proof -
  have run: "gate_run (\<lambda>b. None) [(5, GateQuiet, [1, 2]), (6, GateVAD, [3, 4, 5])] (newSTTGate 0 9 0)
      = (fst (gate_run (\<lambda>b. None) [(5, GateQuiet, [1, 2]), (6, GateVAD, [3, 4, 5])] (newSTTGate 0 9 0)),
         [[], [SentFrame [1, 2], SentFrame [3, 4, 5]]])"
    by (simp add: newSTTGate_def gate_frame_def gate_push_def sendPreroll_def gate_send_def Let_def
        ring_index_def gateKeepalive_def gateFrameDur_def)
  from gate_refines_list [OF run] show ?thesis by simp
qed

text \<open>No speech is lost or repeated: whatever the gate did before, when a frame counts as speech
  the STT has by then received that frame and, just before it and in order, the last
  \<open>Preroll\<close> worth of frames; and everything sent is a subsequence of what was heard.\<close>

theorem gate_keeps_speech:
  assumes "why \<noteq> GateQuiet"
    and "gate_run feed (fs @ [(t, why, pcm)]) (newSTTGate preroll hangover now) = (g', outs)"
  shows "suffix (last_n (preroll_frames preroll) (map (snd \<circ> snd) fs) @ [pcm]) (real_frames (concat outs))
    \<and> subseq (real_frames (concat outs)) (map (snd \<circ> snd) fs @ [pcm])"
proof -
  let ?g = "newSTTGate preroll hangover now"
  obtain g1 outs1 where r: "gate_run feed fs ?g = (g1, outs1)" by (rule prod.exhaust)
  obtain err out where l: "gate_frame feed t why pcm g1 = (g', err, out)" "outs = outs1 @ [out]"
    using assms(2) r by (auto simp: gate_run_append Let_def split: prod.splits)
  have n: "gs_n (gate_abs ?g) = preroll_frames preroll"
    by (simp add: gate_abs_def newSTTGate_def Let_def preroll_frames_def)
  note run = gate_run_refines [OF gate_wf_new r]
  note h = gate_hist_run [OF gate_hist_new run [THEN conjunct1]]
  have "gate_wf g1"
    using r gate_wf_new
  proof (induction fs arbitrary: g1 outs1 rule: rev_induct)
    case (snoc f fs)
    obtain g2 outs2 where r2: "gate_run feed fs ?g = (g2, outs2)" by (rule prod.exhaust)
    obtain t w p where f: "f = (t, w, p)" by (cases f)
    obtain err out where "gate_frame feed t w p g2 = (g1, err, out)"
      using snoc.prems(1) r2 f by (auto simp: gate_run_append Let_def split: prod.splits)
    from gate_frame_refines [OF snoc.IH [OF r2 snoc.prems(2)] this] show ?case by simp
  qed (use gate_wf_new in simp)
  from gate_frame_refines [OF this l(1)]
  have "spec_frame t why (sg_silence g1) pcm (gate_abs g1) = (gate_abs g', out)" by simp
  note st = gate_hist_step [OF h [THEN conjunct1] this]
  let ?R = "real_frames (concat outs)"
  have out: "[] @ real_frames (concat outs1) @ real_frames out = ?R" using l(2) by simp
  have "subseq ?R (?R @ gs_kept (gate_abs g'))" by (rule subseq_prefix) 
  moreover have "subseq (?R @ gs_kept (gate_abs g')) (map (snd \<circ> snd) fs @ [pcm])"
    using st by (simp add: gate_hist_def flip: out)
  ultimately have "subseq ?R (map (snd \<circ> snd) fs @ [pcm])" by (rule subseq_order.order_trans)
  moreover have "suffix (last_n (preroll_frames preroll) (map (snd \<circ> snd) fs) @ [pcm]) ?R"
    using st out h n assms(1) by simp
  ultimately show ?thesis by simp
qed

theorem gate_keeps_speech_witness:
  "suffix [[1, 2], [3, 4]] (real_frames (concat (snd (gate_run (\<lambda>b. None)
     ([(5, GateQuiet, [1, 2])] @ [(6, GateVAD, [3, 4])]) (newSTTGate 0 9 0)))))"
proof -
  obtain g' outs where run: "gate_run (\<lambda>b. None) ([(5, GateQuiet, [1, 2])] @ [(6, GateVAD, [3, 4])])
      (newSTTGate 0 9 0) = (g', outs)" by (rule prod.exhaust)
  show ?thesis
    using gate_keeps_speech [OF _ run] unfolding run
    by (simp add: preroll_frames_def gateFrameDur_def last_n_def)
qed

end
