(* ===== verification/Barge_In.thy ===== *)
theory Barge_In
  imports Frame_Handler
begin

text \<open>
  \<open>internal/ai/agent/bargein.go\<close> and \<open>bargein_ten.go\<close>: the detectors that decide, frame by frame,
  whether the caller talks over the agent. Both vote over a ring of the last verdicts; TEN VAD first
  re-buffers the 20ms frames into hops of 256 samples. The per-frame loudness test (a float
  comparison) and the native per-hop model are parameters.
\<close>

definition bargeInHistoryFrames :: nat where "bargeInHistoryFrames = 5"
definition bargeInVotesNeeded :: nat where "bargeInVotesNeeded = 3"

section \<open>The vote ring\<close>

record votes =
  vt_history :: "bool list"
  vt_idx :: nat

definition votes_reset :: votes where
  "votes_reset = \<lparr>vt_history = replicate bargeInHistoryFrames False, vt_idx = 0\<rparr>"

definition votes_put :: "bool \<Rightarrow> votes \<Rightarrow> votes" where
  "votes_put b v = \<lparr>vt_history = (vt_history v)[vt_idx v := b],
     vt_idx = (vt_idx v + 1) mod length (vt_history v)\<rparr>"

definition votes_result :: "votes \<Rightarrow> bool" where
  "votes_result v \<longleftrightarrow> length (filter (\<lambda>b. b) (vt_history v)) \<ge> bargeInVotesNeeded"

definition yes_of :: "bool list \<Rightarrow> nat" where
  "yes_of bs = length (filter (\<lambda>b. b) bs)"

definition last5 :: "bool list \<Rightarrow> bool list" where
  "last5 bs = drop (length bs - bargeInHistoryFrames) bs"

text \<open>The ring is the last five verdicts, rotated; before five it is filled up with \<open>False\<close>.\<close>

definition votes_are :: "bool list \<Rightarrow> votes \<Rightarrow> bool" where
  "votes_are bs v \<longleftrightarrow> length (vt_history v) = 5 \<and> vt_idx v < 5
     \<and> rotate (vt_idx v) (vt_history v) = drop (length bs) (replicate 5 False @ bs)"

lemma votes_are_reset: "votes_are [] votes_reset"
  by (simp add: votes_are_def votes_reset_def bargeInHistoryFrames_def)

lemma rotate_put:
  assumes "i < length xs"
  shows "rotate ((i + 1) mod length xs) (xs[i := b]) = tl (rotate i xs) @ [b]"
proof -
  have upd: "xs[i := b] = take i xs @ b # drop (Suc i) xs" using assms by (rule upd_conv_take_nth_drop)
  have r: "tl (rotate i xs) = drop (Suc i) xs @ take i xs"
    using assms by (simp add: rotate_drop_take drop_Suc tl_drop)
  show ?thesis
  proof (cases "Suc i < length xs")
    case True
    then have "rotate ((i + 1) mod length xs) (xs[i := b]) = drop (Suc i) (xs[i := b]) @ take (Suc i) (xs[i := b])"
      by (simp add: rotate_drop_take)
    also have "\<dots> = drop (Suc i) xs @ take i xs @ [b]" using assms by (simp add: upd)
    finally show ?thesis by (simp add: r)
  next
    case False
    then have n: "length xs = Suc i" using assms by simp
    then have "rotate ((i + 1) mod length xs) (xs[i := b]) = xs[i := b]" by (simp add: rotate_drop_take)
    then show ?thesis using n by (simp add: upd r)
  qed
qed

lemma votes_are_put: "votes_are bs v \<Longrightarrow> votes_are (bs @ [b]) (votes_put b v)"
proof -
  assume v: "votes_are bs v"
  let ?ys = "replicate 5 False @ bs"
  have "tl (drop (length bs) ?ys) @ [b] = drop (Suc (length bs)) ?ys @ [b]" by (simp only: drop_Suc tl_drop)
  also have "\<dots> = drop (Suc (length bs)) (?ys @ [b])" by (subst drop_append) simp
  finally have d: "tl (drop (length bs) ?ys) @ [b] = drop (length (bs @ [b])) (replicate 5 False @ bs @ [b])" by simp
  have l: "length (vt_history v) = 5" "vt_idx v < length (vt_history v)"
    and h: "rotate (vt_idx v) (vt_history v) = drop (length bs) ?ys" using v by (auto simp: votes_are_def)
  show ?thesis
    using rotate_put [OF l(2), of b] l unfolding votes_are_def votes_put_def h d by simp
qed

lemma yes_of_rotate: "yes_of (rotate n bs) = yes_of bs"
proof -
  have "yes_of (a @ b) = yes_of (b @ a)" for a b by (simp add: yes_of_def)
  then show ?thesis by (metis append_take_drop_id rotate_drop_take)
qed

lemma yes_of_pad: "yes_of (drop (length bs) (replicate 5 False @ bs)) = yes_of (last5 bs)"
proof (cases "length bs < 5")
  case True
  then show ?thesis by (simp add: yes_of_def last5_def bargeInHistoryFrames_def filter_replicate)
next
  case False
  then show ?thesis by (simp add: last5_def bargeInHistoryFrames_def)
qed

lemma votes_result_last5: "votes_are bs v \<Longrightarrow> votes_result v \<longleftrightarrow> 3 \<le> yes_of (last5 bs)"
  using yes_of_rotate [of "vt_idx v" "vt_history v"] yes_of_pad [of bs]
  by (simp add: votes_are_def votes_result_def yes_of_def bargeInVotesNeeded_def)

section \<open>EnergyDetector\<close>

record energy_detector =
  ed_votes :: votes

definition NewEnergyDetector :: energy_detector where
  "NewEnergyDetector = \<lparr>ed_votes = votes_reset\<rparr>"

text \<open>\<open>loud pcm\<close> is \<open>media.RMS(pcm) >= d.floor\<close>.\<close>

definition Energy_Detect :: "(byte list \<Rightarrow> bool) \<Rightarrow> byte list \<Rightarrow> energy_detector \<Rightarrow> energy_detector \<times> bool" where
  "Energy_Detect loud pcm d =
     (let v = votes_put (loud pcm) (ed_votes d) in (d\<lparr>ed_votes := v\<rparr>, votes_result v))"

definition Energy_Reset :: "energy_detector \<Rightarrow> energy_detector" where
  "Energy_Reset d = d\<lparr>ed_votes := votes_reset\<rparr>"

definition Noop_Detect :: "byte list \<Rightarrow> bool" where
  "Noop_Detect pcm = False"

fun energy_run :: "(byte list \<Rightarrow> bool) \<Rightarrow> byte list list \<Rightarrow> energy_detector \<Rightarrow> energy_detector \<times> bool list" where
  "energy_run loud [] d = (d, [])"
| "energy_run loud (f # fs) d =
     (let (d, r) = Energy_Detect loud f d; (d, rs) = energy_run loud fs d in (d, r # rs))"

lemma energy_run_votes:
  "votes_are bs (ed_votes d) \<Longrightarrow> energy_run loud fs d = (d', rs) \<Longrightarrow>
   votes_are (bs @ map loud fs) (ed_votes d')
   \<and> rs = map (\<lambda>k. 3 \<le> yes_of (last5 (bs @ map loud (take (Suc k) fs)))) [0..<length fs]"
proof (induction fs arbitrary: bs d rs)
  case (Cons f fs)
  let ?d = "d\<lparr>ed_votes := votes_put (loud f) (ed_votes d)\<rparr>"
  obtain rs' where r: "energy_run loud fs ?d = (d', rs')" "rs = votes_result (votes_put (loud f) (ed_votes d)) # rs'"
    using Cons.prems(2) by (auto simp: Energy_Detect_def Let_def split: prod.splits)
  have v: "votes_are (bs @ [loud f]) (votes_put (loud f) (ed_votes d))"
    using Cons.prems(1) by (rule votes_are_put)
  then have "votes_are (bs @ [loud f]) (ed_votes ?d)" by simp
  from Cons.IH [OF this r(1)] show ?case
    using r(2) votes_result_last5 [OF v] by (simp add: upt_conv_Cons map_Suc_upt [symmetric] comp_def del: upt_Suc)
qed simp

section \<open>TenVadDetector\<close>

definition tenVadHopSize :: nat where "tenVadHopSize = 256"

text \<open>\<open>hop\<close> answers one hop: the verdict and whether the call failed. Time of the last speech hop is
  \<open>now\<close>, the clock reading.\<close>

record ten_vad =
  tv_carry :: "int list"
  tv_speechActive :: bool
  tv_lastSpeechAt :: int
  tv_votes :: votes

definition NewTenVadDetector :: ten_vad where
  "NewTenVadDetector = \<lparr>tv_carry = [], tv_speechActive = False, tv_lastSpeechAt = 0, tv_votes = votes_reset\<rparr>"

text \<open>The loop draining whole hops; \<open>result\<close> is the window verdict after the last hop drained.\<close>

function ten_drain :: "(int list \<Rightarrow> bool \<times> bool) \<Rightarrow> int \<Rightarrow> bool \<Rightarrow> ten_vad \<Rightarrow> ten_vad \<times> bool \<times> int list list" where
  "ten_drain hop now result d =
     (if length (tv_carry d) \<ge> tenVadHopSize then
        let h = take tenVadHopSize (tv_carry d);
            (speech, failed) = hop h;
            yes = speech \<and> \<not> failed;
            v = votes_put yes (tv_votes d);
            result = votes_result v;
            d = d\<lparr>tv_votes := v, tv_lastSpeechAt := (if yes then now else tv_lastSpeechAt d),
                  tv_carry := drop tenVadHopSize (tv_carry d), tv_speechActive := result\<rparr>;
            (d, result, hs) = ten_drain hop now result d
        in (d, result, h # hs)
      else (d, result, []))"
  by pat_completeness auto
termination
  by (relation "measure (\<lambda>(hop, now, result, d). length (tv_carry d))") (auto simp: tenVadHopSize_def)

declare ten_drain.simps [simp del]

text \<open>\<open>Detect\<close> also returns the hops it handed to the model.\<close>

definition Ten_Detect :: "(int list \<Rightarrow> bool \<times> bool) \<Rightarrow> int \<Rightarrow> byte list \<Rightarrow> ten_vad \<Rightarrow> ten_vad \<times> bool \<times> int list list" where
  "Ten_Detect hop now pcm d = ten_drain hop now False (d\<lparr>tv_carry := tv_carry d @ samples pcm\<rparr>)"

definition Ten_Reset :: "ten_vad \<Rightarrow> ten_vad" where
  "Ten_Reset d = d\<lparr>tv_carry := [], tv_votes := votes_reset, tv_speechActive := False\<rparr>"

definition LastSpeechAt :: "ten_vad \<Rightarrow> int" where
  "LastSpeechAt d = tv_lastSpeechAt d"

fun ten_run :: "(int list \<Rightarrow> bool \<times> bool) \<Rightarrow> (int \<times> byte list) list \<Rightarrow> ten_vad \<Rightarrow> ten_vad \<times> bool list \<times> int list list" where
  "ten_run hop [] d = (d, [], [])"
| "ten_run hop ((now, f) # fs) d =
     (let (d, r, hs) = Ten_Detect hop now f d; (d, rs, hs') = ten_run hop fs d in (d, r # rs, hs @ hs'))"

definition verdict :: "(int list \<Rightarrow> bool \<times> bool) \<Rightarrow> int list \<Rightarrow> bool" where
  "verdict hop h = (fst (hop h) \<and> \<not> snd (hop h))"

lemma ten_drain_spec:
  "ten_drain hop now result d = (d', r, hs) \<Longrightarrow> votes_are bs (tv_votes d) \<Longrightarrow>
   concat hs @ tv_carry d' = tv_carry d \<and> length (tv_carry d') < 256 \<and> list_all (\<lambda>h. length h = 256) hs
   \<and> votes_are (bs @ map (verdict hop) hs) (tv_votes d')
   \<and> r = (if hs = [] then result else 3 \<le> yes_of (last5 (bs @ map (verdict hop) hs)))"
proof (induction "length (tv_carry d)" arbitrary: result d d' r hs bs rule: less_induct)
  case less
  show ?case
  proof (cases "length (tv_carry d) \<ge> tenVadHopSize")
    case True
    define h where "h = take tenVadHopSize (tv_carry d)"
    define v where "v = votes_put (verdict hop h) (tv_votes d)"
    define e where "e = d\<lparr>tv_votes := v, tv_lastSpeechAt := (if verdict hop h then now else tv_lastSpeechAt d),
                  tv_carry := drop tenVadHopSize (tv_carry d), tv_speechActive := votes_result v\<rparr>"
    have "ten_drain hop now result d = (case ten_drain hop now (votes_result v) e of (d, r, hs) \<Rightarrow> (d, r, h # hs))"
      using True by (subst ten_drain.simps) (simp add: Let_def split_beta h_def v_def e_def verdict_def)
    then obtain hs' where r: "ten_drain hop now (votes_result v) e = (d', r, hs')" "hs = h # hs'"
      using less.prems(1) by (auto split: prod.splits)
    have v: "votes_are (bs @ [verdict hop h]) v" unfolding v_def by (rule votes_are_put [OF less.prems(2)])
    then have v': "votes_are (bs @ [verdict hop h]) (tv_votes e)" by (simp add: e_def)
    have "length (tv_carry e) < length (tv_carry d)" using True by (simp add: e_def tenVadHopSize_def)
    from less.hyps [OF this r(1) v'] show ?thesis
      using r(2) votes_result_last5 [OF v] True by (simp add: e_def h_def tenVadHopSize_def)
  next
    case False
    with less.prems show ?thesis by (simp add: ten_drain.simps [of hop now result d] tenVadHopSize_def)
  qed
qed

lemma ten_run_spec:
  "ten_run hop fs d = (d', rs, hs) \<Longrightarrow> votes_are bs (tv_votes d) \<Longrightarrow> length (tv_carry d) < 256 \<Longrightarrow>
   concat hs @ tv_carry d' = tv_carry d @ concat (map (samples \<circ> snd) fs) \<and> length (tv_carry d') < 256
   \<and> list_all (\<lambda>h. length h = 256) hs \<and> votes_are (bs @ map (verdict hop) hs) (tv_votes d')"
proof (induction fs arbitrary: d bs rs hs)
  case (Cons f fs)
  obtain now pcm where f: "f = (now, pcm)" by (cases f)
  obtain d1 r h1 where s: "Ten_Detect hop now pcm d = (d1, r, h1)" by (rule prod_cases3)
  obtain rs2 h2 where t: "ten_run hop fs d1 = (d', rs2, h2)" "hs = h1 @ h2"
    using Cons.prems(1) f s by (auto simp: Let_def split: prod.splits)
  have "votes_are bs (tv_votes (d\<lparr>tv_carry := tv_carry d @ samples pcm\<rparr>))" using Cons.prems(2) by simp
  note st = ten_drain_spec [OF s [unfolded Ten_Detect_def] this]
  show ?case
    using Cons.IH [OF t(1), of "bs @ map (verdict hop) h1"] st t(2) f
    by (simp add: list_all_append)
qed (simp add: list_all_def)

section \<open>Properties\<close>

text \<open>The energy detector reports speech on a frame exactly when at least three of the last five
  frames since its reset, that one included, were loud.\<close>

theorem energy_votes:
  "snd (energy_run loud fs (Energy_Reset d))
     = map (\<lambda>k. 3 \<le> yes_of (last5 (map loud (take (Suc k) fs)))) [0..<length fs]"
  using energy_run_votes [of "[]" "Energy_Reset d" loud fs "fst (energy_run loud fs (Energy_Reset d))"
      "snd (energy_run loud fs (Energy_Reset d))"] votes_are_reset
  by (simp add: Energy_Reset_def)

text \<open>The TEN VAD re-buffering: however long the frames are, the hops handed to the model are
  256 samples each and joined with the carry are the samples heard since the reset, in order; and
  the vote ring always holds the verdicts of the last hops.\<close>

theorem ten_hops_exact:
  "case ten_run hop fs (Ten_Reset d) of (d', rs, hs) \<Rightarrow>
     concat hs @ tv_carry d' = concat (map (samples \<circ> snd) fs) \<and> length (tv_carry d') < 256
     \<and> list_all (\<lambda>h. length h = 256) hs
     \<and> (votes_result (tv_votes d') \<longleftrightarrow> 3 \<le> yes_of (last5 (map (\<lambda>h. fst (hop h) \<and> \<not> snd (hop h)) hs)))"
proof -
  obtain d' rs hs where r: "ten_run hop fs (Ten_Reset d) = (d', rs, hs)" by (rule prod_cases3)
  have "votes_are [] (tv_votes (Ten_Reset d))" "length (tv_carry (Ten_Reset d)) < 256"
    using votes_are_reset by (simp_all add: Ten_Reset_def)
  from ten_run_spec [OF r this] votes_result_last5 [of "map (verdict hop) hs" "tv_votes d'"] show ?thesis
    unfolding r by (simp add: Ten_Reset_def verdict_def [abs_def])
qed

end
