(* ===== verification/Agent_Text.thy ===== *)
theory Agent_Text
  imports Vaani_Prelude
begin

text \<open>
  Text decisions of the agent: the sentence chunker (\<open>internal/ai/agent/chunker.go\<close>),
  acknowledgements (\<open>backchannel.go\<close>), junk transcripts (\<open>handler.go\<close>) and the fallback lines of
  a failed turn (\<open>llmfail.go\<close>). Text is a list of code points (the sources decode valid UTF-8 rune
  by rune); Go's \<open>unicode\<close> tables are not under \<open>src/\<close> and are the record \<open>unicode\<close> of predicates.
\<close>

type_synonym rune = nat
type_synonym runes = "rune list"

record unicode =
  u_digit :: "rune \<Rightarrow> bool"
  u_letter :: "rune \<Rightarrow> bool"
  u_mark :: "rune \<Rightarrow> bool"
  u_space :: "rune \<Rightarrow> bool"
  u_punct :: "rune \<Rightarrow> bool"
  u_symbol :: "rune \<Rightarrow> bool"
  u_lower :: "rune \<Rightarrow> rune"

text \<open>The ASCII part of those tables, for concrete inputs.\<close>

definition ascii :: unicode where
  "ascii = \<lparr>u_digit = (\<lambda>r. 48 \<le> r \<and> r \<le> 57), u_letter = (\<lambda>r. 65 \<le> r \<and> r \<le> 90 \<or> 97 \<le> r \<and> r \<le> 122),
     u_mark = (\<lambda>r. False), u_space = (\<lambda>r. r = 32 \<or> 9 \<le> r \<and> r \<le> 13),
     u_punct = (\<lambda>r. r \<in> {33, 34, 35, 37, 38, 39, 40, 41, 42, 44, 45, 46, 47, 58, 59, 63, 64, 91, 92, 93, 95, 123, 125}),
     u_symbol = (\<lambda>r. r \<in> {36, 43, 60, 61, 62, 94, 96, 124, 126}),
     u_lower = (\<lambda>r. if 65 \<le> r \<and> r \<le> 90 then r + 32 else r)\<rparr>"

section \<open>SentenceChunker\<close>

definition chunkerRuneThreshold :: nat where "chunkerRuneThreshold = 80"
definition chunkerHardLimit :: nat where "chunkerHardLimit = 2 * chunkerRuneThreshold"
definition virama :: rune where "virama = 0x94D"

text \<open>Full stop, exclamation and question mark, newline, danda, double danda.\<close>

definition sentenceDelimiters :: "rune \<Rightarrow> bool" where
  "sentenceDelimiters r \<longleftrightarrow> r \<in> {46, 33, 63, 10, 0x964, 0x965}"

definition pause_mark :: "rune \<Rightarrow> bool" where
  "pause_mark r \<longleftrightarrow> r \<in> {44, 59, 58}"

text \<open>The c past the threshold: after the last pause, else the last space, else at the hard limit
  when the next rune does not continue a syllable.\<close>

definition long_cut :: "unicode \<Rightarrow> rune \<Rightarrow> runes \<Rightarrow> nat \<Rightarrow> nat \<Rightarrow> nat \<Rightarrow> nat option" where
  "long_cut u r rest i lastSpace lastPause =
     (if lastPause > 0 then Some lastPause
      else if lastSpace > 0 then Some lastSpace
      else if i \<ge> chunkerHardLimit \<and> rest \<noteq> [] then
        if \<not> u_mark u (hd rest) \<and> r \<noteq> virama then Some i else None
      else None)"

text \<open>The loop of \<open>nextCut\<close>; offsets count runes, so \<open>i\<close> is also \<open>runeCount\<close>.\<close>

fun cut_scan :: "unicode \<Rightarrow> runes \<Rightarrow> nat \<Rightarrow> bool \<Rightarrow> nat \<Rightarrow> nat \<Rightarrow> rune \<Rightarrow> nat option" where
  "cut_scan u [] i hasContent lastSpace lastPause prev = None"
| "cut_scan u (r # rest) i0 hasContent lastSpace0 lastPause0 prev =
     (let i = i0 + 1;
          spc = u_space u r \<and> hasContent;
          lastSpace = (if spc then i else lastSpace0);
          lastPause = (if spc \<and> pause_mark prev \<and> i \<ge> chunkerRuneThreshold div 2 then i else lastPause0);
          delim = sentenceDelimiters r \<and> hasContent
      in case (if i \<ge> chunkerRuneThreshold \<and> \<not> delim then long_cut u r rest i lastSpace lastPause else None) of
           Some c \<Rightarrow> Some c
         | None \<Rightarrow>
             if delim then
               if r = 46 \<and> u_digit u prev then cut_scan u rest i hasContent lastSpace lastPause r
               else Some i
             else cut_scan u rest i (hasContent \<or> u_letter u r \<or> u_digit u r) lastSpace lastPause r)"

definition nextCut :: "unicode \<Rightarrow> runes \<Rightarrow> nat option" where
  "nextCut u buf = cut_scan u buf 0 False 0 0 0"

definition hasLetterOrDigit :: "unicode \<Rightarrow> runes \<Rightarrow> bool" where
  "hasLetterOrDigit u s = list_ex (\<lambda>r. u_letter u r \<or> u_digit u r) s"

text \<open>A c is inside the buffer, not empty, and the piece has content unless it was c at the
  hard limit.\<close>

lemma cut_scan_spec:
  assumes "cut_scan u rest i hc ls lp prev = Some c"
    and "i = length pre" and "hc = hasLetterOrDigit u pre" and "ls \<le> i" and "lp \<le> i"
    and "ls > 0 \<Longrightarrow> hasLetterOrDigit u (take ls pre)" and "lp > 0 \<Longrightarrow> hasLetterOrDigit u (take lp pre)"
  shows "0 < c \<and> c \<le> length (pre @ rest)
    \<and> (hasLetterOrDigit u (take c (pre @ rest)) \<or> c \<ge> chunkerHardLimit)"
  using assms
proof (induction rest arbitrary: i hc ls lp prev pre)
  case (Cons r rest)
  let ?i = "i + 1" and ?spc = "u_space u r \<and> hc"
  let ?ls = "if ?spc then ?i else ls"
  let ?lp = "if ?spc \<and> pause_mark prev \<and> ?i \<ge> chunkerRuneThreshold div 2 then ?i else lp"
  let ?delim = "sentenceDelimiters r \<and> hc"
  let ?pre = "pre @ [r]"
  have len: "?i = length ?pre" using Cons.prems(2) by simp
  have content: "hc \<Longrightarrow> hasLetterOrDigit u (take ?i (?pre @ rest))"
    using Cons.prems(2,3) by (simp add: hasLetterOrDigit_def)
  have ls: "?ls > 0 \<Longrightarrow> hasLetterOrDigit u (take ?ls ?pre)"
    using Cons.prems(2,3,4,6) by (auto simp: hasLetterOrDigit_def)
  have lp: "?lp > 0 \<Longrightarrow> hasLetterOrDigit u (take ?lp ?pre)"
    using Cons.prems(2,3,5,7) by (auto simp: hasLetterOrDigit_def)
  have le: "?ls \<le> ?i" "?lp \<le> ?i" using Cons.prems(4,5) by auto
  have pre: "take n (?pre @ rest) = take n ?pre" if "n \<le> ?i" for n
    using that len by (subst take_append) simp
  let ?lc = "if ?i \<ge> chunkerRuneThreshold \<and> \<not> ?delim then long_cut u r rest ?i ?ls ?lp else None"
  have step: "Some c = (case ?lc of Some c \<Rightarrow> Some c
      | None \<Rightarrow> if ?delim then
               if r = 46 \<and> u_digit u prev then cut_scan u rest ?i hc ?ls ?lp r else Some ?i
             else cut_scan u rest ?i (hc \<or> u_letter u r \<or> u_digit u r) ?ls ?lp r)"
    using Cons.prems(1) by (simp only: cut_scan.simps Let_def)
  show ?case
  proof (cases ?lc)
    case (Some d)
    then have "c = d" using step by (simp only: option.case option.inject)
    moreover have "d = ?lp \<and> ?lp > 0 \<or> d = ?ls \<and> ?ls > 0 \<or> d = ?i \<and> ?i \<ge> chunkerHardLimit"
      using Some unfolding long_cut_def by (auto split: if_splits)
    ultimately show ?thesis
      using ls lp le len pre by (elim disjE conjE) (simp_all del: take_append)
  next
    case None
    show ?thesis
    proof (cases ?delim)
      case True
      show ?thesis
      proof (cases "r = 46 \<and> u_digit u prev")
        case True
        have "cut_scan u rest ?i hc ?ls ?lp r = Some c"
          using step unfolding None using True \<open>?delim\<close> by simp
        moreover have "hc = hasLetterOrDigit u ?pre"
          using Cons.prems(3) \<open>?delim\<close> by (simp add: hasLetterOrDigit_def)
        ultimately show ?thesis using Cons.IH [OF _ len _ le ls lp] by simp
      next
        case False
        have "c = ?i" using step \<open>?delim\<close> unfolding None option.case if_P [OF \<open>?delim\<close>] if_not_P [OF False]
          by simp
        then show ?thesis using content \<open>?delim\<close> len by simp
      qed
    next
      case False
      have "cut_scan u rest ?i (hc \<or> u_letter u r \<or> u_digit u r) ?ls ?lp r = Some c"
        using step unfolding None using False by simp
      moreover have "(hc \<or> u_letter u r \<or> u_digit u r) = hasLetterOrDigit u ?pre"
        using Cons.prems(3) by (auto simp: hasLetterOrDigit_def)
      ultimately show ?thesis using Cons.IH [OF _ len _ le ls lp] by simp
    qed
  qed
qed simp

lemma nextCut_spec:
  assumes "nextCut u buf = Some c"
  shows "0 < c \<and> c \<le> length buf \<and> (hasLetterOrDigit u (take c buf) \<or> c \<ge> chunkerHardLimit)"
  using cut_scan_spec [of u buf 0 False 0 0 0 c "[]"] assms
  by (simp add: nextCut_def hasLetterOrDigit_def)

text \<open>The loop of \<open>Feed\<close>: c until nothing more is ready.\<close>

function feed_loop :: "unicode \<Rightarrow> runes \<Rightarrow> runes list \<times> runes" where
  "feed_loop u buf = (case nextCut u buf of
      None \<Rightarrow> ([], buf)
    | Some c \<Rightarrow> let (out, buf') = feed_loop u (drop c buf) in (take c buf # out, buf'))"
  by pat_completeness auto
termination
  by (relation "measure (\<lambda>(u, buf). length buf)") (auto dest: nextCut_spec)

declare feed_loop.simps [simp del]

definition Feed :: "unicode \<Rightarrow> runes \<Rightarrow> runes \<Rightarrow> runes list \<times> runes" where
  "Feed u token buf = feed_loop u (buf @ token)"

definition Flush :: "unicode \<Rightarrow> runes \<Rightarrow> runes \<times> runes" where
  "Flush u buf = (if buf = [] then ([], []) else if hasLetterOrDigit u buf then (buf, []) else ([], []))"

fun feed_all :: "unicode \<Rightarrow> runes list \<Rightarrow> runes \<Rightarrow> runes list \<times> runes" where
  "feed_all u [] buf = ([], buf)"
| "feed_all u (t # ts) buf =
     (let (out, buf) = Feed u t buf; (outs, buf) = feed_all u ts buf in (out @ outs, buf))"

definition chunk_ok :: "unicode \<Rightarrow> runes \<Rightarrow> bool" where
  "chunk_ok u c \<longleftrightarrow> c \<noteq> [] \<and> (hasLetterOrDigit u c \<or> length c \<ge> chunkerHardLimit)"

lemma feed_loop_spec:
  "feed_loop u buf = (out, buf') \<Longrightarrow>
   concat out @ buf' = buf \<and> list_all (chunk_ok u) out \<and> nextCut u buf' = None"
proof (induction u buf arbitrary: out buf' rule: feed_loop.induct)
  case (1 u buf)
  show ?case
  proof (cases "nextCut u buf")
    case None
    with 1(2) show ?thesis by (simp add: feed_loop.simps [of u buf])
  next
    case (Some c)
    obtain o1 where r: "feed_loop u (drop c buf) = (o1, buf')" "out = take c buf # o1"
      using 1(2) Some by (subst (asm) feed_loop.simps) (auto simp: Let_def split: prod.splits)
    have "chunk_ok u (take c buf)"
      using nextCut_spec [OF Some] by (auto simp: chunk_ok_def)
    with 1(1) [OF Some r(1)] r(2) show ?thesis by simp
  qed
qed

lemma feed_all_spec:
  "feed_all u ts buf = (outs, buf') \<Longrightarrow> concat outs @ buf' = buf @ concat ts \<and> list_all (chunk_ok u) outs"
proof (induction ts arbitrary: buf outs)
  case (Cons t ts)
  obtain o1 b1 where f: "feed_loop u (buf @ t) = (o1, b1)" by (rule prod.exhaust)
  obtain o2 where r: "feed_all u ts b1 = (o2, buf')" "outs = o1 @ o2"
    using Cons.prems f by (auto simp: Feed_def Let_def split: prod.splits)
  have "concat outs @ buf' = concat o1 @ (b1 @ concat ts)" using Cons.IH [OF r(1)] r(2) by simp
  also have "\<dots> = (buf @ t) @ concat ts" using feed_loop_spec [OF f] by (metis append.assoc)
  finally show ?case using feed_loop_spec [OF f] Cons.IH [OF r(1)] r(2) by simp
qed simp

section \<open>Junk transcripts and acknowledgements\<close>

fun junk_loop :: "unicode \<Rightarrow> runes \<Rightarrow> nat \<Rightarrow> bool" where
  "junk_loop u [] n = (n < 2)"
| "junk_loop u (r # rs) n =
     (if u_digit u r then False
      else if u_letter u r \<or> u_mark u r then junk_loop u rs (n + 1) else junk_loop u rs n)"

definition junkTranscript :: "unicode \<Rightarrow> runes \<Rightarrow> bool" where
  "junkTranscript u text = junk_loop u text 0"

lemma junk_loop_eq:
  "junk_loop u rs n = (\<not> list_ex (u_digit u) rs \<and> n + length (filter (\<lambda>r. u_letter u r \<or> u_mark u r) rs) < 2)"
  by (induction rs arbitrary: n) auto

text \<open>\<open>squeezeRepeats\<close>: any run of one letter is cut to at most two.\<close>

fun squeeze_loop :: "runes \<Rightarrow> rune \<Rightarrow> nat \<Rightarrow> runes" where
  "squeeze_loop [] prev run = []"
| "squeeze_loop (r # rs) prev run =
     (let run' = (if r = prev then run + 1 else 1)
      in if run' \<le> 2 then r # squeeze_loop rs r run' else squeeze_loop rs r run')"

definition squeezeRepeats :: "runes \<Rightarrow> runes" where
  "squeezeRepeats w = squeeze_loop w 0 0"

text \<open>\<open>strings.FieldsFunc\<close>: the maximal runs of runes that are not separators.\<close>

fun fields_loop :: "(rune \<Rightarrow> bool) \<Rightarrow> runes \<Rightarrow> runes \<Rightarrow> runes list" where
  "fields_loop sep [] w = (if w = [] then [] else [w])"
| "fields_loop sep (r # rs) w =
     (if sep r then (if w = [] then fields_loop sep rs [] else w # fields_loop sep rs [])
      else fields_loop sep rs (w @ [r]))"

definition backchannel :: "unicode \<Rightarrow> (runes \<Rightarrow> bool) \<Rightarrow> runes \<Rightarrow> bool" where
  "backchannel u backchannelWords text =
     (let words = fields_loop (\<lambda>r. u_space u r \<or> u_punct u r \<or> u_symbol u r) (map (u_lower u) text) []
      in if words = [] then False else list_all (\<lambda>w. backchannelWords (squeezeRepeats w)) words)"

text \<open>No letter stands three times in a row.\<close>

fun no_triple :: "runes \<Rightarrow> bool" where
  "no_triple (a # b # c # rs) = ((a \<noteq> b \<or> b \<noteq> c) \<and> no_triple (b # c # rs))"
| "no_triple rs = True"

section \<open>LLMFailurePolicy\<close>

record llm_failure_policy =
  lf_MaxFailedTurns :: int
  lf_Apology :: runes
  lf_hindi :: bool

datatype fallback_line = HangupHindi | HangupEnglish | OwnApology runes | ApologyHindi | ApologyEnglish

datatype fallback_kind = FkApology | FkHangup

definition failure_line :: "llm_failure_policy \<Rightarrow> int \<Rightarrow> fallback_line \<times> fallback_kind \<times> bool" where
  "failure_line p n =
     (if lf_MaxFailedTurns p > 0 \<and> n \<ge> lf_MaxFailedTurns p then
        (if lf_hindi p then HangupHindi else HangupEnglish, FkHangup, True)
      else if lf_Apology p \<noteq> [] then (OwnApology (lf_Apology p), FkApology, False)
      else if lf_hindi p then (ApologyHindi, FkApology, False)
      else (ApologyEnglish, FkApology, False))"

section \<open>Properties\<close>

text \<open>The sentence chunker loses nothing: over any tokens the chunks sent to TTS joined with what
  is still buffered are the text of the LLM, in order; no chunk is empty, and every chunk has a letter
  or a digit unless it was cut at the hard limit of 160 runes.\<close>

theorem chunker_lossless:
  "concat (fst (feed_all u ts [])) @ snd (feed_all u ts []) = concat ts
   \<and> list_all (\<lambda>c. c \<noteq> [] \<and> (hasLetterOrDigit u c \<or> length c \<ge> 160)) (fst (feed_all u ts []))
   \<and> list_all (\<lambda>c. c = [] \<or> hasLetterOrDigit u c) [fst (Flush u (snd (feed_all u ts [])))]"
  using feed_all_spec [of u ts "[]" "fst (feed_all u ts [])" "snd (feed_all u ts [])"]
  by (simp add: Flush_def chunk_ok_def chunkerHardLimit_def chunkerRuneThreshold_def list_all_iff)

text \<open>A junk transcript is exactly one with no digit and fewer than two letters or marks.\<close>

theorem junk_exact:
  "junkTranscript u text \<longleftrightarrow>
     \<not> list_ex (u_digit u) text \<and> length (filter (\<lambda>r. u_letter u r \<or> u_mark u r) text) \<le> 1"
  by (simp add: junkTranscript_def junk_loop_eq less_Suc_eq_le numeral_2_eq_2)

end
