(* ===== verification/Turn_State.thy ===== *)
theory Turn_State
  imports Agent_Text Frame_Handler "HOL-Library.Sublist"
begin

text \<open>
  The data of one call's agent: workflow nodes (\<open>internal/ai/agent/workflow.go\<close>), the conversation
  history, and the fields of \<open>Handler\<close> (\<open>handler.go\<close>) that its goroutines share. Times are \<open>int\<close>
  nanoseconds and 0 is the zero \<open>time.Time\<close>. What a handler does outside the state (hang up, start
  or cancel the LLM, speak, arm a timer) is the list of effects it returns, in order. Fields that
  only feed log lines and latency metrics are not kept.
\<close>

section \<open>Workflow nodes\<close>

text \<open>Nodes refer to each other by number (the code uses pointers). A recorded clip is its transcript; \<open>nd_clips\<close>
  maps the recordings a node's model may play, by id.\<close>

datatype tool_kind = ToolFunction | ToolEndCall | ToolTransfer

record tool =
  tl_name :: string
  tl_kind :: tool_kind
  tl_message :: runes
  tl_messageClip :: "runes option"
  tl_hasRun :: bool
  tl_destination :: string
  tl_timeout :: int

record edge =
  eg_name :: string
  eg_speech :: runes
  eg_speechClip :: "runes option"
  eg_to :: nat

record node =
  nd_prompt :: runes
  nd_greeting :: runes
  nd_greetingClip :: "runes option"
  nd_clips :: "(runes \<rightharpoonup> runes) option"
  nd_end :: bool
  nd_allowInterrupt :: bool
  nd_extracts :: bool
  nd_tools :: "tool list"
  nd_edges :: "edge list"

definition InterruptMode :: "bool \<Rightarrow> node \<Rightarrow> bool" where
  "InterruptMode bargeInEnabled n = (bargeInEnabled \<and> nd_allowInterrupt n \<and> \<not> nd_end n)"

definition toolDefs :: "node \<Rightarrow> string list" where
  "toolDefs n = map tl_name (nd_tools n) @ map eg_name (nd_edges n)"

fun find_edge :: "string \<Rightarrow> edge list \<Rightarrow> edge option" where
  "find_edge name [] = None"
| "find_edge name (e # es) = (if eg_name e = name then Some e else find_edge name es)"

fun find_tool :: "string \<Rightarrow> tool list \<Rightarrow> tool option" where
  "find_tool name [] = None"
| "find_tool name (t # ts) = (if tl_name t = name then Some t else find_tool name ts)"

section \<open>History\<close>

record tool_call =
  tc_id :: string
  tc_name :: string

datatype message =
    SystemMsg runes | UserMsg runes | AssistantMsg runes "tool_call list" | ToolMsg string runes

definition text_of :: "string \<Rightarrow> runes" where
  "text_of s = map of_char s"

definition requestMessages :: "node \<Rightarrow> message list \<Rightarrow> message list" where
  "requestMessages nd history =
     (if nd_prompt nd = [] then history
      else [SystemMsg (nd_prompt nd)] @ (if history = [] then [UserMsg (nd_prompt nd)] else []) @ history)"

section \<open>The handler's state\<close>

datatype agent_state = Listening | Transcribing | Thinking | Speaking

record out_frame =
  of_pcm :: "byte list"
  of_req :: nat
  of_gen :: nat

record spoken_chunk =
  sp_req :: nat
  sp_text :: runes

record held_speech =
  hs_text :: runes
  hs_gen :: nat
  hs_at :: int

record hold_player =
  hp_pcm :: "byte list"
  hp_loop :: bool
  hp_waitForMessage :: bool
  hp_pos :: nat
  hp_waited :: nat
  hp_sawMessage :: bool
  hp_done :: bool

datatype end_reason = NoReason | EndCallTool | MaxDuration | CallerSilent

record handler =
  h_state :: agent_state
  h_speakingSince :: int
  h_silenceUntil :: int
  h_ttsDeliveryDone :: bool
  h_playingReq :: nat
  h_playingSince :: int
  h_held :: "held_speech list"
  h_toolRunning :: bool
  h_hold :: "hold_player option"
  h_paused :: bool
  h_sttUttStart :: int
  h_replayPending :: bool
  h_replayGen :: nat
  h_closing :: bool
  h_node :: nat
  h_bargeInSig :: bool
  h_playbackDoneSig :: bool
  h_drainTimeoutSig :: bool
  h_tts :: bool
  h_ttsConn :: nat
  h_turnRunning :: bool
  h_history :: "message list"
  h_ttsBuf :: "byte list"
  h_curGen :: nat
  h_firstAudioGen :: nat
  h_turnChunks :: "spoken_chunk list"
  h_turnToolMsgs :: "message list"
  h_hangupAfterTurn :: bool
  h_turn :: nat
  h_idleTimer :: "nat option"
  h_idleSeq :: nat
  h_idleArmed :: bool
  h_idleCount :: nat
  h_ending :: bool
  h_endReason :: end_reason
  h_hungUp :: bool
  h_pausedAt :: int
  h_resumeSeq :: nat
  h_callerSpeaking :: bool
  h_prevSpeechEndAt :: int
  h_agentQuietSince :: int
  h_speechRunStart :: int
  h_sentGen :: nat
  h_sentReq :: nat
  h_sentFrames :: "byte list list"
  h_replaying :: bool
  h_replayIdx :: nat
  h_emptyTicks :: nat
  h_outbound :: "out_frame list"

text \<open>\<open>Config\<close>; \<open>cf_clock\<close> says whether the detector tracks its last speech (TEN VAD), \<open>cf_words\<close> is
  the list of acknowledgement words.\<close>

record config =
  cf_nodes :: "nat \<Rightarrow> node"
  cf_start :: nat
  cf_hangup :: bool
  cf_IdleTimeout :: int
  cf_BargeInObserveOnly :: bool
  cf_BargeInGuard :: int
  cf_BargeInMinSpeech :: int
  cf_PostCutSilence :: int
  cf_AckFilter :: bool
  cf_AckEndMargin :: int
  cf_clock :: bool
  cf_unicode :: unicode
  cf_words :: "runes \<Rightarrow> bool"

datatype effect =
    EfHangup | EfTurnStarted | EfStartLLM nat "message list" | EfCancelLLM | EfOpenTTS nat | EfCancelTTS
  | EfSpeak runes nat | EfPlayClip runes nat | EfEndGeneration nat | EfError string | EfArmIdle nat | EfScheduleResume nat int
  | EfBargeIn | EfInterruptionPaused | EfFalseInterruption | EfSpeechHeld | EfSpeechDelivered
  | EfUserSaid runes int | EfAgentTurn runes bool | EfDropped held_speech

definition outboundBufferFrames :: nat where "outboundBufferFrames = 1500"
definition speakingDrainTimeoutTicks :: nat where "speakingDrainTimeoutTicks = 500"
definition maxUtteranceAge :: int where "maxUtteranceAge = 60000000000"
definition falseInterruptionTimeout :: int where "falseInterruptionTimeout = 2000000000"
definition falseInterruptionMaxPause :: int where "falseInterruptionMaxPause = 10000000000"
definition holdMessageWaitTicks :: nat where "holdMessageWaitTicks = 150"

text \<open>\<open>NewHandler\<close>: the fresh state, and the event it posts when the start node has a greeting or a
  prompt is \<open>Greeting\<close> or \<open>Opening\<close> of the turn loop.\<close>

definition NewHandler :: "config \<Rightarrow> handler" where
  "NewHandler cfg = \<lparr>h_state = Listening, h_speakingSince = 0, h_silenceUntil = 0,
     h_ttsDeliveryDone = False, h_playingReq = 0, h_playingSince = 0, h_held = [],
     h_toolRunning = False, h_hold = None, h_paused = False, h_sttUttStart = 0,
     h_replayPending = False, h_replayGen = 0, h_closing = False, h_node = cf_start cfg,
     h_bargeInSig = False, h_playbackDoneSig = False, h_drainTimeoutSig = False,
     h_tts = False, h_ttsConn = 0, h_turnRunning = False, h_history = [], h_ttsBuf = [],
     h_curGen = 0, h_firstAudioGen = 0, h_turnChunks = [], h_turnToolMsgs = [],
     h_hangupAfterTurn = False, h_turn = 0, h_idleTimer = None, h_idleSeq = 0, h_idleArmed = False,
     h_idleCount = 0, h_ending = False, h_endReason = NoReason, h_hungUp = False, h_pausedAt = 0,
     h_resumeSeq = 0, h_callerSpeaking = False, h_prevSpeechEndAt = 0, h_agentQuietSince = 0,
     h_speechRunStart = 0, h_sentGen = 0, h_sentReq = 0, h_sentFrames = [], h_replaying = False,
     h_replayIdx = 0, h_emptyTicks = 0, h_outbound = []\<rparr>"

end
