(* ===== verification/Turn_Loop.thy ===== *)
theory Turn_Loop
  imports Turn_State
begin

text \<open>
  The turn-taking state machine of \<open>internal/ai/agent/handler.go\<close> (and \<open>holdSpeech\<close>, \<open>settleHeld\<close> of
  \<open>backchannel.go\<close>): one definition per function of \<open>ProcessFrame\<close>'s goroutine and of the event loop.
  A clock reading is an argument \<open>now\<close>, the outcome of opening a TTS connection an argument \<open>ok\<close>.
  The two goroutines interleave step by step (\<open>agent_step\<close>).
\<close>

type_synonym run_result = "handler \<times> effect list"

section \<open>Small operations\<close>

definition interruptible :: "config \<Rightarrow> handler \<Rightarrow> bool" where
  "interruptible cfg h = (\<not> cf_BargeInObserveOnly cfg \<and> \<not> h_closing h
     \<and> InterruptMode True (cf_nodes cfg (h_node h)))"

definition stopIdleTimer :: "handler \<Rightarrow> handler" where
  "stopIdleTimer h = h\<lparr>h_idleTimer := None, h_idleSeq := h_idleSeq h + 1\<rparr>"

definition startIdleTimer :: "config \<Rightarrow> handler \<Rightarrow> run_result" where
  "startIdleTimer cfg h =
     (let h = stopIdleTimer h in
      if cf_IdleTimeout cfg \<le> 0 \<or> h_ending h then (h, [])
      else (h\<lparr>h_idleTimer := Some (h_idleSeq h)\<rparr>, [EfArmIdle (h_idleSeq h)]))"

definition hangup :: "config \<Rightarrow> handler \<Rightarrow> run_result" where
  "hangup cfg h = (if h_hungUp h then (h, [])
     else (h\<lparr>h_hungUp := True\<rparr>, if cf_hangup cfg then [EfHangup] else []))"

definition endCall :: "config \<Rightarrow> end_reason \<Rightarrow> handler \<Rightarrow> run_result" where
  "endCall cfg reason h =
     (let h = stopIdleTimer (h\<lparr>h_ending := True, h_endReason := reason, h_closing := True\<rparr>)
      in case h_state h of
           Listening \<Rightarrow> hangup cfg h
         | Transcribing \<Rightarrow> hangup cfg h
         | _ \<Rightarrow> (h, []))"

text \<open>\<open>openTTS\<close>; the flag says whether there is a connection to speak into.\<close>

definition openTTS :: "bool \<Rightarrow> handler \<Rightarrow> handler \<times> bool \<times> effect list" where
  "openTTS ok h =
     (if h_tts h then (h, True, [])
      else if \<not> ok then (h\<lparr>h_state := Listening\<rparr>, False, [EfError ''tts_open''])
      else (h\<lparr>h_tts := True, h_ttsConn := h_ttsConn h + 1\<rparr>, True, [EfOpenTTS (h_ttsConn h + 1)]))"

definition startTurnChunks :: "handler \<Rightarrow> handler" where
  "startTurnChunks h = h\<lparr>h_turnChunks := [], h_turnToolMsgs := [], h_hangupAfterTurn := False,
     h_playingReq := 0\<rparr>"

definition startTurn :: "bool \<Rightarrow> handler \<Rightarrow> run_result" where
  "startTurn ok h =
     (let h = stopIdleTimer h;
          h = startTurnChunks (h\<lparr>h_state := Thinking, h_curGen := h_curGen h + 1\<rparr>);
          (h, opened, ev) = openTTS ok h
      in if \<not> opened then (h, EfTurnStarted # ev)
         else (h\<lparr>h_turnRunning := True\<rparr>, EfTurnStarted # ev @ [EfStartLLM (h_curGen h) (h_history h)]))"

definition cancelTurn :: "handler \<Rightarrow> run_result" where
  "cancelTurn h = (if h_turnRunning h then (h\<lparr>h_turnRunning := False\<rparr>, [EfCancelLLM]) else (h, []))"

definition utteranceStart :: "int \<Rightarrow> handler \<Rightarrow> int" where
  "utteranceStart now h =
     (if h_sttUttStart h = 0 then 0
      else if now - h_sttUttStart h < maxUtteranceAge then h_sttUttStart h else 0)"

definition acceptUserTurn :: "bool \<Rightarrow> runes \<Rightarrow> int \<Rightarrow> handler \<Rightarrow> run_result" where
  "acceptUserTurn ok text started h =
     (let h = h\<lparr>h_history := h_history h @ [UserMsg text], h_turn := h_turn h + 1, h_idleCount := 0\<rparr>;
          (h, ev) = startTurn ok h
      in (h, EfUserSaid text started # ev))"

section \<open>Recording a reply\<close>

definition runeError :: rune where "runeError = 0xFFFD"

definition first_rune :: "runes \<Rightarrow> rune" where
  "first_rune t = (case t of [] \<Rightarrow> runeError | r # rs \<Rightarrow> r)"

definition last_rune :: "runes \<Rightarrow> rune" where
  "last_rune t = (if t = [] then runeError else last t)"

text \<open>The sentences joined; a space is added after a sentence end or comma only.\<close>

fun join_chunks :: "unicode \<Rightarrow> rune \<Rightarrow> spoken_chunk list \<Rightarrow> runes" where
  "join_chunks u lst [] = []"
| "join_chunks u lst (c # cs) =
     (let first = first_rune (sp_text c);
          gap = (sentenceDelimiters lst \<or> lst = 44) \<and> first \<noteq> runeError \<and> \<not> u_space u first;
          r = last_rune (sp_text c)
      in (if gap then [32] else []) @ sp_text c @ join_chunks u (if r \<noteq> runeError then r else lst) cs)"

definition trimSpace :: "unicode \<Rightarrow> runes \<Rightarrow> runes" where
  "trimSpace u s = rev (dropWhile (u_space u) (rev (dropWhile (u_space u) s)))"

definition heard_chunks :: "bool \<Rightarrow> handler \<Rightarrow> spoken_chunk list" where
  "heard_chunks was_cut h =
     takeWhile (\<lambda>c. \<not> (was_cut \<and> (h_playingReq h = 0 \<or> h_playingReq h < sp_req c))) (h_turnChunks h)"

definition recordReply :: "config \<Rightarrow> bool \<Rightarrow> handler \<Rightarrow> run_result" where
  "recordReply cfg was_cut h =
     (let text = trimSpace (cf_unicode cfg) (join_chunks (cf_unicode cfg) 0 (heard_chunks was_cut h));
          h = h\<lparr>h_turnChunks := [], h_history := h_history h @ h_turnToolMsgs h, h_turnToolMsgs := []\<rparr>
      in if text = [] then (h, [])
         else (h\<lparr>h_history := h_history h @ [AssistantMsg text []]\<rparr>, [EfAgentTurn text was_cut]))"

section \<open>Held speech\<close>

definition holdSpeech :: "int \<Rightarrow> runes \<Rightarrow> handler \<Rightarrow> run_result" where
  "holdSpeech now text h =
     (let at = utteranceStart now h; at = (if at = 0 then now else at)
      in (h\<lparr>h_held := h_held h @ [\<lparr>hs_text = text, hs_gen = h_curGen h, hs_at = at\<rparr>]\<rparr>, [EfSpeechHeld]))"

definition dropHeld :: "handler \<Rightarrow> run_result" where
  "dropHeld h = (h\<lparr>h_held := []\<rparr>, map EfDropped (h_held h))"

fun join_words :: "runes list \<Rightarrow> runes" where
  "join_words [] = []"
| "join_words [w] = w"
| "join_words (w # ws) = w @ [32] @ join_words ws"

definition is_answer :: "config \<Rightarrow> nat \<Rightarrow> handler \<Rightarrow> held_speech \<Rightarrow> bool" where
  "is_answer cfg gen h s = (hs_gen s = gen \<and> \<not> hs_at s < h_playingSince h - cf_AckEndMargin cfg)"

definition settleHeld :: "config \<Rightarrow> bool \<Rightarrow> nat \<Rightarrow> handler \<Rightarrow> handler \<times> bool \<times> effect list" where
  "settleHeld cfg ok gen h =
     (let answers = filter (is_answer cfg gen h) (h_held h);
          dropped = map EfDropped (filter (\<lambda>s. \<not> is_answer cfg gen h s) (h_held h));
          h = h\<lparr>h_held := []\<rparr>
      in case answers of
           [] \<Rightarrow> (h, False, dropped)
         | a # as \<Rightarrow>
             let (h, ev) = acceptUserTurn ok (join_words (map hs_text answers)) (hs_at a) h
             in (h, True, dropped @ EfSpeechDelivered # ev))"

section \<open>Ending a turn\<close>

definition finishTurn :: "config \<Rightarrow> int \<Rightarrow> bool \<Rightarrow> nat \<Rightarrow> handler \<Rightarrow> run_result" where
  "finishTurn cfg now ok gen h =
     (let h = (if h_state h = Speaking \<or> h_state h = Thinking then h\<lparr>h_state := Listening\<rparr> else h);
          h = h\<lparr>h_agentQuietSince := now\<rparr>;
          (h, ev) = recordReply cfg False h;
          h = h\<lparr>h_ttsBuf := []\<rparr>
      in if h_hangupAfterTurn h \<or> h_ending h then
           let (h, ev1) = dropHeld h;
               (h, ev2) = hangup cfg (h\<lparr>h_hangupAfterTurn := False\<rparr>)
           in (h, ev @ ev1 @ ev2)
         else
           let (h, answered, ev1) = settleHeld cfg ok gen h in
           if answered then (h, ev @ ev1)
           else let (h, ev2) = startIdleTimer cfg (h\<lparr>h_idleArmed := True\<rparr>) in (h, ev @ ev1 @ ev2))"

definition handleDrainTimeout :: "config \<Rightarrow> int \<Rightarrow> handler \<Rightarrow> run_result" where
  "handleDrainTimeout cfg now h =
     (let (h, ev) = recordReply cfg True (h\<lparr>h_ttsBuf := [], h_agentQuietSince := now\<rparr>)
      in if h_ending h then let (h, ev1) = hangup cfg h in (h, ev @ ev1) else (h, ev))"

section \<open>Interruptions\<close>

definition scheduleResumeCheck :: "int \<Rightarrow> handler \<Rightarrow> run_result" where
  "scheduleResumeCheck after h =
     (let h = h\<lparr>h_resumeSeq := h_resumeSeq h + 1\<rparr> in (h, [EfScheduleResume (h_resumeSeq h) after]))"

definition handleBargeIn :: "int \<Rightarrow> handler \<Rightarrow> run_result" where
  "handleBargeIn now h =
     (if \<not> h_paused h then (h, [])
      else scheduleResumeCheck falseInterruptionTimeout (h\<lparr>h_pausedAt := now\<rparr>))"

text \<open>\<open>counted\<close>: the reason is one that counts as a false interruption.\<close>

definition resumeReply :: "bool \<Rightarrow> handler \<Rightarrow> run_result" where
  "resumeReply counted h =
     (h\<lparr>h_resumeSeq := h_resumeSeq h + 1, h_replayGen := h_curGen h, h_replayPending := True,
        h_paused := False\<rparr>,
      if counted then [EfFalseInterruption] else [])"

text \<open>\<open>lastSpeech\<close> is the local VAD's last speech (0: none, or no such detector).\<close>

definition handleResumeCheck :: "config \<Rightarrow> int \<Rightarrow> int \<Rightarrow> nat \<Rightarrow> handler \<Rightarrow> run_result" where
  "handleResumeCheck cfg now lastSpeech seq h =
     (if seq \<noteq> h_resumeSeq h \<or> \<not> h_paused h then (h, [])
      else
        let paused = now - h_pausedAt h;
            quietSince = h_pausedAt h;
            quietSince = (if cf_clock cfg \<and> lastSpeech > quietSince then lastSpeech else quietSince);
            quietSince = (if h_prevSpeechEndAt h > quietSince then h_prevSpeechEndAt h else quietSince);
            quietSince = (if h_callerSpeaking h then now else quietSince);
            wait = falseInterruptionTimeout - (now - quietSince)
        in if wait > 0 \<and> paused < falseInterruptionMaxPause then
             scheduleResumeCheck (min wait (falseInterruptionMaxPause - paused)) h
           else resumeReply True h)"

definition cutReply :: "config \<Rightarrow> int \<Rightarrow> handler \<Rightarrow> run_result" where
  "cutReply cfg now h =
     (let (h, ev) = cancelTurn h;
          (h, ev1) = recordReply cfg True h;
          h = h\<lparr>h_curGen := h_curGen h + 1, h_agentQuietSince := now\<rparr>;
          ev2 = (if h_tts h then [EfCancelTTS] else [])
      in (h\<lparr>h_tts := False, h_ttsBuf := [], h_ttsDeliveryDone := False, h_outbound := []\<rparr>,
          ev @ ev1 @ ev2))"

definition confirmInterruption :: "config \<Rightarrow> int \<Rightarrow> handler \<Rightarrow> run_result" where
  "confirmInterruption cfg now h =
     (let h = h\<lparr>h_resumeSeq := h_resumeSeq h + 1, h_state := Transcribing, h_paused := False\<rparr>;
          (h, ev) = dropHeld h;
          (h, ev1) = cutReply cfg now h
      in (h, EfBargeIn # ev @ ev1))"

section \<open>What the caller says\<close>

text \<open>The last part of \<open>handleFinalTranscript\<close>: mute, hold or accept.\<close>

definition transcript_turn :: "config \<Rightarrow> int \<Rightarrow> bool \<Rightarrow> runes \<Rightarrow> handler \<Rightarrow> run_result" where
  "transcript_turn cfg now ok text h =
     (if h_state h = Thinking \<or> h_state h = Speaking then
        if h_state h = Speaking \<and> cf_AckFilter cfg \<and> interruptible cfg h
            \<and> \<not> junkTranscript (cf_unicode cfg) text
        then holdSpeech now text h
        else (h, [])
      else acceptUserTurn ok text (utteranceStart now h) h)"

definition handleFinalTranscript :: "config \<Rightarrow> int \<Rightarrow> bool \<Rightarrow> runes \<Rightarrow> handler \<Rightarrow> run_result" where
  "handleFinalTranscript cfg now ok text h =
     (if now < h_silenceUntil h then (h, [])
      else if h_paused h then
        if junkTranscript (cf_unicode cfg) text then (h, [])
        else if h_closing h then resumeReply False h
        else if cf_AckFilter cfg \<and> backchannel (cf_unicode cfg) (cf_words cfg) text then
          let (h, ev) = holdSpeech now text h; (h, ev1) = resumeReply True h in (h, ev @ ev1)
        else
          let (h, ev) = confirmInterruption cfg now h; (h, ev1) = transcript_turn cfg now ok text h
          in (h, ev @ ev1)
      else transcript_turn cfg now ok text h)"

definition handleCallerSpeech :: "config \<Rightarrow> int \<Rightarrow> bool \<Rightarrow> handler \<Rightarrow> run_result" where
  "handleCallerSpeech cfg now started h =
     (let h = h\<lparr>h_callerSpeaking := started\<rparr> in
      if started then ((stopIdleTimer (h\<lparr>h_sttUttStart := now\<rparr>))\<lparr>h_idleCount := 0\<rparr>, [])
      else
        let h = h\<lparr>h_prevSpeechEndAt := now\<rparr>
        in if h_idleArmed h \<and> h_state h = Listening then startIdleTimer cfg h else (h, []))"

definition idleFirstPrompt :: runes where
  "idleFirstPrompt = text_of ''The user has been quiet. Politely and briefly ask if they're still there in the language that the user has been speaking so far.''"

definition idleFinalPrompt :: runes where
  "idleFinalPrompt = text_of ''The user has been quiet. We will be disconnecting the call now. Wish them a good day in the language that the user has been speaking so far.''"

definition handleIdle :: "bool \<Rightarrow> nat \<Rightarrow> handler \<Rightarrow> run_result" where
  "handleIdle ok seq h =
     (if seq \<noteq> h_idleSeq h \<or> h_ending h \<or> h_state h \<noteq> Listening then (h, [])
      else
        let h = h\<lparr>h_idleTimer := None, h_idleCount := h_idleCount h + 1\<rparr>;
            (h, prompt) = (if h_idleCount h \<ge> 2
              then (h\<lparr>h_ending := True, h_endReason := CallerSilent, h_closing := True\<rparr>, idleFinalPrompt)
              else (h, idleFirstPrompt))
        in startTurn ok (h\<lparr>h_history := h_history h @ [UserMsg prompt]\<rparr>))"

section \<open>What the LLM and the TTS say\<close>

definition handleGreeting :: "config \<Rightarrow> bool \<Rightarrow> handler \<Rightarrow> run_result" where
  "handleGreeting cfg ok h =
     (let h = startTurnChunks (h\<lparr>h_state := Thinking, h_curGen := h_curGen h + 1\<rparr>);
          (h, opened, ev) = openTTS ok h
      in if \<not> opened then (h, ev)
         else case nd_greetingClip (cf_nodes cfg (cf_start cfg)) of
           Some transcript \<Rightarrow> (h, ev @ [EfPlayClip transcript (h_curGen h), EfEndGeneration (h_curGen h)])
         | None \<Rightarrow>
           let (chunks, rest) = Feed (cf_unicode cfg) (nd_greeting (cf_nodes cfg (cf_start cfg))) [];
               (remainder, rest) = Flush (cf_unicode cfg) rest
           in (h, ev @ map (\<lambda>c. EfSpeak c (h_curGen h)) (chunks @ (if remainder \<noteq> [] then [remainder] else []))
                  @ [EfEndGeneration (h_curGen h)]))"

definition handleLLMDone :: "nat \<Rightarrow> bool \<Rightarrow> message list \<Rightarrow> bool \<Rightarrow> handler \<Rightarrow> run_result" where
  "handleLLMDone gen failed toolMsgs endsCall h =
     (let ev = (if failed then [EfError ''llm''] else []) in
      if gen \<noteq> h_curGen h then (h, ev)
      else (h\<lparr>h_turnToolMsgs := toolMsgs, h_hangupAfterTurn := endsCall\<rparr>, ev))"

text \<open>Cut the TTS bytes into frames; what does not fit the queue is dropped and counted.\<close>

function slice_frames :: "nat \<Rightarrow> nat \<Rightarrow> byte list \<Rightarrow> out_frame list \<Rightarrow> byte list \<times> out_frame list \<times> effect list" where
  "slice_frames gen req buf q =
     (if length buf \<ge> FrameSize then
        let (q, sent) = try_send outboundBufferFrames \<lparr>of_pcm = take FrameSize buf, of_req = req, of_gen = gen\<rparr> q;
            (buf, q, ev) = slice_frames gen req (drop FrameSize buf) q
        in (buf, q, (if sent then [] else [EfError ''tts_outbound_full'']) @ ev)
      else (buf, q, []))"
  by pat_completeness auto
termination
  by (relation "measure (\<lambda>(gen, req, buf, q). length buf)") (auto simp: FrameSize_def)

declare slice_frames.simps [simp del]

definition handleTTSAudio :: "int \<Rightarrow> byte list \<Rightarrow> nat \<Rightarrow> nat \<Rightarrow> runes \<Rightarrow> handler \<Rightarrow> run_result" where
  "handleTTSAudio now pcm gen req text h =
     (if gen \<noteq> h_curGen h then (h, [])
      else
        let h = (if text \<noteq> [] \<and> (h_turnChunks h = [] \<or> sp_req (last (h_turnChunks h)) \<noteq> req)
              then h\<lparr>h_turnChunks := h_turnChunks h @ [\<lparr>sp_req = req, sp_text = text\<rparr>]\<rparr> else h);
            h = (if h_firstAudioGen h \<noteq> gen then
                (let h = h\<lparr>h_firstAudioGen := gen\<rparr>
                 in if h_state h = Thinking then h\<lparr>h_state := Speaking, h_speakingSince := now\<rparr> else h)
              else h);
            (buf, q, ev) = slice_frames gen req (h_ttsBuf h @ pcm) (h_outbound h)
        in (h\<lparr>h_ttsBuf := buf, h_outbound := q\<rparr>, ev))"

definition handleTTSDone :: "config \<Rightarrow> int \<Rightarrow> bool \<Rightarrow> nat \<Rightarrow> handler \<Rightarrow> run_result" where
  "handleTTSDone cfg now ok gen h =
     (if gen \<noteq> h_curGen h then (h, [])
      else case h_state h of
          Thinking \<Rightarrow> finishTurn cfg now ok gen h
        | Speaking \<Rightarrow> (h\<lparr>h_ttsDeliveryDone := True\<rparr>, [])
        | _ \<Rightarrow> (h, []))"

definition handleTTSClosed :: "config \<Rightarrow> int \<Rightarrow> bool \<Rightarrow> nat \<Rightarrow> handler \<Rightarrow> run_result" where
  "handleTTSClosed cfg now ok conn h =
     (if \<not> h_tts h \<or> conn \<noteq> h_ttsConn h then (h, [])
      else
        let h = h\<lparr>h_tts := False\<rparr> in
        case h_state h of
          Thinking \<Rightarrow>
            let (h, ev) = cancelTurn h; (h, ev1) = finishTurn cfg now ok (h_curGen h) h
            in (h, EfError ''tts_closed'' # ev @ ev1)
        | Speaking \<Rightarrow>
            let (h, ev) = cancelTurn h in (h\<lparr>h_ttsDeliveryDone := True\<rparr>, EfError ''tts_closed'' # ev)
        | _ \<Rightarrow> (h, []))"

section \<open>ProcessFrame\<close>

text \<open>What is handed to the transport on a tick: a frame and, for the reader, the generation it
  belongs to (0: hold music).\<close>

type_synonym frame_result = "handler \<times> (nat \<times> byte list) option \<times> effect list"

text \<open>The queue of \<open>processSpeakingFrame\<close>: pop a frame, or end the turn, or count an empty tick.\<close>

definition pop_frame :: "int \<Rightarrow> handler \<Rightarrow> frame_result" where
  "pop_frame now h = (case h_outbound h of
      frame # q \<Rightarrow>
        let h = h\<lparr>h_emptyTicks := 0, h_outbound := q\<rparr>;
            h = (if of_gen frame \<noteq> h_sentGen h \<or> of_req frame \<noteq> h_sentReq h
                 then h\<lparr>h_sentGen := of_gen frame, h_sentReq := of_req frame, h_sentFrames := [],
                        h_playingSince := now\<rparr> else h)
        in (h\<lparr>h_playingReq := of_req frame, h_sentFrames := h_sentFrames h @ [of_pcm frame]\<rparr>,
            Some (of_gen frame, of_pcm frame), [])
    | [] \<Rightarrow>
        if h_ttsDeliveryDone h then
          (h\<lparr>h_ttsDeliveryDone := False, h_emptyTicks := 0, h_playbackDoneSig := True\<rparr>, None, [])
        else if h_toolRunning h then (h\<lparr>h_emptyTicks := 0\<rparr>, None, [])
        else if h_emptyTicks h + 1 \<ge> speakingDrainTimeoutTicks then
          (if h_state h = Speaking
           then (h\<lparr>h_emptyTicks := 0, h_state := Listening, h_drainTimeoutSig := True\<rparr>, None,
                 [EfError ''tts_drain_timeout''])
           else (h\<lparr>h_emptyTicks := 0\<rparr>, None, [EfError ''tts_drain_timeout'']))
        else (h\<lparr>h_emptyTicks := h_emptyTicks h + 1\<rparr>, None, []))"

text \<open>Replay the interrupted sentence first, when a resume asked for it.\<close>

definition play_frame :: "int \<Rightarrow> handler \<Rightarrow> frame_result" where
  "play_frame now h =
     (let h = (if h_replayPending h
          then h\<lparr>h_replayPending := False, h_replayIdx := 0,
                 h_replaying := h_sentFrames h \<noteq> [] \<and> h_sentGen h = h_replayGen h\<rparr> else h)
      in if h_replaying h then
           if h_replayIdx h < length (h_sentFrames h) then
             (h\<lparr>h_emptyTicks := 0, h_replayIdx := h_replayIdx h + 1\<rparr>,
              Some (h_sentGen h, h_sentFrames h ! h_replayIdx h), [])
           else pop_frame now (h\<lparr>h_replaying := False\<rparr>)
         else pop_frame now h)"

definition processSpeakingFrame :: "config \<Rightarrow> int \<Rightarrow> bool \<Rightarrow> handler \<Rightarrow> frame_result" where
  "processSpeakingFrame cfg now detected h =
     (if h_paused h then (h, None, [])
      else
        let h = h\<lparr>h_speechRunStart :=
              (if \<not> detected then 0 else if h_speechRunStart h = 0 then now else h_speechRunStart h)\<rparr>
        in if detected \<and> now - h_speechRunStart h \<ge> cf_BargeInMinSpeech cfg
              \<and> now - h_speakingSince h \<ge> cf_BargeInGuard cfg \<and> interruptible cfg h
           then (h\<lparr>h_paused := True, h_speechRunStart := 0, h_silenceUntil := now + cf_PostCutSilence cfg,
                   h_emptyTicks := 0, h_bargeInSig := True\<rparr>, None, [EfInterruptionPaused])
           else play_frame now h)"

text \<open>\<open>holdPlayer.next\<close> and \<open>processHoldFrame\<close>.\<close>

definition hold_next :: "hold_player \<Rightarrow> hold_player \<times> byte list option" where
  "hold_next p =
     (if hp_pos p + FrameSize > length (hp_pcm p) then
        if \<not> hp_loop p \<or> length (hp_pcm p) < FrameSize then (p\<lparr>hp_done := True\<rparr>, None)
        else (p\<lparr>hp_pos := FrameSize\<rparr>, Some (take FrameSize (hp_pcm p)))
      else (p\<lparr>hp_pos := hp_pos p + FrameSize\<rparr>, Some (take FrameSize (drop (hp_pos p) (hp_pcm p)))))"

definition processHoldFrame :: "hold_player \<Rightarrow> handler \<Rightarrow> frame_result" where
  "processHoldFrame p h = (case h_outbound h of
      f # q \<Rightarrow> (h\<lparr>h_outbound := q, h_playingReq := of_req f, h_hold := Some (p\<lparr>hp_sawMessage := True\<rparr>)\<rparr>,
               Some (of_gen f, of_pcm f), [])
    | [] \<Rightarrow>
        if hp_waitForMessage p \<and> \<not> hp_sawMessage p \<and> hp_waited p < holdMessageWaitTicks
        then (h\<lparr>h_hold := Some (p\<lparr>hp_waited := hp_waited p + 1\<rparr>)\<rparr>, None, [])
        else let (p, f) = hold_next p in (h\<lparr>h_hold := Some p\<rparr>, map_option (Pair 0) f, []))"

definition agent_ProcessFrame :: "config \<Rightarrow> int \<Rightarrow> bool \<Rightarrow> handler \<Rightarrow> frame_result" where
  "agent_ProcessFrame cfg now detected h = (case h_hold h of
      Some p \<Rightarrow> processHoldFrame p h
    | None \<Rightarrow> if h_state h = Speaking then processSpeakingFrame cfg now detected h else (h, None, []))"

section \<open>The interleaved machine\<close>

text \<open>One step of either goroutine. A signal is handled only when it is raised; the steps of the turn
  goroutine change only what \<open>runLLMTurn\<close> writes directly: the node, the closing flag, the
  tool flag and the hold player.\<close>

datatype agent_op =
    OpFrame int bool
  | OpTranscript int bool runes
  | OpLLMDone nat bool "message list" bool
  | OpTTSAudio int "byte list" nat nat runes
  | OpTTSDone int bool nat
  | OpTTSClosed int bool nat
  | OpEndCallTool
  | OpGreeting bool
  | OpOpening bool
  | OpCallerSpeech int bool
  | OpResumeCheck int int nat
  | OpIdle bool nat
  | OpMaxDuration
  | SigBargeIn int
  | SigPlaybackDone int bool
  | SigDrainTimeout int
  | TurnNode nat
  | TurnClosing
  | TurnTool bool
  | TurnHold "hold_player option"

fun agent_step :: "config \<Rightarrow> agent_op \<Rightarrow> handler \<Rightarrow> frame_result" where
  "agent_step cfg (OpFrame now detected) h = agent_ProcessFrame cfg now detected h"
| "agent_step cfg (OpTranscript now ok text) h = apsnd (Pair None) (handleFinalTranscript cfg now ok text h)"
| "agent_step cfg (OpLLMDone gen failed msgs endsCall) h = apsnd (Pair None) (handleLLMDone gen failed msgs endsCall h)"
| "agent_step cfg (OpTTSAudio now pcm gen req text) h = apsnd (Pair None) (handleTTSAudio now pcm gen req text h)"
| "agent_step cfg (OpTTSDone now ok gen) h = apsnd (Pair None) (handleTTSDone cfg now ok gen h)"
| "agent_step cfg (OpTTSClosed now ok conn) h = apsnd (Pair None) (handleTTSClosed cfg now ok conn h)"
| "agent_step cfg OpEndCallTool h = apsnd (Pair None) (endCall cfg EndCallTool h)"
| "agent_step cfg (OpGreeting ok) h = apsnd (Pair None) (handleGreeting cfg ok h)"
| "agent_step cfg (OpOpening ok) h = apsnd (Pair None) (startTurn ok h)"
| "agent_step cfg (OpCallerSpeech now started) h = apsnd (Pair None) (handleCallerSpeech cfg now started h)"
| "agent_step cfg (OpResumeCheck now lastSpeech seq) h = apsnd (Pair None) (handleResumeCheck cfg now lastSpeech seq h)"
| "agent_step cfg (OpIdle ok seq) h = apsnd (Pair None) (handleIdle ok seq h)"
| "agent_step cfg OpMaxDuration h = apsnd (Pair None) (endCall cfg MaxDuration h)"
| "agent_step cfg (SigBargeIn now) h =
     (if h_bargeInSig h then apsnd (Pair None) (handleBargeIn now (h\<lparr>h_bargeInSig := False\<rparr>)) else (h, None, []))"
| "agent_step cfg (SigPlaybackDone now ok) h =
     (if h_playbackDoneSig h
      then apsnd (Pair None) (finishTurn cfg now ok (h_curGen h) (h\<lparr>h_playbackDoneSig := False\<rparr>)) else (h, None, []))"
| "agent_step cfg (SigDrainTimeout now) h =
     (if h_drainTimeoutSig h
      then apsnd (Pair None) (handleDrainTimeout cfg now (h\<lparr>h_drainTimeoutSig := False\<rparr>)) else (h, None, []))"
| "agent_step cfg (TurnNode n) h =
     (h\<lparr>h_node := n, h_closing := h_closing h \<or> nd_end (cf_nodes cfg n)\<rparr>, None, [])"
| "agent_step cfg TurnClosing h = (h\<lparr>h_closing := True\<rparr>, None, [])"
| "agent_step cfg (TurnTool b) h = (h\<lparr>h_toolRunning := b\<rparr>, None, [])"
| "agent_step cfg (TurnHold p) h = (h\<lparr>h_hold := p\<rparr>, None, [])"

fun agent_run :: "config \<Rightarrow> agent_op list \<Rightarrow> handler \<Rightarrow> handler \<times> (nat \<times> byte list) list \<times> effect list" where
  "agent_run cfg [] h = (h, [], [])"
| "agent_run cfg (op # ops) h =
     (let (h, f, ev) = agent_step cfg op h; (h, fs, ev') = agent_run cfg ops h
      in (h, (case f of None \<Rightarrow> [] | Some x \<Rightarrow> [x]) @ fs, ev @ ev'))"

end
