(* ===== verification/Turn_Props.thy ===== *)
theory Turn_Props
  imports Turn_Loop
begin

text \<open>
  Invariants of the turn loop, one preservation lemma per operation: what only grows (generations,
  the closing and ending flags, the single hang-up), what the playout queue may hold, and the
  frames handed to the transport.
\<close>

section \<open>What only grows\<close>

definition hangs :: "effect list \<Rightarrow> nat" where
  "hangs ev = length (filter (\<lambda>e. e = EfHangup) ev)"

definition cuts :: "effect list \<Rightarrow> bool" where
  "cuts ev = (EfBargeIn \<in> set ev \<or> EfInterruptionPaused \<in> set ev)"

type_synonym core = "bool \<times> nat \<times> bool \<times> bool"

definition core :: "handler \<Rightarrow> core" where
  "core h = (h_hungUp h, h_curGen h, h_ending h, h_closing h)"

fun grows :: "core \<Rightarrow> effect list \<Rightarrow> core \<Rightarrow> bool" where
  "grows (u, g, e, c) ev (u', g', e', c') =
     ((u \<longrightarrow> u' \<and> hangs ev = 0) \<and> (hangs ev = 0 \<or> hangs ev = 1 \<and> u')
      \<and> g \<le> g' \<and> (e \<longrightarrow> e') \<and> (c \<longrightarrow> c' \<and> \<not> cuts ev))"

lemma core_upd [simp]:
  "core (h_state_update f1 h) = core h"
  "core (h_speakingSince_update f2 h) = core h"
  "core (h_silenceUntil_update f3 h) = core h"
  "core (h_ttsDeliveryDone_update f4 h) = core h"
  "core (h_playingReq_update f5 h) = core h"
  "core (h_playingSince_update f6 h) = core h"
  "core (h_held_update f7 h) = core h"
  "core (h_toolRunning_update f8 h) = core h"
  "core (h_hold_update f9 h) = core h"
  "core (h_paused_update f10 h) = core h"
  "core (h_sttUttStart_update f11 h) = core h"
  "core (h_replayPending_update f12 h) = core h"
  "core (h_replayGen_update f13 h) = core h"
  "core (h_node_update f14 h) = core h"
  "core (h_bargeInSig_update f15 h) = core h"
  "core (h_playbackDoneSig_update f16 h) = core h"
  "core (h_drainTimeoutSig_update f17 h) = core h"
  "core (h_tts_update f18 h) = core h"
  "core (h_ttsConn_update f19 h) = core h"
  "core (h_turnRunning_update f20 h) = core h"
  "core (h_history_update f21 h) = core h"
  "core (h_ttsBuf_update f22 h) = core h"
  "core (h_firstAudioGen_update f23 h) = core h"
  "core (h_turnChunks_update f24 h) = core h"
  "core (h_turnToolMsgs_update f25 h) = core h"
  "core (h_hangupAfterTurn_update f26 h) = core h"
  "core (h_turn_update f27 h) = core h"
  "core (h_idleTimer_update f28 h) = core h"
  "core (h_idleSeq_update f29 h) = core h"
  "core (h_idleArmed_update f30 h) = core h"
  "core (h_idleCount_update f31 h) = core h"
  "core (h_endReason_update f32 h) = core h"
  "core (h_pausedAt_update f33 h) = core h"
  "core (h_resumeSeq_update f34 h) = core h"
  "core (h_callerSpeaking_update f35 h) = core h"
  "core (h_prevSpeechEndAt_update f36 h) = core h"
  "core (h_agentQuietSince_update f37 h) = core h"
  "core (h_speechRunStart_update f38 h) = core h"
  "core (h_sentGen_update f39 h) = core h"
  "core (h_sentReq_update f40 h) = core h"
  "core (h_sentFrames_update f41 h) = core h"
  "core (h_replaying_update f42 h) = core h"
  "core (h_replayIdx_update f43 h) = core h"
  "core (h_emptyTicks_update f44 h) = core h"
  "core (h_outbound_update f45 h) = core h"
  by (simp_all add: core_def)

named_theorems grow_intros \<open>each operation only grows the core of the state\<close>

lemma hangs_simps [simp]: "hangs [] = 0" "hangs (EfHangup # ev) = Suc (hangs ev)"
  "hangs (a @ b) = hangs a + hangs b"
  by (simp_all add: hangs_def)

lemma hangs_other [simp]: "e \<noteq> EfHangup \<Longrightarrow> hangs (e # ev) = hangs ev"
  by (simp add: hangs_def)

lemma cuts_simps [simp]: "cuts [] = False" "cuts (a @ b) = (cuts a \<or> cuts b)"
  "cuts (e # ev) = (e = EfBargeIn \<or> e = EfInterruptionPaused \<or> cuts ev)"
  by (auto simp: cuts_def)

lemma hangs_map [simp]: "hangs (map EfDropped xs) = 0" "hangs (map (\<lambda>c. EfSpeak c g) cs) = 0"
  by (simp_all add: hangs_def)

lemma cuts_map [simp]: "\<not> cuts (map EfDropped xs)" "\<not> cuts (map (\<lambda>c. EfSpeak c g) cs)"
  by (auto simp: cuts_def)

lemma grows_refl [simp]: "grows c [] c"
  by (cases c) simp

lemma grows_quiet:
  "hangs a = 0 \<Longrightarrow> \<not> cuts a \<Longrightarrow> grows c (a @ ev) c' = grows c ev c'"
  by (cases c; cases c') simp

lemma grows_cons [simp]:
  "e \<noteq> EfHangup \<Longrightarrow> e \<noteq> EfBargeIn \<Longrightarrow> e \<noteq> EfInterruptionPaused \<Longrightarrow> grows c (e # ev) c' = grows c ev c'"
  using grows_quiet [of "[e]"] by simp

lemma grows_map [simp]:
  "grows c (map EfDropped xs @ ev) c' = grows c ev c'"
  "grows c (map (\<lambda>c. EfSpeak c g) cs @ ev) c' = grows c ev c'"
  "grows c (map EfDropped xs) c' = grows c [] c'"
  by (simp_all add: grows_quiet) (cases c; cases c', simp)

lemma grows_quiet0 [intro]: "hangs a = 0 \<Longrightarrow> \<not> cuts a \<Longrightarrow> grows c a c"
  by (cases c) simp

lemma grows_append: "grows c ev c1 \<Longrightarrow> grows c1 ev' c2 \<Longrightarrow> grows c (ev @ ev') c2"
  by (cases c; cases c1; cases c2) auto

lemma core_stopIdle [simp]: "core (stopIdleTimer h) = core h" "core (startTurnChunks h) = core h"
  by (simp_all add: stopIdleTimer_def startTurnChunks_def)

lemma grows_hangup [grow_intros]: "c = core h \<Longrightarrow> grows c (snd (hangup cfg h)) (core (fst (hangup cfg h)))"
  by (auto simp: hangup_def core_def)

lemma grows_startIdle [grow_intros]:
  "c = core h \<Longrightarrow> grows c (snd (startIdleTimer cfg h)) (core (fst (startIdleTimer cfg h)))"
  by (simp add: startIdleTimer_def Let_def)

lemma grows_endCall [grow_intros]:
  "c = core h \<Longrightarrow> grows c (snd (endCall cfg r h)) (core (fst (endCall cfg r h)))"
  by (auto simp: endCall_def hangup_def core_def stopIdleTimer_def Let_def split: agent_state.split)

lemma grows_startTurn [grow_intros]:
  "c = core h \<Longrightarrow> grows c (snd (startTurn ok h)) (core (fst (startTurn ok h)))"
  by (simp add: startTurn_def openTTS_def Let_def) (simp add: core_def startTurnChunks_def stopIdleTimer_def)

lemma startTurn_gen: "h_curGen (fst (startTurn ok h)) = h_curGen h + 1"
  by (simp add: startTurn_def openTTS_def Let_def startTurnChunks_def stopIdleTimer_def)

lemma grows_accept [grow_intros]:
  "c = core h \<Longrightarrow> grows c (snd (acceptUserTurn ok t s h)) (core (fst (acceptUserTurn ok t s h)))"
  by (auto simp: acceptUserTurn_def Let_def split_beta intro: grow_intros)

lemma grows_recordReply [grow_intros]:
  "c = core h \<Longrightarrow> grows c (snd (recordReply cfg b h)) (core (fst (recordReply cfg b h)))"
  by (simp add: recordReply_def Let_def)

lemma core_recordReply [simp]: "core (fst (recordReply cfg b h)) = core h"
  by (simp add: recordReply_def Let_def)

lemma recordReply_quiet [simp]: "hangs (snd (recordReply cfg b h)) = 0" "\<not> cuts (snd (recordReply cfg b h))"
  by (simp_all add: recordReply_def Let_def)

lemma grows_cancelTurn [grow_intros]:
  "c = core h \<Longrightarrow> grows c (snd (cancelTurn h)) (core (fst (cancelTurn h)))"
  by (simp add: cancelTurn_def)

lemma grows_holdSpeech [grow_intros]:
  "c = core h \<Longrightarrow> grows c (snd (holdSpeech now t h)) (core (fst (holdSpeech now t h)))"
  by (simp add: holdSpeech_def Let_def)

lemma grows_resumeReply [grow_intros]:
  "c = core h \<Longrightarrow> grows c (snd (resumeReply b h)) (core (fst (resumeReply b h)))"
  by (simp add: resumeReply_def)

lemma grows_settleHeld [grow_intros]:
  "c = core h \<Longrightarrow> grows c (snd (snd (settleHeld cfg ok gen h))) (core (fst (settleHeld cfg ok gen h)))"
  by (auto simp: settleHeld_def Let_def split_beta split: list.split intro: grow_intros)

lemma grows_finishTurn [grow_intros]:
  "c = core h \<Longrightarrow> grows c (snd (finishTurn cfg now ok gen h)) (core (fst (finishTurn cfg now ok gen h)))"
  by (auto simp: finishTurn_def dropHeld_def Let_def split_beta intro!: grows_append grow_intros)

lemma grows_drainTimeout [grow_intros]:
  "c = core h \<Longrightarrow> grows c (snd (handleDrainTimeout cfg now h)) (core (fst (handleDrainTimeout cfg now h)))"
  by (auto simp: handleDrainTimeout_def Let_def split_beta intro!: grows_append grow_intros)

lemma cancelTurn_quiet [simp]: "hangs (snd (cancelTurn h)) = 0" "\<not> cuts (snd (cancelTurn h))"
  "core (fst (cancelTurn h)) = core h"
  by (simp_all add: cancelTurn_def)

lemma core_cutReply:
  "core (fst (cutReply cfg now h)) = (h_hungUp h, h_curGen h + 1, h_ending h, h_closing h)"
  "hangs (snd (cutReply cfg now h)) = 0" "\<not> cuts (snd (cutReply cfg now h))"
  by (auto simp: cutReply_def cancelTurn_def recordReply_def Let_def split_beta) (auto simp: core_def)

lemma core_confirm:
  "core (fst (confirmInterruption cfg now h)) = (h_hungUp h, h_curGen h + 1, h_ending h, h_closing h)"
  "hangs (snd (confirmInterruption cfg now h)) = 0"
  by (simp_all add: confirmInterruption_def dropHeld_def Let_def split_beta core_cutReply)

lemma grows_confirm [grow_intros]:
  "c = core h \<Longrightarrow> \<not> h_closing h \<Longrightarrow>
   grows c (snd (confirmInterruption cfg now h)) (core (fst (confirmInterruption cfg now h)))"
  by (simp add: core_confirm core_def [of h])

lemma grows_transcript_turn [grow_intros]:
  "c = core h \<Longrightarrow> grows c (snd (transcript_turn cfg now ok t h)) (core (fst (transcript_turn cfg now ok t h)))"
  by (auto simp: transcript_turn_def intro: grow_intros)

lemma grows_transcript [grow_intros]:
  "c = core h \<Longrightarrow>
   grows c (snd (handleFinalTranscript cfg now ok t h)) (core (fst (handleFinalTranscript cfg now ok t h)))"
  by (auto simp: handleFinalTranscript_def Let_def split_beta intro!: grows_append grow_intros)

lemma grows_resumeCheck [grow_intros]:
  "c = core h \<Longrightarrow>
   grows c (snd (handleResumeCheck cfg now l seq h)) (core (fst (handleResumeCheck cfg now l seq h)))"
  by (auto simp: handleResumeCheck_def scheduleResumeCheck_def Let_def intro: grow_intros)

lemma grows_callerSpeech [grow_intros]:
  "c = core h \<Longrightarrow> grows c (snd (handleCallerSpeech cfg now b h)) (core (fst (handleCallerSpeech cfg now b h)))"
  by (auto simp: handleCallerSpeech_def Let_def intro: grow_intros)

lemma grows_idle [grow_intros]:
  "c = core h \<Longrightarrow> grows c (snd (handleIdle ok seq h)) (core (fst (handleIdle ok seq h)))"
proof -
  assume c: "c = core h"
  have g: "grows (core h) (snd (startTurn ok k)) (core (fst (startTurn ok k)))"
    if "grows (core h) [] (core k)" for k
    using grows_append [OF that grows_startTurn [OF refl, of k ok]] by simp
  show ?thesis
    unfolding c by (auto simp: handleIdle_def Let_def intro!: g) (auto simp: core_def)
qed

lemma grows_greeting [grow_intros]:
  "c = core h \<Longrightarrow> grows c (snd (handleGreeting cfg ok h)) (core (fst (handleGreeting cfg ok h)))"
  by (auto simp: handleGreeting_def openTTS_def Let_def split_beta split: option.split)
    (auto simp: core_def startTurnChunks_def)

definition frame_of :: "nat \<Rightarrow> nat \<Rightarrow> out_frame \<Rightarrow> bool" where
  "frame_of gen req f \<longleftrightarrow> of_gen f = gen \<and> of_req f = req \<and> frame_ok (of_pcm f)"

lemma slice_frames_spec:
  "slice_frames gen req buf q = (buf', q', ev) \<Longrightarrow>
   hangs ev = 0 \<and> \<not> cuts ev \<and> length buf' < FrameSize
   \<and> (\<exists>fs. q' = q @ fs \<and> list_all (frame_of gen req) fs)
   \<and> (length q \<le> outboundBufferFrames \<longrightarrow> length q' \<le> outboundBufferFrames)"
proof (induction "length buf" arbitrary: buf q ev rule: less_induct)
  case less
  show ?case
  proof (cases "length buf \<ge> FrameSize")
    case True
    define f where "f = \<lparr>of_pcm = take FrameSize buf, of_req = req, of_gen = gen\<rparr>"
    obtain q1 ok where s: "try_send outboundBufferFrames f q = (q1, ok)" by (rule prod.exhaust)
    obtain ev1 where r: "slice_frames gen req (drop FrameSize buf) q1 = (buf', q', ev1)"
      "ev = (if ok then [] else [EfError ''tts_outbound_full'']) @ ev1"
      using less.prems True s by (subst (asm) slice_frames.simps) (auto simp: f_def Let_def split: prod.splits)
    have "length (drop FrameSize buf) < length buf" using True by (simp add: FrameSize_def)
    note ih = less.hyps [OF this r(1)]
    have f: "frame_of gen req f" using True by (simp add: f_def frame_of_def frame_ok_def)
    have "q1 = q @ [f] \<and> length q < outboundBufferFrames \<or> q1 = q"
      using s by (auto simp: try_send_def split: if_splits)
    then show ?thesis using ih f r(2) by auto
  next
    case False
    with less.prems have "buf' = buf \<and> q' = q \<and> ev = []" by (simp add: slice_frames.simps [of gen req buf q])
    with False show ?thesis by simp
  qed
qed

lemma slice_frames_quiet [simp]: "hangs (snd (snd (slice_frames g r b q))) = 0" "\<not> cuts (snd (snd (slice_frames g r b q)))"
  using slice_frames_spec [of g r b q "fst (slice_frames g r b q)"] by (metis prod.collapse)+

lemma grows_llmDone [grow_intros]:
  "c = core h \<Longrightarrow> grows c (snd (handleLLMDone g f m e h)) (core (fst (handleLLMDone g f m e h)))"
  by (auto simp: handleLLMDone_def Let_def)

lemma grows_ttsAudio [grow_intros]:
  "c = core h \<Longrightarrow> grows c (snd (handleTTSAudio now p g r t h)) (core (fst (handleTTSAudio now p g r t h)))"
  by (auto simp: handleTTSAudio_def Let_def split_beta)

lemma grows_ttsDone [grow_intros]:
  "c = core h \<Longrightarrow> grows c (snd (handleTTSDone cfg now ok g h)) (core (fst (handleTTSDone cfg now ok g h)))"
  by (auto simp: handleTTSDone_def split: agent_state.split intro: grow_intros)

lemma grows_ttsClosed [grow_intros]:
  "c = core h \<Longrightarrow> grows c (snd (handleTTSClosed cfg now ok g h)) (core (fst (handleTTSClosed cfg now ok g h)))"
  by (auto simp: handleTTSClosed_def Let_def split_beta grows_quiet split: agent_state.split intro!: grow_intros)

lemma grows_bargeIn [grow_intros]:
  "c = core h \<Longrightarrow> grows c (snd (handleBargeIn now h)) (core (fst (handleBargeIn now h)))"
  by (auto simp: handleBargeIn_def scheduleResumeCheck_def Let_def)

lemma grows_play: "c = core h \<Longrightarrow> grows c (snd (snd (play_frame now h))) (core (fst (play_frame now h)))"
  by (auto simp: play_frame_def pop_frame_def Let_def split: list.split)

lemma grows_speaking:
  "c = core h \<Longrightarrow>
   grows c (snd (snd (processSpeakingFrame cfg now d h))) (core (fst (processSpeakingFrame cfg now d h)))"
  by (auto simp: processSpeakingFrame_def Let_def interruptible_def intro!: grows_play)
    (auto simp: core_def)

lemma grows_ProcessFrame [grow_intros]:
  "c = core h \<Longrightarrow>
   grows c (snd (snd (agent_ProcessFrame cfg now d h))) (core (fst (agent_ProcessFrame cfg now d h)))"
  by (auto simp: agent_ProcessFrame_def processHoldFrame_def Let_def split_beta
      split: option.split list.split intro!: grows_speaking)

lemma agent_step_grows: "grows (core h) (snd (snd (agent_step cfg op h))) (core (fst (agent_step cfg op h)))"
  by (cases op) (auto simp: intro: grow_intros, auto simp: core_def)

lemma agent_run_grows: "grows (core h) (snd (snd (agent_run cfg ops h))) (core (fst (agent_run cfg ops h)))"
proof (induction ops arbitrary: h)
  case (Cons op ops)
  from grows_append [OF agent_step_grows Cons] show ?case by (simp add: Let_def split_beta)
qed simp

section \<open>The playout queue\<close>

definition playout :: "handler \<Rightarrow> out_frame list \<times> byte list list \<times> nat \<times> bool \<times> nat" where
  "playout h = (h_outbound h, h_sentFrames h, h_sentGen h, h_replaying h, h_replayIdx h)"

lemma playout_upd [simp]:
  "playout (h_state_update f0 h) = playout h"
  "playout (h_speakingSince_update f1 h) = playout h"
  "playout (h_silenceUntil_update f2 h) = playout h"
  "playout (h_ttsDeliveryDone_update f3 h) = playout h"
  "playout (h_playingReq_update f4 h) = playout h"
  "playout (h_playingSince_update f5 h) = playout h"
  "playout (h_held_update f6 h) = playout h"
  "playout (h_toolRunning_update f7 h) = playout h"
  "playout (h_hold_update f8 h) = playout h"
  "playout (h_paused_update f9 h) = playout h"
  "playout (h_sttUttStart_update f10 h) = playout h"
  "playout (h_replayPending_update f11 h) = playout h"
  "playout (h_replayGen_update f12 h) = playout h"
  "playout (h_node_update f13 h) = playout h"
  "playout (h_bargeInSig_update f14 h) = playout h"
  "playout (h_playbackDoneSig_update f15 h) = playout h"
  "playout (h_drainTimeoutSig_update f16 h) = playout h"
  "playout (h_tts_update f17 h) = playout h"
  "playout (h_ttsConn_update f18 h) = playout h"
  "playout (h_turnRunning_update f19 h) = playout h"
  "playout (h_history_update f20 h) = playout h"
  "playout (h_ttsBuf_update f21 h) = playout h"
  "playout (h_firstAudioGen_update f22 h) = playout h"
  "playout (h_turnChunks_update f23 h) = playout h"
  "playout (h_turnToolMsgs_update f24 h) = playout h"
  "playout (h_hangupAfterTurn_update f25 h) = playout h"
  "playout (h_turn_update f26 h) = playout h"
  "playout (h_idleTimer_update f27 h) = playout h"
  "playout (h_idleSeq_update f28 h) = playout h"
  "playout (h_idleArmed_update f29 h) = playout h"
  "playout (h_idleCount_update f30 h) = playout h"
  "playout (h_endReason_update f31 h) = playout h"
  "playout (h_pausedAt_update f32 h) = playout h"
  "playout (h_resumeSeq_update f33 h) = playout h"
  "playout (h_callerSpeaking_update f34 h) = playout h"
  "playout (h_prevSpeechEndAt_update f35 h) = playout h"
  "playout (h_agentQuietSince_update f36 h) = playout h"
  "playout (h_speechRunStart_update f37 h) = playout h"
  "playout (h_curGen_update f38 h) = playout h"
  "playout (h_ending_update f39 h) = playout h"
  "playout (h_hungUp_update f40 h) = playout h"
  "playout (h_closing_update f41 h) = playout h"
  "playout (h_emptyTicks_update f42 h) = playout h"
  by (simp_all add: playout_def)

lemma playout_small [simp]:
  "playout (stopIdleTimer h) = playout h" "playout (startTurnChunks h) = playout h"
  "playout (fst (startIdleTimer cfg h)) = playout h" "playout (fst (hangup cfg h)) = playout h"
  "playout (fst (endCall cfg r h)) = playout h" "playout (fst (openTTS ok h)) = playout h"
  "playout (fst (startTurn ok h)) = playout h" "playout (fst (cancelTurn h)) = playout h"
  "playout (fst (acceptUserTurn ok t s h)) = playout h" "playout (fst (recordReply cfg b h)) = playout h"
  "playout (fst (holdSpeech now t h)) = playout h" "playout (fst (resumeReply b h)) = playout h"
  by (auto simp: stopIdleTimer_def startTurnChunks_def startIdleTimer_def hangup_def endCall_def openTTS_def
      startTurn_def cancelTurn_def acceptUserTurn_def recordReply_def holdSpeech_def resumeReply_def
      Let_def split_beta split: agent_state.split)

lemma playout_turn [simp]:
  "playout (fst (settleHeld cfg ok g h)) = playout h"
  "playout (fst (finishTurn cfg now ok g h)) = playout h"
  "playout (fst (handleDrainTimeout cfg now h)) = playout h"
  "playout (fst (handleBargeIn now h)) = playout h"
  "playout (fst (handleResumeCheck cfg now l seq h)) = playout h"
  "playout (fst (handleCallerSpeech cfg now b h)) = playout h"
  "playout (fst (handleIdle ok seq h)) = playout h"
  "playout (fst (handleGreeting cfg ok h)) = playout h"
  "playout (fst (handleLLMDone g f m e h)) = playout h"
  by (auto simp: settleHeld_def finishTurn_def dropHeld_def handleDrainTimeout_def handleBargeIn_def
      scheduleResumeCheck_def handleResumeCheck_def handleCallerSpeech_def handleIdle_def
      handleGreeting_def handleLLMDone_def Let_def split_beta split: list.split option.split)

lemma playout_tts [simp]:
  "playout (fst (handleTTSDone cfg now ok g h)) = playout h"
  "playout (fst (handleTTSClosed cfg now ok g h)) = playout h"
  by (auto simp: handleTTSDone_def handleTTSClosed_def Let_def split_beta split: agent_state.split)

lemma playout_cutReply:
  "playout (fst (cutReply cfg now h)) = ([], h_sentFrames h, h_sentGen h, h_replaying h, h_replayIdx h)"
proof -
  have "playout (h\<lparr>h_outbound := []\<rparr>) = ([], snd (playout h))" for h :: handler by (simp add: playout_def)
  then show ?thesis by (simp add: cutReply_def Let_def split_beta) (simp add: playout_def)
qed

lemma playout_confirm:
  "playout (fst (confirmInterruption cfg now h)) = ([], h_sentFrames h, h_sentGen h, h_replaying h, h_replayIdx h)"
  by (simp add: confirmInterruption_def dropHeld_def Let_def split_beta playout_cutReply)

lemma playout_transcript_turn [simp]: "playout (fst (transcript_turn cfg now ok t h)) = playout h"
  by (simp add: transcript_turn_def)

lemma playout_transcript:
  "playout (fst (handleFinalTranscript cfg now ok t h)) = playout h
   \<or> playout (fst (handleFinalTranscript cfg now ok t h))
       = ([], h_sentFrames h, h_sentGen h, h_replaying h, h_replayIdx h)"
  by (auto simp: handleFinalTranscript_def Let_def split_beta playout_confirm)

text \<open>Every frame queued or kept for a replay is one whole frame; the queue's generations lie between
  \<open>g\<close> and the current one, and it never exceeds its capacity.\<close>

definition queue_inv :: "nat \<Rightarrow> handler \<Rightarrow> bool" where
  "queue_inv g h \<longleftrightarrow> g \<le> h_curGen h
     \<and> list_all (\<lambda>f. g \<le> of_gen f \<and> of_gen f \<le> h_curGen h \<and> frame_ok (of_pcm f)) (h_outbound h)
     \<and> length (h_outbound h) \<le> outboundBufferFrames \<and> list_all frame_ok (h_sentFrames h)"

lemma queue_inv_mono:
  assumes "queue_inv g h" and "playout h' = playout h" and "h_curGen h \<le> h_curGen h'"
  shows "queue_inv g h'"
  using assms by (auto simp: queue_inv_def playout_def list_all_iff)

lemma queue_inv_cleared:
  assumes "queue_inv g h" and "playout h' = ([], h_sentFrames h, h_sentGen h, r, i)" and "h_curGen h \<le> h_curGen h'"
  shows "queue_inv g h'"
  using assms by (auto simp: queue_inv_def playout_def)

lemma queue_inv_ttsAudio:
  assumes "queue_inv g h"
  shows "queue_inv g (fst (handleTTSAudio now pcm gen req text h))"
proof (cases "gen = h_curGen h")
  case True
  obtain buf q ev where s: "slice_frames gen req (h_ttsBuf h @ pcm) (h_outbound h) = (buf, q, ev)" by (rule prod_cases3)
  obtain fs where fs: "q = h_outbound h @ fs" "list_all (frame_of gen req) fs"
      "length q \<le> outboundBufferFrames"
    using slice_frames_spec [OF s] assms by (auto simp: queue_inv_def)
  have "h_outbound (fst (handleTTSAudio now pcm gen req text h)) = q"
    "h_curGen (fst (handleTTSAudio now pcm gen req text h)) = h_curGen h"
    "h_sentFrames (fst (handleTTSAudio now pcm gen req text h)) = h_sentFrames h"
    using True s by (auto simp: handleTTSAudio_def Let_def)
  then show ?thesis
    using assms fs True by (auto simp: queue_inv_def list_all_iff frame_of_def)
qed (use assms in \<open>simp add: handleTTSAudio_def\<close>)

definition out_ok :: "(nat \<times> byte list) option \<Rightarrow> bool" where
  "out_ok f = (case f of None \<Rightarrow> True | Some (g, pcm) \<Rightarrow> frame_ok pcm)"

lemma pop_frame_inv:
  "queue_inv g h \<Longrightarrow> pop_frame now h = (h', f, ev) \<Longrightarrow> queue_inv g h' \<and> out_ok f"
  by (auto simp: pop_frame_def queue_inv_def out_ok_def Let_def split: list.splits if_splits)

lemma play_frame_inv:
  assumes "queue_inv g h" and "play_frame now h = (h', f, ev)"
  shows "queue_inv g h' \<and> out_ok f"
proof -
  define k where "k = (if h_replayPending h
          then h\<lparr>h_replayPending := False, h_replayIdx := 0,
                 h_replaying := h_sentFrames h \<noteq> [] \<and> h_sentGen h = h_replayGen h\<rparr> else h)"
  have k: "queue_inv g k" "queue_inv g (k\<lparr>h_replaying := False\<rparr>)"
    using assms(1) by (auto simp: k_def queue_inv_def)
  show ?thesis
  proof (cases "h_replaying k \<and> h_replayIdx k < length (h_sentFrames k)")
    case True
    then have "h' = k\<lparr>h_emptyTicks := 0, h_replayIdx := h_replayIdx k + 1\<rparr>"
      "f = Some (h_sentGen k, h_sentFrames k ! h_replayIdx k)"
      using assms(2) unfolding play_frame_def k_def [symmetric] Let_def by auto
    then show ?thesis using k(1) True by (auto simp: queue_inv_def out_ok_def list_all_length)
  next
    case False
    then have "pop_frame now k = (h', f, ev) \<or> pop_frame now (k\<lparr>h_replaying := False\<rparr>) = (h', f, ev)"
      using assms(2) unfolding play_frame_def k_def [symmetric] Let_def by (auto split: if_splits)
    then show ?thesis using pop_frame_inv k by blast
  qed
qed

lemma speaking_inv:
  assumes "queue_inv g h" and "processSpeakingFrame cfg now d h = (h', f, ev)"
  shows "queue_inv g h' \<and> out_ok f"
proof -
  have "queue_inv g (h\<lparr>h_speechRunStart := x\<rparr>)" for x using assms(1) by (simp add: queue_inv_def)
  then show ?thesis
    using assms play_frame_inv [of g "h\<lparr>h_speechRunStart := _\<rparr>" now h' f ev]
    by (auto simp: processSpeakingFrame_def Let_def out_ok_def queue_inv_def split: if_splits)
qed

lemma hold_next_frame: "hold_next p = (p', Some f) \<Longrightarrow> frame_ok f"
  by (auto simp: hold_next_def frame_ok_def split: if_splits)

lemma hold_inv:
  "queue_inv g h \<Longrightarrow> processHoldFrame p h = (h', f, ev) \<Longrightarrow> queue_inv g h' \<and> out_ok f"
  by (auto simp: processHoldFrame_def queue_inv_def out_ok_def Let_def dest: hold_next_frame
      split: list.splits if_splits prod.splits option.splits)

lemma ProcessFrame_inv:
  "queue_inv g h \<Longrightarrow> agent_ProcessFrame cfg now d h = (h', f, ev) \<Longrightarrow> queue_inv g h' \<and> out_ok f"
  by (auto simp: agent_ProcessFrame_def out_ok_def dest: hold_inv speaking_inv
      split: option.splits if_splits)

lemma agent_step_gen: "h_curGen h \<le> h_curGen (fst (agent_step cfg op h))"
  using agent_step_grows [of h cfg op] by (simp add: core_def)

lemma agent_step_inv:
  assumes "queue_inv g h" and "agent_step cfg op h = (h', f, ev)"
  shows "queue_inv g h' \<and> out_ok f"
proof -
  have gen: "h_curGen h \<le> h_curGen h'" using agent_step_gen [of h cfg op] assms(2) by simp
  show ?thesis
  proof (cases op)
    case (OpFrame now d)
    with assms show ?thesis using ProcessFrame_inv by simp
  next
    case (OpTTSAudio now pcm gen req sent)
    with assms show ?thesis using queue_inv_ttsAudio [of g h now pcm gen req sent]
      by (cases "handleTTSAudio now pcm gen req sent h") (auto simp: out_ok_def)
  next
    case (OpTranscript now ok said)
    then have h': "h' = fst (handleFinalTranscript cfg now ok said h)" "f = None"
      using assms(2) by (auto simp: apsnd_def map_prod_def split_beta)
    from playout_transcript [of cfg now ok said h] show ?thesis
      using queue_inv_mono [OF assms(1) _ gen] queue_inv_cleared [OF assms(1) _ gen] h'
      by (auto simp: out_ok_def)
  qed (use assms gen in \<open>auto simp: apsnd_def map_prod_def split_beta out_ok_def
      intro: queue_inv_mono [OF assms(1)] split: if_splits\<close>)
qed

lemma agent_run_inv:
  "queue_inv g h \<Longrightarrow> agent_run cfg ops h = (h', fs, ev) \<Longrightarrow>
   queue_inv g h' \<and> list_all (\<lambda>(gen, pcm). frame_ok pcm) fs"
proof (induction ops arbitrary: h fs ev)
  case (Cons op ops)
  obtain h1 f ev1 where s: "agent_step cfg op h = (h1, f, ev1)" by (rule prod_cases3)
  obtain fs2 ev2 where r: "agent_run cfg ops h1 = (h', fs2, ev2)"
    "fs = (case f of None \<Rightarrow> [] | Some x \<Rightarrow> [x]) @ fs2"
    using Cons.prems(2) s by (auto simp: Let_def split: prod.splits)
  show ?case
    using agent_step_inv [OF Cons.prems(1) s] Cons.IH [OF _ r(1)] r(2)
    by (auto simp: out_ok_def split: option.splits)
qed simp

lemma queue_inv_new: "queue_inv 0 (NewHandler cfg)"
  by (simp add: queue_inv_def NewHandler_def)

section \<open>The agent is a frame handler\<close>

text \<open>\<open>ProcessFrame\<close> as the transport calls it: the clock readings and the detector's verdicts of the
  coming ticks are part of the handler's state.\<close>

definition agent_process :: "config \<Rightarrow> byte list \<Rightarrow> handler \<times> (int \<times> bool) list
    \<Rightarrow> (handler \<times> (int \<times> bool) list) \<times> byte list list" where
  "agent_process cfg pcm s =
     (let (now, d) = (case snd s of [] \<Rightarrow> (0, False) | x # xs \<Rightarrow> x);
          (h, f, ev) = agent_ProcessFrame cfg now d (fst s)
      in ((h, tl (snd s)), case f of None \<Rightarrow> [] | Some (g, out) \<Rightarrow> [out]))"

interpretation agent: frame_handler "agent_process cfg" "\<lambda>s. queue_inv 0 (fst s)"
proof
  fix s :: "handler \<times> (int \<times> bool) list" and pcm
  assume inv: "queue_inv 0 (fst s)"
  obtain now d where nd: "(case snd s of [] \<Rightarrow> (0, False) | x # xs \<Rightarrow> x) = (now, d)" by (rule prod.exhaust)
  obtain h f ev where p: "agent_ProcessFrame cfg now d (fst s) = (h, f, ev)" by (rule prod_cases3)
  note i = ProcessFrame_inv [OF inv p]
  show "queue_inv 0 (fst (fst (agent_process cfg pcm s)))"
    using i nd p by (simp add: agent_process_def Let_def)
  show "list_all frame_ok (snd (agent_process cfg pcm s))"
    using i nd p by (simp add: agent_process_def Let_def out_ok_def split: option.splits prod.splits)
qed

interpretation rec_agent: recorded_handler "agent_process cfg" "\<lambda>s. queue_inv 0 (fst s)" ..

end
