(* ===== verification/Turn_Cut.thy ===== *)
theory Turn_Cut
  imports Turn_Props
begin

text \<open>
  What may still be played after a reply was cut. \<open>fresh g h\<close>: nothing the handler can hand to the
  transport, from its queue or as a replay, belongs to a generation up to \<open>g\<close>.
\<close>

definition replay_of :: "handler \<Rightarrow> bool \<times> nat \<times> bool \<times> nat" where
  "replay_of h = (h_replaying h, h_sentGen h, h_replayPending h, h_replayGen h)"

definition fresh :: "nat \<Rightarrow> handler \<Rightarrow> bool" where
  "fresh g h \<longleftrightarrow> queue_inv (Suc g) h \<and> (h_replaying h \<longrightarrow> g < h_sentGen h)
     \<and> (h_replayPending h \<longrightarrow> g < h_replayGen h)"

definition fresh_out :: "nat \<Rightarrow> (nat \<times> byte list) option \<Rightarrow> bool" where
  "fresh_out g f = (case f of None \<Rightarrow> True | Some (gen, pcm) \<Rightarrow> (gen = 0 \<or> g < gen))"

lemma replay_upd [simp]:
  "replay_of (h_state_update f0 h) = replay_of h"
  "replay_of (h_speakingSince_update f1 h) = replay_of h"
  "replay_of (h_silenceUntil_update f2 h) = replay_of h"
  "replay_of (h_ttsDeliveryDone_update f3 h) = replay_of h"
  "replay_of (h_playingReq_update f4 h) = replay_of h"
  "replay_of (h_playingSince_update f5 h) = replay_of h"
  "replay_of (h_held_update f6 h) = replay_of h"
  "replay_of (h_toolRunning_update f7 h) = replay_of h"
  "replay_of (h_hold_update f8 h) = replay_of h"
  "replay_of (h_paused_update f9 h) = replay_of h"
  "replay_of (h_sttUttStart_update f10 h) = replay_of h"
  "replay_of (h_closing_update f11 h) = replay_of h"
  "replay_of (h_node_update f12 h) = replay_of h"
  "replay_of (h_bargeInSig_update f13 h) = replay_of h"
  "replay_of (h_playbackDoneSig_update f14 h) = replay_of h"
  "replay_of (h_drainTimeoutSig_update f15 h) = replay_of h"
  "replay_of (h_tts_update f16 h) = replay_of h"
  "replay_of (h_ttsConn_update f17 h) = replay_of h"
  "replay_of (h_turnRunning_update f18 h) = replay_of h"
  "replay_of (h_history_update f19 h) = replay_of h"
  "replay_of (h_ttsBuf_update f20 h) = replay_of h"
  "replay_of (h_curGen_update f21 h) = replay_of h"
  "replay_of (h_firstAudioGen_update f22 h) = replay_of h"
  "replay_of (h_turnChunks_update f23 h) = replay_of h"
  "replay_of (h_turnToolMsgs_update f24 h) = replay_of h"
  "replay_of (h_hangupAfterTurn_update f25 h) = replay_of h"
  "replay_of (h_turn_update f26 h) = replay_of h"
  "replay_of (h_idleTimer_update f27 h) = replay_of h"
  "replay_of (h_idleSeq_update f28 h) = replay_of h"
  "replay_of (h_idleArmed_update f29 h) = replay_of h"
  "replay_of (h_idleCount_update f30 h) = replay_of h"
  "replay_of (h_ending_update f31 h) = replay_of h"
  "replay_of (h_endReason_update f32 h) = replay_of h"
  "replay_of (h_hungUp_update f33 h) = replay_of h"
  "replay_of (h_pausedAt_update f34 h) = replay_of h"
  "replay_of (h_resumeSeq_update f35 h) = replay_of h"
  "replay_of (h_callerSpeaking_update f36 h) = replay_of h"
  "replay_of (h_prevSpeechEndAt_update f37 h) = replay_of h"
  "replay_of (h_agentQuietSince_update f38 h) = replay_of h"
  "replay_of (h_speechRunStart_update f39 h) = replay_of h"
  "replay_of (h_emptyTicks_update f40 h) = replay_of h"
  "replay_of (h_outbound_update f41 h) = replay_of h"
  by (simp_all add: replay_of_def)

lemma replay_small [simp]:
  "replay_of (stopIdleTimer h) = replay_of h" "replay_of (startTurnChunks h) = replay_of h"
  "replay_of (fst (startIdleTimer cfg h)) = replay_of h" "replay_of (fst (hangup cfg h)) = replay_of h"
  "replay_of (fst (endCall cfg r h)) = replay_of h" "replay_of (fst (openTTS ok h)) = replay_of h"
  "replay_of (fst (startTurn ok h)) = replay_of h" "replay_of (fst (cancelTurn h)) = replay_of h"
  "replay_of (fst (acceptUserTurn ok t s h)) = replay_of h" "replay_of (fst (recordReply cfg b h)) = replay_of h"
  "replay_of (fst (holdSpeech now t h)) = replay_of h"
  by (auto simp: stopIdleTimer_def startTurnChunks_def startIdleTimer_def hangup_def endCall_def openTTS_def
      startTurn_def cancelTurn_def acceptUserTurn_def recordReply_def holdSpeech_def
      Let_def split_beta split: agent_state.split)

lemma replay_turn [simp]:
  "replay_of (fst (settleHeld cfg ok g h)) = replay_of h"
  "replay_of (fst (finishTurn cfg now ok g h)) = replay_of h"
  "replay_of (fst (handleDrainTimeout cfg now h)) = replay_of h"
  "replay_of (fst (handleBargeIn now h)) = replay_of h"
  "replay_of (fst (handleCallerSpeech cfg now b h)) = replay_of h"
  "replay_of (fst (handleIdle ok seq h)) = replay_of h"
  "replay_of (fst (handleGreeting cfg ok h)) = replay_of h"
  "replay_of (fst (handleLLMDone g f m e h)) = replay_of h"
  "replay_of (fst (cutReply cfg now h)) = replay_of h"
  "replay_of (fst (confirmInterruption cfg now h)) = replay_of h"
  "replay_of (fst (transcript_turn cfg now ok t h)) = replay_of h"
  by (auto simp: settleHeld_def finishTurn_def dropHeld_def handleDrainTimeout_def handleBargeIn_def
      scheduleResumeCheck_def handleCallerSpeech_def handleIdle_def cutReply_def confirmInterruption_def
      handleGreeting_def handleLLMDone_def transcript_turn_def Let_def split_beta
      split: list.split option.split)

lemma replay_tts [simp]:
  "replay_of (fst (handleTTSAudio now p g r t h)) = replay_of h"
  "replay_of (fst (handleTTSDone cfg now ok g h)) = replay_of h"
  "replay_of (fst (handleTTSClosed cfg now ok g h)) = replay_of h"
  by (auto simp: handleTTSAudio_def handleTTSDone_def handleTTSClosed_def Let_def split_beta
      split: agent_state.split)

lemma curGen_holdSpeech [simp]: "h_curGen (fst (holdSpeech now t h)) = h_curGen h"
  by (simp add: holdSpeech_def Let_def)

lemma replay_resumed:
  "replay_of (fst (resumeReply b h)) = (h_replaying h, h_sentGen h, True, h_curGen h)"
  by (simp add: resumeReply_def replay_of_def)

lemma replay_transcript:
  "replay_of (fst (handleFinalTranscript cfg now ok t h)) = replay_of h
   \<or> replay_of (fst (handleFinalTranscript cfg now ok t h)) = (h_replaying h, h_sentGen h, True, h_curGen h)"
proof -
  have "replay_of (fst (resumeReply True (fst (holdSpeech now t h)))) = (h_replaying h, h_sentGen h, True, h_curGen h)"
    by (simp add: holdSpeech_def resumeReply_def replay_of_def Let_def)
  then show ?thesis
    by (auto simp: handleFinalTranscript_def Let_def split_beta replay_resumed)
qed

lemma replay_resumeCheck:
  "replay_of (fst (handleResumeCheck cfg now l seq h)) = replay_of h
   \<or> replay_of (fst (handleResumeCheck cfg now l seq h)) = (h_replaying h, h_sentGen h, True, h_curGen h)"
  by (auto simp: handleResumeCheck_def scheduleResumeCheck_def Let_def replay_resumed)

lemma fresh_keep:
  assumes "fresh g h" and "queue_inv (Suc g) h'"
    and "replay_of h' = replay_of h \<or> replay_of h' = (h_replaying h, h_sentGen h, True, h_curGen h)"
  shows "fresh g h'"
  using assms by (auto simp: fresh_def replay_of_def queue_inv_def)

lemma fresh_pop:
  "fresh g h \<Longrightarrow> \<not> h_replaying h \<Longrightarrow> pop_frame now h = (h', f, ev) \<Longrightarrow>
   (h_replaying h' \<longrightarrow> g < h_sentGen h') \<and> (h_replayPending h' \<longrightarrow> g < h_replayGen h') \<and> fresh_out g f"
  by (auto simp: pop_frame_def fresh_def queue_inv_def fresh_out_def Let_def split: list.splits if_splits)

lemma fresh_play:
  assumes "fresh g h" and "play_frame now h = (h', f, ev)"
  shows "(h_replaying h' \<longrightarrow> g < h_sentGen h') \<and> (h_replayPending h' \<longrightarrow> g < h_replayGen h') \<and> fresh_out g f"
proof -
  define k where "k = (if h_replayPending h
          then h\<lparr>h_replayPending := False, h_replayIdx := 0,
                 h_replaying := h_sentFrames h \<noteq> [] \<and> h_sentGen h = h_replayGen h\<rparr> else h)"
  have k: "fresh g k" "fresh g (k\<lparr>h_replaying := False\<rparr>)"
    using assms(1) by (auto simp: k_def fresh_def queue_inv_def)
  show ?thesis
  proof (cases "h_replaying k \<and> h_replayIdx k < length (h_sentFrames k)")
    case True
    then have "h' = k\<lparr>h_emptyTicks := 0, h_replayIdx := h_replayIdx k + 1\<rparr>"
      "f = Some (h_sentGen k, h_sentFrames k ! h_replayIdx k)"
      using assms(2) unfolding play_frame_def k_def [symmetric] Let_def by auto
    then show ?thesis using k(1) True by (auto simp: fresh_def fresh_out_def)
  next
    case False
    then have "\<not> h_replaying k \<and> pop_frame now k = (h', f, ev)
        \<or> pop_frame now (k\<lparr>h_replaying := False\<rparr>) = (h', f, ev)"
      using assms(2) unfolding play_frame_def k_def [symmetric] Let_def by (auto split: if_splits)
    then show ?thesis using fresh_pop [OF k(1)] fresh_pop [OF k(2)] by auto
  qed
qed

lemma fresh_speaking:
  assumes "fresh g h" and "processSpeakingFrame cfg now d h = (h', f, ev)"
  shows "(h_replaying h' \<longrightarrow> g < h_sentGen h') \<and> (h_replayPending h' \<longrightarrow> g < h_replayGen h') \<and> fresh_out g f"
proof -
  have "fresh g (h\<lparr>h_speechRunStart := x\<rparr>)" for x using assms(1) by (simp add: fresh_def queue_inv_def)
  then show ?thesis
    using assms fresh_play [of g "h\<lparr>h_speechRunStart := _\<rparr>" now h' f ev]
    by (auto simp: processSpeakingFrame_def Let_def fresh_out_def fresh_def split: if_splits)
qed

lemma fresh_ProcessFrame:
  assumes "fresh g h" and "agent_ProcessFrame cfg now d h = (h', f, ev)"
  shows "(h_replaying h' \<longrightarrow> g < h_sentGen h') \<and> (h_replayPending h' \<longrightarrow> g < h_replayGen h') \<and> fresh_out g f"
proof (cases "h_hold h")
  case None
  show ?thesis
  proof (cases "h_state h = Speaking")
    case True
    with None assms(2) have "processSpeakingFrame cfg now d h = (h', f, ev)" by (simp add: agent_ProcessFrame_def)
    then show ?thesis by (rule fresh_speaking [OF assms(1)])
  next
    case False
    with None assms show ?thesis by (auto simp: agent_ProcessFrame_def fresh_out_def fresh_def)
  qed
next
  case (Some p)
  with assms show ?thesis
    by (auto simp: agent_ProcessFrame_def processHoldFrame_def fresh_out_def fresh_def queue_inv_def Let_def
        split: list.splits if_splits prod.splits option.splits)
qed

lemma agent_step_fresh:
  assumes "fresh g h" and "agent_step cfg op h = (h', f, ev)"
  shows "fresh g h' \<and> fresh_out g f"
proof -
  have q: "queue_inv (Suc g) h'" using agent_step_inv [OF _ assms(2)] assms(1) by (simp add: fresh_def)
  note keep = fresh_keep [OF assms(1) q]
  show ?thesis
  proof (cases op)
    case (OpFrame now d)
    with assms(2) have "agent_ProcessFrame cfg now d h = (h', f, ev)" by simp
    from fresh_ProcessFrame [OF assms(1) this] q show ?thesis by (simp add: fresh_def)
  next
    case (OpTranscript now ok said)
    then have "h' = fst (handleFinalTranscript cfg now ok said h)" "f = None"
      using assms(2) by (auto simp: apsnd_def map_prod_def split_beta)
    with keep replay_transcript [of cfg now ok said h] show ?thesis by (simp add: fresh_out_def)
  next
    case (OpResumeCheck now l seq)
    then have "h' = fst (handleResumeCheck cfg now l seq h)" "f = None"
      using assms(2) by (auto simp: apsnd_def map_prod_def split_beta)
    with keep replay_resumeCheck [of cfg now l seq h] show ?thesis by (simp add: fresh_out_def)
  qed (use assms in \<open>auto simp: apsnd_def map_prod_def split_beta fresh_out_def
      intro!: keep split: if_splits\<close>)
qed

lemma agent_run_fresh:
  "fresh g h \<Longrightarrow> agent_run cfg ops h = (h', fs, ev) \<Longrightarrow>
   fresh g h' \<and> list_all (\<lambda>(gen, pcm). gen = 0 \<or> g < gen) fs"
proof (induction ops arbitrary: h fs ev)
  case (Cons op ops)
  obtain h1 f ev1 where s: "agent_step cfg op h = (h1, f, ev1)" by (rule prod_cases3)
  obtain fs2 ev2 where r: "agent_run cfg ops h1 = (h', fs2, ev2)"
    "fs = (case f of None \<Rightarrow> [] | Some x \<Rightarrow> [x]) @ fs2"
    using Cons.prems(2) s by (auto simp: Let_def split: prod.splits)
  show ?case
    using agent_step_fresh [OF Cons.prems(1) s] Cons.IH [OF _ r(1)] r(2)
    by (auto simp: fresh_out_def split: option.splits)
qed simp

lemma fresh_after_cut:
  assumes "queue_inv 0 h" and "\<not> h_replaying h" and "\<not> h_replayPending h"
  shows "fresh (h_curGen h) (fst (confirmInterruption cfg now h))"
proof -
  define k where "k = fst (confirmInterruption cfg now h)"
  have "playout k = ([], h_sentFrames h, h_sentGen h, h_replaying h, h_replayIdx h)"
    "replay_of k = replay_of h" "h_curGen k = h_curGen h + 1"
    using core_confirm(1) [of cfg now h] by (simp_all add: k_def playout_confirm) (simp add: core_def)
  then show ?thesis
    using assms unfolding k_def [symmetric] by (auto simp: fresh_def queue_inv_def playout_def replay_of_def)
qed

end
