(* ===== verification/Turn_Drain.thy ===== *)
theory Turn_Drain
  imports Turn_Props
begin

text \<open>
  How a reply ends on the \<open>ProcessFrame\<close> side: with no detection and nothing new from the TTS, the
  queue is played in order, then the turn is reported as delivered or, after
  \<open>speakingDrainTimeoutTicks\<close> empty ticks, given up.
\<close>

definition frame_ticks :: "int list \<Rightarrow> agent_op list" where
  "frame_ticks ts = map (\<lambda>t. OpFrame t False) ts"

definition played_form :: "out_frame list \<Rightarrow> (nat \<times> byte list) list" where
  "played_form q = map (\<lambda>f. (of_gen f, of_pcm f)) q"

definition calm :: "handler \<Rightarrow> bool" where
  "calm h \<longleftrightarrow> h_hold h = None \<and> h_state h = Speaking \<and> \<not> h_paused h \<and> \<not> h_replaying h \<and> \<not> h_replayPending h"

definition turn_flags :: "handler \<Rightarrow> bool \<times> bool \<times> bool \<times> bool \<times> bool \<times> nat" where
  "turn_flags h = (h_ttsDeliveryDone h, h_toolRunning h, h_ending h, h_hungUp h, h_hangupAfterTurn h, h_curGen h)"

lemma agent_run_append:
  "agent_run cfg (xs @ ys) h =
     (let (h, fs, ev) = agent_run cfg xs h; (h, fs', ev') = agent_run cfg ys h in (h, fs @ fs', ev @ ev'))"
  by (induction xs arbitrary: h) (simp_all add: Let_def split_beta)

lemma calm_tick:
  "calm h \<Longrightarrow> agent_step cfg (OpFrame t False) h = pop_frame t (h\<lparr>h_speechRunStart := 0\<rparr>)"
  by (simp add: calm_def agent_ProcessFrame_def processSpeakingFrame_def play_frame_def)

lemma calm_pop:
  assumes "calm h" and "h_outbound h = f # q" and "agent_step cfg (OpFrame t False) h = (h1, x, ev)"
  shows "calm h1 \<and> turn_flags h1 = turn_flags h \<and> h_outbound h1 = q \<and> h_emptyTicks h1 = 0
    \<and> x = Some (of_gen f, of_pcm f) \<and> ev = []"
  using assms(3) unfolding calm_tick [OF assms(1)]
  using assms(1,2)
  by (cases "of_gen f \<noteq> h_sentGen h \<or> of_req f \<noteq> h_sentReq h") (auto simp: pop_frame_def calm_def turn_flags_def Let_def)

lemma queue_plays:
  assumes "calm h" and "length ts = length (h_outbound h)" and "agent_run cfg (frame_ticks ts) h = (h', fs, ev)"
  shows "calm h' \<and> turn_flags h' = turn_flags h \<and> h_outbound h' = []
    \<and> (h_emptyTicks h = 0 \<longrightarrow> h_emptyTicks h' = 0) \<and> fs = played_form (h_outbound h) \<and> ev = []"
  using assms
proof (induction ts arbitrary: h h' fs ev)
  case Nil
  then show ?case by (simp add: frame_ticks_def played_form_def)
next
  case (Cons t ts)
  from Cons.prems(2) obtain f q where q: "h_outbound h = f # q" "length ts = length q"
    by (cases "h_outbound h") auto
  obtain h1 x ev1 where s: "agent_step cfg (OpFrame t False) h = (h1, x, ev1)" by (rule prod_cases3)
  note p = calm_pop [OF Cons.prems(1) q(1) s]
  obtain h2 fs2 ev2 where r: "agent_run cfg (frame_ticks ts) h1 = (h2, fs2, ev2)" by (rule prod_cases3)
  have "h' = h2" "fs = (of_gen f, of_pcm f) # fs2" "ev = ev2"
    using Cons.prems(3) r p unfolding frame_ticks_def list.map agent_run.simps s by (simp_all add: frame_ticks_def)
  moreover have "calm h2 \<and> turn_flags h2 = turn_flags h1 \<and> h_outbound h2 = []
    \<and> (h_emptyTicks h1 = 0 \<longrightarrow> h_emptyTicks h2 = 0) \<and> fs2 = played_form (h_outbound h1) \<and> ev2 = []"
    by (rule Cons.IH [OF _ _ r]) (use p q in simp_all)
  ultimately show ?case using p q by (simp add: played_form_def)
qed

lemma empty_tick:
  assumes "calm h" and "h_outbound h = []" and "\<not> h_ttsDeliveryDone h" and "\<not> h_toolRunning h"
  shows "agent_step cfg (OpFrame t False) h =
    (if h_emptyTicks h + 1 \<ge> speakingDrainTimeoutTicks
     then (h\<lparr>h_speechRunStart := 0, h_emptyTicks := 0, h_state := Listening, h_drainTimeoutSig := True\<rparr>, None,
           [EfError ''tts_drain_timeout''])
     else (h\<lparr>h_speechRunStart := 0, h_emptyTicks := h_emptyTicks h + 1\<rparr>, None, []))"
  using assms unfolding calm_tick [OF assms(1)] by (simp add: pop_frame_def calm_def)

lemma drain_gives_up:
  assumes "calm h" and "h_outbound h = []" and "\<not> h_ttsDeliveryDone h" and "\<not> h_toolRunning h"
    and "h_emptyTicks h + length ts = speakingDrainTimeoutTicks" and "ts \<noteq> []"
    and "agent_run cfg (frame_ticks ts) h = (h', fs, ev)"
  shows "h_state h' = Listening \<and> h_drainTimeoutSig h' \<and> turn_flags h' = turn_flags h \<and> fs = []
    \<and> ev = [EfError ''tts_drain_timeout'']"
  using assms
proof (induction ts arbitrary: h h' fs ev)
  case (Cons t ts)
  show ?case
  proof (cases "ts = []")
    case True
    then show ?thesis
      using Cons.prems empty_tick [OF Cons.prems(1-4), of cfg t] by (auto simp: frame_ticks_def turn_flags_def Let_def)
  next
    case False
    define k where "k = h\<lparr>h_speechRunStart := 0, h_emptyTicks := h_emptyTicks h + 1\<rparr>"
    have "\<not> h_emptyTicks h + 1 \<ge> speakingDrainTimeoutTicks" using Cons.prems(5) False by (cases ts) auto
    then have s: "agent_step cfg (OpFrame t False) h = (k, None, [])"
      using empty_tick [OF Cons.prems(1-4), of cfg t] by (simp only: k_def if_False)
    have k: "calm k" "h_outbound k = []" "\<not> h_ttsDeliveryDone k" "\<not> h_toolRunning k"
      "h_emptyTicks k + length ts = speakingDrainTimeoutTicks" "turn_flags k = turn_flags h"
      using Cons.prems by (simp_all add: k_def calm_def turn_flags_def)
    have "agent_run cfg (frame_ticks ts) k = (h', fs, ev)"
      using Cons.prems(7) s by (simp add: frame_ticks_def Let_def split_beta del: agent_step.simps)
    from Cons.IH [OF k(1-5) False this] k(6) show ?thesis by simp
  qed
qed simp

lemma delivered_tick:
  assumes "calm h" and "h_outbound h = []" and "h_ttsDeliveryDone h"
  shows "agent_step cfg (OpFrame t False) h =
    (h\<lparr>h_speechRunStart := 0, h_ttsDeliveryDone := False, h_emptyTicks := 0, h_playbackDoneSig := True\<rparr>, None, [])"
  using assms unfolding calm_tick [OF assms(1)] by (simp add: pop_frame_def calm_def)

lemma reply_delivered:
  assumes "calm h" and "h_ttsDeliveryDone h" and "length ts = Suc (length (h_outbound h))"
    and "agent_run cfg (frame_ticks ts) h = (h', fs, ev)"
  shows "h_playbackDoneSig h' \<and> h_state h' = Speaking \<and> fs = played_form (h_outbound h) \<and> ev = []
    \<and> turn_flags h' = (False, snd (turn_flags h))"
proof -
  obtain xs t where ts: "ts = xs @ [t]" using assms(3) by (cases ts rule: rev_cases) auto
  obtain h1 fs1 ev1 where r: "agent_run cfg (frame_ticks xs) h = (h1, fs1, ev1)" by (rule prod_cases3)
  note q = queue_plays [OF assms(1) _ r]
  have q: "calm h1" "turn_flags h1 = turn_flags h" "h_outbound h1 = []" "fs1 = played_form (h_outbound h)" "ev1 = []"
    using q assms(3) ts by auto
  have d: "h_ttsDeliveryDone h1" using q(2) assms(2) by (simp add: turn_flags_def)
  have "agent_run cfg (frame_ticks xs @ [OpFrame t False]) h = (h', fs, ev)" using assms(4) ts by (simp add: frame_ticks_def)
  then have "h' = h1\<lparr>h_speechRunStart := 0, h_ttsDeliveryDone := False, h_emptyTicks := 0, h_playbackDoneSig := True\<rparr>"
    "fs = fs1" "ev = ev1"
    unfolding agent_run_append r using delivered_tick [OF q(1,3) d, of cfg t]
    by (auto simp: Let_def simp del: agent_step.simps)
  with q show ?thesis by (auto simp: turn_flags_def calm_def)
qed

lemma reply_given_up:
  assumes "calm h" and "\<not> h_ttsDeliveryDone h" and "\<not> h_toolRunning h" and "h_emptyTicks h = 0"
    and "length ts = length (h_outbound h) + speakingDrainTimeoutTicks"
    and "agent_run cfg (frame_ticks ts) h = (h', fs, ev)"
  shows "h_drainTimeoutSig h' \<and> h_state h' = Listening \<and> turn_flags h' = turn_flags h
    \<and> fs = played_form (h_outbound h) \<and> ev = [EfError ''tts_drain_timeout'']"
proof -
  define xs ys where "xs = take (length (h_outbound h)) ts" and "ys = drop (length (h_outbound h)) ts"
  have ts: "ts = xs @ ys" "length xs = length (h_outbound h)" "length ys = speakingDrainTimeoutTicks"
    using assms(5) by (simp_all add: xs_def ys_def)
  obtain h1 fs1 ev1 where r: "agent_run cfg (frame_ticks xs) h = (h1, fs1, ev1)" by (rule prod_cases3)
  obtain h2 fs2 ev2 where r2: "agent_run cfg (frame_ticks ys) h1 = (h2, fs2, ev2)" by (rule prod_cases3)
  have q: "calm h1" "turn_flags h1 = turn_flags h" "h_outbound h1 = []" "h_emptyTicks h1 = 0"
    "fs1 = played_form (h_outbound h)" "ev1 = []"
    using queue_plays [OF assms(1) _ r] ts(2) assms(4) by auto
  have d: "\<not> h_ttsDeliveryDone h1" "\<not> h_toolRunning h1" using q(2) assms(2,3) by (auto simp: turn_flags_def)
  have "ys \<noteq> []" using ts(3) by (auto simp: speakingDrainTimeoutTicks_def)
  note g = drain_gives_up [OF q(1,3) d _ this r2]
  have "h' = h2" "fs = fs1 @ fs2" "ev = ev1 @ ev2"
    using assms(6) unfolding ts(1) by (auto simp: frame_ticks_def agent_run_append r [unfolded frame_ticks_def] r2 [unfolded frame_ticks_def])
  with g q ts(3) show ?thesis by simp
qed

end
