(* ===== verification/Turn_Claims.thy ===== *)
theory Turn_Claims
  imports Turn_Cut Turn_Drain
begin

text \<open>
  The properties of the turn loop: what a run of the two goroutines, in any interleaving, may and
  must do to the call, the conversation and the audio.
\<close>

section \<open>A concrete agent\<close>

definition one_node :: node where
  "one_node = \<lparr>nd_prompt = text_of ''p'', nd_greeting = [], nd_greetingClip = None, nd_clips = None, nd_end = False,
     nd_allowInterrupt = True, nd_extracts = False, nd_tools = [], nd_edges = []\<rparr>"

definition one_config :: config where
  "one_config = \<lparr>cf_nodes = (\<lambda>n. one_node), cf_start = 0, cf_hangup = True, cf_IdleTimeout = 0,
     cf_BargeInObserveOnly = False, cf_BargeInGuard = 0, cf_BargeInMinSpeech = 0, cf_PostCutSilence = 0,
     cf_AckFilter = True, cf_AckEndMargin = 0, cf_clock = False, cf_unicode = ascii,
     cf_words = (\<lambda>w. w = text_of ''hm'')\<rparr>"

lemmas one_simps = one_config_def one_node_def ascii_def text_of_def InterruptMode_def

lemmas turn_ops = startTurn_def startTurnChunks_def stopIdleTimer_def openTTS_def acceptUserTurn_def
  handleTTSAudio_def endCall_def hangup_def handleFinalTranscript_def transcript_turn_def
  confirmInterruption_def cutReply_def cancelTurn_def recordReply_def heard_chunks_def trimSpace_def
  dropHeld_def utteranceStart_def handleBargeIn_def scheduleResumeCheck_def resumeReply_def
  handleResumeCheck_def handleTTSDone_def finishTurn_def settleHeld_def startIdleTimer_def
  handleDrainTimeout_def holdSpeech_def handleTTSClosed_def

lemmas tick_ops = agent_ProcessFrame_def processSpeakingFrame_def play_frame_def pop_frame_def
  interruptible_def

section \<open>Helper lemmas\<close>

lemma hangup_state: "h_hungUp (fst (hangup cfg h))" "hangs (snd (hangup cfg h))
    = (if h_hungUp h \<or> \<not> cf_hangup cfg then 0 else 1)"
  by (simp_all add: hangup_def)

lemma finishTurn_ending:
  assumes "h_hangupAfterTurn h \<or> h_ending h"
  shows "h_hungUp (fst (finishTurn cfg now ok gen h))
    \<and> hangs (snd (finishTurn cfg now ok gen h)) = (if h_hungUp h \<or> \<not> cf_hangup cfg then 0 else 1)
    \<and> h_held (fst (finishTurn cfg now ok gen h)) = []"
proof -
  have "h_hangupAfterTurn (fst (recordReply cfg False k)) = h_hangupAfterTurn k"
    "h_ending (fst (recordReply cfg False k)) = h_ending k"
    "h_hungUp (fst (recordReply cfg False k)) = h_hungUp k" for k
    by (simp_all add: recordReply_def Let_def)
  then show ?thesis
    using assms by (auto simp: finishTurn_def dropHeld_def hangup_def Let_def split_beta)
qed

lemma takeWhile_eq_filter_sorted:
  "sorted (map sp_req cs) \<Longrightarrow> takeWhile (\<lambda>c. \<not> p < sp_req c) cs = filter (\<lambda>c. sp_req c \<le> p) cs"
  by (induction cs) (auto simp: not_less intro!: filter_False [symmetric])

lemma confirm_history:
  "h_history (fst (confirmInterruption cfg now h)) = h_history (fst (recordReply cfg True h))
   \<and> h_outbound (fst (confirmInterruption cfg now h)) = []
   \<and> h_state (fst (confirmInterruption cfg now h)) = Transcribing
   \<and> \<not> h_paused (fst (confirmInterruption cfg now h)) \<and> h_held (fst (confirmInterruption cfg now h)) = []
   \<and> \<not> h_tts (fst (confirmInterruption cfg now h)) \<and> h_curGen (fst (confirmInterruption cfg now h)) = h_curGen h + 1"
  by (simp add: confirmInterruption_def cutReply_def cancelTurn_def dropHeld_def recordReply_def heard_chunks_def
      Let_def split_beta)

definition heard_reply :: "config \<Rightarrow> bool \<Rightarrow> handler \<Rightarrow> runes" where
  "heard_reply cfg was_cut h =
     trimSpace (cf_unicode cfg) (join_chunks (cf_unicode cfg) 0 (heard_chunks was_cut h))"

definition reply_msgs :: "runes \<Rightarrow> message list" where
  "reply_msgs t = (if t = [] then [] else [AssistantMsg t []])"

lemma recordReply_history:
  "h_history (fst (recordReply cfg b h)) = h_history h @ h_turnToolMsgs h @ reply_msgs (heard_reply cfg b h)"
  by (simp add: recordReply_def heard_reply_def reply_msgs_def Let_def)

lemma acceptUserTurn_spec:
  "h_history (fst (acceptUserTurn ok t s h)) = h_history h @ [UserMsg t]
   \<and> h_outbound (fst (acceptUserTurn ok t s h)) = h_outbound h
   \<and> h_curGen (fst (acceptUserTurn ok t s h)) = h_curGen h + 1
   \<and> h_state (fst (acceptUserTurn ok t s h)) = (if h_tts h \<or> ok then Thinking else Listening)
   \<and> (h_tts h \<or> ok \<longrightarrow> EfStartLLM (h_curGen h + 1) (h_history h @ [UserMsg t])
        \<in> set (snd (acceptUserTurn ok t s h)))"
  by (simp add: acceptUserTurn_def startTurn_def openTTS_def startTurnChunks_def stopIdleTimer_def Let_def)

lemma interruption_accepted:
  assumes "h_paused h" and "\<not> h_closing h" and "h_silenceUntil h \<le> now"
    and "\<not> junkTranscript (cf_unicode cfg) said"
    and "\<not> (cf_AckFilter cfg \<and> backchannel (cf_unicode cfg) (cf_words cfg) said)"
  defines "k \<equiv> fst (confirmInterruption cfg now h)"
  shows "handleFinalTranscript cfg now ok said h
    = (fst (acceptUserTurn ok said (utteranceStart now k) k),
       snd (confirmInterruption cfg now h) @ snd (acceptUserTurn ok said (utteranceStart now k) k))"
proof -
  have "h_state k = Transcribing" using confirm_history [of cfg now h] by (simp add: k_def)
  then show ?thesis
    using assms(1-5) unfolding handleFinalTranscript_def transcript_turn_def
    by (auto simp: Let_def split_beta simp flip: k_def)
qed

text \<open>Two frames of audio, as one message of the TTS.\<close>

definition two_frames :: "byte list" where
  "two_frames = replicate FrameSize 1 @ replicate FrameSize 2"

lemma slice_two: "length q \<le> 10 \<Longrightarrow> slice_frames g r two_frames q = ([],
    q @ [\<lparr>of_pcm = replicate FrameSize 1, of_req = r, of_gen = g\<rparr>,
    \<lparr>of_pcm = replicate FrameSize 2, of_req = r, of_gen = g\<rparr>], [])"
  by (simp add: two_frames_def slice_frames.simps FrameSize_def try_send_def outboundBufferFrames_def)

lemmas run_simps = slice_two turn_ops tick_ops one_simps NewHandler_def junkTranscript_def backchannel_def
  squeezeRepeats_def sentenceDelimiters_def first_rune_def last_rune_def runeError_def
  falseInterruptionTimeout_def falseInterruptionMaxPause_def maxUtteranceAge_def apsnd_def map_prod_def
  Let_def

section \<open>Properties\<close>

text \<open>C36: hanging up: whatever the two goroutines do from a new call on, in any order, the caller is
  hung up on at most once, and only a handler that recorded it did so.\<close>

theorem hangs_up_once:
  "hangs (snd (snd (agent_run cfg ops (NewHandler cfg)))) = 0
   \<or> hangs (snd (snd (agent_run cfg ops (NewHandler cfg)))) = 1 \<and> h_hungUp (fst (agent_run cfg ops (NewHandler cfg)))"
  using agent_run_grows [of "NewHandler cfg" cfg ops]
  by (cases "core (fst (agent_run cfg ops (NewHandler cfg)))") (auto simp: core_def NewHandler_def)

text \<open>A goodbye is not interrupted: once the call is closing (an end node, \<open>end_call\<close>, the
  duration limit or the last idle prompt) no later step of any run pauses or cuts a reply, and the
  call stays closing.\<close>

theorem closing_mutes:
  assumes "h_closing h"
  shows "\<not> cuts (snd (snd (agent_run cfg ops h))) \<and> h_closing (fst (agent_run cfg ops h))"
  using agent_run_grows [of h cfg ops] assms by (cases "core (fst (agent_run cfg ops h))") (auto simp: core_def)

theorem closing_mutes_witness:
  "\<not> cuts (snd (snd (agent_run one_config [OpFrame 5 True, OpTranscript 6 True (text_of ''stop now'')]
       ((NewHandler one_config)\<lparr>h_state := Speaking, h_closing := True\<rparr>))))"
  using closing_mutes [of "(NewHandler one_config)\<lparr>h_state := Speaking, h_closing := True\<rparr>" one_config
      "[OpFrame 5 True, OpTranscript 6 True (text_of ''stop now'')]"] by simp

text \<open>C3: an interruption takes the turn: when a reply is paused and real words arrive, the history
  becomes the old one, the turn's tool messages, exactly what the caller had heard of the reply,
  and the new words; nothing queued survives, the late work of the old turn is two generations
  behind, and the LLM is asked with that history.\<close>

theorem interruption_takes_turn:
  assumes "h_paused h" and "\<not> h_closing h" and "h_silenceUntil h \<le> now"
    and "\<not> junkTranscript (cf_unicode cfg) said"
    and "\<not> (cf_AckFilter cfg \<and> backchannel (cf_unicode cfg) (cf_words cfg) said)"
    and "handleFinalTranscript cfg now True said h = (h', ev)"
  shows "h_history h' = h_history h @ h_turnToolMsgs h @ reply_msgs (heard_reply cfg True h) @ [UserMsg said]
    \<and> h_outbound h' = [] \<and> h_state h' = Thinking \<and> h_curGen h' = h_curGen h + 2
    \<and> EfBargeIn \<in> set ev \<and> EfStartLLM (h_curGen h') (h_history h') \<in> set ev"
proof -
  define k where "k = fst (confirmInterruption cfg now h)"
  have e: "h' = fst (acceptUserTurn True said (utteranceStart now k) k)"
    "ev = snd (confirmInterruption cfg now h) @ snd (acceptUserTurn True said (utteranceStart now k) k)"
    using interruption_accepted [OF assms(1-5), of True] assms(6) by (simp_all add: k_def)
  have "h_history k = h_history h @ h_turnToolMsgs h @ reply_msgs (heard_reply cfg True h)"
    "h_outbound k = []" "h_curGen k = h_curGen h + 1"
    using confirm_history [of cfg now h] recordReply_history [of cfg True h] by (simp_all add: k_def)
  moreover have "EfBargeIn \<in> set (snd (confirmInterruption cfg now h))"
    by (simp add: confirmInterruption_def Let_def split_beta)
  ultimately show ?thesis unfolding e using acceptUserTurn_spec [of True said "utteranceStart now k" k] by simp
qed

theorem interruption_takes_turn_witness:
  "h_history (fst (handleFinalTranscript one_config 9 True (text_of ''no stop'')
     ((NewHandler one_config)\<lparr>h_state := Speaking, h_paused := True, h_playingReq := 1, h_curGen := 1,
        h_turnChunks := [\<lparr>sp_req = 1, sp_text = text_of ''Hi.''\<rparr>, \<lparr>sp_req = 2, sp_text = text_of ''Bye.''\<rparr>]\<rparr>)))
   = [AssistantMsg (text_of ''Hi.'') [], UserMsg (text_of ''no stop'')]"
  (is "h_history (fst (handleFinalTranscript _ _ _ ?t ?h)) = _")
proof -
  obtain h' ev where r: "handleFinalTranscript one_config 9 True ?t ?h = (h', ev)" by (rule prod.exhaust)
  have "\<not> junkTranscript (cf_unicode one_config) ?t"
    "\<not> (cf_AckFilter one_config \<and> backchannel (cf_unicode one_config) (cf_words one_config) ?t)"
    by (simp_all add: one_simps junkTranscript_def backchannel_def squeezeRepeats_def)
  from interruption_takes_turn [OF _ _ _ this r]
  show ?thesis unfolding r
    by (simp add: NewHandler_def reply_msgs_def heard_reply_def heard_chunks_def trimSpace_def one_simps
        sentenceDelimiters_def first_rune_def last_rune_def runeError_def Let_def)
qed

text \<open>The transcript records what was heard: when the sentences of the turn are numbered in order, a
  completed reply is recorded whole, and a cut one up to the sentence that was playing, nothing if
  none had started; the turn's tool messages come first and are recorded once.\<close>

theorem recorded_is_heard:
  assumes "sorted (map sp_req (h_turnChunks h))" and "recordReply cfg was_cut h = (h', ev)"
    and "cs = (if \<not> was_cut then h_turnChunks h else if h_playingReq h = 0 then []
               else filter (\<lambda>c. sp_req c \<le> h_playingReq h) (h_turnChunks h))"
    and "reply = trimSpace (cf_unicode cfg) (join_chunks (cf_unicode cfg) 0 cs)"
  shows "h_history h' = h_history h @ h_turnToolMsgs h @ (if reply = [] then [] else [AssistantMsg reply []])
    \<and> h_turnChunks h' = [] \<and> h_turnToolMsgs h' = [] \<and> ev = (if reply = [] then [] else [EfAgentTurn reply was_cut])"
proof -
  have "heard_chunks was_cut h = cs"
    using takeWhile_eq_filter_sorted [OF assms(1), of "h_playingReq h"] assms(3)
    by (cases "h_turnChunks h") (auto simp: heard_chunks_def takeWhile_eq_all_conv)
  then show ?thesis using assms(2,4) by (auto simp: recordReply_def Let_def split: if_splits)
qed

theorem recorded_is_heard_witness:
  "h_history (fst (recordReply one_config True ((NewHandler one_config)\<lparr>h_playingReq := 1,
     h_turnChunks := [\<lparr>sp_req = 1, sp_text = text_of ''Hi, ''\<rparr>, \<lparr>sp_req = 2, sp_text = text_of ''Bye.''\<rparr>]\<rparr>)))
   = [AssistantMsg (text_of ''Hi,'') []]" (is "h_history (fst (recordReply _ _ ?h)) = _")
proof -
  obtain h' ev where r: "recordReply one_config True ?h = (h', ev)" by (rule prod.exhaust)
  have "sorted (map sp_req (h_turnChunks ?h))" by simp
  from recorded_is_heard [OF this r refl refl] show ?thesis unfolding r
    by (simp add: NewHandler_def trimSpace_def one_simps
        sentenceDelimiters_def first_rune_def last_rune_def runeError_def Let_def)
qed

text \<open>C4: a cut reply stays cut: when an interruption is confirmed with no replay in progress or
  pending, nothing played in any later run belongs to the cut generation or an older one; every
  frame is hold music (generation 0) or of a newer reply.\<close>

theorem cut_is_final:
  assumes "queue_inv 0 h" and "\<not> h_replaying h" and "\<not> h_replayPending h"
  shows "list_all (\<lambda>(gen, pcm). gen = 0 \<or> h_curGen h < gen)
    (fst (snd (agent_run cfg ops (fst (confirmInterruption cfg now h)))))"
proof -
  obtain h' fs ev where r: "agent_run cfg ops (fst (confirmInterruption cfg now h)) = (h', fs, ev)"
    by (rule prod_cases3)
  from agent_run_fresh [OF fresh_after_cut [OF assms] r] show ?thesis using r by simp
qed

theorem cut_is_final_witness:
  "list_all (\<lambda>(gen, pcm). gen = 0 \<or> 1 < gen) (fst (snd (agent_run one_config
     [OpTTSAudio 5 silentFrame 1 1 (text_of ''late''), OpFrame 6 False]
     (fst (confirmInterruption one_config 4 ((NewHandler one_config)\<lparr>h_state := Speaking, h_curGen := 1\<rparr>))))))"
proof -
  define k where "k = (NewHandler one_config)\<lparr>h_state := Speaking, h_curGen := 1\<rparr>"
  have q: "queue_inv 0 k" "\<not> h_replaying k" "\<not> h_replayPending k" and g: "h_curGen k = 1"
    by (simp_all add: k_def queue_inv_def NewHandler_def)
  show ?thesis unfolding k_def [symmetric] using cut_is_final [OF q] unfolding g .
qed

text \<open>C39: a reply is played out: once the TTS has delivered a turn, an undisturbed run of ticks, one
  more than there are queued frames, plays exactly the queue, in order and nothing else, and then
  reports the turn as played.\<close>

theorem reply_plays_out:
  assumes "calm h" and "h_ttsDeliveryDone h" and "length ts = Suc (length (h_outbound h))"
    and "agent_run cfg (frame_ticks ts) h = (h', fs, ev)"
  shows "fs = map (\<lambda>f. (of_gen f, of_pcm f)) (h_outbound h) \<and> ev = []
    \<and> h_playbackDoneSig h' \<and> \<not> h_ttsDeliveryDone h' \<and> h_state h' = Speaking"
  using reply_delivered [OF assms] by (simp add: turn_flags_def played_form_def)

theorem reply_plays_out_witness:
  "fst (snd (agent_run one_config (frame_ticks [1, 2]) ((NewHandler one_config)\<lparr>h_state := Speaking,
     h_ttsDeliveryDone := True, h_outbound := [\<lparr>of_pcm = [7], of_req = 1, of_gen = 3\<rparr>]\<rparr>))) = [(3, [7])]"
  (is "fst (snd (agent_run _ _ ?h)) = _")
proof -
  obtain h' fs ev where r: "agent_run one_config (frame_ticks [1, 2]) ?h = (h', fs, ev)" by (rule prod_cases3)
  have "calm ?h" by (simp add: calm_def NewHandler_def)
  from reply_plays_out [OF this _ _ r] show ?thesis unfolding r by simp
qed

text \<open>A dead TTS cannot hold the call: if the reply's end never arrives and no tool is running, the
  queue is played and after exactly \<open>speakingDrainTimeoutTicks\<close> further empty ticks the agent
  listens again and the drain timeout is raised.\<close>

theorem dead_tts_gives_up:
  assumes "calm h" and "\<not> h_ttsDeliveryDone h" and "\<not> h_toolRunning h" and "h_emptyTicks h = 0"
    and "length ts = length (h_outbound h) + speakingDrainTimeoutTicks"
    and "agent_run cfg (frame_ticks ts) h = (h', fs, ev)"
  shows "h_state h' = Listening \<and> h_drainTimeoutSig h' \<and> ev = [EfError ''tts_drain_timeout'']
    \<and> fs = map (\<lambda>f. (of_gen f, of_pcm f)) (h_outbound h)"
  using reply_given_up [OF assms] by (simp add: played_form_def)

theorem dead_tts_gives_up_witness:
  "h_state (fst (agent_run one_config (frame_ticks (replicate 500 0)) ((NewHandler one_config)\<lparr>h_state := Speaking\<rparr>))) = Listening"
  (is "h_state (fst (agent_run _ ?ts ?h)) = _")
proof -
  obtain h' fs ev where r: "agent_run one_config ?ts ?h = (h', fs, ev)" by (rule prod_cases3)
  have "calm ?h" by (simp add: calm_def NewHandler_def)
  from dead_tts_gives_up [OF this _ _ _ _ r] show ?thesis unfolding r
    by (simp add: NewHandler_def speakingDrainTimeoutTicks_def)
qed

text \<open>C38: the duration limit ends the call and lets the reply finish: the frames already queued are all
  played, and the playback report of the turn then hangs up, exactly once.\<close>

theorem max_duration_ends_call:
  assumes "calm h" and "h_ttsDeliveryDone h" and "\<not> h_hungUp h" and "cf_hangup cfg"
    and "length ts = Suc (length (h_outbound h))"
    and "agent_run cfg (OpMaxDuration # frame_ticks ts @ [SigPlaybackDone now ok]) h = (h', fs, ev)"
  shows "fs = map (\<lambda>f. (of_gen f, of_pcm f)) (h_outbound h) \<and> h_hungUp h' \<and> hangs ev = 1"
proof -
  define k where "k = fst (endCall cfg MaxDuration h)"
  have k: "calm k" "h_ttsDeliveryDone k" "h_ending k" "\<not> h_hungUp k" "h_outbound k = h_outbound h"
    "snd (endCall cfg MaxDuration h) = []"
    using assms(1-3) by (simp_all add: k_def endCall_def stopIdleTimer_def calm_def)
  obtain h1 fs1 ev1 where r: "agent_run cfg (frame_ticks ts) k = (h1, fs1, ev1)" by (rule prod_cases3)
  note d = reply_delivered [OF k(1,2) _ r]
  have d: "h_playbackDoneSig h1" "fs1 = played_form (h_outbound h)" "ev1 = []" "h_ending h1" "\<not> h_hungUp h1"
    using d assms(5) k by (auto simp: turn_flags_def)
  define f where "f = finishTurn cfg now ok (h_curGen h1) (h1\<lparr>h_playbackDoneSig := False\<rparr>)"
  have "h' = fst f" "fs = fs1" "ev = snd f"
    using assms(6) k(6) d(1,3) r
    by (auto simp: agent_run_append Let_def split_beta apsnd_def map_prod_def k_def [symmetric] f_def)
  with d(2) finishTurn_ending [of "h1\<lparr>h_playbackDoneSig := False\<rparr>" cfg now ok "h_curGen h1"] d(4,5) assms(4)
  show ?thesis by (simp add: f_def played_form_def)
qed

theorem max_duration_ends_call_witness:
  "h_hungUp (fst (agent_run one_config (OpMaxDuration # frame_ticks [1] @ [SigPlaybackDone 2 True])
     ((NewHandler one_config)\<lparr>h_state := Speaking, h_ttsDeliveryDone := True\<rparr>)))"
  (is "h_hungUp (fst (agent_run _ ?ops ?h))")
proof -
  obtain h' fs ev where r: "agent_run one_config ?ops ?h = (h', fs, ev)" by (rule prod_cases3)
  have "calm ?h" by (simp add: calm_def NewHandler_def)
  from max_duration_ends_call [OF this _ _ _ _ r] show ?thesis unfolding r
    by (simp add: NewHandler_def one_config_def)
qed

text \<open>A paused reply does not stay paused: whatever the detectors report, a resume check that fires
  from ten seconds after the pause on resumes the reply, and an earlier one either resumes it or
  is followed by another check, in the future and no later than those ten seconds.\<close>

theorem resume_check_bounded:
  assumes "h_paused h" and "seq = h_resumeSeq h"
    and "handleResumeCheck cfg now lastSpeech seq h = (h', ev)"
  shows "(\<not> h_paused h' \<and> h_replayPending h' \<and> h_replayGen h' = h_curGen h \<and> ev = [EfFalseInterruption])
    \<or> (h_paused h' \<and> now < h_pausedAt h + falseInterruptionMaxPause
       \<and> list_ex (\<lambda>after. 0 < after \<and> now + after \<le> h_pausedAt h + falseInterruptionMaxPause
            \<and> ev = [EfScheduleResume (h_resumeSeq h') after])
          [case ev of [EfScheduleResume s after] \<Rightarrow> after | _ \<Rightarrow> 0])"
proof -
  define quiet where "quiet = (if h_callerSpeaking h then now
    else if h_prevSpeechEndAt h > (if cf_clock cfg \<and> lastSpeech > h_pausedAt h then lastSpeech else h_pausedAt h)
    then h_prevSpeechEndAt h else if cf_clock cfg \<and> lastSpeech > h_pausedAt h then lastSpeech else h_pausedAt h)"
  define wait where "wait = falseInterruptionTimeout - (now - quiet)"
  have e: "handleResumeCheck cfg now lastSpeech seq h =
    (if wait > 0 \<and> now - h_pausedAt h < falseInterruptionMaxPause
     then scheduleResumeCheck (min wait (falseInterruptionMaxPause - (now - h_pausedAt h))) h
     else resumeReply True h)"
    using assms(1,2) unfolding handleResumeCheck_def Let_def quiet_def wait_def by auto
  show ?thesis
  proof (cases "wait > 0 \<and> now - h_pausedAt h < falseInterruptionMaxPause")
    case True
    then have "h' = h\<lparr>h_resumeSeq := h_resumeSeq h + 1\<rparr>"
      "ev = [EfScheduleResume (h_resumeSeq h + 1) (min wait (falseInterruptionMaxPause - (now - h_pausedAt h)))]"
      using assms(3) e by (auto simp: scheduleResumeCheck_def Let_def)
    then show ?thesis using True assms(1) by auto
  next
    case False
    then show ?thesis using assms(3) e by (auto simp: resumeReply_def)
  qed
qed

theorem resume_check_bounded_witness:
  "\<not> h_paused (fst (handleResumeCheck one_config 20000000000 0 0 ((NewHandler one_config)\<lparr>h_paused := True, h_callerSpeaking := True\<rparr>)))"
  (is "\<not> h_paused (fst (handleResumeCheck _ ?now _ _ ?h))")
proof -
  obtain h' ev where r: "handleResumeCheck one_config ?now 0 0 ?h = (h', ev)" by (rule prod.exhaust)
  have "h_paused ?h" "0 = h_resumeSeq ?h" by (simp_all add: NewHandler_def)
  from resume_check_bounded [OF this r] show ?thesis unfolding r
    by (auto simp: NewHandler_def falseInterruptionMaxPause_def)
qed

text \<open>Acknowledgements are settled, never lost: when the turn ends, everything held back during the
  reply is either delivered, in order and as one message to a new turn, or reported as dropped;
  nothing is held any more. What is delivered was said in this reply's generation and not
  before the margin in front of its last sentence.\<close>

theorem held_speech_settled:
  fixes h cfg
  assumes "settleHeld cfg ok gen h = (h', answered, ev)"
    and "answers = filter (is_answer cfg gen h) (h_held h)"
  shows "h_held h' = [] \<and> answered = (answers \<noteq> [])
    \<and> h_history h' = h_history h @ (if answers = [] then [] else [UserMsg (join_words (map hs_text answers))])
    \<and> list_all (\<lambda>s. (hs_gen s = gen \<and> h_playingSince h - cf_AckEndMargin cfg \<le> hs_at s) = (EfDropped s \<notin> set ev)) (h_held h)"
proof -
  have dropped: "EfDropped s \<in> set (snd (acceptUserTurn ok t st k)) \<Longrightarrow> False" for s t st k
    by (auto simp: acceptUserTurn_def startTurn_def openTTS_def Let_def split: if_splits)
  show ?thesis
  proof (cases answers)
    case Nil
    then have "\<not> is_answer cfg gen h s" if "s \<in> set (h_held h)" for s
      using that assms(2) by (simp add: filter_empty_conv)
    moreover have "h' = h\<lparr>h_held := []\<rparr>" "\<not> answered" "ev = map EfDropped (h_held h)"
      using assms(1) Nil calculation unfolding settleHeld_def assms(2) [symmetric] by (auto simp: filter_id_conv)
    ultimately show ?thesis using Nil by (auto simp: list_all_iff is_answer_def not_less)
  next
    case (Cons a as)
    define k where "k = h\<lparr>h_held := []\<rparr>"
    have e: "h' = fst (acceptUserTurn ok (join_words (map hs_text answers)) (hs_at a) k)" "answered"
      "ev = map EfDropped (filter (\<lambda>s. \<not> is_answer cfg gen h s) (h_held h)) @ EfSpeechDelivered
        # snd (acceptUserTurn ok (join_words (map hs_text answers)) (hs_at a) k)"
      using assms(1) Cons unfolding settleHeld_def assms(2) [symmetric] k_def [symmetric]
      by (auto simp: Let_def split_beta)
    have "h_held h' = []"
      unfolding e(1) by (simp add: k_def acceptUserTurn_def startTurn_def openTTS_def startTurnChunks_def
          stopIdleTimer_def Let_def)
    moreover have "h_history h' = h_history h @ [UserMsg (join_words (map hs_text answers))]"
      unfolding e(1) using acceptUserTurn_spec by (simp add: k_def)
    moreover have "(EfDropped s \<in> set ev) = (\<not> is_answer cfg gen h s)" if "s \<in> set (h_held h)" for s
      using that dropped unfolding e(3) by auto
    ultimately show ?thesis using Cons e(2) by (auto simp: list_all_iff is_answer_def not_less)
  qed
qed

theorem held_speech_settled_witness:
  "h_history (fst (settleHeld one_config True 1 ((NewHandler one_config)\<lparr>h_held :=
     [\<lparr>hs_text = text_of ''hm'', hs_gen = 1, hs_at = 5\<rparr>, \<lparr>hs_text = text_of ''so'', hs_gen = 0, hs_at = 5\<rparr>]\<rparr>)))
   = [UserMsg (text_of ''hm'')]" (is "h_history (fst (settleHeld _ _ _ ?h)) = _")
proof -
  obtain h' a ev where r: "settleHeld one_config True 1 ?h = (h', a, ev)" by (rule prod_cases3)
  from held_speech_settled [OF r refl] show ?thesis unfolding r
    by (simp add: NewHandler_def is_answer_def one_config_def)
qed

text \<open>The cut is not final while a replay is in progress: when a sentence being replayed after a
  false interruption is interrupted again and the interruption is real, the rest of that old
  sentence is what the next reply starts with.\<close>

theorem stale_replay:
  "let (h, fs, ev) = agent_run one_config
      [OpOpening True, OpTTSAudio 1 two_frames 1 1 (text_of ''One.''), OpFrame 2 False, OpFrame 3 False,
       OpFrame 4 True, SigBargeIn 5, OpResumeCheck 2000000005 0 1, OpFrame 2000000006 False,
       OpFrame 2000000007 True, OpTranscript 2000000008 True (text_of ''no stop'')] (NewHandler one_config);
       (h', fs', ev') = agent_run one_config
         [OpTTSAudio 2000000009 two_frames 3 2 (text_of ''Two.''), OpFrame 2000000010 False] h
   in EfBargeIn \<in> set ev \<and> h_curGen h = 3 \<and> fs' = [(1, replicate FrameSize 2)]"
  by (simp add: run_simps)

section \<open>Turn endings that go wrong\<close>

text \<open>A reply that should end the call (\<open>end_call\<close>, an end node) and whose TTS dies is given up by the
  drain timeout, and the call is not hung up: \<open>handleDrainTimeout\<close> looks at \<open>ending\<close> only.\<close>

theorem drain_forgets_hangup:
  assumes "calm h" and "h_hangupAfterTurn h" and "\<not> h_ending h" and "\<not> h_hungUp h"
    and "\<not> h_ttsDeliveryDone h" and "\<not> h_toolRunning h" and "h_emptyTicks h = 0"
    and "length ts = length (h_outbound h) + speakingDrainTimeoutTicks"
  shows "hangs (snd (snd (agent_run cfg (frame_ticks ts @ [SigDrainTimeout now]) h))) = 0
    \<and> \<not> h_hungUp (fst (agent_run cfg (frame_ticks ts @ [SigDrainTimeout now]) h))"
proof -
  obtain h1 fs ev where r: "agent_run cfg (frame_ticks ts) h = (h1, fs, ev)" by (rule prod_cases3)
  from reply_given_up [OF assms(1,5-8) r] assms(3,4)
  have h1: "h_drainTimeoutSig h1" "\<not> h_ending h1" "\<not> h_hungUp h1" "ev = [EfError ''tts_drain_timeout'']"
    by (auto simp: turn_flags_def)
  then show ?thesis
    by (simp add: agent_run_append r handleDrainTimeout_def recordReply_def apsnd_def map_prod_def Let_def split_beta)
qed

text \<open>After a drain timeout the generation is not advanced, so late audio of the dead turn is still
  queued and is what the next reply starts with.\<close>

theorem late_audio_leaks:
  "fst (snd (agent_run one_config
     [OpTTSAudio 1 two_frames 1 1 (text_of ''Old.''), OpTranscript 2 True (text_of ''no stop''),
      OpTTSAudio 3 two_frames 2 2 (text_of ''New.''), OpFrame 4 False, OpFrame 5 False, OpFrame 6 False]
     ((NewHandler one_config)\<lparr>h_curGen := 1, h_firstAudioGen := 1\<rparr>)))
   = [(1, replicate FrameSize 1), (1, replicate FrameSize 2), (2, replicate FrameSize 1)]"
  by (simp add: run_simps)

text \<open>A TTS connection that closes between the last frame and the playback report leaves
  \<open>ttsDeliveryDone\<close> set; the next reply then ends after its first queue, with its TTS still
  delivering.\<close>

theorem next_reply_ends_early:
  "h_state (fst (agent_run one_config
     [OpOpening True, OpTTSAudio 1 two_frames 1 1 (text_of ''One.''), OpTTSDone 2 True 1, OpFrame 3 False,
      OpFrame 4 False, OpFrame 5 False, OpTTSClosed 6 True 1, SigPlaybackDone 7 True,
      OpTranscript 8 True (text_of ''no stop''), OpTTSAudio 9 two_frames 2 2 (text_of ''Two.''),
      OpFrame 10 False, OpFrame 11 False, OpFrame 12 False, SigPlaybackDone 13 True] (NewHandler one_config)))
   = Listening"
  by (simp add: run_simps)

end
