(* ===== verification/Clip_Router.thy ===== *)
theory Clip_Router
  imports Agent_Text
begin

text \<open>
  The router between the model's reply and the speech synthesis at a node with recordings
  (\<open>clipRouter\<close> of \<open>internal/ai/agent/recordings.go\<close>): a reply is \<open>\<bullet> <recording_id> ...\<close> or \<open>\<triangleright> <text>\<close>, cut into
  tokens anywhere. \<open>None\<close> is a panic of the code.
\<close>

section \<open>Strings\<close>

definition RecordingMarker :: rune where "RecordingMarker = 0x25CF"
definition TTSMarker :: rune where "TTSMarker = 0x25B8"

text \<open>\<open>strings.Index\<close> of a marker, which is one rune.\<close>

fun index_of :: "rune \<Rightarrow> runes \<Rightarrow> nat option" where
  "index_of x [] = None"
| "index_of x (r # rs) = (if r = x then Some 0 else map_option Suc (index_of x rs))"

text \<open>The cutset of \<open>strings.TrimLeft\<close> and \<open>strings.ContainsAny\<close>: space, tab, newline.\<close>

definition blank :: "rune \<Rightarrow> bool" where "blank r \<longleftrightarrow> r \<in> {32, 9, 10}"

definition trim_blank :: "runes \<Rightarrow> runes" where "trim_blank s = dropWhile blank s"

text \<open>\<open>strings.Fields\<close> splits at \<open>unicode.IsSpace\<close>.\<close>

definition string_fields :: "unicode \<Rightarrow> runes \<Rightarrow> runes list" where "string_fields u s = fields_loop (u_space u) s []"

text \<open>\<open>strings.TrimPrefix\<close>.\<close>

definition trim_prefix :: "runes \<Rightarrow> runes \<Rightarrow> runes" where
  "trim_prefix p s = (if take (length p) s = p then drop (length p) s else s)"

section \<open>clipRouter\<close>

datatype router_mode = ModeDetecting | ModeTTS | ModeRecording

record clip_router =
  cr_mode :: router_mode
  cr_buf :: runes
  cr_stopped :: bool

definition new_router :: clip_router where
  "new_router = \<lparr>cr_mode = ModeDetecting, cr_buf = [], cr_stopped = False\<rparr>"

text \<open>\<open>feed\<close>: the router afterwards, the text to speak, and the recording to play (empty for none). The first
  two definitions are its modes; \<open>strings.Fields(rest)[0]\<close> panics when there is no field.\<close>

definition feed_tts :: "runes \<Rightarrow> clip_router \<Rightarrow> clip_router \<times> runes \<times> runes" where
  "feed_tts tok r =
     (if cr_stopped r then (r, [], [])
      else case index_of RecordingMarker tok of
             Some i \<Rightarrow> (r\<lparr>cr_stopped := True\<rparr>, take i tok, [])
           | None \<Rightarrow> (r, tok, []))"

definition feed_recording :: "unicode \<Rightarrow> runes \<Rightarrow> clip_router \<Rightarrow> (clip_router \<times> runes \<times> runes) option" where
  "feed_recording u tok r =
     (if cr_stopped r then Some (r, [], [])
      else
        let tok = (case index_of TTSMarker tok of Some i \<Rightarrow> take i tok | None \<Rightarrow> tok);
            r = r\<lparr>cr_buf := cr_buf r @ tok\<rparr>;
            rest = trim_blank (cr_buf r)
        in if list_ex blank rest then
             (case string_fields u rest of
                [] \<Rightarrow> None
              | f # fs \<Rightarrow> Some (r\<lparr>cr_stopped := True\<rparr>, [], f))
           else Some (r, [], []))"

definition router_feed :: "unicode \<Rightarrow> runes \<Rightarrow> clip_router \<Rightarrow> (clip_router \<times> runes \<times> runes) option" where
  "router_feed u tok r = (case cr_mode r of
      ModeTTS \<Rightarrow> Some (feed_tts tok r)
    | ModeRecording \<Rightarrow> feed_recording u tok r
    | ModeDetecting \<Rightarrow>
        let buf = cr_buf r @ tok
        in case (index_of RecordingMarker buf, index_of TTSMarker buf) of
             (Some rec, None) \<Rightarrow> feed_recording u (drop (rec + 1) buf) (r\<lparr>cr_mode := ModeRecording, cr_buf := []\<rparr>)
           | (Some rec, Some say) \<Rightarrow>
               if rec < say then feed_recording u (drop (rec + 1) buf) (r\<lparr>cr_mode := ModeRecording, cr_buf := []\<rparr>)
               else Some (feed_tts (trim_prefix [32] (drop (say + 1) buf)) (r\<lparr>cr_mode := ModeTTS, cr_buf := []\<rparr>))
           | (None, Some say) \<Rightarrow> Some (feed_tts (trim_prefix [32] (drop (say + 1) buf)) (r\<lparr>cr_mode := ModeTTS, cr_buf := []\<rparr>))
           | (None, None) \<Rightarrow> Some (r\<lparr>cr_buf := buf\<rparr>, [], []))"

definition speakRest :: "unicode \<Rightarrow> clip_router \<Rightarrow> clip_router \<times> runes" where
  "speakRest u r =
     (let rest = trim_blank (cr_buf r);
          rest = (case string_fields u rest of [] \<Rightarrow> rest | f # fs \<Rightarrow> trim_blank (trim_prefix f rest));
          (rest, stopped) = (case index_of RecordingMarker rest of Some i \<Rightarrow> (take i rest, True) | None \<Rightarrow> (rest, False))
      in (\<lparr>cr_mode = ModeTTS, cr_buf = [], cr_stopped = stopped\<rparr>, rest))"

definition router_flush :: "unicode \<Rightarrow> clip_router \<Rightarrow> clip_router \<times> runes \<times> runes" where
  "router_flush u r = (case cr_mode r of
      ModeRecording \<Rightarrow>
        (case string_fields u (cr_buf r) of
           [] \<Rightarrow> (r, [], [])
         | f # fs \<Rightarrow> if cr_stopped r then (r, [], []) else (r\<lparr>cr_stopped := True\<rparr>, [], f))
    | ModeDetecting \<Rightarrow> (r\<lparr>cr_buf := []\<rparr>, cr_buf r, [])
    | ModeTTS \<Rightarrow> (r, [], []))"

text \<open>A whole reply: the texts spoken and the recordings played, in order. A recording that was asked for exists.\<close>

fun feed_tokens :: "unicode \<Rightarrow> runes list \<Rightarrow> clip_router \<Rightarrow> (clip_router \<times> runes \<times> runes list) option" where
  "feed_tokens u [] r = Some (r, [], [])"
| "feed_tokens u (t # ts) r = (case router_feed u t r of
      None \<Rightarrow> None
    | Some (r, speak, i) \<Rightarrow> (case feed_tokens u ts r of
        None \<Rightarrow> None
      | Some (r, speak', ids) \<Rightarrow> Some (r, speak @ speak', (if i = [] then ids else i # ids))))"

definition route_reply :: "unicode \<Rightarrow> runes list \<Rightarrow> (runes \<times> runes list) option" where
  "route_reply u ts = (case feed_tokens u ts new_router of
      None \<Rightarrow> None
    | Some (r, speak, ids) \<Rightarrow> (case router_flush u r of
        (r, speak', i) \<Rightarrow> Some (speak @ speak', (if i = [] then ids else ids @ [i]))))"


section \<open>Lemmas\<close>







lemma markers_differ [simp]: "RecordingMarker \<noteq> TTSMarker" "TTSMarker \<noteq> RecordingMarker"
  by (simp_all add: RecordingMarker_def TTSMarker_def)







text \<open>The id of a recording.\<close>

definition first_field :: "runes \<Rightarrow> runes" where
  "first_field s = takeWhile (\<lambda>x. \<not> blank x) (trim_blank s)"





lemma trim_twice [simp]: "trim_blank (trim_blank s) = trim_blank s"
  unfolding trim_blank_def by (induction s) auto

lemma first_field_trim [simp]: "first_field (trim_blank s) = first_field s"
  by (simp add: first_field_def)










text \<open>What follows a marker of speech in later tokens is not dropped: it becomes part of the recording's id.\<close>

lemma id_mixed_with_speech:
  "route_reply ascii [[RecordingMarker, 97, TTSMarker, 120], [98, 32]] = Some ([], [[97, 98]])"
  "route_reply ascii [[RecordingMarker, 97, TTSMarker, 120, 98, 32]] = Some ([], [[97]])"
  by (simp_all add: route_reply_def new_router_def router_feed_def feed_recording_def router_flush_def Let_def string_fields_def
      trim_blank_def blank_def RecordingMarker_def TTSMarker_def ascii_def)

text \<open>A line end in the style of CR LF right after the marker of a recording is no field, and the code indexes the first one.\<close>

lemma crlf_panics: "route_reply ascii [[RecordingMarker], [13, 10]] = None"
  by (simp add: route_reply_def new_router_def router_feed_def feed_recording_def Let_def string_fields_def
      trim_blank_def blank_def RecordingMarker_def TTSMarker_def ascii_def)

end
