(* ===== verification/Llm_Turn.thy ===== *)
theory Llm_Turn
  imports Turn_Loop Clip_Router
begin

text \<open>
  The goroutine of one turn (\<open>runLLMTurn\<close>, \<open>takeEdge\<close>, \<open>runTool\<close>, \<open>transfer\<close>, \<open>sendToTTS\<close> of \<open>internal/ai/agent/handler.go\<close>,
  \<open>playClip\<close> and \<open>playRecording\<close> of \<open>recordings.go\<close>, \<open>plainHistory\<close> and \<open>toolResponseText\<close> of \<open>extract.go\<close>): up to five
  rounds of model, tools and model again. What it does outside its own variables is a list of
  effects; among them are its writes to the handler and the events it posts to the loop, as steps of
  \<open>agent_step\<close>. Its context may be cancelled at any moment: \<open>tn_live\<close> is the number of times the code will still
  find it alive (\<open>None\<close>: it is never cancelled). \<open>None\<close> for the turn is a panic.
\<close>

section \<open>What a turn uses\<close>

text \<open>\<open>encoding/json\<close>: an object's members with their raw values, a raw value re-encoded, an object
  re-encoded, and a map from strings to strings encoded.\<close>

record json_lib =
  jl_object :: "runes \<Rightarrow> (runes \<times> runes) list option"
  jl_value :: "runes \<Rightarrow> runes"
  jl_members :: "(runes \<times> runes) list \<Rightarrow> runes"
  jl_strings :: "(runes \<times> runes) list \<Rightarrow> runes"

text \<open>What \<open>Stream\<close> did in a round, and what became of a transfer: no answer, a failed handover, or success.\<close>

record llm_answer =
  la_tokens :: "runes list"
  la_calls :: "tool_call list"
  la_err :: bool

datatype transfer_answer = NotAnswered runes | HandoverFailed runes | Connected

text \<open>\<open>te_run\<close>: a tool's error or result; \<open>te_transfer\<close> is \<open>None\<close> where transfers are not available; \<open>te_ttsOK\<close>: whether
  the n-th \<open>Speak\<close> or \<open>Play\<close> succeeds; \<open>te_quote\<close>: \<open>strconv.Quote\<close>; \<open>te_base\<close>: the call is over when the turn posts, and
  then \<open>te_posted\<close>: the event was taken all the same.\<close>

record turn_env =
  te_nodes :: "nat \<Rightarrow> node"
  te_unicode :: unicode
  te_json :: json_lib
  te_quote :: "string \<Rightarrow> runes"
  te_llm :: "nat \<Rightarrow> message list \<Rightarrow> string list \<Rightarrow> llm_answer"
  te_run :: "nat \<Rightarrow> tool_call \<Rightarrow> runes + runes"
  te_transfer :: "(nat \<Rightarrow> tool_call \<Rightarrow> transfer_answer) option"
  te_ttsOK :: "nat \<Rightarrow> bool"
  te_failures :: llm_failure_policy
  te_hold :: "byte list"
  te_beep :: "byte list"
  te_base :: bool
  te_posted :: bool

datatype turn_ending = EndNodeReached | EndToolCalled | TransferDone | LLMDown

datatype turn_effect =
    TeSpeak runes | TeClip runes | TeError string | TeRequest "message list" "string list" | TeWrite agent_op | TePost agent_op
  | TeEnding turn_ending | TeFallback fallback_kind | TeEndGeneration | TeExtract nat "message list" | TeStarted string string
  | TeEnded string string runes | TeToolCall string bool | TeEntered nat

record turn =
  tn_node :: nat
  tn_buf :: runes
  tn_history :: "message list"
  tn_toolMsgs :: "message list"
  tn_endCall :: bool
  tn_transferred :: bool
  tn_spoke :: bool
  tn_err :: bool
  tn_live :: "nat option"
  tn_sends :: nat
  tn_failures :: int
  tn_effects :: "turn_effect list"

definition maxToolRounds :: nat where "maxToolRounds = 5"

definition emit :: "turn_effect \<Rightarrow> turn \<Rightarrow> turn" where
  "emit e t = t\<lparr>tn_effects := tn_effects t @ [e]\<rparr>"

text \<open>\<open>ctx.Err()\<close>.\<close>

definition ctxErr :: "turn \<Rightarrow> bool \<times> turn" where
  "ctxErr t = (case tn_live t of
      None \<Rightarrow> (False, t) | Some 0 \<Rightarrow> (True, t) | Some (Suc n) \<Rightarrow> (False, t\<lparr>tn_live := Some n\<rparr>))"

section \<open>Requests without tools\<close>

text \<open>A literal with \<open>~\<close> for the double quote.\<close>

definition json_lit :: "string \<Rightarrow> runes" where
  "json_lit s = map (\<lambda>r. if r = 126 then 34 else r) (text_of s)"

definition toolResponseMaxChars :: nat where "toolResponseMaxChars = 2000"

definition toolResponseText :: "json_lib \<Rightarrow> runes \<Rightarrow> runes option" where
  "toolResponseText jl raw =
     (let cut_off = (\<lambda>s. if length s > toolResponseMaxChars then take toolResponseMaxChars s @ text_of ''...(truncated)'' else s)
      in case jl_object jl raw of
           None \<Rightarrow> Some (cut_off raw)
         | Some obj \<Rightarrow>
             if length obj = 1 \<and> map_of obj (text_of ''status'') = Some (json_lit ''~done~'') then None
             else (case map_of obj (text_of ''data'') of
                 Some d \<Rightarrow> Some (cut_off (jl_value jl d))
               | None \<Rightarrow> Some (cut_off (jl_members jl
                   (filter (\<lambda>(k, v). k \<noteq> text_of ''status'' \<and> k \<noteq> text_of ''status_code'') obj)))))"

fun call_names :: "message list \<Rightarrow> (string \<times> string) list" where
  "call_names [] = []"
| "call_names (AssistantMsg text calls # ms) = map (\<lambda>c. (tc_id c, tc_name c)) calls @ call_names ms"
| "call_names (m # ms) = call_names ms"

text \<open>The map \<open>names\<close>: a later call's name replaces an earlier one's.\<close>

definition name_of_call :: "message list \<Rightarrow> string \<Rightarrow> string" where
  "name_of_call ms i = (case map_of (rev (call_names ms)) i of Some n \<Rightarrow> n | None \<Rightarrow> ''unknown'')"

text \<open>\<open>add\<close> of an assistant's text to the messages so far.\<close>

definition add_said :: "runes \<Rightarrow> message list \<Rightarrow> message list" where
  "add_said text out =
     (if text = [] then out
      else case (if out = [] then None else Some (last out)) of
        Some (AssistantMsg s cs) \<Rightarrow> butlast out @ [AssistantMsg (s @ [10, 10] @ text) []]
      | _ \<Rightarrow> out @ [AssistantMsg text []])"

fun plain_loop :: "json_lib \<Rightarrow> (string \<Rightarrow> string) \<Rightarrow> message list \<Rightarrow> message list \<Rightarrow> message list" where
  "plain_loop jl names [] out = out"
| "plain_loop jl names (ToolMsg i content # ms) out =
     (case toolResponseText jl content of
        Some text \<Rightarrow> plain_loop jl names ms (add_said (text_of ''[Tool Response: '' @ text_of (names i) @ [93, 10] @ text) out)
      | None \<Rightarrow> plain_loop jl names ms out)"
| "plain_loop jl names (AssistantMsg text calls # ms) out = plain_loop jl names ms (add_said text out)"
| "plain_loop jl names (m # ms) out = plain_loop jl names ms (out @ [m])"

definition plainHistory :: "json_lib \<Rightarrow> message list \<Rightarrow> message list" where
  "plainHistory jl msgs = plain_loop jl (name_of_call msgs) msgs []"

section \<open>Speaking\<close>

definition sendToTTS :: "turn_env \<Rightarrow> runes \<Rightarrow> turn \<Rightarrow> turn" where
  "sendToTTS env text t = (case ctxErr t of (dead, t) \<Rightarrow>
     if dead then t
     else emit (if te_ttsOK env (tn_sends t) then TeSpeak text else TeError ''tts_speak'') (t\<lparr>tn_sends := tn_sends t + 1\<rparr>))"

definition playClip :: "turn_env \<Rightarrow> runes \<Rightarrow> turn \<Rightarrow> turn" where
  "playClip env text t = (case ctxErr t of (dead, t) \<Rightarrow>
     if dead then t
     else emit (if te_ttsOK env (tn_sends t) then TeClip text else TeError ''tts_speak'') (t\<lparr>tn_sends := tn_sends t + 1\<rparr>))"

definition playRecording :: "turn_env \<Rightarrow> node \<Rightarrow> runes \<Rightarrow> turn \<Rightarrow> turn \<times> bool" where
  "playRecording env nd i t = (case nd_clips nd of
      None \<Rightarrow> (t, False)
    | Some clips \<Rightarrow> (case clips i of
        None \<Rightarrow> (t, False)
      | Some transcript \<Rightarrow> (playClip env ([RecordingMarker, 32] @ i @ [32] @ transcript @ [32]) t, True)))"

fun send_chunks :: "turn_env \<Rightarrow> runes list \<Rightarrow> turn \<Rightarrow> turn" where
  "send_chunks env [] t = t"
| "send_chunks env (c # cs) t = send_chunks env cs (sendToTTS env c t)"

definition feed_chunker :: "turn_env \<Rightarrow> runes \<Rightarrow> turn \<Rightarrow> turn" where
  "feed_chunker env text t =
     (let (chunks, buf) = Feed (te_unicode env) text (tn_buf t) in send_chunks env chunks (t\<lparr>tn_buf := buf\<rparr>))"

text \<open>The closure \<open>route\<close>, and the callback of \<open>Stream\<close> on the tokens of a round.\<close>

definition route :: "turn_env \<Rightarrow> node \<Rightarrow> runes \<Rightarrow> clip_router option \<Rightarrow> turn \<Rightarrow> (runes \<times> clip_router option \<times> turn) option" where
  "route env nd tok r t = (case r of
      None \<Rightarrow> Some (tok, None, t)
    | Some r \<Rightarrow> (case router_feed (te_unicode env) tok r of
        None \<Rightarrow> None
      | Some (r, speak, i) \<Rightarrow>
          if i = [] then Some (speak, Some r, t)
          else (case playRecording env nd i t of (t, found) \<Rightarrow>
            if found then Some (speak, Some r, t)
            else case speakRest (te_unicode env) r of (r, rest) \<Rightarrow> Some (speak @ rest, Some r, t))))"

fun on_tokens :: "turn_env \<Rightarrow> node \<Rightarrow> runes list \<Rightarrow> clip_router option \<Rightarrow> turn \<Rightarrow> (clip_router option \<times> turn) option" where
  "on_tokens env nd [] r t = Some (r, t)"
| "on_tokens env nd (tok # toks) r t = (case route env nd tok r t of
      None \<Rightarrow> None
    | Some (speak, r, t) \<Rightarrow> on_tokens env nd toks r (feed_chunker env speak t))"

section \<open>Tools\<close>

datatype tool_action = ActionNone | ActionEndCall | ActionTransferred

definition toolErrorResult :: "turn_env \<Rightarrow> runes \<Rightarrow> runes" where
  "toolErrorResult env err = jl_strings (te_json env) [(text_of ''status'', text_of ''error''), (text_of ''error'', err)]"

definition transferFailed :: "turn_env \<Rightarrow> runes \<Rightarrow> runes" where
  "transferFailed env reason = jl_strings (te_json env) [(text_of ''status'', text_of ''failed''), (text_of ''reason'', reason)]"

text \<open>The switch at the head of \<open>takeEdge\<close> and \<open>runTool\<close>.\<close>

definition say_first :: "turn_env \<Rightarrow> runes option \<Rightarrow> runes \<Rightarrow> turn \<Rightarrow> turn" where
  "say_first env clip text t = (case clip of
      Some c \<Rightarrow> playClip env (c @ [32]) t
    | None \<Rightarrow> if text \<noteq> [] then sendToTTS env (text @ [32]) t else t)"

definition takeEdge :: "turn_env \<Rightarrow> edge \<Rightarrow> turn \<Rightarrow> turn \<times> runes" where
  "takeEdge env e t =
     (let t = say_first env (eg_speechClip e) (eg_speech e) t;
          t = emit (TeEntered (eg_to e)) (emit (TeWrite (TurnNode (eg_to e))) (t\<lparr>tn_node := eg_to e\<rparr>))
      in (if nd_end (te_nodes env (eg_to e)) then emit (TeEnding EndNodeReached) t else t, json_lit ''{~status~:~done~}''))"

definition transfer :: "turn_env \<Rightarrow> nat \<Rightarrow> tool_call \<Rightarrow> tool \<Rightarrow> turn \<Rightarrow> turn \<times> runes \<times> tool_action" where
  "transfer env round call td t = (case te_transfer env of
      None \<Rightarrow> (t, transferFailed env (text_of ''call transfer is not available''), ActionNone)
    | Some answer \<Rightarrow>
        let player = (\<lambda>pcm lp wait. \<lparr>hp_pcm = pcm, hp_loop = lp, hp_waitForMessage = wait, hp_pos = 0, hp_waited = 0,
              hp_sawMessage = False, hp_done = False\<rparr>);
            t = emit (TeWrite (TurnHold (Some (player (te_hold env) True (tl_message td \<noteq> []))))) t
        in case answer round call of
             NotAnswered err \<Rightarrow> (emit (TeWrite (TurnHold None)) t, transferFailed env err, ActionNone)
           | HandoverFailed err \<Rightarrow>
               (emit (TeWrite (TurnHold None)) (emit (TeWrite (TurnHold (Some (player (te_beep env) False False)))) t),
                transferFailed env err, ActionNone)
           | Connected \<Rightarrow>
               (emit (TeEnding TransferDone) (emit (TeWrite (TurnHold (Some (player (te_beep env) False False)))) t),
                json_lit ''{~status~:~success~,~action~:~transferred~}'', ActionTransferred))"

text \<open>The switch on the tool's kind, and \<open>Run\<close>.\<close>

definition run_kind :: "turn_env \<Rightarrow> nat \<Rightarrow> tool_call \<Rightarrow> tool \<Rightarrow> turn \<Rightarrow> turn \<times> runes \<times> tool_action" where
  "run_kind env round call td t = (case tl_kind td of
      ToolEndCall \<Rightarrow> (emit (TeEnding EndToolCalled) (emit (TeWrite TurnClosing) t), json_lit ''{~status~:~success~,~action~:~ending_call~}'', ActionEndCall)
    | ToolTransfer \<Rightarrow> transfer env round call td t
    | ToolFunction \<Rightarrow>
        if \<not> tl_hasRun td then
          (t, toolErrorResult env (text_of ''tool '' @ te_quote env (tl_name td) @ text_of '' has no implementation''), ActionNone)
        else (case te_run env round call of
            Inl err \<Rightarrow> (emit (TeToolCall (tc_name call) False) t, toolErrorResult env err, ActionNone)
          | Inr res \<Rightarrow> (emit (TeToolCall (tc_name call) True) t, res, ActionNone)))"

definition runTool :: "turn_env \<Rightarrow> nat \<Rightarrow> node \<Rightarrow> tool_call \<Rightarrow> turn \<Rightarrow> turn \<times> runes \<times> tool_action" where
  "runTool env round nd call t = (case find_tool (tc_name call) (nd_tools nd) of
      None \<Rightarrow> (t, toolErrorResult env (text_of ''unknown tool '' @ te_quote env (tc_name call)), ActionNone)
    | Some td \<Rightarrow>
        (case run_kind env round call td (emit (TeWrite (TurnTool True)) (say_first env (tl_messageClip td) (tl_message td) t)) of
           (t, result, action) \<Rightarrow> (emit (TeWrite (TurnTool False)) t, result, action)))"

text \<open>The body of the loop over a round's calls: a transition or a tool, then its answer.\<close>

definition edge_or_tool :: "turn_env \<Rightarrow> nat \<Rightarrow> tool_call \<Rightarrow> turn \<Rightarrow> turn \<times> runes \<times> tool_action" where
  "edge_or_tool env round call t =
     (let nd = te_nodes env (tn_node t)
      in case find_edge (tc_name call) (nd_edges nd) of
           Some e \<Rightarrow>
             (case takeEdge env e (if nd_extracts nd then emit (TeExtract (tn_node t) (tn_history t)) t else t) of
                (t, result) \<Rightarrow> (t, result, ActionNone))
         | None \<Rightarrow> runTool env round nd call t)"

definition do_call :: "turn_env \<Rightarrow> nat \<Rightarrow> tool_call \<Rightarrow> turn \<Rightarrow> turn" where
  "do_call env round call t =
     (case edge_or_tool env round call (emit (TeStarted (tc_name call) (tc_id call)) t) of
        (t, result, action) \<Rightarrow>
          let t = emit (TeEnded (tc_name call) (tc_id call) result) t; msg = ToolMsg (tc_id call) result
          in t\<lparr>tn_history := tn_history t @ [msg], tn_toolMsgs := tn_toolMsgs t @ [msg],
               tn_endCall := tn_endCall t \<or> action = ActionEndCall, tn_transferred := tn_transferred t \<or> action = ActionTransferred\<rparr>)"

fun do_calls :: "turn_env \<Rightarrow> nat \<Rightarrow> tool_call list \<Rightarrow> turn \<Rightarrow> turn" where
  "do_calls env round [] t = t"
| "do_calls env round (c # cs) t = do_calls env round cs (do_call env round c t)"

section \<open>The turn\<close>

text \<open>How a round ends: the turn returns, the loop is left, or the next round begins.\<close>

datatype round_end = Cancelled turn | Break turn | Again turn

definition round_calls :: "turn_env \<Rightarrow> nat \<Rightarrow> llm_answer \<Rightarrow> turn \<Rightarrow> round_end" where
  "round_calls env round ans t =
     (if la_calls ans = [] then Break t
      else if round = maxToolRounds - 1 then Break t
      else
        let t = t\<lparr>tn_history := tn_history t @ [AssistantMsg (concat (la_tokens ans)) (la_calls ans)],
                  tn_toolMsgs := tn_toolMsgs t @ [AssistantMsg [] (la_calls ans)]\<rparr>;
            t = do_calls env round (la_calls ans) t;
            (dead, t) = ctxErr t
        in if dead then Cancelled (if tn_endCall t \<and> \<not> te_base env then emit (TePost OpEndCallTool) t else t)
           else if tn_endCall t \<or> tn_transferred t then Break t else Again t)"

definition flush_router :: "turn_env \<Rightarrow> node \<Rightarrow> clip_router option \<Rightarrow> turn \<Rightarrow> turn" where
  "flush_router env nd r t = (case r of
      None \<Rightarrow> t
    | Some r \<Rightarrow> (case router_flush (te_unicode env) r of (r, speak, i) \<Rightarrow>
        feed_chunker env speak (if i \<noteq> [] then fst (playRecording env nd i t) else t)))"

definition flush_chunker :: "turn_env \<Rightarrow> turn \<Rightarrow> turn" where
  "flush_chunker env t = (case Flush (te_unicode env) (tn_buf t) of (rest, buf) \<Rightarrow>
     if rest \<noteq> [] then sendToTTS env rest (t\<lparr>tn_buf := buf\<rparr>) else t\<lparr>tn_buf := buf\<rparr>)"

definition turn_round :: "turn_env \<Rightarrow> nat \<Rightarrow> turn \<Rightarrow> round_end option" where
  "turn_round env round t =
     (let nd = te_nodes env (tn_node t);
          tools = toolDefs nd;
          msgs = requestMessages nd (tn_history t);
          msgs = (if tools = [] then plainHistory (te_json env) msgs else msgs);
          r = (if nd_clips nd = None then None else Some new_router);
          ans = te_llm env round msgs tools
      in case on_tokens env nd (la_tokens ans) r (emit (TeRequest msgs tools) t) of
           None \<Rightarrow> None
         | Some (r, t) \<Rightarrow>
             let t = t\<lparr>tn_spoke := tn_spoke t \<or> concat (la_tokens ans) \<noteq> []\<rparr>; (dead, t) = ctxErr t
             in Some (if dead then Cancelled t
                  else if la_err ans then Break (t\<lparr>tn_err := True\<rparr>)
                  else round_calls env round ans (flush_chunker env (flush_router env nd r (t\<lparr>tn_err := False\<rparr>)))))"

text \<open>The loop, with \<open>n\<close> rounds left.\<close>

fun turn_rounds :: "turn_env \<Rightarrow> nat \<Rightarrow> turn \<Rightarrow> round_end option" where
  "turn_rounds env 0 t = Some (Break t)"
| "turn_rounds env (Suc n) t = (case turn_round env (maxToolRounds - Suc n) t of
      Some (Again t) \<Rightarrow> turn_rounds env n t
    | x \<Rightarrow> x)"

text \<open>The lines of \<open>LLMFailurePolicy.line\<close>.\<close>

fun line_text :: "fallback_line \<Rightarrow> runes" where
  "line_text HangupHindi = [0x92E, 0x93E, 0x92B, 0x93C, 0x20, 0x915, 0x940, 0x91C, 0x93F, 0x90F, 0x2C, 0x20, 0x915, 0x941, 0x91B, 0x20,
       0x924, 0x915, 0x928, 0x940, 0x915, 0x940, 0x20, 0x938, 0x92E, 0x938, 0x94D, 0x92F, 0x93E, 0x20, 0x939, 0x948,
       0x964, 0x20, 0x939, 0x92E, 0x20, 0x906, 0x92A, 0x915, 0x94B, 0x20, 0x925, 0x94B, 0x921, 0x93C, 0x940, 0x20,
       0x926, 0x947, 0x930, 0x20, 0x92E, 0x947, 0x902, 0x20, 0x926, 0x94B, 0x92C, 0x93E, 0x930, 0x93E, 0x20, 0x915,
       0x949, 0x932, 0x20, 0x915, 0x930, 0x947, 0x902, 0x917, 0x947, 0x964, 0x20, 0x927, 0x928, 0x94D, 0x92F, 0x935,
       0x93E, 0x926, 0x964]"
| "line_text HangupEnglish =
     text_of ''Sorry, we are having a technical problem. We will call you back shortly. Thank you.''"
| "line_text (OwnApology apology) = apology"
| "line_text ApologyHindi = [0x92E, 0x93E, 0x92B, 0x93C, 0x20, 0x915, 0x940, 0x91C, 0x93F, 0x90F, 0x2C, 0x20, 0x92E, 0x941, 0x91D, 0x947,
       0x20, 0x920, 0x940, 0x915, 0x20, 0x938, 0x947, 0x20, 0x938, 0x941, 0x928, 0x93E, 0x908, 0x20, 0x928, 0x939,
       0x940, 0x902, 0x20, 0x926, 0x93F, 0x92F, 0x93E, 0x964, 0x20, 0x915, 0x94D, 0x92F, 0x93E, 0x20, 0x906, 0x92A,
       0x20, 0x926, 0x94B, 0x92C, 0x93E, 0x930, 0x93E, 0x20, 0x92C, 0x94B, 0x932, 0x20, 0x938, 0x915, 0x924, 0x947,
       0x20, 0x939, 0x948, 0x902, 0x3F]"
| "line_text ApologyEnglish = text_of ''Sorry, I didn'' @ [39] @ text_of ''t catch that. Could you please say it again?''"

definition turn_failed :: "turn_env \<Rightarrow> turn \<Rightarrow> turn" where
  "turn_failed env t =
     (let n = tn_failures t + 1; t = t\<lparr>tn_failures := n\<rparr>;
          (line, kind, hangup) = failure_line (te_failures env) n;
          t = sendToTTS env (line_text line @ [32]) (emit (TeFallback kind) t)
      in if hangup then emit (TeEnding LLMDown) (t\<lparr>tn_endCall := True\<rparr>) else t)"

definition turn_finish :: "turn_env \<Rightarrow> nat \<Rightarrow> turn \<Rightarrow> turn" where
  "turn_finish env gen t =
     (let t = (if tn_err t then (case ctxErr t of (dead, t) \<Rightarrow> if \<not> dead \<and> \<not> tn_spoke t then turn_failed env t else t)
               else t\<lparr>tn_failures := 0\<rparr>);
          t = t\<lparr>tn_endCall := tn_endCall t \<or> nd_end (te_nodes env (tn_node t))\<rparr>
      in if te_base env \<and> \<not> te_posted env then t
         else emit TeEndGeneration (emit (TePost (OpLLMDone gen (tn_err t) (tn_toolMsgs t) (tn_endCall t))) t))"

definition start_turn :: "nat \<Rightarrow> message list \<Rightarrow> nat option \<Rightarrow> int \<Rightarrow> turn" where
  "start_turn n history live failures = \<lparr>tn_node = n, tn_buf = [], tn_history = history, tn_toolMsgs = [], tn_endCall = False,
     tn_transferred = False, tn_spoke = False, tn_err = False, tn_live = live, tn_sends = 0, tn_failures = failures, tn_effects = []\<rparr>"

text \<open>\<open>live\<close> is when the turn is cancelled, \<open>failures\<close> the failed turns in a row before it.\<close>

definition runLLMTurn :: "turn_env \<Rightarrow> nat \<Rightarrow> message list \<Rightarrow> nat \<Rightarrow> nat option \<Rightarrow> int \<Rightarrow> turn option" where
  "runLLMTurn env n history gen live failures =
     (case turn_rounds env maxToolRounds (start_turn n history live failures) of
        None \<Rightarrow> None
      | Some (Cancelled t) \<Rightarrow> Some t
      | Some (Break t) \<Rightarrow> Some (turn_finish env gen t)
      | Some (Again t) \<Rightarrow> Some (turn_finish env gen t))"

end
