(* ===== verification/Llm_Claims.thy ===== *)
theory Llm_Claims
  imports Llm_Turn
begin

text \<open>
  Properties of a turn: it ends, the conversation it sends is one the provider accepts, a turn that fails
  is not silent, and a call that was told goodbye is ended.
\<close>

section \<open>What the parts of a turn change\<close>

definition tview :: "turn \<Rightarrow> nat \<times> message list \<times> message list \<times> bool \<times> bool \<times> bool \<times> bool \<times> int" where
  "tview t = (tn_node t, tn_history t, tn_toolMsgs t, tn_endCall t, tn_transferred t, tn_spoke t, tn_err t, tn_failures t)"

text \<open>\<open>t'\<close> continues \<open>t\<close> with effects of a kind, and is not cancelled when \<open>t\<close> never is.\<close>

definition extends :: "(turn_effect \<Rightarrow> bool) \<Rightarrow> turn \<Rightarrow> turn \<Rightarrow> bool" where
  "extends P t t' \<longleftrightarrow> (\<exists>es. tn_effects t' = tn_effects t @ es \<and> list_all P es) \<and> (tn_live t = None \<longrightarrow> tn_live t' = None)"

fun is_speech :: "turn_effect \<Rightarrow> bool" where
  "is_speech (TeSpeak s) = True" | "is_speech (TeClip s) = True" | "is_speech (TeError s) = True" | "is_speech e = False"

fun is_request :: "turn_effect \<Rightarrow> bool" where
  "is_request (TeRequest ms ts) = True" | "is_request e = False"

fun is_post :: "turn_effect \<Rightarrow> bool" where
  "is_post (TePost op) = True" | "is_post TeEndGeneration = True" | "is_post e = False"

definition says :: "turn \<Rightarrow> turn \<Rightarrow> bool" where
  "says t t' \<longleftrightarrow> tview t' = tview t \<and> extends is_speech t t'"

lemma extends_refl [intro, simp]: "tn_effects t' = tn_effects t \<Longrightarrow> tn_live t' = tn_live t \<Longrightarrow> extends P t t'"
  by (auto simp: extends_def)

lemma extends_trans [trans]: "extends P a b \<Longrightarrow> extends P b c \<Longrightarrow> extends P a c"
  by (fastforce simp: extends_def)

lemma extends_mono: "extends P a b \<Longrightarrow> (\<And>e. P e \<Longrightarrow> Q e) \<Longrightarrow> extends Q a b"
  by (auto simp: extends_def list_all_iff)

lemma extends_emit: "extends P t (emit e t) \<longleftrightarrow> P e"
  by (auto simp: extends_def emit_def)

lemma says_refl [intro, simp]: "tview t' = tview t \<Longrightarrow> tn_effects t' = tn_effects t \<Longrightarrow> tn_live t' = tn_live t \<Longrightarrow> says t t'"
  by (simp add: says_def)

lemma says_trans [trans]: "says a b \<Longrightarrow> says b c \<Longrightarrow> says a c"
  using extends_trans by (auto simp: says_def)

lemma ctxErr_says: "ctxErr t = (d, t') \<Longrightarrow> says t t'"
  by (auto simp: ctxErr_def says_def extends_def tview_def split: option.splits nat.splits)

lemma ctxErr_alive: "ctxErr t = (d, t') \<Longrightarrow> tn_live t = None \<Longrightarrow> \<not> d \<and> t' = t"
  by (simp add: ctxErr_def)

lemma emit_says: "is_speech e \<Longrightarrow> says t (emit e (t\<lparr>tn_sends := k\<rparr>))"
  by (auto simp: says_def extends_def tview_def emit_def)

lemma send_says: "says t (sendToTTS env text t)" "says t (playClip env text t)"
proof -
  obtain d u where c: "ctxErr t = (d, u)" by (cases "ctxErr t")
  note s = ctxErr_says [OF c] says_trans [OF ctxErr_says [OF c] emit_says]
  show "says t (sendToTTS env text t)" "says t (playClip env text t)"
    using s by (auto simp: sendToTTS_def playClip_def c)
qed

lemma playRecording_says: "says t (fst (playRecording env nd i t))"
  by (auto simp: playRecording_def send_says split: option.split)

lemma send_chunks_says: "says t (send_chunks env cs t)"
  by (induction cs arbitrary: t) (auto intro: says_trans [OF send_says(1)])

lemma feed_chunker_says: "says t (feed_chunker env text t)"
  unfolding feed_chunker_def Let_def split_beta
  by (rule says_trans [OF _ send_chunks_says]) (simp add: tview_def)

lemma route_says: "route env nd tok r t = Some (speak, r', t') \<Longrightarrow> says t t'"
  using playRecording_says [of t env nd]
  by (auto simp: route_def split: option.splits prod.splits if_splits) (metis fst_conv)+

lemma on_tokens_says: "on_tokens env nd toks r t = Some (r', t') \<Longrightarrow> says t t'"
proof (induction toks arbitrary: r t)
  case (Cons tok toks)
  then obtain speak r1 t1 where r: "route env nd tok r t = Some (speak, r1, t1)" "on_tokens env nd toks r1 (feed_chunker env speak t1) = Some (r', t')"
    by (auto split: option.splits)
  from route_says [OF r(1)] feed_chunker_says Cons.IH [OF r(2)] show ?case by (blast intro: says_trans)
qed simp

lemma flush_says: "says t (flush_router env nd r t)" "says t (flush_chunker env t)"
proof -
  have "says t (if i \<noteq> [] then fst (playRecording env nd i t) else t)" for i using playRecording_says by simp
  from says_trans [OF this feed_chunker_says] show "says t (flush_router env nd r t)"
    by (auto simp: flush_router_def split: option.split prod.split)
  have s: "says t (t\<lparr>tn_buf := b\<rparr>)" for b by (rule says_refl) (simp_all add: tview_def)
  from s says_trans [OF s send_says(1)] show "says t (flush_chunker env t)"
    by (auto simp: flush_chunker_def split: prod.split)
qed

section \<open>Tool calls\<close>

fun is_quiet :: "turn_effect \<Rightarrow> bool" where
  "is_quiet (TeRequest ms ts) = False" | "is_quiet (TePost op) = False" | "is_quiet TeEndGeneration = False" | "is_quiet e = True"

lemma says_quiet: "says t t' \<Longrightarrow> extends is_quiet t t'"
  unfolding says_def by (elim conjE, erule extends_mono) (metis is_quiet.simps(4,5,6) is_speech.elims(2))

lemma says_view: "says t t' \<Longrightarrow> tview t' = tview t"
  by (simp add: says_def)

lemma emit_quiet: "extends is_quiet t u \<Longrightarrow> is_quiet e \<Longrightarrow> extends is_quiet t (emit e u)"
  using extends_trans extends_emit by blast


text \<open>One call: an answer is appended to both lists; only a tool that ends the call mutes the caller.\<close>

definition called :: "turn \<Rightarrow> string \<Rightarrow> turn \<Rightarrow> bool" where
  "called t i t' \<longleftrightarrow> (\<exists>res. tn_history t' = tn_history t @ [ToolMsg i res] \<and> tn_toolMsgs t' = tn_toolMsgs t @ [ToolMsg i res])
     \<and> extends is_quiet t t' \<and> (tn_endCall t \<longrightarrow> tn_endCall t')
     \<and> (TeWrite TurnClosing \<in> set (tn_effects t') \<longrightarrow> TeWrite TurnClosing \<in> set (tn_effects t) \<or> tn_endCall t')
     \<and> tn_failures t' = tn_failures t \<and> tn_spoke t' = tn_spoke t \<and> tn_err t' = tn_err t"

text \<open>What a tool or an edge does before its answer is recorded.\<close>

definition acted :: "turn \<Rightarrow> turn \<Rightarrow> bool" where
  "acted t t' \<longleftrightarrow> tn_history t' = tn_history t \<and> tn_toolMsgs t' = tn_toolMsgs t \<and> tn_endCall t' = tn_endCall t
     \<and> tn_failures t' = tn_failures t \<and> tn_spoke t' = tn_spoke t \<and> tn_err t' = tn_err t \<and> tn_transferred t' = tn_transferred t
     \<and> extends is_quiet t t'"

definition silent :: "turn \<Rightarrow> turn \<Rightarrow> bool" where
  "silent t t' \<longleftrightarrow> (TeWrite TurnClosing \<in> set (tn_effects t') \<longrightarrow> TeWrite TurnClosing \<in> set (tn_effects t))"

lemma silent_trans: "silent a b \<Longrightarrow> silent b c \<Longrightarrow> silent a c"
  by (simp add: silent_def)

lemma acted_trans: "acted a b \<Longrightarrow> acted b c \<Longrightarrow> acted a c"
  using extends_trans by (auto simp: acted_def)

lemma says_acted: "says t t' \<Longrightarrow> acted t t' \<and> silent t t'"
proof -
  assume s: "says t t'"
  then obtain es where "tn_effects t' = tn_effects t @ es" "list_all is_speech es" by (auto simp: says_def extends_def)
  then have "silent t t'" by (auto simp: silent_def list_all_iff)
  with s show ?thesis using says_quiet [OF s] by (simp add: acted_def says_def tview_def)
qed

lemma emit_acted: "is_quiet e \<Longrightarrow> acted t (emit e t)" "e \<noteq> TeWrite TurnClosing \<Longrightarrow> silent t (emit e t)"
  by (auto simp: acted_def silent_def extends_emit) (auto simp: emit_def)

lemma node_acted: "acted t (t\<lparr>tn_node := n\<rparr>)" "silent t (t\<lparr>tn_node := n\<rparr>)"
  by (auto simp: acted_def silent_def)

lemma refl_acted: "acted t t" "silent t t"
  by (auto simp: acted_def silent_def)


definition does :: "turn \<Rightarrow> turn \<Rightarrow> bool" where
  "does t t' \<longleftrightarrow> acted t t' \<and> silent t t'"

lemma does_trans [trans]: "does a b \<Longrightarrow> does b c \<Longrightarrow> does a c"
  using acted_trans silent_trans by (auto simp: does_def)

lemma does_intros:
  "does t t" "does t (t\<lparr>tn_node := n\<rparr>)" "says t t' \<Longrightarrow> does t t'"
  "is_quiet e \<Longrightarrow> e \<noteq> TeWrite TurnClosing \<Longrightarrow> does t (emit e t)"
  using says_acted node_acted refl_acted emit_acted by (auto simp: does_def)

lemma does_emit: "does t u \<Longrightarrow> is_quiet e \<Longrightarrow> e \<noteq> TeWrite TurnClosing \<Longrightarrow> does t (emit e u)"
  by (rule does_trans [OF _ does_intros(4)])

lemma say_first_does: "does t (say_first env c s t)"
  by (auto simp: say_first_def intro: does_intros send_says split: option.split)

lemma takeEdge_does: "does t (fst (takeEdge env e t))"
proof -
  from does_trans [OF say_first_does does_intros(2)] show ?thesis
    by (auto simp: takeEdge_def Let_def intro!: does_emit)
qed

lemma transfer_does: "does t (fst (transfer env k c td t))"
  by (auto simp: transfer_def Let_def intro!: does_emit does_intros(1) split: option.split transfer_answer.split)

lemma run_kind_does:
  assumes "run_kind env k call td t = (t', res, act)"
  shows "acted t t' \<and> (silent t t' \<or> act = ActionEndCall)"
proof (cases "tl_kind td")
  case ToolEndCall
  have "acted t (emit (TeEnding EndToolCalled) (emit (TeWrite TurnClosing) t))"
    by (rule acted_trans [OF emit_acted(1) emit_acted(1)]) simp_all
  then show ?thesis using assms ToolEndCall by (auto simp: run_kind_def)
next
  case ToolTransfer
  then show ?thesis using assms transfer_does [of t env k call td] by (auto simp: run_kind_def does_def)
next
  case ToolFunction
  have "does t (emit (TeToolCall (tc_name call) b) t)" for b by (rule does_intros) simp_all
  with assms ToolFunction refl_acted show ?thesis by (auto simp: run_kind_def does_def split: if_splits sum.splits)
qed

lemma runTool_does:
  assumes "runTool env k nd call t = (t', res, act)"
  shows "acted t t' \<and> (silent t t' \<or> act = ActionEndCall)"
proof (cases "find_tool (tc_name call) (nd_tools nd)")
  case None
  with assms show ?thesis using refl_acted by (auto simp: runTool_def)
next
  case (Some td)
  let ?u = "emit (TeWrite (TurnTool True)) (say_first env (tl_messageClip td) (tl_message td) t)"
  have u: "does t ?u" by (rule does_emit [OF say_first_does]) simp_all
  obtain w r a where w: "run_kind env k call td ?u = (w, r, a)" by (metis prod_cases3)
  have e: "does w (emit (TeWrite (TurnTool False)) w)" by (rule does_intros) simp_all
  have "t' = emit (TeWrite (TurnTool False)) w" "act = a" using assms Some w by (simp_all add: runTool_def)
  moreover from u e run_kind_does [OF w] have "acted t (emit (TeWrite (TurnTool False)) w)"
      "silent t (emit (TeWrite (TurnTool False)) w) \<or> a = ActionEndCall"
    unfolding does_def by (blast intro: acted_trans silent_trans)+
  ultimately show ?thesis by simp
qed

lemma edge_or_tool_does:
  assumes "edge_or_tool env k call t = (t', res, act)"
  shows "acted t t' \<and> (silent t t' \<or> act = ActionEndCall)"
proof (cases "find_edge (tc_name call) (nd_edges (te_nodes env (tn_node t)))")
  case None
  with assms runTool_does show ?thesis by (auto simp: edge_or_tool_def)
next
  case (Some e)
  let ?x = "if nd_extracts (te_nodes env (tn_node t)) then emit (TeExtract (tn_node t) (tn_history t)) t else t"
  have "does t ?x" using does_intros(1,4) by simp
  from does_trans [OF this takeEdge_does] have "does t (fst (takeEdge env e ?x))" .
  moreover have "t' = fst (takeEdge env e ?x)" using assms Some by (auto simp: edge_or_tool_def split_beta Let_def)
  ultimately show ?thesis by (simp add: does_def)
qed

lemma do_call_called: "called t (tc_id call) (do_call env k call t)"
proof -
  obtain w res act where w: "edge_or_tool env k call (emit (TeStarted (tc_name call) (tc_id call)) t) = (w, res, act)" by (metis prod_cases3)
  have "does t (emit (TeStarted (tc_name call) (tc_id call)) t)" by (rule does_intros) simp_all
  with edge_or_tool_does [OF w] have a: "acted t w" "silent t w \<or> act = ActionEndCall"
    using acted_trans silent_trans by (auto simp: does_def)
  let ?e = "emit (TeEnded (tc_name call) (tc_id call) res) w"
  have "does w ?e" by (rule does_intros) simp_all
  with a have e: "acted t ?e" "silent t ?e \<or> act = ActionEndCall"
    using acted_trans silent_trans by (auto simp: does_def)
  then show ?thesis by (auto simp: do_call_def w Let_def called_def acted_def silent_def extends_def)
qed

lemma do_calls_called:
  "\<exists>rs. length rs = length calls \<and> tn_history (do_calls env k calls t) = tn_history t @ map2 (\<lambda>c r. ToolMsg (tc_id c) r) calls rs
    \<and> tn_toolMsgs (do_calls env k calls t) = tn_toolMsgs t @ map2 (\<lambda>c r. ToolMsg (tc_id c) r) calls rs
    \<and> extends is_quiet t (do_calls env k calls t) \<and> (tn_endCall t \<longrightarrow> tn_endCall (do_calls env k calls t))
    \<and> (TeWrite TurnClosing \<in> set (tn_effects (do_calls env k calls t)) \<longrightarrow> TeWrite TurnClosing \<in> set (tn_effects t) \<or> tn_endCall (do_calls env k calls t))"
proof (induction calls arbitrary: t)
  case (Cons c cs)
  let ?u = "do_call env k c t"
  from do_call_called [of t c env k] obtain r where
    u: "tn_history ?u = tn_history t @ [ToolMsg (tc_id c) r]" "tn_toolMsgs ?u = tn_toolMsgs t @ [ToolMsg (tc_id c) r]"
       "extends is_quiet t ?u" "tn_endCall t \<longrightarrow> tn_endCall ?u"
       "TeWrite TurnClosing \<in> set (tn_effects ?u) \<longrightarrow> TeWrite TurnClosing \<in> set (tn_effects t) \<or> tn_endCall ?u"
    by (auto simp: called_def)
  from Cons.IH [of ?u] obtain rs where rs: "length rs = length cs"
    "tn_history (do_calls env k cs ?u) = tn_history ?u @ map2 (\<lambda>c r. ToolMsg (tc_id c) r) cs rs"
    "tn_toolMsgs (do_calls env k cs ?u) = tn_toolMsgs ?u @ map2 (\<lambda>c r. ToolMsg (tc_id c) r) cs rs"
    "extends is_quiet ?u (do_calls env k cs ?u)" "tn_endCall ?u \<longrightarrow> tn_endCall (do_calls env k cs ?u)"
    "TeWrite TurnClosing \<in> set (tn_effects (do_calls env k cs ?u)) \<longrightarrow> TeWrite TurnClosing \<in> set (tn_effects ?u) \<or> tn_endCall (do_calls env k cs ?u)"
    by blast
  with u show ?case by (intro exI [of _ "r # rs"]) (auto intro: extends_trans)
qed simp


section \<open>The conversation\<close>

text \<open>Reading a conversation with calls \<open>is\<close> still to be answered: \<open>None\<close> when an answer has no call, a call is
  not answered before anything else, or answers are out of order; else the calls still open at its end.\<close>

fun answered :: "string list \<Rightarrow> message list \<Rightarrow> string list option" where
  "answered is [] = Some is"
| "answered (i # is) (ToolMsg j res # ms) = (if i = j then answered is ms else None)"
| "answered [] (AssistantMsg text calls # ms) = answered (map tc_id calls) ms"
| "answered [] (SystemMsg text # ms) = answered [] ms"
| "answered [] (UserMsg text # ms) = answered [] ms"
| "answered is ms = None"

definition conforms :: "message list \<Rightarrow> bool" where
  "conforms ms \<longleftrightarrow> answered [] ms = Some []"

lemma answered_append: "answered is (a @ b) = (case answered is a of None \<Rightarrow> None | Some is' \<Rightarrow> answered is' b)"
  by (induction "is" a rule: answered.induct) (auto split: option.split)

lemma conforms_append: "conforms a \<Longrightarrow> conforms b \<Longrightarrow> conforms (a @ b)"
  by (simp add: conforms_def answered_append)

lemma conforms_simps [simp]: "conforms []" "conforms [AssistantMsg s []]" "conforms [UserMsg s]" "conforms [SystemMsg s]"
  by (simp_all add: conforms_def)

lemma answers_conform:
  "length rs = length calls \<Longrightarrow> answered (map tc_id calls) (map2 (\<lambda>c r. ToolMsg (tc_id c) r) calls rs) = Some []"
  by (induction rs calls rule: list_induct2) simp_all

lemma exchange_conforms:
  assumes "length rs = length calls" "conforms ms"
  shows "conforms (ms @ AssistantMsg said calls # map2 (\<lambda>c r. ToolMsg (tc_id c) r) calls rs)"
  using assms answers_conform [OF assms(1)] by (simp add: conforms_def answered_append)

text \<open>No tool call and no tool's answer.\<close>

fun plain :: "message \<Rightarrow> bool" where
  "plain (ToolMsg i res) = False" | "plain (AssistantMsg text calls) = (calls = [])" | "plain m = True"

lemma plain_conforms: "list_all plain ms \<Longrightarrow> conforms ms"
  unfolding conforms_def by (induction ms) (auto elim: plain.elims)

lemma add_said_plain: "list_all plain out \<Longrightarrow> list_all plain (add_said text out)"
  by (auto simp: add_said_def list_all_iff dest: in_set_butlastD split: message.split)

lemma plain_loop_plain: "list_all plain out \<Longrightarrow> list_all plain (plain_loop jl names ms out)"
  by (induction jl names ms out rule: plain_loop.induct) (auto simp: add_said_plain split: option.split)

lemma plainHistory_plain: "list_all plain (plainHistory jl ms)"
  by (simp add: plainHistory_def plain_loop_plain)

lemma requestMessages_conforms: "conforms ms \<Longrightarrow> conforms (requestMessages nd ms)"
  by (auto simp: requestMessages_def conforms_def)

section \<open>Rounds\<close>

definition requests :: "turn \<Rightarrow> nat" where
  "requests t = length (filter is_request (tn_effects t))"

text \<open>What holds between two rounds, and of the turn when the loop is left: both lists conform, nothing was
  posted, what was requested conforms, and the caller is muted only by a tool that ends the call. \<open>hc\<close>: the
  history the turn began with conforms.\<close>

definition request_ok :: "bool \<Rightarrow> turn_effect \<Rightarrow> bool" where
  "request_ok hc e \<longleftrightarrow> (case e of TeRequest ms ts \<Rightarrow> (hc \<longrightarrow> conforms ms) \<and> (ts = [] \<longrightarrow> list_all plain ms) | _ \<Rightarrow> True)"

definition turn_ok :: "bool \<Rightarrow> turn \<Rightarrow> bool" where
  "turn_ok hc t \<longleftrightarrow> (hc \<longrightarrow> conforms (tn_history t)) \<and> conforms (tn_toolMsgs t) \<and> list_all (request_ok hc) (tn_effects t)
     \<and> list_all (\<lambda>e. \<not> is_post e) (tn_effects t) \<and> (TeWrite TurnClosing \<in> set (tn_effects t) \<longrightarrow> tn_endCall t)"

lemma quiet_facts: "is_quiet e \<Longrightarrow> request_ok hc e \<and> \<not> is_post e \<and> \<not> is_request e"
  by (cases e) (auto simp: request_ok_def)

lemma quiet_requests: "extends is_quiet t t' \<Longrightarrow> requests t' = requests t"
  using quiet_facts by (fastforce simp: extends_def requests_def list_all_iff filter_empty_conv)

lemma quiet_ok:
  assumes "turn_ok hc t" "extends is_quiet t t'" "hc \<longrightarrow> conforms (tn_history t')" "conforms (tn_toolMsgs t')"
    and "TeWrite TurnClosing \<in> set (tn_effects t') \<longrightarrow> tn_endCall t'"
  shows "turn_ok hc t'"
  using assms quiet_facts by (fastforce simp: turn_ok_def extends_def list_all_iff)

lemma says_ok: "turn_ok hc t \<Longrightarrow> says t t' \<Longrightarrow> turn_ok hc t'"
proof (rule quiet_ok)
  assume t: "turn_ok hc t" and s: "says t t'"
  from says_view [OF s] have v: "tn_history t' = tn_history t" "tn_toolMsgs t' = tn_toolMsgs t" "tn_endCall t' = tn_endCall t"
    by (simp_all add: tview_def)
  from t v show "hc \<longrightarrow> conforms (tn_history t')" "conforms (tn_toolMsgs t')" by (simp_all add: turn_ok_def)
  from says_acted [OF s] t v show "TeWrite TurnClosing \<in> set (tn_effects t') \<longrightarrow> tn_endCall t'"
    by (auto simp: turn_ok_def silent_def)
qed (blast intro: says_quiet)+

lemma flags_ok: "turn_ok hc t \<Longrightarrow> turn_ok hc (t\<lparr>tn_spoke := a\<rparr>)" "turn_ok hc t \<Longrightarrow> turn_ok hc (t\<lparr>tn_err := b\<rparr>)"
  by (simp_all add: turn_ok_def)

fun end_turn :: "round_end \<Rightarrow> turn" where
  "end_turn (Cancelled t) = t" | "end_turn (Break t) = t" | "end_turn (Again t) = t"

definition after_calls :: "turn_env \<Rightarrow> nat \<Rightarrow> llm_answer \<Rightarrow> turn \<Rightarrow> turn" where
  "after_calls env k ans t = do_calls env k (la_calls ans) (t\<lparr>tn_history := tn_history t @ [AssistantMsg (concat (la_tokens ans)) (la_calls ans)],
     tn_toolMsgs := tn_toolMsgs t @ [AssistantMsg [] (la_calls ans)]\<rparr>)"

lemma after_calls_ok:
  assumes "turn_ok hc t"
  shows "turn_ok hc (after_calls env k ans t) \<and> extends is_quiet t (after_calls env k ans t)"
proof -
  let ?t = "t\<lparr>tn_history := tn_history t @ [AssistantMsg (concat (la_tokens ans)) (la_calls ans)],
     tn_toolMsgs := tn_toolMsgs t @ [AssistantMsg [] (la_calls ans)]\<rparr>" and ?u = "after_calls env k ans t"
  obtain rs where rs: "length rs = length (la_calls ans)"
    "tn_history ?u = tn_history ?t @ map2 (\<lambda>c r. ToolMsg (tc_id c) r) (la_calls ans) rs"
    "tn_toolMsgs ?u = tn_toolMsgs ?t @ map2 (\<lambda>c r. ToolMsg (tc_id c) r) (la_calls ans) rs"
    "extends is_quiet ?t ?u" "tn_endCall ?t \<longrightarrow> tn_endCall ?u"
    "TeWrite TurnClosing \<in> set (tn_effects ?u) \<longrightarrow> TeWrite TurnClosing \<in> set (tn_effects ?t) \<or> tn_endCall ?u"
    using do_calls_called [of "la_calls ans" env k ?t] unfolding after_calls_def by blast
  have e: "extends is_quiet t ?u" using rs(4) by (simp add: extends_def)
  moreover have "turn_ok hc ?u"
  proof (rule quiet_ok [OF assms e])
    show "hc \<longrightarrow> conforms (tn_history ?u)" "conforms (tn_toolMsgs ?u)"
      using exchange_conforms [OF rs(1)] assms rs(2,3) by (simp_all add: turn_ok_def)
    show "TeWrite TurnClosing \<in> set (tn_effects ?u) \<longrightarrow> tn_endCall ?u" using rs(5,6) assms by (auto simp: turn_ok_def)
  qed
  ultimately show ?thesis by blast
qed


text \<open>What a cancelled turn leaves: nothing was posted, unless a tool had ended the call.\<close>

definition cancelled_ok :: "bool \<Rightarrow> turn_env \<Rightarrow> turn \<Rightarrow> bool" where
  "cancelled_ok hc env t \<longleftrightarrow> list_all (request_ok hc) (tn_effects t) \<and> (\<forall>op. TePost op \<in> set (tn_effects t) \<longrightarrow> op = OpEndCallTool)
     \<and> TeEndGeneration \<notin> set (tn_effects t) \<and> (TeWrite TurnClosing \<in> set (tn_effects t) \<and> \<not> te_base env \<longrightarrow> TePost OpEndCallTool \<in> set (tn_effects t))"

fun round_ok :: "bool \<Rightarrow> turn_env \<Rightarrow> round_end \<Rightarrow> bool" where
  "round_ok hc env (Cancelled t) = cancelled_ok hc env t"
| "round_ok hc env (Break t) = turn_ok hc t"
| "round_ok hc env (Again t) = (turn_ok hc t \<and> \<not> tn_endCall t)"

fun alive :: "round_end \<Rightarrow> bool" where
  "alive (Cancelled t) = False" | "alive (Break t) = (tn_live t = None)" | "alive (Again t) = (tn_live t = None)"

lemma turn_ok_cancelled: "turn_ok hc t \<Longrightarrow> \<not> tn_endCall t \<or> te_base env \<Longrightarrow> cancelled_ok hc env t"
  by (fastforce simp: turn_ok_def cancelled_ok_def list_all_iff)

lemma round_calls_ok:
  assumes "turn_ok hc t" "\<not> tn_endCall t"
  shows "round_ok hc env (round_calls env k ans t) \<and> requests (end_turn (round_calls env k ans t)) = requests t
    \<and> (tn_live t = None \<longrightarrow> alive (round_calls env k ans t))"
proof (cases "la_calls ans = [] \<or> k = maxToolRounds - 1")
  case True
  with assms show ?thesis by (auto simp: round_calls_def)
next
  case False
  let ?u = "after_calls env k ans t"
  obtain d w where c: "ctxErr ?u = (d, w)" by (cases "ctxErr ?u")
  have r: "round_calls env k ans t = (if d then Cancelled (if tn_endCall w \<and> \<not> te_base env then emit (TePost OpEndCallTool) w else w)
      else if tn_endCall w \<or> tn_transferred w then Break w else Again w)"
    using False by (auto simp: round_calls_def Let_def c [unfolded after_calls_def])
  from after_calls_ok [OF assms(1)] have u: "turn_ok hc ?u" "extends is_quiet t ?u" by auto
  have w: "turn_ok hc w" "extends is_quiet t w" using says_ok [OF u(1) ctxErr_says [OF c]] extends_trans [OF u(2) says_quiet [OF ctxErr_says [OF c]]] by auto
  have "requests (emit (TePost OpEndCallTool) w) = requests w" by (simp add: requests_def emit_def)
  moreover have "cancelled_ok hc env (emit (TePost OpEndCallTool) w)"
    using w(1) by (fastforce simp: cancelled_ok_def turn_ok_def list_all_iff emit_def request_ok_def)
  moreover have "cancelled_ok hc env w" if "\<not> (tn_endCall w \<and> \<not> te_base env)" using turn_ok_cancelled [OF w(1)] that by blast
  moreover have "\<not> d \<and> tn_live w = None" if "tn_live t = None"
    using ctxErr_alive [OF c] u(2) that by (auto simp: extends_def)
  ultimately show ?thesis using w quiet_requests [OF w(2)] by (simp add: r)
qed

lemma turn_round_ok:
  assumes "turn_ok hc t" "\<not> tn_endCall t" "turn_round env k t = Some e"
  shows "round_ok hc env e \<and> requests (end_turn e) = requests t + 1 \<and> (tn_live t = None \<longrightarrow> alive e)"
proof -
  let ?nd = "te_nodes env (tn_node t)"
  define tools where "tools = toolDefs ?nd"
  define msgs where "msgs = (if tools = [] then plainHistory (te_json env) (requestMessages ?nd (tn_history t)) else requestMessages ?nd (tn_history t))"
  define ans where "ans = te_llm env k msgs tools"
  define r0 where "r0 = (if nd_clips ?nd = None then None else Some new_router)"
  let ?q = "emit (TeRequest msgs tools) t"
  obtain r u where o': "on_tokens env ?nd (la_tokens ans) r0 ?q = Some (r, u)" and
    e: "e = (let t = u\<lparr>tn_spoke := tn_spoke u \<or> concat (la_tokens ans) \<noteq> []\<rparr>; (dead, t) = ctxErr t
         in if dead then Cancelled t else if la_err ans then Break (t\<lparr>tn_err := True\<rparr>)
            else round_calls env k ans (flush_chunker env (flush_router env ?nd r (t\<lparr>tn_err := False\<rparr>))))"
    using assms(3) unfolding turn_round_def Let_def tools_def [symmetric] msgs_def [symmetric] ans_def [symmetric] r0_def [symmetric]
    by (auto simp: split_beta split: option.splits)
  let ?v = "u\<lparr>tn_spoke := tn_spoke u \<or> concat (la_tokens ans) \<noteq> []\<rparr>"
  obtain d w where c: "ctxErr ?v = (d, w)" by (cases "ctxErr ?v")
  have "hc \<longrightarrow> conforms (requestMessages ?nd (tn_history t))" using assms(1) requestMessages_conforms by (simp add: turn_ok_def)
  then have "request_ok hc (TeRequest msgs tools)"
    using plain_conforms [OF plainHistory_plain] plainHistory_plain by (simp add: request_ok_def msgs_def)
  then have q: "turn_ok hc ?q" using assms(1) by (auto simp: turn_ok_def emit_def)
  have qr: "requests ?q = requests t + 1" by (simp add: requests_def emit_def)
  from on_tokens_says [OF o'] have s: "says ?q u" .
  have v: "turn_ok hc ?v" "requests ?v = requests t + 1" "tn_endCall ?v = tn_endCall t" "tn_live t = None \<Longrightarrow> tn_live ?v = None"
    using flags_ok(1) [OF says_ok [OF q s]] quiet_requests [OF says_quiet [OF s]] qr says_view [OF s] s
    by (auto simp: requests_def tview_def says_def extends_def emit_def)
  from ctxErr_says [OF c] v have w: "turn_ok hc w" "requests w = requests t + 1" "tn_endCall w = tn_endCall t" "tn_live t = None \<Longrightarrow> tn_live w = None \<and> \<not> d"
    using says_ok [OF v(1) ctxErr_says [OF c]] quiet_requests [OF says_quiet [OF ctxErr_says [OF c]]] says_view [OF ctxErr_says [OF c]] ctxErr_alive [OF c]
    by (auto simp: tview_def)
  let ?x = "flush_chunker env (flush_router env ?nd r (w\<lparr>tn_err := False\<rparr>))"
  have x: "says (w\<lparr>tn_err := False\<rparr>) ?x" by (rule says_trans [OF flush_says(1) flush_says(2)])
  then have x2: "turn_ok hc ?x" "requests ?x = requests t + 1" "tn_endCall ?x = tn_endCall t" "tn_live t = None \<Longrightarrow> tn_live ?x = None"
    using says_ok [OF flags_ok(2) [OF w(1)] x] quiet_requests [OF says_quiet [OF x]] says_view [OF x] w
    by (auto simp: tview_def requests_def says_def extends_def)
  have ee: "e = (if d then Cancelled w else if la_err ans then Break (w\<lparr>tn_err := True\<rparr>) else round_calls env k ans ?x)"
    using e by (simp only: Let_def c prod.case)
  from round_calls_ok [OF x2(1), of env k ans] x2 w assms(2) turn_ok_cancelled [OF w(1)] flags_ok(2) [OF w(1)]
  show ?thesis by (auto simp: ee requests_def)
qed

lemma turn_rounds_ok:
  assumes "turn_ok hc t" "\<not> tn_endCall t" "turn_rounds env n t = Some e"
  shows "round_ok hc env e \<and> requests (end_turn e) \<le> requests t + n \<and> (tn_live t = None \<longrightarrow> alive e) \<and> (n > 0 \<longrightarrow> (\<forall>u. e = Again u \<longrightarrow> False))"
  using assms
proof (induction n arbitrary: t)
  case (Suc n)
  then obtain e1 where e1: "turn_round env (maxToolRounds - Suc n) t = Some e1" by (auto split: option.splits)
  note r = turn_round_ok [OF Suc.prems(1,2) e1]
  show ?case
  proof (cases e1)
    case (Again u)
    with Suc.prems(3) e1 have "turn_rounds env n u = Some e" by simp
    with Suc.IH [of u] r Again show ?thesis by (cases n) auto
  qed (use r e1 Suc.prems(3) in auto)
qed auto


section \<open>The whole turn\<close>

lemma turn_failed_quiet:
  "extends is_quiet t (turn_failed env t) \<and> tn_toolMsgs (turn_failed env t) = tn_toolMsgs t \<and> (tn_endCall t \<longrightarrow> tn_endCall (turn_failed env t))
   \<and> silent t (turn_failed env t) \<and> tn_err (turn_failed env t) = tn_err t"
proof -
  obtain line kind hang where f: "failure_line (te_failures env) (tn_failures t + 1) = (line, kind, hang)" by (metis prod_cases3)
  let ?u = "emit (TeFallback kind) (t\<lparr>tn_failures := tn_failures t + 1\<rparr>)"
  let ?w = "sendToTTS env (line_text line @ [32]) ?u"
  have "extends is_quiet t (t\<lparr>tn_failures := tn_failures t + 1\<rparr>)" by simp
  then have u: "extends is_quiet t ?u" by (rule emit_quiet) simp
  have s: "says ?u ?w" by (rule send_says)
  have w: "extends is_quiet t ?w" by (rule extends_trans [OF u says_quiet [OF s]])
  have sl: "silent t ?w" using says_acted [OF s] by (auto simp: silent_def emit_def)
  have v: "tn_toolMsgs ?w = tn_toolMsgs t" "tn_endCall ?w = tn_endCall t" "tn_err ?w = tn_err t" using says_view [OF s] by (auto simp: tview_def emit_def)
  have x: "extends is_quiet t (emit (TeEnding LLMDown) (?w\<lparr>tn_endCall := True\<rparr>))" using w by (intro emit_quiet) (auto simp: extends_def)
  have y: "silent t (emit (TeEnding LLMDown) (?w\<lparr>tn_endCall := True\<rparr>))" using sl by (auto simp: silent_def emit_def)
  show ?thesis using w x y v sl by (auto simp: turn_failed_def Let_def f emit_def)
qed

lemma turn_finish_shape:
  obtains u where "turn_finish env gen t = (if te_base env \<and> \<not> te_posted env then u
      else emit TeEndGeneration (emit (TePost (OpLLMDone gen (tn_err u) (tn_toolMsgs u) (tn_endCall u))) u))"
    "extends is_quiet t u" "silent t u" "tn_toolMsgs u = tn_toolMsgs t" "tn_endCall t \<or> nd_end (te_nodes env (tn_node u)) \<longrightarrow> tn_endCall u"
proof -
  obtain d w where c: "ctxErr t = (d, w)" by (cases "ctxErr t")
  define v where "v = (if tn_err t then (if \<not> d \<and> \<not> tn_spoke w then turn_failed env w else w) else t\<lparr>tn_failures := 0\<rparr>)"
  let ?u = "v\<lparr>tn_endCall := tn_endCall v \<or> nd_end (te_nodes env (tn_node v))\<rparr>"
  note s = ctxErr_says [OF c]
  have w: "extends is_quiet t w" "silent t w" "tn_toolMsgs w = tn_toolMsgs t" "tn_endCall w = tn_endCall t"
    using says_quiet [OF s] says_acted [OF s] says_view [OF s] by (auto simp: tview_def)
  have v: "extends is_quiet t v" "silent t v" "tn_toolMsgs v = tn_toolMsgs t" "tn_endCall t \<longrightarrow> tn_endCall v"
    unfolding v_def using w turn_failed_quiet [of w env] extends_trans [OF w(1)] silent_trans [OF w(2)] by (auto simp: silent_def)
  show thesis
  proof (rule that [of ?u])
    show "turn_finish env gen t = (if te_base env \<and> \<not> te_posted env then ?u
      else emit TeEndGeneration (emit (TePost (OpLLMDone gen (tn_err ?u) (tn_toolMsgs ?u) (tn_endCall ?u))) ?u))"
      by (simp only: turn_finish_def Let_def c prod.case v_def)
    show "extends is_quiet t ?u" "silent t ?u" "tn_toolMsgs ?u = tn_toolMsgs t" using v by (simp_all add: extends_def silent_def)
    show "tn_endCall t \<or> nd_end (te_nodes env (tn_node ?u)) \<longrightarrow> tn_endCall ?u" using v(4) by simp
  qed
qed

lemma start_ok: "turn_ok (conforms history) (start_turn n history live failures) \<and> \<not> tn_endCall (start_turn n history live failures)"
  by (simp add: turn_ok_def start_turn_def)

lemma run_cases:
  assumes "runLLMTurn env n history gen live failures = Some t"
  obtains (cut) "cancelled_ok (conforms history) env t" "requests t \<le> maxToolRounds" "live \<noteq> None"
    | (over) t0 where "turn_ok (conforms history) t0" "requests t0 \<le> maxToolRounds" "t = turn_finish env gen t0"
proof -
  let ?s = "start_turn n history live failures"
  obtain e where e: "turn_rounds env maxToolRounds ?s = Some e" using assms by (auto simp: runLLMTurn_def split: option.splits)
  have "requests ?s = 0" "tn_live ?s = live" by (simp_all add: requests_def start_turn_def)
  with turn_rounds_ok [OF conjunct1 [OF start_ok] conjunct2 [OF start_ok] e]
  have r: "round_ok (conforms history) env e" "requests (end_turn e) \<le> maxToolRounds" "live = None \<Longrightarrow> alive e" by simp_all
  show thesis
  proof (cases e)
    case (Cancelled u)
    then have "t = u" using assms e by (simp add: runLLMTurn_def)
    with Cancelled r cut show thesis by auto
  next
    case (Break u)
    then have "t = turn_finish env gen u" using assms e by (simp add: runLLMTurn_def)
    with Break r over show thesis by auto
  next
    case (Again u)
    then have "t = turn_finish env gen u" using assms e by (simp add: runLLMTurn_def)
    with Again r over show thesis by auto
  qed
qed

lemma finish_facts:
  assumes "turn_ok hc t0"
  obtains u where "turn_finish env gen t0 = (if te_base env \<and> \<not> te_posted env then u
      else emit TeEndGeneration (emit (TePost (OpLLMDone gen (tn_err u) (tn_toolMsgs u) (tn_endCall u))) u))"
    "requests u = requests t0" "\<forall>e \<in> set (tn_effects u). \<not> is_post e \<and> request_ok hc e" "conforms (tn_toolMsgs u)"
    "TeWrite TurnClosing \<in> set (tn_effects u) \<or> nd_end (te_nodes env (tn_node u)) \<longrightarrow> tn_endCall u"
proof -
  obtain u where u: "turn_finish env gen t0 = (if te_base env \<and> \<not> te_posted env then u
      else emit TeEndGeneration (emit (TePost (OpLLMDone gen (tn_err u) (tn_toolMsgs u) (tn_endCall u))) u))"
    "extends is_quiet t0 u" "silent t0 u" "tn_toolMsgs u = tn_toolMsgs t0" "tn_endCall t0 \<or> nd_end (te_nodes env (tn_node u)) \<longrightarrow> tn_endCall u"
    by (rule turn_finish_shape)
  show thesis
  proof (rule that [OF u(1) quiet_requests [OF u(2)]])
    show "\<forall>e \<in> set (tn_effects u). \<not> is_post e \<and> request_ok hc e"
      using assms u(2) quiet_facts by (fastforce simp: turn_ok_def extends_def list_all_iff)
  qed (use assms u(3-5) in \<open>auto simp: turn_ok_def silent_def\<close>)
qed




text \<open>What a turn sends is a conversation the provider accepts when the history it starts from is one, and so is
  what it leaves for the history.\<close>

lemma requests_conform':
  assumes "runLLMTurn env n history gen live failures = Some t" and "conforms history"
  shows "(\<forall>ms tools. TeRequest ms tools \<in> set (tn_effects t) \<longrightarrow> conforms ms \<and> (tools = [] \<longrightarrow> list_all plain ms))
    \<and> (\<forall>g failed ms e. TePost (OpLLMDone g failed ms e) \<in> set (tn_effects t) \<longrightarrow> conforms ms)"
  using assms(1)
proof (cases rule: run_cases)
  case cut
  then show ?thesis using assms(2) by (fastforce simp: cancelled_ok_def list_all_iff request_ok_def)
next
  case (over t0)
  from over(1) obtain u where u: "turn_finish env gen t0 = (if te_base env \<and> \<not> te_posted env then u
      else emit TeEndGeneration (emit (TePost (OpLLMDone gen (tn_err u) (tn_toolMsgs u) (tn_endCall u))) u))"
    "\<forall>e \<in> set (tn_effects u). \<not> is_post e \<and> request_ok (conforms history) e" "conforms (tn_toolMsgs u)" by (rule finish_facts)
  have ro: "conforms ms \<and> (tools = [] \<longrightarrow> list_all plain ms)" if "TeRequest ms tools \<in> set (tn_effects u)" for ms tools
    using u(2) that assms(2) by (force simp: request_ok_def)
  have "TePost op \<notin> set (tn_effects u)" for op using u(2) by force
  with ro u(3) show ?thesis unfolding over(3) u(1) by (auto simp: emit_def)
qed

text \<open>A caller who was told goodbye is not left on the line: when a tool that ends the call ran, which mutes the
  caller, the turn posts the end of the call, cancelled or not, unless the call is over already.\<close>

theorem goodbye_ends_call:
  assumes "runLLMTurn env n history gen live failures = Some t" and "TeWrite TurnClosing \<in> set (tn_effects t)" and "\<not> te_base env"
  shows "TePost OpEndCallTool \<in> set (tn_effects t) \<or> (\<exists>failed ms. TePost (OpLLMDone gen failed ms True) \<in> set (tn_effects t))"
  using assms(1)
proof (cases rule: run_cases)
  case cut
  then show ?thesis using assms(2,3) by (simp add: cancelled_ok_def)
next
  case (over t0)
  from over(1) obtain u where "turn_finish env gen t0 = (if te_base env \<and> \<not> te_posted env then u
      else emit TeEndGeneration (emit (TePost (OpLLMDone gen (tn_err u) (tn_toolMsgs u) (tn_endCall u))) u))"
    "TeWrite TurnClosing \<in> set (tn_effects u) \<or> nd_end (te_nodes env (tn_node u)) \<longrightarrow> tn_endCall u" by (rule finish_facts)
  then show ?thesis using over(3) assms(2,3) by (auto simp: emit_def)
qed


section \<open>A model that fails\<close>


section \<open>A turn that calls tools\<close>

definition demo_tool :: "string \<Rightarrow> tool_kind \<Rightarrow> tool" where
  "demo_tool name k = \<lparr>tl_name = name, tl_kind = k, tl_message = [], tl_messageClip = None, tl_hasRun = True, tl_destination = [], tl_timeout = 0\<rparr>"

definition demo_node :: node where
  "demo_node = \<lparr>nd_prompt = text_of ''p'', nd_greeting = [], nd_greetingClip = None, nd_clips = None, nd_end = False,
     nd_allowInterrupt = True, nd_extracts = False, nd_tools = [demo_tool ''look'' ToolFunction, demo_tool ''bye'' ToolEndCall], nd_edges = []\<rparr>"

definition demo_json :: json_lib where
  "demo_json = \<lparr>jl_object = (\<lambda>s. None), jl_value = (\<lambda>s. s), jl_members = concat \<circ> map snd, jl_strings = concat \<circ> map snd\<rparr>"

text \<open>A model that looks something up, says a word and ends the call; or that always fails.\<close>

definition demo_env :: "bool \<Rightarrow> turn_env" where
  "demo_env fails = \<lparr>te_nodes = (\<lambda>n. demo_node), te_unicode = ascii, te_json = demo_json, te_quote = text_of,
     te_llm = (\<lambda>k ms tools. if fails then \<lparr>la_tokens = [], la_calls = [], la_err = True\<rparr>
        else if k = 0 then \<lparr>la_tokens = [], la_calls = [\<lparr>tc_id = ''a'', tc_name = ''look''\<rparr>], la_err = False\<rparr>
        else \<lparr>la_tokens = [text_of ''Bye.''], la_calls = [\<lparr>tc_id = ''b'', tc_name = ''bye''\<rparr>], la_err = False\<rparr>),
     te_run = (\<lambda>k c. Inr (text_of ''1'')), te_transfer = None, te_ttsOK = (\<lambda>k. True),
     te_failures = \<lparr>lf_MaxFailedTurns = 3, lf_Apology = [], lf_hindi = False\<rparr>, te_hold = [], te_beep = [], te_base = False, te_posted = True\<rparr>"

lemmas turn_eval = runLLMTurn_def turn_round_def round_calls_def flush_chunker_def flush_router_def feed_chunker_def do_call_def edge_or_tool_def
  runTool_def run_kind_def say_first_def sendToTTS_def ctxErr_def emit_def turn_finish_def start_turn_def maxToolRounds_def
  requestMessages_def toolDefs_def Feed_def feed_loop.simps nextCut_def Flush_def hasLetterOrDigit_def route_def chunkerRuneThreshold_def
  sentenceDelimiters_def ascii_def text_of_def demo_tool_def demo_node_def demo_json_def demo_env_def Let_def

lemma demo_turn:
  "\<exists>t. runLLMTurn (demo_env False) 0 [UserMsg [97]] 7 None 0 = Some t \<and> requests t = 2 \<and> TeWrite TurnClosing \<in> set (tn_effects t)
     \<and> TeSpeak (text_of ''Bye.'') \<in> set (tn_effects t)"
  by (simp add: turn_eval requests_def eval_nat_numeral)

lemma demo_opening: "\<exists>t. runLLMTurn (demo_env False) 0 [] 7 None 0 = Some t \<and> requests t = 2"
  by (simp add: turn_eval requests_def eval_nat_numeral)


theorem goodbye_ends_call_witness:
  "\<exists>t. runLLMTurn (demo_env False) 0 [UserMsg [97]] 7 None 0 = Some t
     \<and> (TePost OpEndCallTool \<in> set (tn_effects t) \<or> (\<exists>failed ms. TePost (OpLLMDone 7 failed ms True) \<in> set (tn_effects t)))"
proof -
  obtain t where t: "runLLMTurn (demo_env False) 0 [UserMsg [97]] 7 None 0 = Some t" "TeWrite TurnClosing \<in> set (tn_effects t)" using demo_turn by blast
  have "\<not> te_base (demo_env False)" by (simp add: demo_env_def)
  from goodbye_ends_call [OF t this] t(1) show ?thesis by blast
qed



text \<open>An interruption after the tools of a turn ran: what they returned is posted nowhere.\<close>

lemma interrupted_tools_forgotten:
  "\<exists>t res. runLLMTurn (demo_env False) 0 [UserMsg [97]] 7 (Some 2) 0 = Some t \<and> tn_toolMsgs t \<noteq> []
     \<and> TeEnded ''look'' ''a'' res \<in> set (tn_effects t) \<and> (\<forall>e \<in> set (tn_effects t). \<not> is_post e)"
  by (simp add: turn_eval eval_nat_numeral)

end
