(* ===== verification/Turn_Talk.thy ===== *)
theory Turn_Talk
  imports Llm_Claims Turn_Claims
begin

text \<open>
  The agent's history over its whole life: each operation keeps it, and the tool messages of the turn,
  a conversation the provider accepts, and starts the model only on such; and the composition with the
  turns that are started (\<open>talk\<close>).
\<close>

section \<open>What each operation keeps\<close>

definition started_ok :: "effect list \<Rightarrow> bool" where
  "started_ok ev \<longleftrightarrow> (\<forall>g ms. EfStartLLM g ms \<in> set ev \<longrightarrow> conforms ms)"

type_synonym conv = "message list \<times> message list"

definition conv :: "handler \<Rightarrow> conv" where
  "conv h = (h_history h, h_turnToolMsgs h)"

fun keeps :: "conv \<Rightarrow> effect list \<Rightarrow> conv \<Rightarrow> bool" where
  "keeps (a, b) ev (a', b') = (conforms a \<and> conforms b \<longrightarrow> conforms a' \<and> conforms b' \<and> started_ok ev)"

lemma conv_upd [simp]:
  "conv (h_state_update f1 h) = conv h"
  "conv (h_speakingSince_update f2 h) = conv h"
  "conv (h_silenceUntil_update f3 h) = conv h"
  "conv (h_ttsDeliveryDone_update f4 h) = conv h"
  "conv (h_playingReq_update f5 h) = conv h"
  "conv (h_playingSince_update f6 h) = conv h"
  "conv (h_held_update f7 h) = conv h"
  "conv (h_toolRunning_update f8 h) = conv h"
  "conv (h_hold_update f9 h) = conv h"
  "conv (h_paused_update f10 h) = conv h"
  "conv (h_sttUttStart_update f11 h) = conv h"
  "conv (h_replayPending_update f12 h) = conv h"
  "conv (h_replayGen_update f13 h) = conv h"
  "conv (h_closing_update f14 h) = conv h"
  "conv (h_node_update f15 h) = conv h"
  "conv (h_bargeInSig_update f16 h) = conv h"
  "conv (h_playbackDoneSig_update f17 h) = conv h"
  "conv (h_drainTimeoutSig_update f18 h) = conv h"
  "conv (h_tts_update f19 h) = conv h"
  "conv (h_ttsConn_update f20 h) = conv h"
  "conv (h_turnRunning_update f21 h) = conv h"
  "conv (h_ttsBuf_update f22 h) = conv h"
  "conv (h_curGen_update f23 h) = conv h"
  "conv (h_firstAudioGen_update f24 h) = conv h"
  "conv (h_turnChunks_update f25 h) = conv h"
  "conv (h_hangupAfterTurn_update f26 h) = conv h"
  "conv (h_turn_update f27 h) = conv h"
  "conv (h_idleTimer_update f28 h) = conv h"
  "conv (h_idleSeq_update f29 h) = conv h"
  "conv (h_idleArmed_update f30 h) = conv h"
  "conv (h_idleCount_update f31 h) = conv h"
  "conv (h_ending_update f32 h) = conv h"
  "conv (h_endReason_update f33 h) = conv h"
  "conv (h_hungUp_update f34 h) = conv h"
  "conv (h_pausedAt_update f35 h) = conv h"
  "conv (h_resumeSeq_update f36 h) = conv h"
  "conv (h_callerSpeaking_update f37 h) = conv h"
  "conv (h_prevSpeechEndAt_update f38 h) = conv h"
  "conv (h_agentQuietSince_update f39 h) = conv h"
  "conv (h_speechRunStart_update f40 h) = conv h"
  "conv (h_sentGen_update f41 h) = conv h"
  "conv (h_sentReq_update f42 h) = conv h"
  "conv (h_sentFrames_update f43 h) = conv h"
  "conv (h_replaying_update f44 h) = conv h"
  "conv (h_replayIdx_update f45 h) = conv h"
  "conv (h_emptyTicks_update f46 h) = conv h"
  "conv (h_outbound_update f47 h) = conv h"
  by (simp_all add: conv_def)

named_theorems keep_intros \<open>each operation keeps the conversation\<close>

lemma started_simps [simp]: "started_ok []" "started_ok (a @ b) = (started_ok a \<and> started_ok b)"
  "started_ok (e # ev) = ((\<forall>g ms. e = EfStartLLM g ms \<longrightarrow> conforms ms) \<and> started_ok ev)"
  by (auto simp: started_ok_def)

lemma started_map [simp]: "started_ok (map EfDropped xs)" "started_ok (map (\<lambda>c. EfSpeak c g) cs)"
  by (auto simp: started_ok_def)

lemma keeps_refl [simp]: "keeps c [] c"
  by (cases c) simp

lemma keeps_quiet: "started_ok a \<Longrightarrow> keeps c (a @ ev) c' = keeps c ev c'"
  by (cases c; cases c') simp

lemma keeps_cons [simp]: "(\<And>g ms. e \<noteq> EfStartLLM g ms) \<Longrightarrow> keeps c (e # ev) c' = keeps c ev c'"
  using keeps_quiet [of "[e]"] by simp

lemma keeps_map [simp]:
  "keeps c (map EfDropped xs @ ev) c' = keeps c ev c'"
  "keeps c (map (\<lambda>c. EfSpeak c g) cs @ ev) c' = keeps c ev c'"
  "keeps c (map EfDropped xs) c' = keeps c [] c'"
  by (simp_all add: keeps_quiet) (cases c; cases c', simp)

lemma keeps_quiet0 [intro]: "started_ok a \<Longrightarrow> keeps c a c"
  by (cases c) simp

lemma keeps_append: "keeps c ev c1 \<Longrightarrow> keeps c1 ev' c2 \<Longrightarrow> keeps c (ev @ ev') c2"
  by (cases c; cases c1; cases c2) auto

lemma conv_stopIdle [simp]: "conv (stopIdleTimer h) = conv h" "conv (startTurnChunks h) = (h_history h, [])"
  by (simp_all add: stopIdleTimer_def startTurnChunks_def conv_def)

lemma keeps_hangup [keep_intros]: "c = conv h \<Longrightarrow> keeps c (snd (hangup cfg h)) (conv (fst (hangup cfg h)))"
  by (auto simp: hangup_def)

lemma keeps_startIdle [keep_intros]:
  "c = conv h \<Longrightarrow> keeps c (snd (startIdleTimer cfg h)) (conv (fst (startIdleTimer cfg h)))"
  by (simp add: startIdleTimer_def Let_def)

lemma keeps_endCall [keep_intros]:
  "c = conv h \<Longrightarrow> keeps c (snd (endCall cfg r h)) (conv (fst (endCall cfg r h)))"
  by (auto simp: endCall_def hangup_def Let_def split: agent_state.split)

lemma keeps_startTurn [keep_intros]:
  "c = conv h \<Longrightarrow> keeps c (snd (startTurn ok h)) (conv (fst (startTurn ok h)))"
  by (simp add: startTurn_def openTTS_def Let_def) (simp add: conv_def startTurnChunks_def stopIdleTimer_def)

lemma keeps_accept [keep_intros]:
  "c = conv h \<Longrightarrow> keeps c (snd (acceptUserTurn ok t s h)) (conv (fst (acceptUserTurn ok t s h)))"
proof -
  assume c: "c = conv h"
  have "keeps (conv h) (snd (startTurn ok k)) (conv (fst (startTurn ok k)))" if "keeps (conv h) [] (conv k)" for k
    using keeps_append [OF that keeps_startTurn [OF refl, of k ok]] by simp
  then show ?thesis unfolding c by (auto simp: acceptUserTurn_def Let_def split_beta) (auto simp: conv_def conforms_append)
qed

lemma recordReply_started [simp]: "started_ok (snd (recordReply cfg b h))"
  by (simp add: recordReply_def Let_def)

lemma recordReply_conforms: "conforms (h_history h) \<Longrightarrow> conforms (h_turnToolMsgs h) \<Longrightarrow>
    conforms (h_history (fst (recordReply cfg b h))) \<and> h_turnToolMsgs (fst (recordReply cfg b h)) = []"
  by (simp add: recordReply_def Let_def conforms_append)

lemma keeps_recordReply [keep_intros]:
  "c = conv h \<Longrightarrow> keeps c (snd (recordReply cfg b h)) (conv (fst (recordReply cfg b h)))"
  using recordReply_conforms [of h cfg b] by (auto simp: conv_def)

lemma keeps_cancelTurn [keep_intros]:
  "c = conv h \<Longrightarrow> keeps c (snd (cancelTurn h)) (conv (fst (cancelTurn h)))"
  by (simp add: cancelTurn_def)

lemma keeps_holdSpeech [keep_intros]:
  "c = conv h \<Longrightarrow> keeps c (snd (holdSpeech now t h)) (conv (fst (holdSpeech now t h)))"
  by (simp add: holdSpeech_def Let_def)

lemma keeps_resumeReply [keep_intros]:
  "c = conv h \<Longrightarrow> keeps c (snd (resumeReply b h)) (conv (fst (resumeReply b h)))"
  by (simp add: resumeReply_def)

lemma keeps_settleHeld [keep_intros]:
  "c = conv h \<Longrightarrow> keeps c (snd (snd (settleHeld cfg ok gen h))) (conv (fst (settleHeld cfg ok gen h)))"
  by (auto simp: settleHeld_def Let_def split_beta split: list.split intro: keep_intros)

lemma keeps_finishTurn [keep_intros]:
  "c = conv h \<Longrightarrow> keeps c (snd (finishTurn cfg now ok gen h)) (conv (fst (finishTurn cfg now ok gen h)))"
  by (auto simp: finishTurn_def dropHeld_def Let_def split_beta intro!: keeps_append keep_intros)

lemma keeps_drainTimeout [keep_intros]:
  "c = conv h \<Longrightarrow> keeps c (snd (handleDrainTimeout cfg now h)) (conv (fst (handleDrainTimeout cfg now h)))"
  by (auto simp: handleDrainTimeout_def Let_def split_beta intro!: keeps_append keep_intros)

lemma cancelTurn_started [simp]: "started_ok (snd (cancelTurn h))" "conv (fst (cancelTurn h)) = conv h"
  by (simp_all add: cancelTurn_def)

lemma keeps_cutReply: "c = conv h \<Longrightarrow> keeps c (snd (cutReply cfg now h)) (conv (fst (cutReply cfg now h)))"
  by (auto simp: cutReply_def Let_def split_beta intro!: keeps_append keep_intros)

lemma keeps_confirm [keep_intros]:
  "c = conv h \<Longrightarrow> keeps c (snd (confirmInterruption cfg now h)) (conv (fst (confirmInterruption cfg now h)))"
  by (auto simp: confirmInterruption_def dropHeld_def Let_def split_beta intro!: keeps_append keeps_cutReply)

lemma keeps_transcript_turn [keep_intros]:
  "c = conv h \<Longrightarrow> keeps c (snd (transcript_turn cfg now ok t h)) (conv (fst (transcript_turn cfg now ok t h)))"
  by (auto simp: transcript_turn_def intro: keep_intros)

lemma keeps_transcript [keep_intros]:
  "c = conv h \<Longrightarrow>
   keeps c (snd (handleFinalTranscript cfg now ok t h)) (conv (fst (handleFinalTranscript cfg now ok t h)))"
  by (auto simp: handleFinalTranscript_def Let_def split_beta intro!: keeps_append keep_intros)

lemma keeps_resumeCheck [keep_intros]:
  "c = conv h \<Longrightarrow>
   keeps c (snd (handleResumeCheck cfg now l seq h)) (conv (fst (handleResumeCheck cfg now l seq h)))"
  by (auto simp: handleResumeCheck_def scheduleResumeCheck_def Let_def intro: keep_intros)

lemma keeps_callerSpeech [keep_intros]:
  "c = conv h \<Longrightarrow> keeps c (snd (handleCallerSpeech cfg now b h)) (conv (fst (handleCallerSpeech cfg now b h)))"
  by (auto simp: handleCallerSpeech_def Let_def intro: keep_intros)

lemma keeps_idle [keep_intros]:
  "c = conv h \<Longrightarrow> keeps c (snd (handleIdle ok seq h)) (conv (fst (handleIdle ok seq h)))"
proof -
  assume c: "c = conv h"
  have g: "keeps (conv h) (snd (startTurn ok k)) (conv (fst (startTurn ok k)))"
    if "keeps (conv h) [] (conv k)" for k
    using keeps_append [OF that keeps_startTurn [OF refl, of k ok]] by simp
  show ?thesis
    unfolding c by (auto simp: handleIdle_def Let_def intro!: g) (auto simp: conv_def conforms_append)
qed

lemma keeps_greeting [keep_intros]:
  "c = conv h \<Longrightarrow> keeps c (snd (handleGreeting cfg ok h)) (conv (fst (handleGreeting cfg ok h)))"
  by (auto simp: handleGreeting_def openTTS_def Let_def split_beta split: option.split)
    (auto simp: conv_def startTurnChunks_def)

lemma slice_frames_started [simp]: "started_ok (snd (snd (slice_frames g r b q)))"
proof (induction g r b q rule: slice_frames.induct)
  case (1 g r b q)
  obtain q' ok where t: "try_send outboundBufferFrames \<lparr>of_pcm = take FrameSize b, of_req = r, of_gen = g\<rparr> q = (q', ok)"
    by (rule prod.exhaust)
  with 1 [OF _ t [symmetric]] show ?case by (subst slice_frames.simps) (auto simp: Let_def split_beta)
qed

lemma keeps_llmDone [keep_intros]:
  "c = conv h \<Longrightarrow> conforms m \<Longrightarrow> keeps c (snd (handleLLMDone g f m e h)) (conv (fst (handleLLMDone g f m e h)))"
  by (auto simp: handleLLMDone_def Let_def) (simp add: conv_def)

lemma keeps_ttsAudio [keep_intros]:
  "c = conv h \<Longrightarrow> keeps c (snd (handleTTSAudio now p g r t h)) (conv (fst (handleTTSAudio now p g r t h)))"
  by (auto simp: handleTTSAudio_def Let_def split_beta intro!: keeps_quiet0)

lemma keeps_ttsDone [keep_intros]:
  "c = conv h \<Longrightarrow> keeps c (snd (handleTTSDone cfg now ok g h)) (conv (fst (handleTTSDone cfg now ok g h)))"
  by (auto simp: handleTTSDone_def split: agent_state.split intro: keep_intros)

lemma keeps_ttsClosed [keep_intros]:
  "c = conv h \<Longrightarrow> keeps c (snd (handleTTSClosed cfg now ok g h)) (conv (fst (handleTTSClosed cfg now ok g h)))"
  by (auto simp: handleTTSClosed_def Let_def split_beta keeps_quiet split: agent_state.split intro!: keep_intros)

lemma keeps_bargeIn [keep_intros]:
  "c = conv h \<Longrightarrow> keeps c (snd (handleBargeIn now h)) (conv (fst (handleBargeIn now h)))"
  by (auto simp: handleBargeIn_def scheduleResumeCheck_def Let_def)

lemma keeps_play: "c = conv h \<Longrightarrow> keeps c (snd (snd (play_frame now h))) (conv (fst (play_frame now h)))"
  by (auto simp: play_frame_def pop_frame_def Let_def split: list.split)

lemma keeps_speaking:
  "c = conv h \<Longrightarrow>
   keeps c (snd (snd (processSpeakingFrame cfg now d h))) (conv (fst (processSpeakingFrame cfg now d h)))"
  by (auto simp: processSpeakingFrame_def Let_def interruptible_def intro!: keeps_play)

lemma keeps_ProcessFrame [keep_intros]:
  "c = conv h \<Longrightarrow>
   keeps c (snd (snd (agent_ProcessFrame cfg now d h))) (conv (fst (agent_ProcessFrame cfg now d h)))"
  by (auto simp: agent_ProcessFrame_def processHoldFrame_def Let_def split_beta
      split: option.split list.split intro!: keeps_speaking)



definition reports_ok :: "agent_op \<Rightarrow> bool" where
  "reports_ok op \<longleftrightarrow> (\<forall>g f ms e. op = OpLLMDone g f ms e \<longrightarrow> conforms ms)"

lemma agent_step_keeps:
  "reports_ok op \<Longrightarrow> keeps (conv h) (snd (snd (agent_step cfg op h))) (conv (fst (agent_step cfg op h)))"
  by (cases op) (auto simp: reports_ok_def intro: keep_intros)

section \<open>A call's turns\<close>

text \<open>A call with the turns it starts: the agent's steps, except the outcome of a turn; and the turns, each begun
  with a history the agent started the model on. \<open>S\<close>: those histories; \<open>R\<close>: the requests sent so far. Whether
  the outcome arrives, and when, is left open.\<close>

inductive talk :: "config \<Rightarrow> handler \<Rightarrow> message list set \<Rightarrow> message list set \<Rightarrow> agent_op set \<Rightarrow> bool" for cfg where
  talk_new: "talk cfg (NewHandler cfg) {} {} {}"
| talk_step: "talk cfg h S R P \<Longrightarrow> (\<forall>g f ms e. op \<noteq> OpLLMDone g f ms e) \<or> op \<in> P \<Longrightarrow> agent_step cfg op h = (h', frame, ev) \<Longrightarrow>
    talk cfg h' (S \<union> {ms. \<exists>g. EfStartLLM g ms \<in> set ev}) R P"
| talk_turn: "talk cfg h S R P \<Longrightarrow> ms \<in> S \<Longrightarrow> runLLMTurn env n ms gen live failures = Some t \<Longrightarrow>
    talk cfg h S (R \<union> {q. \<exists>tools. TeRequest q tools \<in> set (tn_effects t)}) (P \<union> {op. TePost op \<in> set (tn_effects t)})"

lemma talk_conforms:
  "talk cfg h S R P \<Longrightarrow> conforms (h_history h) \<and> conforms (h_turnToolMsgs h) \<and> (\<forall>ms \<in> S. conforms ms) \<and> (\<forall>q \<in> R. conforms q)
     \<and> (\<forall>op \<in> P. reports_ok op)"
proof (induction rule: talk.induct)
  case talk_new
  then show ?case by (simp add: NewHandler_def)
next
  case (talk_step h S R P op h' frame ev)
  have "reports_ok op" using talk_step.hyps(2) talk_step.IH by (auto simp: reports_ok_def)
  from agent_step_keeps [OF this, of h cfg] talk_step.IH have "conforms (h_history h') \<and> conforms (h_turnToolMsgs h') \<and> started_ok ev"
    unfolding talk_step.hyps(3) by (simp add: conv_def)
  with talk_step.IH show ?case by (auto simp: started_ok_def)
next
  case (talk_turn h S R P ms env n gen live failures t)
  then have "conforms ms" by blast
  from requests_conform' [OF talk_turn.hyps(3) this] talk_turn.IH show ?case by (auto simp: reports_ok_def) blast
qed

text \<open>C5: over a whole call, whatever the caller, the model, the tools and the synthesis do, however turns are
  interrupted and whichever of their outcomes arrive late or never: every request sent to the model is a
  conversation the provider accepts, each tool call answered right after it, once and in order, and so is the
  history the call leaves.\<close>

theorem call_conforms:
  assumes "talk cfg h S R P"
  shows "conforms (h_history h) \<and> (\<forall>q \<in> R. conforms q)"
  using talk_conforms [OF assms] by blast

theorem call_conforms_witness:
  "\<exists>h S R P q. talk one_config h S R P \<and> q \<in> R \<and> conforms q \<and> conforms (h_history h)"
proof -
  obtain h frame ev where s: "agent_step one_config (OpOpening True) (NewHandler one_config) = (h, frame, ev)" by (metis prod_cases3)
  then have e: "EfStartLLM 1 [] \<in> set ev"
    by (auto simp: startTurn_def openTTS_def startTurnChunks_def stopIdleTimer_def NewHandler_def Let_def)
  obtain t where t: "runLLMTurn (demo_env False) 0 [] 7 None 0 = Some t" "requests t \<noteq> 0" using demo_opening by auto
  then obtain q tools where q: "TeRequest q tools \<in> set (tn_effects t)"
    by (auto simp: requests_def filter_empty_conv elim: is_request.elims)
  have "talk one_config h ({} \<union> {ms. \<exists>g. EfStartLLM g ms \<in> set ev}) {} {}" by (rule talk_step [OF talk_new _ s]) simp
  from talk_turn [OF this _ t(1)] e
  have r: "talk one_config h ({} \<union> {ms. \<exists>g. EfStartLLM g ms \<in> set ev}) ({} \<union> {q. \<exists>tools. TeRequest q tools \<in> set (tn_effects t)})
      ({} \<union> {op. TePost op \<in> set (tn_effects t)})" by blast
  from call_conforms [OF r] r q show ?thesis by blast
qed

end
