(* ===== verification/Limiter.thy ===== *)
theory Limiter
  imports Vaani_Prelude Complex_Main
begin

text \<open>
  \<open>internal/campaign/limiter.go\<close>: the counting in Redis that keeps outbound calls under the rate and
  concurrency limits, and the circuit breaker. The Lua scripts run atomically. Redis itself is a
  record of sorted-set commands (\<open>redis\<close>) whose documented laws are the locale \<open>redis_zsets\<close>; what
  the dialer relies on is the locale \<open>slot_pool\<close>, which follows from those laws. Scores are
  nanoseconds (the code rounds them to \<open>float64\<close> seconds).
\<close>

section \<open>Redis\<close>

text \<open>The keys are the strings \<open>rate_limit:<org>\<close>, \<open>concurrent_calls:<org>\<close>, \<open>vaani_capacity:calls\<close>,
  \<open>cb_failures:<campaign>\<close> and \<open>cb_successes:<campaign>\<close>.\<close>

datatype rkey = RateKey int | ConcurrentKey int | CapacityKey | FailKey int | SuccKey int

text \<open>A member of a sorted set: a time stamp or a slot id (milliseconds and four random bytes).\<close>

datatype member = Stamp int | SlotId int u32

record 'd redis =
  zremrangebyscore :: "rkey \<Rightarrow> int \<Rightarrow> int \<Rightarrow> 'd \<Rightarrow> 'd"
  zcard :: "rkey \<Rightarrow> 'd \<Rightarrow> nat"
  zadd :: "rkey \<Rightarrow> int \<Rightarrow> member \<Rightarrow> 'd \<Rightarrow> 'd"
  zrem :: "rkey \<Rightarrow> member \<Rightarrow> 'd \<Rightarrow> 'd"
  zfirst :: "rkey \<Rightarrow> 'd \<Rightarrow> (member \<times> int) option"
  del :: "rkey \<Rightarrow> 'd \<Rightarrow> 'd"
  expire :: "rkey \<Rightarrow> int \<Rightarrow> 'd \<Rightarrow> 'd"

text \<open>A request: answered, executed with the answer lost, or never executed.\<close>

datatype io = Answered | AnswerLost | NotExecuted

definition remote_call :: "io \<Rightarrow> ('d \<Rightarrow> 'd \<times> 'a) \<Rightarrow> 'd \<Rightarrow> 'd \<times> 'a option" where
  "remote_call io f d = (case io of
      Answered \<Rightarrow> (fst (f d), Some (snd (f d)))
    | AnswerLost \<Rightarrow> (fst (f d), None)
    | NotExecuted \<Rightarrow> (d, None))"

section \<open>The scripts\<close>

definition rateScript :: "'d redis \<Rightarrow> rkey \<Rightarrow> int \<Rightarrow> int \<Rightarrow> int \<Rightarrow> 'd \<Rightarrow> 'd \<times> bool" where
  "rateScript r key now window_start max_requests d =
     (let d = zremrangebyscore r key 0 window_start d;
          current_requests = zcard r key d
      in if int current_requests < max_requests
         then (expire r key 2 (zadd r key now (Stamp now) d), True) else (d, False))"

definition slotScript :: "'d redis \<Rightarrow> rkey \<Rightarrow> int \<Rightarrow> int \<Rightarrow> int \<Rightarrow> member \<Rightarrow> 'd \<Rightarrow> 'd \<times> bool" where
  "slotScript r key now max_concurrent stale_cutoff slot_id d =
     (let d = zremrangebyscore r key 0 stale_cutoff d;
          current_count = zcard r key d
      in if int current_count < max_concurrent
         then (expire r key 3600 (zadd r key now slot_id d), True) else (d, False))"

text \<open>\<open>failures / total >= threshold\<close> in Lua: \<open>0 / 0\<close> is not a number and compares false.\<close>

definition trips :: "nat \<Rightarrow> nat \<Rightarrow> rat \<Rightarrow> int \<Rightarrow> bool" where
  "trips failures successes threshold min_calls =
     (let total = failures + successes
      in int total \<ge> min_calls \<and> total \<noteq> 0 \<and> of_nat failures / of_nat total \<ge> threshold)"

type_synonym breaker_reply = "bool \<times> nat \<times> nat"

definition breakerCheckScript :: "'d redis \<Rightarrow> rkey \<Rightarrow> rkey \<Rightarrow> int \<Rightarrow> rat \<Rightarrow> int \<Rightarrow> 'd \<Rightarrow> 'd \<times> breaker_reply" where
  "breakerCheckScript r fail_key succ_key window_start threshold min_calls d =
     (let d = zremrangebyscore r fail_key 0 window_start d;
          d = zremrangebyscore r succ_key 0 window_start d;
          failures = zcard r fail_key d; successes = zcard r succ_key d
      in (d, trips failures successes threshold min_calls, failures, successes))"

definition breakerScript :: "'d redis \<Rightarrow> rkey \<Rightarrow> rkey \<Rightarrow> int \<Rightarrow> int \<Rightarrow> bool \<Rightarrow> rat \<Rightarrow> int \<Rightarrow> int \<Rightarrow> 'd
    \<Rightarrow> 'd \<times> breaker_reply" where
  "breakerScript r fail_key succ_key now window_start is_failure threshold min_calls ttl d =
     (let d = zremrangebyscore r fail_key 0 window_start d;
          d = zremrangebyscore r succ_key 0 window_start d;
          d = zadd r (if is_failure then fail_key else succ_key) now (Stamp now) d;
          d = expire r succ_key ttl (expire r fail_key ttl d);
          failures = zcard r fail_key d; successes = zcard r succ_key d
      in (d, trips failures successes threshold min_calls, failures, successes))"

section \<open>Limiter\<close>

definition staleSlotAfter :: int where "staleSlotAfter = 20 * 60 * 1000000000"
definition second :: int where "second = 1000000000"

datatype limiter_error = RateLimitError | WaitError | SlotError rkey | ReleaseError | BreakerError

definition AcquireToken :: "'d redis \<Rightarrow> io \<Rightarrow> int \<Rightarrow> int \<Rightarrow> int \<Rightarrow> 'd \<Rightarrow> 'd \<times> (limiter_error + bool)" where
  "AcquireToken r io now org perSecond d =
     (case remote_call io (rateScript r (RateKey org) now (now - second) perSecond) d of
        (d, None) \<Rightarrow> (d, Inl RateLimitError) | (d, Some ok) \<Rightarrow> (d, Inr ok))"

definition NextTokenWait :: "'d redis \<Rightarrow> io \<Rightarrow> int \<Rightarrow> int \<Rightarrow> 'd \<Rightarrow> int \<times> limiter_error option" where
  "NextTokenWait r io now org d =
     (if io \<noteq> Answered then (second, Some WaitError)
      else case zfirst r (RateKey org) d of
        None \<Rightarrow> (0, None)
      | Some (m, oldest) \<Rightarrow> (max 0 (oldest + second - now), None))"

record slot =
  sl_ID :: member
  sl_Org :: int

definition newSlotID :: "int \<Rightarrow> u32 \<Rightarrow> member" where
  "newSlotID now b = SlotId (now div 1000000) b"

definition takeSlot :: "'d redis \<Rightarrow> io \<Rightarrow> rkey \<Rightarrow> int \<Rightarrow> int \<Rightarrow> int \<Rightarrow> member \<Rightarrow> 'd \<Rightarrow> 'd \<times> (limiter_error + bool)" where
  "takeSlot r io key now limit cutoff i d =
     (case remote_call io (slotScript r key now limit cutoff i) d of
        (d, None) \<Rightarrow> (d, Inl (SlotError key)) | (d, Some ok) \<Rightarrow> (d, Inr ok))"

definition dropCapacity :: "'d redis \<Rightarrow> int \<Rightarrow> io \<Rightarrow> member \<Rightarrow> 'd \<Rightarrow> 'd" where
  "dropCapacity r maxCalls io i d =
     (if maxCalls > 0 then fst (remote_call io (\<lambda>d. (zrem r CapacityKey i d, ())) d) else d)"

text \<open>\<open>io\<close> are the fates of the three possible requests: Vaani's cap, the organization's slot, and
  giving the cap back.\<close>

definition AcquireSlot :: "'d redis \<Rightarrow> int \<Rightarrow> io \<times> io \<times> io \<Rightarrow> int \<Rightarrow> u32 \<Rightarrow> int \<Rightarrow> int \<Rightarrow> 'd
    \<Rightarrow> 'd \<times> (limiter_error + slot option)" where
  "AcquireSlot r maxCalls io now b org limit d =
     (let i = newSlotID now b; cutoff = now - staleSlotAfter;
          (io1, io2, io3) = io;
          (d, own) = (if maxCalls > 0 then takeSlot r io1 CapacityKey now maxCalls cutoff i d else (d, Inr True))
      in case own of
          Inl e \<Rightarrow> (d, Inl e)
        | Inr False \<Rightarrow> (d, Inr None)
        | Inr True \<Rightarrow>
          (case takeSlot r io2 (ConcurrentKey org) now limit cutoff i d of
             (d, Inl e) \<Rightarrow> (dropCapacity r maxCalls io3 i d, Inl e)
           | (d, Inr False) \<Rightarrow> (dropCapacity r maxCalls io3 i d, Inr None)
           | (d, Inr True) \<Rightarrow> (d, Inr (Some \<lparr>sl_ID = i, sl_Org = org\<rparr>))))"

definition ReleaseSlot :: "'d redis \<Rightarrow> int \<Rightarrow> io \<times> io \<Rightarrow> slot \<Rightarrow> 'd \<Rightarrow> 'd \<times> limiter_error option" where
  "ReleaseSlot r maxCalls io s d =
     (let d = dropCapacity r maxCalls (fst io) (sl_ID s) d;
          (d, ok) = remote_call (snd io) (\<lambda>d. (zrem r (ConcurrentKey (sl_Org s)) (sl_ID s) d, ())) d
      in (d, if ok = None then Some ReleaseError else None))"

definition ActiveSlots :: "'d redis \<Rightarrow> int \<Rightarrow> 'd \<Rightarrow> nat" where
  "ActiveSlots r org d = zcard r (ConcurrentKey org) d"

record breaker_config =
  br_Enabled :: bool
  br_Threshold :: rat
  br_Window :: int
  br_MinCalls :: int

type_synonym breaker_result = "limiter_error + breaker_reply"

definition breakerResult :: "'d \<times> breaker_reply option \<Rightarrow> 'd \<times> breaker_result" where
  "breakerResult p = (fst p, case snd p of None \<Rightarrow> Inl BreakerError | Some x \<Rightarrow> Inr x)"

definition RecordOutcome :: "'d redis \<Rightarrow> io \<Rightarrow> int \<Rightarrow> int \<Rightarrow> bool \<Rightarrow> breaker_config \<Rightarrow> 'd \<Rightarrow> 'd \<times> breaker_result" where
  "RecordOutcome r io now campaign failure cfg d =
     (if \<not> br_Enabled cfg then (d, Inr (False, 0, 0))
      else breakerResult (remote_call io (breakerScript r (FailKey campaign) (SuccKey campaign) now
             (now - br_Window cfg) failure (br_Threshold cfg) (br_MinCalls cfg) (br_Window cfg div second + 60)) d))"

definition BreakerOpen :: "'d redis \<Rightarrow> io \<Rightarrow> int \<Rightarrow> int \<Rightarrow> breaker_config \<Rightarrow> 'd \<Rightarrow> 'd \<times> breaker_result" where
  "BreakerOpen r io now campaign cfg d =
     (if \<not> br_Enabled cfg then (d, Inr (False, 0, 0))
      else breakerResult (remote_call io (breakerCheckScript r (FailKey campaign) (SuccKey campaign)
             (now - br_Window cfg) (br_Threshold cfg) (br_MinCalls cfg)) d))"

definition ResetBreaker :: "'d redis \<Rightarrow> io \<Rightarrow> int \<Rightarrow> 'd \<Rightarrow> 'd \<times> limiter_error option" where
  "ResetBreaker r io campaign d =
     (case remote_call io (\<lambda>d. (del r (SuccKey campaign) (del r (FailKey campaign) d), ())) d of
        (d, None) \<Rightarrow> (d, Some BreakerError) | (d, Some u) \<Rightarrow> (d, None))"

end
