(* ===== verification/Limiter_Laws.thy ===== *)
theory Limiter_Laws
  imports Limiter "HOL-Library.AList"
begin

text \<open>
  The documented laws of the Redis commands the limiter uses (\<open>redis_zsets\<close>), what the scripts then
  do to the sets, and the contract the dialer relies on (\<open>slot_pool\<close>), which the limiter keeps for
  any Redis with those laws. \<open>mem_redis\<close> is a concrete one.
\<close>

section \<open>Sorted sets\<close>

type_synonym zsets = "rkey \<Rightarrow> member \<rightharpoonup> int"

definition without_scores :: "int \<Rightarrow> int \<Rightarrow> (member \<rightharpoonup> int) \<Rightarrow> member \<rightharpoonup> int" where
  "without_scores lo hi z = (\<lambda>m. case z m of None \<Rightarrow> None | Some s \<Rightarrow> if lo \<le> s \<and> s \<le> hi then None else Some s)"

lemma without_scores_Some [simp]:
  "without_scores lo hi z m = Some s \<longleftrightarrow> z m = Some s \<and> \<not> (lo \<le> s \<and> s \<le> hi)"
  by (auto simp: without_scores_def split: option.split if_splits)

lemma dom_without_scores: "dom (without_scores lo hi z) \<subseteq> dom z"
  by (auto simp: dom_def)

locale redis_zsets =
  fixes r :: "'d redis" and zs :: "'d \<Rightarrow> zsets"
  assumes zs_finite: "finite (dom (zs d k))"
    and zs_card: "zcard r k d = card (dom (zs d k))"
    and zs_remrange: "zs (zremrangebyscore r k lo hi d) = (zs d)(k := without_scores lo hi (zs d k))"
    and zs_add: "zs (zadd r k s m d) = (zs d)(k := (zs d k)(m \<mapsto> s))"
    and zs_rem: "zs (zrem r k m d) = (zs d)(k := (zs d k)(m := None))"
    and zs_del: "zs (del r k d) = (zs d)(k := Map.empty)"
    and zs_expire: "0 < t \<Longrightarrow> zs (expire r k t d) = zs d"
    and zs_first_None: "zfirst r k d = None \<longleftrightarrow> zs d k = Map.empty"
    and zs_first_Some: "zfirst r k d = Some (m, s) \<Longrightarrow> zs d k m = Some s \<and> (\<forall>m' s'. zs d k m' = Some s' \<longrightarrow> s \<le> s')"
begin

text \<open>What a window script (rate or slots) does to its set, granted or not.\<close>

lemma slotScript_zs:
  assumes "slotScript r key now limit cutoff i d = (d', ok)"
  shows "ok = (int (card (dom (without_scores 0 cutoff (zs d key)))) < limit)
    \<and> zs d' = (zs d)(key := (if ok then (without_scores 0 cutoff (zs d key))(i \<mapsto> now)
                              else without_scores 0 cutoff (zs d key)))"
  using assms by (auto simp: slotScript_def Let_def zs_card zs_remrange zs_add zs_expire split: if_splits)

lemma rateScript_zs:
  assumes "rateScript r key now window limit d = (d', ok)"
  shows "ok = (int (card (dom (without_scores 0 window (zs d key)))) < limit)
    \<and> zs d' = (zs d)(key := (if ok then (without_scores 0 window (zs d key))(Stamp now \<mapsto> now)
                              else without_scores 0 window (zs d key)))"
  using assms by (auto simp: rateScript_def Let_def zs_card zs_remrange zs_add zs_expire split: if_splits)

lemma card_granted:
  assumes "int (card (dom (without_scores 0 cutoff (zs d key)))) < limit"
  shows "int (card (dom ((without_scores 0 cutoff (zs d key))(i \<mapsto> now)))) \<le> limit"
proof -
  have "finite (dom (without_scores 0 cutoff (zs d key)))"
    by (rule finite_subset [OF dom_without_scores zs_finite])
  then have "card (dom ((without_scores 0 cutoff (zs d key))(i \<mapsto> now)))
      \<le> Suc (card (dom (without_scores 0 cutoff (zs d key))))"
    by (simp add: card_insert_if)
  with assms show ?thesis by linarith
qed

end

section \<open>The contract with the dialer\<close>

text \<open>\<open>since d s\<close> is when slot \<open>s\<close> was taken, if it is counted. A refused or failed request may drop
  stale slots and leave a slot behind that nobody owns; it never drops a slot that is not stale.\<close>

locale slot_pool =
  fixes acquire :: "io \<times> io \<times> io \<Rightarrow> int \<Rightarrow> u32 \<Rightarrow> int \<Rightarrow> int \<Rightarrow> 'd \<Rightarrow> 'd \<times> (limiter_error + slot option)"
    and release :: "io \<times> io \<Rightarrow> slot \<Rightarrow> 'd \<Rightarrow> 'd \<times> limiter_error option"
    and since :: "'d \<Rightarrow> slot \<rightharpoonup> int"
  assumes since_finite: "finite {t \<in> dom (since d). sl_Org t = org}"
    and acquire_id: "acquire io now b org limit d = (d', Inr (Some s)) \<Longrightarrow> s = \<lparr>sl_ID = newSlotID now b, sl_Org = org\<rparr>"
    and acquire_counted: "acquire io now b org limit d = (d', Inr (Some s)) \<Longrightarrow> since d' s = Some now"
    and acquire_bound: "acquire io now b org limit d = (d', Inr (Some s)) \<Longrightarrow>
          int (card {t \<in> dom (since d'). sl_Org t = org}) \<le> limit"
    and acquire_keeps: "acquire io now b org limit d = (d', res) \<Longrightarrow> since d t = Some a \<Longrightarrow>
          now - staleSlotAfter < a \<Longrightarrow> sl_ID t \<noteq> newSlotID now b \<Longrightarrow> since d' t = Some a"
    and release_keeps: "release io2 s d = (d', e) \<Longrightarrow> sl_ID t \<noteq> sl_ID s \<Longrightarrow> since d' t = since d t"
    and release_frees: "release (io1, Answered) s d = (d', e) \<Longrightarrow> since d' s = None \<and> e = None"

text \<open>A history of acquires and releases, with the calls it leaves running and when each started.\<close>

datatype pool_op =
    Acquire "io \<times> io \<times> io" int u32 int int
  | Release "io \<times> io" slot

fun pool_run :: "(io \<times> io \<times> io \<Rightarrow> int \<Rightarrow> u32 \<Rightarrow> int \<Rightarrow> int \<Rightarrow> 'd \<Rightarrow> 'd \<times> (limiter_error + slot option))
    \<Rightarrow> (io \<times> io \<Rightarrow> slot \<Rightarrow> 'd \<Rightarrow> 'd \<times> limiter_error option)
    \<Rightarrow> pool_op list \<Rightarrow> 'd \<times> (slot \<times> int) list \<Rightarrow> 'd \<times> (slot \<times> int) list" where
  "pool_run acquire release [] st = st"
| "pool_run acquire release (Acquire io now b org limit # ops) (d, calls) =
     (let (d, res) = acquire io now b org limit d
      in pool_run acquire release ops (d, (case res of Inr (Some s) \<Rightarrow> [(s, now)] | _ \<Rightarrow> []) @ calls))"
| "pool_run acquire release (Release io s # ops) (d, calls) =
     pool_run acquire release ops (fst (release io s d), filter (\<lambda>(t, a). t \<noteq> s) calls)"

text \<open>A history that can happen: the clock does not run backwards, no slot id is drawn twice, and
  only slots that were acquired are released.\<close>

fun pool_ok :: "int \<Rightarrow> slot set \<Rightarrow> pool_op list \<Rightarrow> bool" where
  "pool_ok T slots [] = True"
| "pool_ok T slots (Acquire io now b org limit # ops) =
     (T \<le> now \<and> newSlotID now b \<notin> sl_ID ` slots
      \<and> pool_ok now (insert \<lparr>sl_ID = newSlotID now b, sl_Org = org\<rparr> slots) ops)"
| "pool_ok T slots (Release io s # ops) = (s \<in> slots \<and> pool_ok T slots ops)"

definition live_calls :: "int \<Rightarrow> int \<Rightarrow> (slot \<times> int) list \<Rightarrow> slot list" where
  "live_calls now org calls = map fst (filter (\<lambda>(t, a). sl_Org t = org \<and> now - staleSlotAfter < a) calls)"

context slot_pool
begin

text \<open>Every running call that is not stale is counted since it started.\<close>

definition counted :: "int \<Rightarrow> slot set \<Rightarrow> 'd \<times> (slot \<times> int) list \<Rightarrow> bool" where
  "counted T slots st \<longleftrightarrow> distinct (map fst (snd st)) \<and> inj_on sl_ID slots
     \<and> (\<forall>t a. (t, a) \<in> set (snd st) \<longrightarrow>
          a \<le> T \<and> t \<in> slots \<and> (T - staleSlotAfter < a \<longrightarrow> since (fst st) t = Some a))"

lemma counted_acquire:
  assumes inv: "counted T slots (d, calls)" and "T \<le> now" and fresh: "newSlotID now b \<notin> sl_ID ` slots"
    and acq: "acquire io now b org limit d = (d', res)"
  shows "counted now (insert \<lparr>sl_ID = newSlotID now b, sl_Org = org\<rparr> slots)
    (d', (case res of Inr (Some s) \<Rightarrow> [(s, now)] | _ \<Rightarrow> []) @ calls)"
proof -
  have inj: "inj_on sl_ID (insert \<lparr>sl_ID = newSlotID now b, sl_Org = org\<rparr> slots)"
    using inv fresh by (auto simp: counted_def)
  have old: "a \<le> now \<and> t \<in> slots \<and> (now - staleSlotAfter < a \<longrightarrow> since d' t = Some a)"
    if "(t, a) \<in> set calls" for t a
  proof -
    have t: "a \<le> T" "t \<in> slots" "T - staleSlotAfter < a \<longrightarrow> since d t = Some a"
      using inv that by (auto simp: counted_def)
    then have "since d' t = Some a" if "now - staleSlotAfter < a"
      using acquire_keeps [OF acq _ that, of t] that \<open>T \<le> now\<close> fresh by (auto simp: image_iff)
    with t \<open>T \<le> now\<close> show ?thesis by auto
  qed
  show ?thesis
  proof (cases "\<exists>s. res = Inr (Some s)")
    case True
    then obtain s where s: "res = Inr (Some s)" by blast
    note a = acq [unfolded s]
    have new: "s = \<lparr>sl_ID = newSlotID now b, sl_Org = org\<rparr>" "since d' s = Some now"
      using acquire_id [OF a] acquire_counted [OF a] by auto
    have "s \<notin> fst ` set calls" using old fresh new(1) by force
    then show ?thesis using inv inj old new by (auto simp: counted_def s)
  next
    case False
    then have "(case res of Inr (Some s) \<Rightarrow> [(s, now)] | _ \<Rightarrow> []) = []"
      by (auto split: sum.split option.split)
    with inv inj old show ?thesis by (auto simp: counted_def)
  qed
qed

lemma counted_release:
  assumes inv: "counted T slots (d, calls)" and "s \<in> slots" and rel: "release io s d = (d', e)"
  shows "counted T slots (d', filter (\<lambda>(t, a). t \<noteq> s) calls)"
proof -
  have "since d' t = since d t" if "t \<in> slots" "t \<noteq> s" for t
    using release_keeps [OF rel] inv that assms(2) by (auto simp: counted_def inj_on_def)
  then show ?thesis using inv by (auto simp: counted_def intro: distinct_map_filter)
qed

lemma counted_bound:
  assumes inv: "counted now slots (d, calls)" and full: "int (card {t \<in> dom (since d). sl_Org t = org}) \<le> limit"
  shows "int (length (live_calls now org calls)) \<le> limit"
proof -
  have d: "distinct (live_calls now org calls)"
    using inv by (auto simp: counted_def live_calls_def intro: distinct_map_filter)
  have "set (live_calls now org calls) \<subseteq> {t \<in> dom (since d). sl_Org t = org}"
    using inv by (fastforce simp: counted_def live_calls_def)
  from card_mono [OF since_finite this] d full show ?thesis by (simp add: distinct_card)
qed

lemma pool_run_bound:
  assumes "counted T slots st" and "pool_ok T slots (ops @ [Acquire io now b org limit])"
    and "pool_run acquire release ops st = (d, calls)"
    and "acquire io now b org limit d = (d', Inr (Some s))"
  shows "int (length (live_calls now org ((s, now) # calls))) \<le> limit"
  using assms(1-3)
proof (induction ops arbitrary: T slots st)
  case Nil
  then have "counted T slots (d, calls)" by simp
  from counted_acquire [OF this _ _ assms(4)] Nil.prems(2)
  have "counted now (insert \<lparr>sl_ID = newSlotID now b, sl_Org = org\<rparr> slots) (d', (s, now) # calls)" by simp
  then show ?case by (rule counted_bound) (rule acquire_bound [OF assms(4)])
next
  case (Cons op ops)
  obtain d0 calls0 where st: "st = (d0, calls0)" by (cases st)
  show ?case
  proof (cases op)
    case (Acquire io' now' b' org' limit')
    obtain d1 res where a: "acquire io' now' b' org' limit' d0 = (d1, res)" by (rule prod.exhaust)
    from Cons.prems(2) Acquire have ok: "T \<le> now'" "newSlotID now' b' \<notin> sl_ID ` slots" by auto
    from counted_acquire [OF Cons.prems(1) [unfolded st] ok a] Cons.prems(2,3)
    show ?thesis by (intro Cons.IH) (auto simp: Acquire st a)
  next
    case (Release io' s')
    obtain d1 e where a: "release io' s' d0 = (d1, e)" by (rule prod.exhaust)
    from Cons.prems(2) Release have ok: "s' \<in> slots" by auto
    from counted_release [OF Cons.prems(1) [unfolded st] ok a] Cons.prems(2,3)
    show ?thesis by (intro Cons.IH) (auto simp: Release st a)
  qed
qed

lemma counted_start: "counted T {} (d, [])"
  by (simp add: counted_def)

end

section \<open>The limiter keeps the contract\<close>

definition slot_since :: "('d \<Rightarrow> zsets) \<Rightarrow> 'd \<Rightarrow> slot \<rightharpoonup> int" where
  "slot_since zs d s = zs d (ConcurrentKey (sl_Org s)) (sl_ID s)"

locale limiter = redis_zsets r zs
  for r :: "'d redis" and zs :: "'d \<Rightarrow> zsets" +
  fixes maxCalls :: int
begin

text \<open>One request on one of the two slot keys.\<close>

lemma takeSlot_zs:
  assumes "takeSlot r io key now limit cutoff i d = (d', res)"
  shows "(\<forall>k. k \<noteq> key \<longrightarrow> zs d' k = zs d k)
    \<and> (zs d' key = zs d key \<or> zs d' key = without_scores 0 cutoff (zs d key)
         \<or> zs d' key = (without_scores 0 cutoff (zs d key))(i \<mapsto> now))
    \<and> (res = Inr True \<longrightarrow> zs d' key = (without_scores 0 cutoff (zs d key))(i \<mapsto> now)
         \<and> int (card (dom (zs d' key))) \<le> limit)
    \<and> (res = Inr False \<longrightarrow> zs d' key = without_scores 0 cutoff (zs d key))"
proof -
  obtain d1 ok where s: "slotScript r key now limit cutoff i d = (d1, ok)" by (rule prod.exhaust)
  note z = slotScript_zs [OF s]
  have "ok \<Longrightarrow> int (card (dom (zs d1 key))) \<le> limit"
    using card_granted [of cutoff d key limit i now] z by simp
  then show ?thesis
    using assms s z by (cases io) (auto simp: takeSlot_def remote_call_def)
qed

lemma dropCapacity_zs:
  "(\<forall>k. k \<noteq> CapacityKey \<longrightarrow> zs (dropCapacity r maxCalls io i d) k = zs d k)
   \<and> (maxCalls > 0 \<longrightarrow> io = Answered \<longrightarrow> zs (dropCapacity r maxCalls io i d) CapacityKey = (zs d CapacityKey)(i := None))"
  by (cases io) (auto simp: dropCapacity_def remote_call_def zs_rem)

text \<open>What \<open>AcquireSlot\<close> does to the organization's set.\<close>

lemma AcquireSlot_zs:
  assumes "AcquireSlot r maxCalls io now b org limit d = (d', res)"
  defines "key \<equiv> ConcurrentKey org" and "i \<equiv> newSlotID now b" and "cutoff \<equiv> now - staleSlotAfter"
  shows "(\<forall>k. k \<noteq> key \<longrightarrow> k \<noteq> CapacityKey \<longrightarrow> zs d' k = zs d k)
    \<and> (zs d' key = zs d key \<or> zs d' key = without_scores 0 cutoff (zs d key)
         \<or> zs d' key = (without_scores 0 cutoff (zs d key))(i \<mapsto> now))
    \<and> (\<forall>s. res = Inr (Some s) \<longrightarrow> s = \<lparr>sl_ID = i, sl_Org = org\<rparr>
         \<and> zs d' key = (without_scores 0 cutoff (zs d key))(i \<mapsto> now) \<and> int (card (dom (zs d' key))) \<le> limit)"
proof -
  obtain io1 io2 io3 where io: "io = (io1, io2, io3)" by (rule prod_cases3)
  obtain d1 own where own: "(if maxCalls > 0 then takeSlot r io1 CapacityKey now maxCalls cutoff i d else (d, Inr True)) = (d1, own)"
    by (rule prod.exhaust)
  have d1: "\<forall>k. k \<noteq> CapacityKey \<longrightarrow> zs d1 k = zs d k"
    using own takeSlot_zs [of io1 CapacityKey now maxCalls cutoff i d d1 own] by (auto split: if_splits)
  obtain d2 got where got: "takeSlot r io2 key now limit cutoff i d1 = (d2, got)" by (rule prod.exhaust)
  note t = takeSlot_zs [OF got]
  have drop: "k \<noteq> CapacityKey \<Longrightarrow> zs (dropCapacity r maxCalls io3 i d2) k = zs d2 k" for k
    using dropCapacity_zs by blast
  have "(d', res) = (case own of Inl e \<Rightarrow> (d1, Inl e) | Inr False \<Rightarrow> (d1, Inr None)
      | Inr True \<Rightarrow> (case got of Inl e \<Rightarrow> (dropCapacity r maxCalls io3 i d2, Inl e)
           | Inr False \<Rightarrow> (dropCapacity r maxCalls io3 i d2, Inr None)
           | Inr True \<Rightarrow> (d2, Inr (Some \<lparr>sl_ID = i, sl_Org = org\<rparr>))))"
    using assms(1) own got unfolding AcquireSlot_def io
    by (auto simp: Let_def key_def [symmetric] i_def [symmetric] cutoff_def [symmetric] split: sum.splits bool.splits)
  moreover have "key \<noteq> CapacityKey" by (simp add: key_def)
  ultimately show ?thesis using d1 t drop
    by (auto split: sum.splits bool.splits)
qed

lemma ReleaseSlot_zs:
  assumes "ReleaseSlot r maxCalls io s d = (d', e)"
  shows "(\<forall>k. k \<noteq> ConcurrentKey (sl_Org s) \<longrightarrow> k \<noteq> CapacityKey \<longrightarrow> zs d' k = zs d k)
    \<and> (\<forall>m. m \<noteq> sl_ID s \<longrightarrow> zs d' (ConcurrentKey (sl_Org s)) m = zs d (ConcurrentKey (sl_Org s)) m)
    \<and> (snd io = Answered \<longrightarrow> zs d' (ConcurrentKey (sl_Org s)) (sl_ID s) = None \<and> e = None)"
proof -
  obtain io1 io2 where io: "io = (io1, io2)" by (rule prod.exhaust)
  show ?thesis
    using assms dropCapacity_zs [of io1 "sl_ID s" d] unfolding io
    by (cases io2) (auto simp: ReleaseSlot_def remote_call_def zs_rem Let_def)
qed

end

sublocale limiter < slot_pool "AcquireSlot r maxCalls" "ReleaseSlot r maxCalls" "slot_since zs"
proof
  fix d :: 'd and org
  have "{t \<in> dom (slot_since zs d). sl_Org t = org}
      \<subseteq> (\<lambda>m. \<lparr>sl_ID = m, sl_Org = org\<rparr>) ` dom (zs d (ConcurrentKey org))"
    by (auto simp: slot_since_def image_iff dom_def) (metis slot.surjective old.unit.exhaust)
  then show "finite {t \<in> dom (slot_since zs d). sl_Org t = org}"
    by (rule finite_subset) (simp add: zs_finite)
next
  fix io now b org limit d d' s assume a: "AcquireSlot r maxCalls io now b org limit d = (d', Inr (Some s))"
  note z = AcquireSlot_zs [OF a]
  then show s: "s = \<lparr>sl_ID = newSlotID now b, sl_Org = org\<rparr>" by simp
  from z s show "slot_since zs d' s = Some now" by (simp add: slot_since_def)
  have sub: "{t \<in> dom (slot_since zs d'). sl_Org t = org}
      \<subseteq> (\<lambda>m. \<lparr>sl_ID = m, sl_Org = org\<rparr>) ` dom (zs d' (ConcurrentKey org))"
    by (auto simp: slot_since_def image_iff dom_def) (metis slot.surjective old.unit.exhaust)
  have "card {t \<in> dom (slot_since zs d'). sl_Org t = org} \<le> card (dom (zs d' (ConcurrentKey org)))"
    by (rule surj_card_le [OF zs_finite sub])
  moreover have "int (card (dom (zs d' (ConcurrentKey org)))) \<le> limit" using z by blast
  ultimately show "int (card {t \<in> dom (slot_since zs d'). sl_Org t = org}) \<le> limit" by linarith
next
  fix io now b org limit d d' res t a
  assume acq: "AcquireSlot r maxCalls io now b org limit d = (d', res)" and t: "slot_since zs d t = Some a"
    and young: "now - staleSlotAfter < a" and other: "sl_ID t \<noteq> newSlotID now b"
  show "slot_since zs d' t = Some a"
  proof (cases "sl_Org t = org")
    case True
    from AcquireSlot_zs [OF acq] t young other True show ?thesis by (auto simp: slot_since_def)
  next
    case False
    from AcquireSlot_zs [OF acq] t False show ?thesis by (auto simp: slot_since_def)
  qed
next
  fix io s d d' e and t :: slot assume rel: "ReleaseSlot r maxCalls io s d = (d', e)" and "sl_ID t \<noteq> sl_ID s"
  with ReleaseSlot_zs [OF rel] show "slot_since zs d' t = slot_since zs d t"
    by (cases "sl_Org t = sl_Org s") (auto simp: slot_since_def)
next
  fix io1 s d d' e assume "ReleaseSlot r maxCalls (io1, Answered) s d = (d', e)"
  from ReleaseSlot_zs [OF this] show "slot_since zs d' s = None \<and> e = None" by (simp add: slot_since_def)
qed

section \<open>A concrete Redis\<close>

text \<open>Sorted sets as association lists.\<close>

type_synonym mem_db = "rkey \<Rightarrow> (member \<times> int) list"

fun lowest :: "(member \<times> int) list \<Rightarrow> (member \<times> int) option" where
  "lowest [] = None"
| "lowest ((m, s) # z) = (case lowest z of None \<Rightarrow> Some (m, s) | Some (m', s') \<Rightarrow> if s' < s then Some (m', s') else Some (m, s))"

definition mem_redis :: "mem_db redis" where
  "mem_redis = \<lparr>
     zremrangebyscore = (\<lambda>k lo hi d. d(k := filter (\<lambda>(m, s). \<not> (lo \<le> s \<and> s \<le> hi)) (AList.clearjunk (d k)))),
     zcard = (\<lambda>k d. length (AList.clearjunk (d k))),
     zadd = (\<lambda>k s m d. d(k := (m, s) # AList.delete m (d k))),
     zrem = (\<lambda>k m d. d(k := AList.delete m (d k))),
     zfirst = (\<lambda>k d. lowest (AList.clearjunk (d k))),
     del = (\<lambda>k d. d(k := [])),
     expire = (\<lambda>k t d. d)\<rparr>"

definition mem_zs :: "mem_db \<Rightarrow> zsets" where
  "mem_zs d k = map_of (d k)"

lemma lowest_Some: "distinct (map fst z) \<Longrightarrow> lowest z = Some (m, s) \<Longrightarrow>
    map_of z m = Some s \<and> (\<forall>m' s'. map_of z m' = Some s' \<longrightarrow> s \<le> s')"
proof (induction z arbitrary: m s)
  case (Cons p z)
  obtain m0 s0 where p: "p = (m0, s0)" by (cases p)
  show ?case
  proof (cases "lowest z")
    case None
    then have "z = []" by (cases z) (auto split: option.splits if_splits)
    with Cons.prems p show ?thesis by auto
  next
    case (Some q)
    obtain m1 s1 where q: "q = (m1, s1)" by (cases q)
    with Some Cons.IH [of m1 s1] Cons.prems(1) p
    have ih: "map_of z m1 = Some s1" "\<And>m' s'. map_of z m' = Some s' \<Longrightarrow> s1 \<le> s'" by auto
    then have "m1 \<noteq> m0" using Cons.prems(1) p by (auto dest: map_of_SomeD simp: image_iff)
    with Cons.prems(2) p q Some ih show ?thesis
      by (auto split: if_splits dest!: ih(2))
  qed
qed simp

lemma lowest_None: "lowest z = None \<longleftrightarrow> z = []"
  by (cases z) (auto split: option.splits if_splits)

lemma map_of_filter_scores:
  "distinct (map fst z) \<Longrightarrow> map_of (filter (\<lambda>(m, s). \<not> (lo \<le> s \<and> s \<le> hi)) z) = without_scores lo hi (map_of z)"
proof (induction z)
  case (Cons p z)
  obtain m s where p: "p = (m, s)" by (cases p)
  with Cons.prems have "map_of z m = None" by (simp add: map_of_eq_None_iff)
  with Cons p show ?case by (auto simp: without_scores_def fun_eq_iff)
qed (simp add: without_scores_def)

lemma card_dom_map_of: "distinct (map fst z) \<Longrightarrow> card (dom (map_of z)) = length z"
  using distinct_card [of "map fst z"] by (simp add: dom_map_of_conv_image_fst)

interpretation mem: redis_zsets mem_redis mem_zs
proof
  fix d k
  have c: "distinct (map fst (AList.clearjunk (d k)))" for d :: mem_db and k by (rule AList.distinct_clearjunk)
  have m: "map_of (AList.clearjunk (d k)) = mem_zs d k" for d :: mem_db and k by (simp add: mem_zs_def AList.map_of_clearjunk)
  show "finite (dom (mem_zs d k))" by (simp add: mem_zs_def finite_dom_map_of)
  show "zcard mem_redis k d = card (dom (mem_zs d k))"
    using card_dom_map_of [OF c, of d k] by (simp only: mem_redis_def redis.select_convs m)
  fix lo hi show "mem_zs (zremrangebyscore mem_redis k lo hi d) = (mem_zs d)(k := without_scores lo hi (mem_zs d k))"
    using map_of_filter_scores [OF c] m by (auto simp: mem_redis_def mem_zs_def fun_eq_iff)
  show "zfirst mem_redis k d = None \<longleftrightarrow> mem_zs d k = Map.empty"
    by (simp add: mem_redis_def lowest_None mem_zs_def) (cases "d k"; simp add: fun_eq_iff)
  fix a s show "zfirst mem_redis k d = Some (a, s) \<Longrightarrow> mem_zs d k a = Some s \<and> (\<forall>m' s'. mem_zs d k m' = Some s' \<longrightarrow> s \<le> s')"
    using lowest_Some [OF c, of d k a s] m by (simp add: mem_redis_def)
qed (auto simp: mem_redis_def mem_zs_def fun_eq_iff AList.delete_conv)

interpretation mem_limiter: limiter mem_redis mem_zs maxCalls
  for maxCalls
  by unfold_locales

end
