(* ===== verification/Limiter_Claims.thy ===== *)
theory Limiter_Claims
  imports Limiter_Laws
begin

text \<open>
  What the limiter's counting amounts to over a whole history: calls running, calls started per
  second, and the circuit breaker's window.
\<close>

section \<open>Histories\<close>

text \<open>Token requests of one organization: clock, allowed rate and fate of each; the start times that
  were granted, latest first.\<close>

fun token_run :: "'d redis \<Rightarrow> int \<Rightarrow> (int \<times> int \<times> io) list \<Rightarrow> 'd \<times> int list \<Rightarrow> 'd \<times> int list" where
  "token_run r org [] st = st"
| "token_run r org ((now, perSecond, io) # ops) (d, granted) =
     (let (d, res) = AcquireToken r io now org perSecond d
      in token_run r org ops (d, (if res = Inr True then [now] else []) @ granted))"

text \<open>Outcomes of one campaign: clock and whether it is a failure.\<close>

fun outcome_run :: "'d redis \<Rightarrow> int \<Rightarrow> breaker_config \<Rightarrow> (int \<times> bool) list \<Rightarrow> 'd \<Rightarrow> 'd" where
  "outcome_run r c cfg [] d = d"
| "outcome_run r c cfg ((now, failure) # ops) d =
     outcome_run r c cfg ops (fst (RecordOutcome r Answered now c failure cfg d))"

definition outcomes_in :: "int \<Rightarrow> int \<Rightarrow> bool \<Rightarrow> (int \<times> bool) list \<Rightarrow> nat" where
  "outcomes_in window now failure ops =
     length (filter (\<lambda>(t, f). f = failure \<and> now - window < t) ops)"

section \<open>Tokens\<close>

definition tokens_counted :: "int \<Rightarrow> (member \<rightharpoonup> int) \<Rightarrow> int list \<Rightarrow> bool" where
  "tokens_counted T z granted \<longleftrightarrow> distinct granted
     \<and> (\<forall>t \<in> set granted. t \<le> T \<and> (T - second < t \<longrightarrow> z (Stamp t) = Some t))"

context redis_zsets
begin

lemma AcquireToken_zs:
  assumes "AcquireToken r io now org perSecond d = (d', res)"
  shows "zs d' (RateKey org) = zs d (RateKey org)
      \<or> zs d' (RateKey org) = without_scores 0 (now - second) (zs d (RateKey org))
      \<or> zs d' (RateKey org) = (without_scores 0 (now - second) (zs d (RateKey org)))(Stamp now \<mapsto> now)"
    and "res = Inr True \<Longrightarrow> zs d' (RateKey org) = (without_scores 0 (now - second) (zs d (RateKey org)))(Stamp now \<mapsto> now)
      \<and> int (card (dom (zs d' (RateKey org)))) \<le> perSecond"
proof -
  obtain d1 ok where s: "rateScript r (RateKey org) now (now - second) perSecond d = (d1, ok)" by (rule prod.exhaust)
  note z = rateScript_zs [OF s]
  have "ok \<Longrightarrow> int (card (dom (zs d1 (RateKey org)))) \<le> perSecond"
    using card_granted [of "now - second" d "RateKey org" perSecond "Stamp now" now] z by simp
  have c: "d' = d \<or> d' = d1" "res = Inr True \<Longrightarrow> d' = d1 \<and> ok"
    using assms s by (cases io; simp add: AcquireToken_def remote_call_def)+
  show "zs d' (RateKey org) = zs d (RateKey org)
      \<or> zs d' (RateKey org) = without_scores 0 (now - second) (zs d (RateKey org))
      \<or> zs d' (RateKey org) = (without_scores 0 (now - second) (zs d (RateKey org)))(Stamp now \<mapsto> now)"
    using c(1) z by (cases ok) auto
  show "zs d' (RateKey org) = (without_scores 0 (now - second) (zs d (RateKey org)))(Stamp now \<mapsto> now)
      \<and> int (card (dom (zs d' (RateKey org)))) \<le> perSecond" if "res = Inr True"
    using c(2) [OF that] z \<open>ok \<Longrightarrow> _\<close> by simp
qed

lemma tokens_counted_step:
  assumes "tokens_counted T (zs d (RateKey org)) granted" and "T < now"
    and "AcquireToken r io now org perSecond d = (d', res)"
  shows "tokens_counted now (zs d' (RateKey org)) ((if res = Inr True then [now] else []) @ granted)"
proof -
  have old: "t \<le> now \<and> t \<noteq> now \<and> (now - second < t \<longrightarrow> zs d' (RateKey org) (Stamp t) = Some t)"
    if "t \<in> set granted" for t
  proof -
    have t: "t \<le> T" "T - second < t \<longrightarrow> zs d (RateKey org) (Stamp t) = Some t"
      using assms(1) that by (auto simp: tokens_counted_def)
    with AcquireToken_zs(1) [OF assms(3)] assms(2) show ?thesis by auto
  qed
  moreover have "zs d' (RateKey org) (Stamp now) = Some now" if "res = Inr True"
    using AcquireToken_zs(2) [OF assms(3) that] by simp
  ultimately show ?thesis using assms(1) by (auto simp: tokens_counted_def)
qed

lemma token_run_counted:
  "tokens_counted T (zs d (RateKey org)) granted \<Longrightarrow> sorted_wrt (<) (T # map fst ops) \<Longrightarrow>
   token_run r org ops (d, granted) = (d', granted') \<Longrightarrow>
   tokens_counted (last (T # map fst ops)) (zs d' (RateKey org)) granted'"
proof (induction ops arbitrary: T d granted)
  case (Cons op ops)
  obtain now p io where op: "op = (now, p, io)" by (rule prod_cases3)
  obtain d1 res where a: "AcquireToken r io now org p d = (d1, res)" by (rule prod.exhaust)
  have "T < now" and s: "sorted_wrt (<) (now # map fst ops)" using Cons.prems(2) op by auto
  from Cons.IH [OF tokens_counted_step [OF Cons.prems(1) this(1) a] s] Cons.prems(3) show ?case
    by (simp add: op a)
qed simp

lemma tokens_bound:
  assumes "tokens_counted now (zs d (RateKey org)) granted" and "int (card (dom (zs d (RateKey org)))) \<le> p"
  shows "int (length (filter (\<lambda>t. now - second < t) granted)) \<le> p"
proof -
  have "Stamp ` set (filter (\<lambda>t. now - second < t) granted) \<subseteq> dom (zs d (RateKey org))"
    using assms(1) by (auto simp: tokens_counted_def)
  then have "card (Stamp ` set (filter (\<lambda>t. now - second < t) granted)) \<le> card (dom (zs d (RateKey org)))"
    by (rule card_mono [OF zs_finite])
  moreover have "distinct (filter (\<lambda>t. now - second < t) granted)" using assms(1) by (simp add: tokens_counted_def)
  moreover have "card (Stamp ` X) = card X" for X :: "int set" by (simp add: card_image inj_on_def)
  ultimately have "length (filter (\<lambda>t. now - second < t) granted) \<le> card (dom (zs d (RateKey org)))"
    by (simp only: distinct_card)
  then show ?thesis using assms(2) by linarith
qed

end

section \<open>The breaker's window\<close>

text \<open>The set of one outcome holds exactly the stamps of that outcome that are inside the window.\<close>

definition window_set :: "int \<Rightarrow> int \<Rightarrow> bool \<Rightarrow> (int \<times> bool) list \<Rightarrow> member \<rightharpoonup> int" where
  "window_set window now failure ops m = (case m of
      Stamp t \<Rightarrow> if (t, failure) \<in> set ops \<and> now - window < t then Some t else None
    | SlotId i b \<Rightarrow> None)"

lemma window_set_trim:
  assumes "\<forall>(t, f) \<in> set ops. 0 \<le> t" and "T \<le> now"
  shows "without_scores 0 (now - window) (window_set window T failure ops) = window_set window now failure ops"
  using assms by (auto simp: without_scores_def window_set_def fun_eq_iff split: member.split)

lemma window_set_snoc:
  "0 < window \<Longrightarrow> (window_set window now failure ops)(Stamp now \<mapsto> now)
     = window_set window now failure (ops @ [(now, failure)])"
  "f \<noteq> failure \<Longrightarrow> window_set window now failure (ops @ [(now, f)]) = window_set window now failure ops"
  by (auto simp: window_set_def fun_eq_iff split: member.split)

lemma card_window_set:
  assumes "distinct (map fst ops)"
  shows "card (dom (window_set window now failure ops)) = outcomes_in window now failure ops"
proof -
  define L where "L = map fst (filter (\<lambda>(t, f). f = failure \<and> now - window < t) ops)"
  have "dom (window_set window now failure ops) = Stamp ` set L"
  proof (intro set_eqI)
    fix m show "m \<in> dom (window_set window now failure ops) \<longleftrightarrow> m \<in> Stamp ` set L"
      by (cases m) (auto simp: window_set_def L_def image_iff split: if_splits)
  qed
  then have "card (dom (window_set window now failure ops)) = card (set L)"
    by (simp add: card_image inj_on_def)
  moreover have "distinct L" unfolding L_def using assms by (rule distinct_map_filter)
  ultimately have "card (dom (window_set window now failure ops)) = length L" by (simp only: distinct_card)
  then show ?thesis by (simp only: L_def outcomes_in_def length_map)
qed

context redis_zsets
begin

lemma RecordOutcome_zs:
  assumes "br_Enabled cfg" and "0 < br_Window cfg" and "\<forall>(t, f) \<in> set ops. 0 \<le> t" and "T \<le> now"
    and "zs d (FailKey c) = window_set (br_Window cfg) T True ops"
    and "zs d (SuccKey c) = window_set (br_Window cfg) T False ops"
    and "RecordOutcome r Answered now c failure cfg d = (d', res)"
  defines "all \<equiv> ops @ [(now, failure)]"
  shows "zs d' (FailKey c) = window_set (br_Window cfg) now True all"
    and "zs d' (SuccKey c) = window_set (br_Window cfg) now False all"
    and "res = Inr (trips (zcard r (FailKey c) d') (zcard r (SuccKey c) d') (br_Threshold cfg) (br_MinCalls cfg),
           zcard r (FailKey c) d', zcard r (SuccKey c) d')"
proof -
  have ttl: "0 < br_Window cfg div second + 60"
    using assms(2) by (simp add: second_def add_nonneg_pos pos_imp_zdiv_nonneg_iff)
  note trim = window_set_trim [OF assms(3,4)]
  show "zs d' (FailKey c) = window_set (br_Window cfg) now True all"
    "zs d' (SuccKey c) = window_set (br_Window cfg) now False all"
    "res = Inr (trips (zcard r (FailKey c) d') (zcard r (SuccKey c) d') (br_Threshold cfg) (br_MinCalls cfg),
           zcard r (FailKey c) d', zcard r (SuccKey c) d')"
    using assms(1,7)
    by (cases failure; auto simp: RecordOutcome_def breakerResult_def remote_call_def breakerScript_def Let_def
        zs_remrange zs_add zs_expire [OF ttl] assms(5,6) trim all_def window_set_snoc(1) [OF assms(2)] window_set_snoc(2))+
qed

lemma outcome_run_zs:
  assumes "br_Enabled cfg" and "0 < br_Window cfg"
  shows "\<forall>(t, f) \<in> set (past @ ops). 0 \<le> t \<Longrightarrow> sorted (T # map fst ops) \<Longrightarrow>
    zs d (FailKey c) = window_set (br_Window cfg) T True past \<Longrightarrow>
    zs d (SuccKey c) = window_set (br_Window cfg) T False past \<Longrightarrow>
    zs (outcome_run r c cfg ops d) (FailKey c) = window_set (br_Window cfg) (last (T # map fst ops)) True (past @ ops)
    \<and> zs (outcome_run r c cfg ops d) (SuccKey c) = window_set (br_Window cfg) (last (T # map fst ops)) False (past @ ops)"
proof (induction ops arbitrary: T past d)
  case (Cons op ops)
  obtain now f where op: "op = (now, f)" by (cases op)
  obtain d1 res where a: "RecordOutcome r Answered now c f cfg d = (d1, res)" by (rule prod.exhaust)
  have past: "\<forall>(t, f) \<in> set past. 0 \<le> t" and le: "T \<le> now" using Cons.prems(1,2) op by auto
  note z = RecordOutcome_zs [OF assms past le Cons.prems(3,4) a]
  have "sorted (now # map fst ops)" "\<forall>(t, f) \<in> set ((past @ [(now, f)]) @ ops). 0 \<le> t"
    using Cons.prems(1,2) op by auto
  from Cons.IH [OF this(2,1) z(1,2)] show ?case by (simp add: op a)
qed simp

end


context redis_zsets
begin

lemma rate_bound:
  assumes "sorted_wrt (<) (map fst ops @ [now])" and "token_run r org ops (d0, []) = (d, granted)"
    and "AcquireToken r io now org perSecond d = (d', Inr True)"
  shows "int (length (filter (\<lambda>t. now - second < t) (now # granted))) \<le> perSecond"
proof -
  define T where "T = Min (set (map fst ops @ [now])) - 1"
  have "T < x" if "x \<in> set (map fst ops @ [now])" for x
    using Min_le [OF _ that] by (simp add: T_def)
  then have T: "sorted_wrt (<) (T # map fst ops @ [now])" using assms(1) by simp
  have s: "sorted_wrt (<) (T # map fst ops)" using T by (auto simp: sorted_wrt_append)
  have "last (T # map fst ops) < now" using T by (cases ops rule: rev_cases) (auto simp: sorted_wrt_append)
  moreover have "tokens_counted T (zs d0 (RateKey org)) []" by (simp add: tokens_counted_def)
  ultimately have "tokens_counted now (zs d' (RateKey org)) (now # granted)"
    using tokens_counted_step [OF token_run_counted [OF _ s assms(2)] _ assms(3)] by simp
  then show ?thesis by (rule tokens_bound) (rule AcquireToken_zs(2) [OF assms(3) refl, THEN conjunct2])
qed

lemma breaker_exact:
  assumes "br_Enabled cfg" and "0 < br_Window cfg" and "zs d0 (FailKey c) = Map.empty" and "zs d0 (SuccKey c) = Map.empty"
    and "sorted_wrt (<) (map fst ops @ [now])" and "\<forall>t \<in> fst ` set ops. 0 \<le> t" and "0 \<le> now"
    and "RecordOutcome r Answered now c failure cfg (outcome_run r c cfg ops d0) = (d', res)"
  defines "all \<equiv> ops @ [(now, failure)]"
  defines "f \<equiv> outcomes_in (br_Window cfg) now True all" and "s \<equiv> outcomes_in (br_Window cfg) now False all"
  shows "res = Inr (trips f s (br_Threshold cfg) (br_MinCalls cfg), f, s)"
proof -
  have ops: "\<forall>(t, f) \<in> set ops. 0 \<le> t" using assms(6) by auto
  have dist: "distinct (map fst all)"
    using assms(5) unfolding all_def by (simp add: strict_sorted_iff)
  obtain T where T: "sorted (T # map fst ops)" "last (T # map fst ops) \<le> now"
  proof
    show "sorted (Min (set (map fst ops @ [now])) # map fst ops)"
      using assms(5) by (auto simp: strict_sorted_iff sorted_append)
    show "last (Min (set (map fst ops @ [now])) # map fst ops) \<le> now"
      using assms(5) by (cases ops rule: rev_cases) (auto simp: strict_sorted_iff sorted_append)
  qed
  have "zs d0 (FailKey c) = window_set (br_Window cfg) T True []" "zs d0 (SuccKey c) = window_set (br_Window cfg) T False []"
    using assms(3,4) by (auto simp: window_set_def fun_eq_iff split: member.split)
  from outcome_run_zs [OF assms(1,2) _ T(1) this] ops
  have z: "zs (outcome_run r c cfg ops d0) (FailKey c) = window_set (br_Window cfg) (last (T # map fst ops)) True ops"
    "zs (outcome_run r c cfg ops d0) (SuccKey c) = window_set (br_Window cfg) (last (T # map fst ops)) False ops"
    by simp_all
  note r = RecordOutcome_zs [OF assms(1,2) ops T(2) z assms(8)]
  have "zcard r (FailKey c) d' = f" "zcard r (SuccKey c) d' = s"
    using r(1,2) card_window_set [OF dist] by (simp_all add: zs_card f_def s_def all_def)
  with r(3) show ?thesis by simp
qed

end

section \<open>Properties\<close>





text \<open>The circuit breaker: after any outcomes recorded at increasing times, what it reports are
  exactly the failures and successes of the last window, this one included, and it trips exactly
  when they are at least \<open>min_calls\<close> and the failures' share reaches the threshold.\<close>

theorem breaker_window_exact:
  assumes "redis_zsets r zs" and "br_Enabled cfg" and "0 < br_Window cfg"
    and "zs d0 (FailKey c) = Map.empty" and "zs d0 (SuccKey c) = Map.empty"
    and "sorted_wrt (<) (map fst ops @ [now])" and "\<forall>t \<in> fst ` set ops. 0 \<le> t" and "0 \<le> now"
    and "f = outcomes_in (br_Window cfg) now True (ops @ [(now, failure)])"
    and "s = outcomes_in (br_Window cfg) now False (ops @ [(now, failure)])"
  shows "snd (RecordOutcome r Answered now c failure cfg (outcome_run r c cfg ops d0))
    = Inr (int (f + s) \<ge> br_MinCalls cfg \<and> f + s \<noteq> 0 \<and> of_nat f / of_nat (f + s) \<ge> br_Threshold cfg, f, s)"
proof -
  obtain d' res where "RecordOutcome r Answered now c failure cfg (outcome_run r c cfg ops d0) = (d', res)"
    by (rule prod.exhaust)
  from redis_zsets.breaker_exact [OF assms(1-8) this] this show ?thesis by (simp add: assms(9,10) trips_def Let_def)
qed

theorem breaker_window_exact_witness:
  "snd (RecordOutcome mem_redis Answered 20 1 True \<lparr>br_Enabled = True, br_Threshold = 1 / 2, br_Window = 10, br_MinCalls = 2\<rparr>
     (outcome_run mem_redis 1 \<lparr>br_Enabled = True, br_Threshold = 1 / 2, br_Window = 10, br_MinCalls = 2\<rparr>
       [(5, False), (15, True)] (\<lambda>k. []))) = Inr (True, 2, 0)"
proof -
  define cfg where "cfg = \<lparr>br_Enabled = True, br_Threshold = 1 / 2 :: rat, br_Window = 10, br_MinCalls = 2\<rparr>"
  have "snd (RecordOutcome mem_redis Answered 20 1 True cfg (outcome_run mem_redis 1 cfg [(5, False), (15, True)] (\<lambda>k. [])))
      = Inr (int (2 + 0) \<ge> br_MinCalls cfg \<and> 2 + 0 \<noteq> (0::nat) \<and> of_nat 2 / of_nat (2 + 0) \<ge> br_Threshold cfg, 2, 0)"
    by (rule breaker_window_exact [OF mem.redis_zsets_axioms])
      (simp_all add: cfg_def mem_zs_def outcomes_in_def)
  then show ?thesis by (simp add: cfg_def)
qed

end
