(* ===== verification/Campaign_Config.thy ===== *)
theory Campaign_Config
  imports Limiter
begin

text \<open>
  \<open>internal/dograh/campaign.go\<close> and \<open>outbound.go\<close>, the parts that compute: a campaign's settings with
  their defaults, when it may call, whether the wallet allows it, how a number is dialed and how a
  call that never connected is classified. JSON columns arrive decoded (a missing field is
  \<open>None\<close>); a time zone is its offset from UTC in seconds at each instant; amounts are rationals.
\<close>

section \<open>Settings\<close>

record retry_config =
  rc_Enabled :: bool
  rc_MaxRetries :: int
  rc_Delay :: int
  rc_OnBusy :: bool
  rc_OnNoAnswer :: bool
  rc_OnVoicemail :: bool

type_synonym location = "int \<Rightarrow> int"

record schedule_slot =
  ss_Day :: int
  ss_Start :: string
  ss_End :: string

record schedule =
  sc_Enabled :: bool
  sc_Location :: "location option"
  sc_Slots :: "schedule_slot list"

record campaign =
  cp_ID :: int
  cp_OrganizationID :: int
  cp_WorkflowID :: int
  cp_RatePerSecond :: int
  cp_MaxConcurrency :: int
  cp_Retry :: retry_config
  cp_Schedule :: schedule
  cp_Breaker :: breaker_config

definition Eligible :: "retry_config \<Rightarrow> string \<Rightarrow> bool" where
  "Eligible r reason =
     (if \<not> rc_Enabled r then False
      else if reason = ''busy'' then rc_OnBusy r
      else if reason = ''no_answer'' then rc_OnNoAnswer r
      else if reason = ''voicemail'' then rc_OnVoicemail r
      else False)"

definition Retries :: "retry_config \<Rightarrow> string \<Rightarrow> int \<Rightarrow> bool" where
  "Retries r reason attempts = (Eligible r reason \<and> attempts < rc_MaxRetries r)"

record retry_json =
  rj_Enabled :: "bool option"
  rj_MaxRetries :: "int option"
  rj_Delay :: "int option"
  rj_OnBusy :: "bool option"
  rj_OnNoAnswer :: "bool option"
  rj_OnVoicemail :: "bool option"

record breaker_json =
  bj_Enabled :: "bool option"
  bj_Threshold :: "rat option"
  bj_Window :: "int option"
  bj_MinCalls :: "int option"

record schedule_json =
  sj_Enabled :: bool
  sj_Timezone :: string
  sj_Slots :: "(int \<times> string \<times> string) list"

record campaign_json =
  cj_Retry :: retry_json
  cj_MaxConcurrency :: "int option"
  cj_Schedule :: "schedule_json option"
  cj_Breaker :: "breaker_json option"

definition orBool :: "bool option \<Rightarrow> bool \<Rightarrow> bool" where
  "orBool p dflt = (case p of None \<Rightarrow> dflt | Some b \<Rightarrow> b)"

definition orInt :: "int option \<Rightarrow> int \<Rightarrow> int" where
  "orInt p dflt = (case p of None \<Rightarrow> dflt | Some n \<Rightarrow> n)"

definition orStr :: "string \<Rightarrow> string \<Rightarrow> string" where
  "orStr s dflt = (if s = [] then dflt else s)"

text \<open>\<open>parseCampaign\<close>; \<open>load\<close> is \<open>time.LoadLocation\<close>.\<close>

definition parseCampaign :: "(string \<Rightarrow> location option) \<Rightarrow> campaign_json \<Rightarrow> campaign \<Rightarrow> campaign" where
  "parseCampaign load j c =
     (let r = cj_Retry j;
          c = c\<lparr>cp_Retry := \<lparr>rc_Enabled = orBool (rj_Enabled r) True, rc_MaxRetries = orInt (rj_MaxRetries r) 1,
                  rc_Delay = orInt (rj_Delay r) 120 * second, rc_OnBusy = orBool (rj_OnBusy r) True,
                  rc_OnNoAnswer = orBool (rj_OnNoAnswer r) True, rc_OnVoicemail = orBool (rj_OnVoicemail r) True\<rparr>,
                cp_MaxConcurrency := orInt (cj_MaxConcurrency j) 0,
                cp_Breaker := (case cj_Breaker j of
                    None \<Rightarrow> \<lparr>br_Enabled = True, br_Threshold = 1 / 2, br_Window = 120 * second, br_MinCalls = 5\<rparr>
                  | Some b \<Rightarrow> \<lparr>br_Enabled = orBool (bj_Enabled b) True,
                      br_Threshold = (case bj_Threshold b of None \<Rightarrow> 1 / 2 | Some t \<Rightarrow> t),
                      br_Window = orInt (bj_Window b) 120 * second, br_MinCalls = orInt (bj_MinCalls b) 5\<rparr>)\<rparr>
      in case cj_Schedule j of
           None \<Rightarrow> c
         | Some sc \<Rightarrow>
             let s = (cp_Schedule c)\<lparr>sc_Enabled := sj_Enabled sc\<rparr>;
                 s = (case load (orStr (sj_Timezone sc) ''UTC'') of None \<Rightarrow> s | Some loc \<Rightarrow> s\<lparr>sc_Location := Some loc\<rparr>);
                 slots = map (\<lambda>(d, st, en). \<lparr>ss_Day = d, ss_Start = st, ss_End = en\<rparr>) (sj_Slots sc)
             in c\<lparr>cp_Schedule := s\<lparr>sc_Slots := sc_Slots s @ slots\<rparr>\<rparr>)"

section \<open>Calling windows\<close>

text \<open>Go compares strings bytewise.\<close>

fun str_le :: "string \<Rightarrow> string \<Rightarrow> bool" where
  "str_le [] ys = True"
| "str_le (x # xs) [] = False"
| "str_le (x # xs) (y # ys) = (of_char x < (of_char y :: nat) \<or> x = y \<and> str_le xs ys)"

definition str_less :: "string \<Rightarrow> string \<Rightarrow> bool" where
  "str_less xs ys = (\<not> str_le ys xs)"

definition digit :: "nat \<Rightarrow> char" where
  "digit n = char_of (48 + n)"

text \<open>Layout \<open>15:04\<close> of a minute of the day.\<close>

definition clock_text :: "nat \<Rightarrow> string" where
  "clock_text m = [digit (m div 60 div 10), digit (m div 60 mod 10), CHR '':'', digit (m mod 60 div 10), digit (m mod 60 mod 10)]"

text \<open>Local seconds since the epoch, which was a Thursday; Go's Sunday is 0, Python's Monday is 0.\<close>

definition local_secs :: "location \<Rightarrow> int \<Rightarrow> int" where
  "local_secs loc now = now div second + loc (now div second)"

definition py_weekday :: "int \<Rightarrow> int" where
  "py_weekday secs = ((secs div 86400 + 4) mod 7 + 6) mod 7"

definition minute_of_day :: "int \<Rightarrow> nat" where
  "minute_of_day secs = nat (secs mod 86400) div 60"

definition Allows :: "schedule \<Rightarrow> int \<Rightarrow> bool" where
  "Allows s now =
     (if \<not> sc_Enabled s \<or> sc_Slots s = [] then True
      else case sc_Location s of
        None \<Rightarrow> True
      | Some loc \<Rightarrow>
          let secs = local_secs loc now; day = py_weekday secs; hm = clock_text (minute_of_day secs)
          in list_ex (\<lambda>sl. ss_Day sl = day \<and> str_le (ss_Start sl) hm \<and> str_less hm (ss_End sl)) (sc_Slots s))"

section \<open>Wallet\<close>

definition walletBlocks :: "string option \<Rightarrow> rat option \<Rightarrow> rat option \<Rightarrow> rat option \<Rightarrow> bool" where
  "walletBlocks mode rate balance credit =
     (case (mode, rate) of
        (Some m, Some p) \<Rightarrow>
          if m = [] \<or> p = 0 then False
          else let bal = (case balance of None \<Rightarrow> 0 | Some b \<Rightarrow> b)
               in if m = ''prepaid'' then bal < p
                  else (case credit of None \<Rightarrow> False | Some c \<Rightarrow> bal \<le> - c)
      | _ \<Rightarrow> False)"

section \<open>Dialing\<close>

record dial_settings =
  ds_Provider :: string
  ds_Technology :: string
  ds_Trunk :: string
  ds_StripPrefix :: string
  ds_FromNumbers :: "string list"
  ds_WorkflowCLI :: "int \<rightharpoonup> string"

fun has_prefix :: "string \<Rightarrow> string \<Rightarrow> bool" where
  "has_prefix [] s = True"
| "has_prefix (p # ps) [] = False"
| "has_prefix (p # ps) (c # s) = (p = c \<and> has_prefix ps s)"

definition trim_prefix :: "string \<Rightarrow> string \<Rightarrow> string" where
  "trim_prefix p s = (if has_prefix p s then drop (length p) s else s)"

definition DialEndpoint :: "dial_settings \<Rightarrow> string \<Rightarrow> string" where
  "DialEndpoint d number =
     (if has_prefix ''SIP/'' number \<or> has_prefix ''PJSIP/'' number then number
      else
        let number = (if ds_StripPrefix d \<noteq> [] then trim_prefix (ds_StripPrefix d) number else number);
            tech = (if ds_Technology d = [] then ''PJSIP'' else ds_Technology d)
        in if ds_Trunk d \<noteq> [] then tech @ ''/'' @ number @ ''@'' @ ds_Trunk d else tech @ ''/'' @ number)"

definition CallerID :: "dial_settings \<Rightarrow> int \<Rightarrow> string" where
  "CallerID d workflowID =
     (case ds_WorkflowCLI d workflowID of
        Some cli \<Rightarrow> if cli \<noteq> [] then cli else (case ds_FromNumbers d of [] \<Rightarrow> [] | n # ns \<Rightarrow> n)
      | None \<Rightarrow> (case ds_FromNumbers d of [] \<Rightarrow> [] | n # ns \<Rightarrow> n))"

section \<open>Calls that never connected\<close>

definition StatusBusy :: string where "StatusBusy = ''busy''"
definition StatusNoAnswer :: string where "StatusNoAnswer = ''no-answer''"
definition StatusRejected :: string where "StatusRejected = ''rejected''"
definition StatusFailed :: string where "StatusFailed = ''failed''"

definition StatusForCause :: "int \<Rightarrow> string" where
  "StatusForCause cause =
     (if cause = 17 then StatusBusy else if cause = 19 then StatusNoAnswer
      else if cause = 21 then StatusRejected else StatusFailed)"

definition retryReason :: "string \<Rightarrow> string" where
  "retryReason status = (if status = StatusBusy then ''busy'' else if status = StatusNoAnswer then ''no_answer'' else [])"

definition upper :: "char \<Rightarrow> char" where
  "upper c = (let n = of_char c :: nat in if 97 \<le> n \<and> n \<le> 122 then char_of (n - 32) else c)"

definition notConnectedDisposition :: "string \<Rightarrow> string" where
  "notConnectedDisposition status =
     (if status = ''no-answer'' then ''NO_ANSWER'' else if status = ''busy'' then ''BUSY''
      else if status = ''failed'' \<or> status = ''error'' then ''FAILED'' else if status = ''canceled'' then ''CANCELED''
      else if status = ''rejected'' then ''REJECTED''
      else map (\<lambda>c. upper (if c = CHR ''-'' then CHR ''_'' else c)) status)"

section \<open>The calling window as minutes\<close>

lemma digit_of: "n < 10 \<Longrightarrow> of_char (digit n) = (48 + n :: nat)"
  unfolding digit_def of_char_of by (rule mod_less) simp

lemma digit_eq: "m < 10 \<Longrightarrow> n < 10 \<Longrightarrow> digit m = digit n \<longleftrightarrow> m = n"
  by (metis add_left_cancel digit_of)

lemma digits_le:
  fixes a1 a2 a3 a4 b1 b2 b3 b4 :: nat
  assumes "a2 < 10" "a3 < 6" "a4 < 10" "b2 < 10" "b3 < 6" "b4 < 10"
  shows "(a1 < b1 \<or> a1 = b1 \<and> (a2 < b2 \<or> a2 = b2 \<and> (a3 < b3 \<or> a3 = b3 \<and> (a4 < b4 \<or> a4 = b4))))
    \<longleftrightarrow> 600 * a1 + 60 * a2 + 10 * a3 + a4 \<le> 600 * b1 + 60 * b2 + 10 * b3 + b4"
  using assms by (cases a1 b1 rule: linorder_cases; cases a2 b2 rule: linorder_cases; cases a3 b3 rule: linorder_cases) auto

lemma clock_digits:
  fixes n :: nat
  assumes "n < 6000"
  shows "n div 60 div 10 < 10" "n div 60 mod 10 < 10" "n mod 60 div 10 < 6" "n mod 60 mod 10 < 10"
    "600 * (n div 60 div 10) + 60 * (n div 60 mod 10) + 10 * (n mod 60 div 10) + n mod 60 mod 10 = n"
proof -
  have "n div 60 < 100" using assms by (simp add: less_mult_imp_div_less)
  then show "n div 60 div 10 < 10" by (simp add: less_mult_imp_div_less)
  have "n mod 60 < 60" by simp
  then show "n mod 60 div 10 < 6" by (simp add: less_mult_imp_div_less)
  have "10 * (n div 60 div 10) + n div 60 mod 10 = n div 60" "10 * (n mod 60 div 10) + n mod 60 mod 10 = n mod 60"
    "60 * (n div 60) + n mod 60 = n" by (simp_all only: mult_div_mod_eq)
  then show "600 * (n div 60 div 10) + 60 * (n div 60 mod 10) + 10 * (n mod 60 div 10) + n mod 60 mod 10 = n"
    by linarith
qed simp_all

lemma str_le_clock:
  assumes "a < 6000" and "b < 6000"
  shows "str_le (clock_text a) (clock_text b) \<longleftrightarrow> a \<le> b"
proof -
  note da = clock_digits [OF assms(1)] and db = clock_digits [OF assms(2)]
  have t: "a mod 60 div 10 < 10" "b mod 60 div 10 < 10" using da(3) db(3) by simp_all
  have "str_le (clock_text a) (clock_text b) \<longleftrightarrow>
     600 * (a div 60 div 10) + 60 * (a div 60 mod 10) + 10 * (a mod 60 div 10) + a mod 60 mod 10
     \<le> 600 * (b div 60 div 10) + 60 * (b div 60 mod 10) + 10 * (b mod 60 div 10) + b mod 60 mod 10"
    unfolding digits_le [OF da(2,3,4) db(2,3,4), symmetric] clock_text_def str_le.simps
    by (simp only: digit_of digit_eq da(1,2,4) db(1,2,4) t less_irrefl simp_thms add_less_cancel_left)
  then show ?thesis by (simp only: da(5) db(5))
qed

text \<open>Calling windows: the text comparison of \<open>Allows\<close> is the comparison of minutes: with a time
  zone and windows given as clock times, a call is allowed exactly when the local weekday is the
  window's and the local minute is in it, start included and end not. A window that ends at or
  before its start (across midnight) allows nothing.\<close>

theorem schedule_minutes:
  assumes "sc_Enabled s" and "sc_Location s = Some loc"
    and "sc_Slots s = map (\<lambda>(d, a, b). \<lparr>ss_Day = d, ss_Start = clock_text a, ss_End = clock_text b\<rparr>) ws"
    and "ws \<noteq> []" and "list_all (\<lambda>(d, a, b). a < 6000 \<and> b < 6000) ws"
    and "secs = now div second + loc (now div second)"
  shows "Allows s now \<longleftrightarrow> list_ex (\<lambda>(d, a, b). d = (secs div 86400 + 3) mod 7
      \<and> a \<le> nat (secs mod 86400) div 60 \<and> nat (secs mod 86400) div 60 < b) ws"
proof -
  have m: "minute_of_day secs < 6000"
  proof -
    have "nat (secs mod 86400) < 86400" using pos_mod_bound [of 86400 secs] by simp
    then show ?thesis by (simp add: minute_of_day_def less_mult_imp_div_less)
  qed
  have day: "py_weekday secs = (secs div 86400 + 3) mod 7"
  proof -
    have "((x + 4) mod 7 + 6) mod 7 = (x + 3) mod 7" for x :: int by presburger
    then show ?thesis by (simp only: py_weekday_def)
  qed
  have "Allows s now = list_ex (\<lambda>sl. ss_Day sl = py_weekday secs \<and> str_le (ss_Start sl) (clock_text (minute_of_day secs))
      \<and> str_less (clock_text (minute_of_day secs)) (ss_End sl)) (sc_Slots s)"
    using assms(1-4,6) by (simp add: Allows_def local_secs_def Let_def)
  also have "\<dots> = list_ex (\<lambda>(d, a, b). d = py_weekday secs \<and> a \<le> minute_of_day secs \<and> minute_of_day secs < b) ws"
    unfolding assms(3) using assms(5)
    by (induction ws) (auto simp: str_less_def str_le_clock m not_le)
  finally show ?thesis by (simp only: day minute_of_day_def)
qed

theorem schedule_minutes_witness:
  "Allows \<lparr>sc_Enabled = True, sc_Location = Some (\<lambda>t. 19800), sc_Slots = [\<lparr>ss_Day = 3, ss_Start = ''09:00'', ss_End = ''18:30''\<rparr>]\<rparr>
     (12 * 3600 * second) \<longleftrightarrow> True"
proof -
  have c: "''09:00'' = clock_text 540" "''18:30'' = clock_text 1110" by code_simp+
  show ?thesis
    unfolding c using schedule_minutes [of "\<lparr>sc_Enabled = True, sc_Location = Some (\<lambda>t. 19800),
      sc_Slots = [\<lparr>ss_Day = 3, ss_Start = clock_text 540, ss_End = clock_text 1110\<rparr>]\<rparr>" "\<lambda>t. 19800" "[(3, 540, 1110)]"
      "12 * 3600 + 19800" "12 * 3600 * second"]
    by (simp add: second_def)
qed

end
