(* ===== verification/Campaign_Store.thy ===== *)
theory Campaign_Store
  imports Campaign_Config "HOL-Library.Product_Lexorder"
begin

text \<open>
  The tables of Dograh the dialer works on and the statements of \<open>internal/dograh/campaign.go\<close> and
  \<open>outbound.go\<close> on them: the queue of contacts (\<open>queued_runs\<close>), the campaigns' state and counters, and
  the runs of calls (\<open>workflow_runs\<close>). Each statement is one atomic step of the database.
\<close>

section \<open>Tables\<close>

text \<open>A contact's variable: a string, a number, a flag or something else (JSON).\<close>

datatype jval = JStr string | JNum rat | JBool bool | JOther

type_synonym vars = "string \<rightharpoonup> jval"

datatype row_state = RsQueued | RsProcessing | RsProcessed | RsFailed

record queued_run =
  q_ID :: int
  q_CampaignID :: int
  q_SourceUUID :: string
  q_Variables :: vars
  q_RetryCount :: int
  q_RetryReason :: string

record queued_row = queued_run +
  qr_state :: row_state
  qr_scheduled_for :: "int option"
  qr_parent :: "int option"

datatype campaign_state = CsRunning | CsPaused | CsCompleted | CsOther

record campaign_row =
  cr_state :: campaign_state
  cr_org :: int
  cr_processed_rows :: nat
  cr_failed_rows :: nat

datatype wf_state = WfInitialized | WfRunning | WfCompleted

record workflow_run =
  wr_ID :: int
  wr_campaign_id :: "int option"
  wr_queued_run_id :: "int option"
  wr_state :: wf_state
  wr_is_completed :: bool
  wr_created_at :: int
  wr_tags :: "string list"
  wr_disposition :: string

text \<open>\<open>st_vaani\<close>: organizations whose media engine is Vaani; \<open>st_workflows\<close>: the workflows that exist;
  the last two fields are the sequences of the two id columns.\<close>

record store =
  st_queued :: "queued_row list"
  st_campaigns :: "int \<rightharpoonup> campaign_row"
  st_runs :: "workflow_run list"
  st_vaani :: "int \<Rightarrow> bool"
  st_workflows :: "int \<Rightarrow> bool"
  st_next_q :: int
  st_next_r :: int

section \<open>Numbers as text\<close>

fun dec_nat :: "nat \<Rightarrow> string" where
  "dec_nat n = (if n < 10 then [digit n] else dec_nat (n div 10) @ [digit (n mod 10)])"

declare dec_nat.simps [simp del]

definition dec :: "int \<Rightarrow> string" where
  "dec n = (if n < 0 then ''-'' @ dec_nat (nat (- n)) else dec_nat (nat n))"

section \<open>The queue\<close>

definition to_queued_run :: "queued_row \<Rightarrow> queued_run" where
  "to_queued_run r = queued_run.truncate r"

definition is_due :: "int \<Rightarrow> int \<Rightarrow> queued_row \<Rightarrow> bool" where
  "is_due campaignID now r = (q_CampaignID r = campaignID \<and> qr_state r = RsQueued
     \<and> (case qr_scheduled_for r of None \<Rightarrow> True | Some t \<Rightarrow> t \<le> now))"

text \<open>\<open>ORDER BY (scheduled_for IS NULL), scheduled_for, id\<close>\<close>

definition claim_key :: "queued_row \<Rightarrow> nat \<times> int \<times> int" where
  "claim_key r = (case qr_scheduled_for r of None \<Rightarrow> (1, 0, q_ID r) | Some t \<Rightarrow> (0, t, q_ID r))"

definition ClaimRuns :: "int \<Rightarrow> int \<Rightarrow> int \<Rightarrow> store \<Rightarrow> store \<times> queued_run list" where
  "ClaimRuns campaignID limit now st =
     (let due = take (nat limit) (sort_key claim_key (filter (is_due campaignID now) (st_queued st)));
          ids = map q_ID due
      in (st\<lparr>st_queued := map (\<lambda>r. if q_ID r \<in> set ids then r\<lparr>qr_state := RsProcessing\<rparr> else r) (st_queued st)\<rparr>,
          map to_queued_run due))"

definition bump_processed :: "int \<Rightarrow> store \<Rightarrow> store" where
  "bump_processed c st = st\<lparr>st_campaigns := (\<lambda>i. if i = c then map_option (\<lambda>r. r\<lparr>cr_processed_rows := cr_processed_rows r + 1\<rparr>) (st_campaigns st i)
     else st_campaigns st i)\<rparr>"

definition AddFailedRow :: "int \<Rightarrow> store \<Rightarrow> store" where
  "AddFailedRow c st = st\<lparr>st_campaigns := (\<lambda>i. if i = c then map_option (\<lambda>r. r\<lparr>cr_failed_rows := cr_failed_rows r + 1\<rparr>) (st_campaigns st i)
     else st_campaigns st i)\<rparr>"

fun find_row :: "int \<Rightarrow> queued_row list \<Rightarrow> queued_row option" where
  "find_row i [] = None"
| "find_row i (r # rs) = (if q_ID r = i then Some r else find_row i rs)"

text \<open>\<open>SetRunState\<close> on one of its three states; the flag is whether the row was found.\<close>

definition SetRunState :: "int \<Rightarrow> row_state \<Rightarrow> store \<Rightarrow> store \<times> bool" where
  "SetRunState runID state st =
     (case find_row runID (st_queued st) of
        None \<Rightarrow> (st, False)
      | Some row \<Rightarrow>
          let st = st\<lparr>st_queued := map (\<lambda>r. if q_ID r = runID then r\<lparr>qr_state := state\<rparr> else r) (st_queued st)\<rparr>
          in (case state of
                RsProcessed \<Rightarrow> bump_processed (q_CampaignID row) st
              | RsFailed \<Rightarrow> AddFailedRow (q_CampaignID row) st
              | _ \<Rightarrow> st, True))"

definition retry_vars :: "queued_run \<Rightarrow> string \<Rightarrow> vars" where
  "retry_vars run reason = (q_Variables run)(''is_retry'' \<mapsto> JBool True,
     ''retry_attempt'' \<mapsto> JNum (of_int (q_RetryCount run + 1)), ''retry_reason'' \<mapsto> JStr reason)"

definition ScheduleRetry :: "queued_run \<Rightarrow> string \<Rightarrow> int \<Rightarrow> int \<Rightarrow> store \<Rightarrow> store" where
  "ScheduleRetry run reason delay now st =
     (let source = q_SourceUUID run @ ''_retry_'' @ dec (q_RetryCount run + 1)
      in if list_ex (\<lambda>r. q_CampaignID r = q_CampaignID run \<and> q_SourceUUID r = source
              \<and> q_RetryCount r = q_RetryCount run + 1) (st_queued st) then st
         else st\<lparr>st_queued := st_queued st @ [\<lparr>q_ID = st_next_q st, q_CampaignID = q_CampaignID run,
                q_SourceUUID = source, q_Variables = retry_vars run reason, q_RetryCount = q_RetryCount run + 1,
                q_RetryReason = reason, qr_state = RsQueued, qr_scheduled_for = Some (now + delay),
                qr_parent = Some (q_ID run)\<rparr>],
              st_next_q := st_next_q st + 1\<rparr>)"

definition OpenWork :: "int \<Rightarrow> store \<Rightarrow> nat \<times> nat" where
  "OpenWork campaignID st =
     (length (filter (\<lambda>r. q_CampaignID r = campaignID \<and> qr_state r = RsQueued) (st_queued st)),
      length (filter (\<lambda>r. q_CampaignID r = campaignID \<and> qr_state r = RsProcessing) (st_queued st)))"

section \<open>Campaigns\<close>

definition CampaignRunning :: "int \<Rightarrow> store \<Rightarrow> bool" where
  "CampaignRunning i st = (case st_campaigns st i of None \<Rightarrow> False | Some c \<Rightarrow> cr_state c = CsRunning)"

definition SetCampaignState :: "int \<Rightarrow> campaign_state \<Rightarrow> campaign_state \<Rightarrow> store \<Rightarrow> store \<times> bool" where
  "SetCampaignState i from_state to_state st = (case st_campaigns st i of
      Some c \<Rightarrow> if cr_state c = from_state
        then (st\<lparr>st_campaigns := (st_campaigns st)(i \<mapsto> c\<lparr>cr_state := to_state\<rparr>)\<rparr>, True) else (st, False)
    | None \<Rightarrow> (st, False))"

definition CompleteCampaign :: "int \<Rightarrow> store \<Rightarrow> store \<times> bool" where
  "CompleteCampaign i st = SetCampaignState i CsRunning CsCompleted st"

text \<open>\<open>VaaniCampaigns\<close>: the table's rows with their settings columns, \<open>None\<close> where those do not
  decode, in the order of their ids.\<close>

definition VaaniCampaigns :: "(string \<Rightarrow> location option) \<Rightarrow> (int \<times> int \<times> int \<times> campaign_json option) list \<Rightarrow> store \<Rightarrow> campaign list" where
  "VaaniCampaigns load rows st = concat (map (\<lambda>(i, workflow, rate, json).
     case (st_campaigns st i, json) of
       (Some c, Some j) \<Rightarrow>
         if cr_state c = CsRunning \<and> st_vaani st (cr_org c)
         then [parseCampaign load j \<lparr>cp_ID = i, cp_OrganizationID = cr_org c, cp_WorkflowID = workflow,
                 cp_RatePerSecond = max rate 1, cp_MaxConcurrency = 0,
                 cp_Retry = \<lparr>rc_Enabled = False, rc_MaxRetries = 0, rc_Delay = 0, rc_OnBusy = False,
                    rc_OnNoAnswer = False, rc_OnVoicemail = False\<rparr>,
                 cp_Schedule = \<lparr>sc_Enabled = False, sc_Location = None, sc_Slots = []\<rparr>,
                 cp_Breaker = \<lparr>br_Enabled = False, br_Threshold = 0, br_Window = 0, br_MinCalls = 0\<rparr>\<rparr>]
         else []
     | _ \<Rightarrow> []) rows)"

section \<open>Runs of calls\<close>

definition nullif0 :: "int \<Rightarrow> int option" where
  "nullif0 n = (if n = 0 then None else Some n)"

definition CreateOutboundRun :: "campaign \<Rightarrow> int \<Rightarrow> int \<Rightarrow> store \<Rightarrow> store \<times> int option" where
  "CreateOutboundRun c queuedID now st =
     (if \<not> st_workflows st (cp_WorkflowID c) then (st, None)
      else (st\<lparr>st_runs := st_runs st @ [\<lparr>wr_ID = st_next_r st, wr_campaign_id = nullif0 (cp_ID c),
                wr_queued_run_id = nullif0 queuedID, wr_state = WfInitialized, wr_is_completed = False,
                wr_created_at = now, wr_tags = [], wr_disposition = []\<rparr>],
              st_next_r := st_next_r st + 1\<rparr>, Some (st_next_r st)))"

definition MarkRunRunning :: "int \<Rightarrow> store \<Rightarrow> store" where
  "MarkRunRunning runID st = st\<lparr>st_runs := map (\<lambda>r. if wr_ID r = runID then r\<lparr>wr_state := WfRunning\<rparr> else r) (st_runs st)\<rparr>"

definition completeRun :: "int \<Rightarrow> string list \<Rightarrow> string \<Rightarrow> store \<Rightarrow> store" where
  "completeRun runID tags disposition st =
     st\<lparr>st_runs := map (\<lambda>r. if wr_ID r = runID
        then r\<lparr>wr_is_completed := True, wr_state := WfCompleted, wr_tags := wr_tags r @ tags, wr_disposition := disposition\<rparr>
        else r) (st_runs st)\<rparr>"

definition lower :: "char \<Rightarrow> char" where
  "lower c = (let n = of_char c :: nat in if 65 \<le> n \<and> n \<le> 90 then char_of (n + 32) else c)"

definition MarkNotConnected :: "int \<Rightarrow> string \<Rightarrow> store \<Rightarrow> store" where
  "MarkNotConnected runID status st =
     completeRun runID [''not_connected'', ''telephony_'' @ map lower status] (notConnectedDisposition status) st"

definition MarkInterrupted :: "int \<Rightarrow> store \<Rightarrow> store" where
  "MarkInterrupted runID st = completeRun runID [''interrupted''] ''INTERRUPTED'' st"

section \<open>Recovery\<close>

definition vaani_campaign :: "store \<Rightarrow> int \<Rightarrow> bool" where
  "vaani_campaign st i = (case st_campaigns st i of None \<Rightarrow> False | Some c \<Rightarrow> st_vaani st (cr_org c))"

definition has_run :: "store \<Rightarrow> int \<Rightarrow> bool" where
  "has_run st queuedID = list_ex (\<lambda>w. wr_queued_run_id w = Some queuedID) (st_runs st)"

definition RecoverContacts :: "store \<Rightarrow> store" where
  "RecoverContacts st = st\<lparr>st_queued := map (\<lambda>r.
     if qr_state r = RsProcessing \<and> vaani_campaign st (q_CampaignID r)
     then r\<lparr>qr_state := (if has_run st (q_ID r) then RsProcessed else RsQueued)\<rparr> else r) (st_queued st)\<rparr>"

text \<open>A call of a Vaani campaign is outbound (\<open>call_type\<close>) as every run with a campaign here.\<close>

definition StaleRuns :: "int \<Rightarrow> bool \<Rightarrow> int list \<Rightarrow> store \<Rightarrow> workflow_run list" where
  "StaleRuns initializedBefore includeRunning live st = sort_key wr_ID (filter (\<lambda>w.
     \<not> wr_is_completed w \<and> wr_ID w \<notin> set live
     \<and> (case wr_campaign_id w of None \<Rightarrow> False | Some c \<Rightarrow> vaani_campaign st c)
     \<and> (wr_state w = WfInitialized \<and> wr_created_at w < initializedBefore \<or> includeRunning \<and> wr_state w = WfRunning))
     (st_runs st))"

section \<open>What a claim takes\<close>

lemma ClaimRuns_one:
  assumes "ClaimRuns c 1 now st = (st', q # qs)"
  obtains r where "qs = []" "q = to_queued_run r" "r \<in> set (st_queued st)" "is_due c now r"
    "\<And>x. x \<in> set (st_queued st) \<Longrightarrow> is_due c now x \<Longrightarrow> claim_key r \<le> claim_key x"
    "st' = st\<lparr>st_queued := map (\<lambda>x. if q_ID x = q_ID r then x\<lparr>qr_state := RsProcessing\<rparr> else x) (st_queued st)\<rparr>"
proof -
  define due where "due = sort_key claim_key (filter (is_due c now) (st_queued st))"
  have due_set: "set due = {r \<in> set (st_queued st). is_due c now r}" by (simp add: due_def)
  obtain r rest where d: "due = r # rest"
    using assms by (cases due) (auto simp: ClaimRuns_def Let_def simp flip: due_def)
  have "sorted (map claim_key due)" by (simp add: due_def)
  then have "claim_key r \<le> claim_key x" if "x \<in> set due" for x using that d by auto
  moreover have "st' = st\<lparr>st_queued := map (\<lambda>x. if q_ID x = q_ID r then x\<lparr>qr_state := RsProcessing\<rparr> else x) (st_queued st)\<rparr>"
    "q = to_queued_run r" "qs = []"
    using assms by (auto simp: ClaimRuns_def Let_def d simp flip: due_def)
  moreover have "r \<in> set due" by (simp add: d)
  ultimately show ?thesis using that due_set by auto
qed

lemma ClaimRuns_none:
  assumes "ClaimRuns c 1 now st = (st', [])"
  shows "st' = st \<and> filter (is_due c now) (st_queued st) = []"
proof -
  have "sort_key claim_key (filter (is_due c now) (st_queued st)) = []"
    using assms by (auto simp: ClaimRuns_def Let_def take_Suc split: list.splits)
  then have "set (filter (is_due c now) (st_queued st)) = {}" by (metis set_sort list.set(1))
  with assms show ?thesis by (simp add: ClaimRuns_def Let_def)
qed

end
