(* ===== verification/Campaign_Runner.thy ===== *)
theory Campaign_Runner
  imports Campaign_Store Limiter_Laws
begin

text \<open>
  \<open>internal/campaign/runner.go\<close>: the dialer. \<open>dialOne\<close> is everything up to the \<open>Dial\<close> request of one
  contact; the call manager answers it with \<open>dial_returned\<close> and reports the call's end with
  \<open>finished\<close>. Every request to the database or to Redis has a fate (\<open>io\<close>), looked up by its site.
  Log lines and metrics are left out.
\<close>

section \<open>State\<close>

datatype site = AtRunning | AtBreaker | AtWallet | AtLimit | AtRate | AtToken | AtWait | AtCap | AtSlot | AtDrop
  | AtClaim | AtSettings | AtCreate | AtState | AtPause | AtReleaseCap | AtRelease | AtOutcome | AtNotConnected
  | AtRetry | AtOpenWork | AtComplete | AtRecover | AtStale

text \<open>What a step sees of its surroundings: the fates, the clock, four random bytes, the
  organizations' settings, and the dialer's configuration.\<close>

record 'd env =
  ev_fate :: "site \<Rightarrow> io"
  ev_now :: int
  ev_rand :: u32
  ev_redis :: "'d redis"
  ev_maxCalls :: int
  ev_OrgLimit :: "int \<Rightarrow> int option"
  ev_OrgRate :: "int \<Rightarrow> int option"
  ev_wallet :: "int \<Rightarrow> string option \<times> rat option \<times> rat option \<times> rat option"
  ev_settings :: "int \<Rightarrow> dial_settings option"
  ev_format :: "rat \<Rightarrow> string"
  ev_DefaultOrgLimit :: int
  ev_RingTimeout :: int

text \<open>A dialed call: what its \<open>Done\<close> closure holds.\<close>

record placed =
  pl_campaign :: campaign
  pl_q :: queued_run
  pl_run :: int
  pl_slot :: slot

record 'd runner =
  rn_db :: store
  rn_redis :: 'd
  rn_draining :: "int list"
  rn_inflight :: "int \<Rightarrow> int"
  rn_live :: "int list"
  rn_wake :: bool
  rn_calls :: "placed list"

datatype run_effect =
    Acquired slot | Released slot | Dialed int int string string | PausedCampaign int | CompletedCampaign int

datatype step = StepDialed | StepWait int | StepStop

record outcome =
  oc_Connected :: bool
  oc_Status :: string

section \<open>Helpers\<close>

text \<open>A statement on the database, and one that needs no answer.\<close>

definition db_call :: "'d env \<Rightarrow> site \<Rightarrow> (store \<Rightarrow> store \<times> 'a) \<Rightarrow> 'd runner \<Rightarrow> 'd runner \<times> 'a option" where
  "db_call e a f rn = (let (db, r) = remote_call (ev_fate e a) f (rn_db rn) in (rn\<lparr>rn_db := db\<rparr>, r))"

definition db_do :: "'d env \<Rightarrow> site \<Rightarrow> (store \<Rightarrow> store) \<Rightarrow> 'd runner \<Rightarrow> 'd runner" where
  "db_do e a f rn = fst (db_call e a (\<lambda>d. (f d, ())) rn)"

definition run_pause :: "'d env \<Rightarrow> campaign \<Rightarrow> 'd runner \<Rightarrow> 'd runner \<times> run_effect list" where
  "run_pause e c rn =
     (let (rn, moved) = db_call e AtPause (SetCampaignState (cp_ID c) CsRunning CsPaused) rn
      in (rn, if moved = Some True then [PausedCampaign (cp_ID c)] else []))"

definition orgLimit :: "'d env \<Rightarrow> campaign \<Rightarrow> int option" where
  "orgLimit e c =
     (if ev_fate e AtLimit \<noteq> Answered then None
      else let limit = (case ev_OrgLimit e (cp_OrganizationID c) of Some n \<Rightarrow> n | None \<Rightarrow> ev_DefaultOrgLimit e)
           in Some (if cp_MaxConcurrency c > 0 \<and> cp_MaxConcurrency c < limit then cp_MaxConcurrency c else limit))"

definition dialRate :: "'d env \<Rightarrow> campaign \<Rightarrow> int option" where
  "dialRate e c =
     (if ev_fate e AtRate \<noteq> Answered then None
      else case ev_OrgRate e (cp_OrganizationID c) of
        None \<Rightarrow> Some (cp_RatePerSecond c) | Some rate \<Rightarrow> Some (max rate 1))"

definition WalletBlocks :: "'d env \<Rightarrow> campaign \<Rightarrow> bool" where
  "WalletBlocks e c =
     (if ev_fate e AtWallet \<noteq> Answered then False
      else case ev_wallet e (cp_OrganizationID c) of (mode, rate, balance, credit) \<Rightarrow> walletBlocks mode rate balance credit)"

definition run_release :: "'d env \<Rightarrow> slot \<Rightarrow> 'd runner \<Rightarrow> 'd runner \<times> run_effect list" where
  "run_release e s rn =
     (rn\<lparr>rn_redis := fst (ReleaseSlot (ev_redis e) (ev_maxCalls e) (ev_fate e AtReleaseCap, ev_fate e AtRelease) s (rn_redis rn))\<rparr>,
      [Released s])"

definition phoneOf :: "(rat \<Rightarrow> string) \<Rightarrow> vars \<Rightarrow> string" where
  "phoneOf fmt v = (case v ''phone_number'' of Some (JStr s) \<Rightarrow> s | Some (JNum n) \<Rightarrow> fmt n | _ \<Rightarrow> [])"

definition setRunState :: "'d env \<Rightarrow> queued_run \<Rightarrow> row_state \<Rightarrow> 'd runner \<Rightarrow> 'd runner" where
  "setRunState e q s rn = db_do e AtState (fst \<circ> SetRunState (q_ID q) s) rn"

definition markNotConnected :: "'d env \<Rightarrow> int \<Rightarrow> string \<Rightarrow> 'd runner \<Rightarrow> 'd runner" where
  "markNotConnected e runID status rn = db_do e AtNotConnected (MarkNotConnected runID status) rn"

definition run_recordOutcome :: "'d env \<Rightarrow> campaign \<Rightarrow> bool \<Rightarrow> 'd runner \<Rightarrow> 'd runner \<times> run_effect list" where
  "run_recordOutcome e c failure rn =
     (let (d, res) = RecordOutcome (ev_redis e) (ev_fate e AtOutcome) (ev_now e) (cp_ID c) failure (cp_Breaker c) (rn_redis rn);
          rn = rn\<lparr>rn_redis := d\<rparr>
      in case res of Inr (True, f, s) \<Rightarrow> run_pause e c rn | _ \<Rightarrow> (rn, []))"

definition addInflight :: "int \<Rightarrow> int \<Rightarrow> 'd runner \<Rightarrow> 'd runner" where
  "addInflight c n rn =
     (let m = rn_inflight rn c + n in rn\<lparr>rn_inflight := (rn_inflight rn)(c := if m \<le> 0 then 0 else m)\<rparr>)"

definition track :: "int \<Rightarrow> bool \<Rightarrow> 'd runner \<Rightarrow> 'd runner" where
  "track runID live rn =
     rn\<lparr>rn_live := (if live then List.insert runID (rn_live rn) else removeAll runID (rn_live rn))\<rparr>"

definition InFlight :: "int \<Rightarrow> 'd runner \<Rightarrow> int" where
  "InFlight i rn = rn_inflight rn i"

definition maybeComplete :: "'d env \<Rightarrow> campaign \<Rightarrow> 'd runner \<Rightarrow> 'd runner \<times> run_effect list" where
  "maybeComplete e c rn =
     (if InFlight (cp_ID c) rn > 0 then (rn, [])
      else case db_call e AtOpenWork (\<lambda>d. (d, OpenWork (cp_ID c) d)) rn of
        (rn, None) \<Rightarrow> (rn, [])
      | (rn, Some (queued, processing)) \<Rightarrow>
          if queued > 0 \<or> processing > 0 then (rn, [])
          else if InFlight (cp_ID c) rn > 0 then (rn, [])
          else let (rn, done) = db_call e AtComplete (CompleteCampaign (cp_ID c)) rn
               in (rn, if done = Some True then [CompletedCampaign (cp_ID c)] else []))"

section \<open>Dialing\<close>

text \<open>\<open>place\<close> up to the \<open>Dial\<close> request; its last component is the call being dialed.\<close>

definition place :: "'d env \<Rightarrow> campaign \<Rightarrow> queued_run \<Rightarrow> slot \<Rightarrow> 'd runner \<Rightarrow> 'd runner \<times> run_effect list \<times> step" where
  "place e c q s rn =
     (let phone = phoneOf (ev_format e) (q_Variables q);
          giveBack = (\<lambda>rn. let (rn, ev) = run_release e s rn in (setRunState e q RsQueued rn, ev, StepStop))
      in if phone = [] then
           let (rn, ev) = run_release e s rn in (setRunState e q RsFailed rn, ev, StepDialed)
         else case (if ev_fate e AtSettings = Answered then ev_settings e (cp_OrganizationID c) else None) of
             None \<Rightarrow> giveBack rn
           | Some settings \<Rightarrow>
               if ds_Provider settings \<noteq> ''ari'' then
                 let (rn, ev) = run_pause e c rn; (rn, ev', st) = giveBack rn in (rn, ev @ ev', st)
               else
                 let caller = CallerID settings (cp_WorkflowID c);
                     (rn, created) = db_call e AtCreate (CreateOutboundRun c (q_ID q) (ev_now e)) rn
                 in case created of
                      Some (Some runID) \<Rightarrow>
                        let rn = track runID True (addInflight (cp_ID c) 1 rn)
                        in (rn\<lparr>rn_calls := \<lparr>pl_campaign = c, pl_q = q, pl_run = runID, pl_slot = s\<rparr> # rn_calls rn\<rparr>,
                            [Dialed (q_ID q) runID (DialEndpoint settings phone) caller], StepDialed)
                    | _ \<Rightarrow> giveBack rn)"

text \<open>From the slot on.\<close>

definition claim_and_place :: "'d env \<Rightarrow> campaign \<Rightarrow> slot \<Rightarrow> 'd runner \<Rightarrow> 'd runner \<times> run_effect list \<times> step" where
  "claim_and_place e c s rn =
     (case db_call e AtClaim (ClaimRuns (cp_ID c) 1 (ev_now e)) rn of
        (rn, None) \<Rightarrow> let (rn, ev) = run_release e s rn in (rn, ev, StepStop)
      | (rn, Some []) \<Rightarrow>
          let (rn, ev) = run_release e s rn; (rn, ev') = maybeComplete e c rn in (rn, ev @ ev', StepStop)
      | (rn, Some (q # qs)) \<Rightarrow> place e c q s rn)"

definition dialOne :: "'d env \<Rightarrow> campaign \<Rightarrow> 'd runner \<Rightarrow> 'd runner \<times> run_effect list \<times> step" where
  "dialOne e c rn =
     (if ev_fate e AtRunning \<noteq> Answered \<or> \<not> CampaignRunning (cp_ID c) (rn_db rn) then (rn, [], StepStop)
      else if \<not> Allows (cp_Schedule c) (ev_now e) then (rn, [], StepStop)
      else
        let (d, breaker) = BreakerOpen (ev_redis e) (ev_fate e AtBreaker) (ev_now e) (cp_ID c) (cp_Breaker c) (rn_redis rn);
            rn = rn\<lparr>rn_redis := d\<rparr>
        in if (case breaker of Inr (tripped, f, s) \<Rightarrow> tripped | Inl err \<Rightarrow> False) \<or> WalletBlocks e c
           then let (rn, ev) = run_pause e c rn in (rn, ev, StepStop)
           else case (orgLimit e c, dialRate e c) of
             (Some limit, Some rate) \<Rightarrow>
               let (d, token) = AcquireToken (ev_redis e) (ev_fate e AtToken) (ev_now e) (cp_OrganizationID c) rate (rn_redis rn);
                   rn = rn\<lparr>rn_redis := d\<rparr>
               in (case token of
                     Inl err \<Rightarrow> (rn, [], StepStop)
                   | Inr False \<Rightarrow> (rn, [], StepWait (fst (NextTokenWait (ev_redis e) (ev_fate e AtWait) (ev_now e) (cp_OrganizationID c) (rn_redis rn))))
                   | Inr True \<Rightarrow>
                       let (d, got) = AcquireSlot (ev_redis e) (ev_maxCalls e) (ev_fate e AtCap, ev_fate e AtSlot, ev_fate e AtDrop)
                             (ev_now e) (ev_rand e) (cp_OrganizationID c) limit (rn_redis rn);
                           rn = rn\<lparr>rn_redis := d\<rparr>
                       in (case got of
                             Inr (Some s) \<Rightarrow> let (rn, ev, st) = claim_and_place e c s rn in (rn, Acquired s # ev, st)
                           | _ \<Rightarrow> (rn, [], StepStop)))
           | _ \<Rightarrow> (rn, [], StepStop))"

section \<open>The end of a call\<close>

definition forget_call :: "int \<Rightarrow> 'd runner \<Rightarrow> 'd runner" where
  "forget_call runID rn = rn\<lparr>rn_calls := filter (\<lambda>p. pl_run p \<noteq> runID) (rn_calls rn)\<rparr>"

text \<open>\<open>place\<close> after \<open>Dial\<close> returned; \<open>ok\<close> is whether it returned no error.\<close>

definition dial_returned :: "'d env \<Rightarrow> placed \<Rightarrow> bool \<Rightarrow> 'd runner \<Rightarrow> 'd runner \<times> run_effect list" where
  "dial_returned e p ok rn =
     (if ok then (setRunState e (pl_q p) RsProcessed rn, [])
      else
        let rn = forget_call (pl_run p) rn;
            rn = track (pl_run p) False (addInflight (cp_ID (pl_campaign p)) (- 1) rn);
            (rn, ev) = run_release e (pl_slot p) rn;
            (rn, ev') = run_recordOutcome e (pl_campaign p) True rn;
            rn = markNotConnected e (pl_run p) StatusFailed rn
        in (setRunState e (pl_q p) RsFailed rn, ev @ ev'))"

definition retry_or_fail :: "'d env \<Rightarrow> placed \<Rightarrow> outcome \<Rightarrow> 'd runner \<Rightarrow> 'd runner" where
  "retry_or_fail e p out rn =
     (let c = pl_campaign p; q = pl_q p; reason = retryReason (oc_Status out)
      in if reason \<noteq> [] \<and> Eligible (cp_Retry c) reason then
           if q_RetryCount q \<ge> rc_MaxRetries (cp_Retry c) then db_do e AtRetry (AddFailedRow (cp_ID c)) rn
           else db_do e AtRetry (ScheduleRetry q reason (rc_Delay (cp_Retry c)) (ev_now e)) rn
         else rn)"

definition finished :: "'d env \<Rightarrow> placed \<Rightarrow> outcome \<Rightarrow> 'd runner \<Rightarrow> 'd runner \<times> run_effect list" where
  "finished e p out rn =
     (let c = pl_campaign p;
          (rn, ev) = run_release e (pl_slot p) (forget_call (pl_run p) rn);
          (rn, ev') =
            (if oc_Connected out then run_recordOutcome e c False rn
             else
               let (rn, ev') = run_recordOutcome e c (oc_Status out = StatusFailed \<or> oc_Status out = StatusRejected) rn
               in (markNotConnected e (pl_run p) (oc_Status out) (retry_or_fail e p out rn), ev'));
          rn = track (pl_run p) False rn;
          rn = addInflight (cp_ID c) (- 1) rn
      in (rn\<lparr>rn_wake := True\<rparr>, ev @ ev'))"

section \<open>Scanning and recovery\<close>

definition scan :: "campaign list \<Rightarrow> 'd runner \<Rightarrow> 'd runner \<times> campaign list" where
  "scan cs rn = fold (\<lambda>c (rn, started). if cp_ID c \<in> set (rn_draining rn) then (rn, started)
     else (rn\<lparr>rn_draining := cp_ID c # rn_draining rn\<rparr>, started @ [c])) cs (rn, [])"

definition drain_done :: "campaign \<Rightarrow> 'd runner \<Rightarrow> 'd runner" where
  "drain_done c rn = rn\<lparr>rn_draining := removeAll (cp_ID c) (rn_draining rn)\<rparr>"

definition drain_wait :: "int \<Rightarrow> int" where
  "drain_wait wait = min (max wait 10000000) 1000000000"

definition sweep :: "'d env \<Rightarrow> bool \<Rightarrow> 'd runner \<Rightarrow> 'd runner" where
  "sweep e startup rn =
     (case db_call e AtStale (\<lambda>d. (d, StaleRuns (ev_now e - (ev_RingTimeout e + 60 * second)) startup (rn_live rn) d)) rn of
        (rn, None) \<Rightarrow> rn
      | (rn, Some stale) \<Rightarrow> fold (\<lambda>w rn.
           if wr_state w = WfRunning then db_do e AtNotConnected (MarkInterrupted (wr_ID w)) rn
           else db_do e AtNotConnected (MarkNotConnected (wr_ID w) StatusFailed) rn) stale rn)"

definition run_recover :: "'d env \<Rightarrow> 'd runner \<Rightarrow> 'd runner" where
  "run_recover e rn = sweep e True (db_do e AtRecover RecoverContacts rn)"

text \<open>A new process on the same tables and the same Redis.\<close>

definition NewRunner :: "store \<Rightarrow> 'd \<Rightarrow> 'd runner" where
  "NewRunner db d = \<lparr>rn_db = db, rn_redis = d, rn_draining = [], rn_inflight = (\<lambda>c. 0), rn_live = [],
     rn_wake = False, rn_calls = []\<rparr>"

end
