(* ===== verification/Runner_Props.thy ===== *)
theory Runner_Props
  imports Campaign_Runner
begin

text \<open>
  The dialer as a step relation and its invariants: every slot taken belongs to a dialed call or was
  given back, the in-flight counters count the dialed calls, and what happens to a contact's row.
\<close>

section \<open>Steps\<close>

text \<open>\<open>dialed\<close> stands for both answers of \<open>Dial\<close>: the call manager reports an error only for a call it
  will not report the end of, and the end of a call once. The environment pauses and resumes
  campaigns, loads contacts and moves runs on.\<close>

inductive env_step :: "store \<Rightarrow> store \<Rightarrow> bool" where
  ui_state: "st_campaigns st i = Some c \<Longrightarrow> env_step st (st\<lparr>st_campaigns := (st_campaigns st)(i \<mapsto> c\<lparr>cr_state := s\<rparr>)\<rparr>)"
| load: "env_step st (st\<lparr>st_queued := st_queued st @ [\<lparr>q_ID = st_next_q st, q_CampaignID = c, q_SourceUUID = u, q_Variables = v,
      q_RetryCount = 0, q_RetryReason = [], qr_state = RsQueued, qr_scheduled_for = None, qr_parent = None\<rparr>],
      st_next_q := st_next_q st + 1\<rparr>)"
| running: "env_step st (MarkRunRunning runID st)"
| other_run: "CreateOutboundRun c 0 now st = (st', r) \<Longrightarrow> env_step st st'"

inductive runner_step :: "'d runner \<Rightarrow> run_effect list \<Rightarrow> 'd runner \<Rightarrow> bool" where
  scanned: "runner_step rn [] (fst (scan cs rn))"
| dial: "cp_ID c \<in> set (rn_draining rn) \<Longrightarrow> dialOne e c rn = (rn', ev, st) \<Longrightarrow> runner_step rn ev rn'"
| drained: "runner_step rn [] (drain_done c rn)"
| dial_ok: "dial_returned e p True rn = (rn', ev) \<Longrightarrow> runner_step rn ev rn'"
| dial_err: "p \<in> set (rn_calls rn) \<Longrightarrow> dial_returned e p False rn = (rn', ev) \<Longrightarrow> runner_step rn ev rn'"
| call_over: "p \<in> set (rn_calls rn) \<Longrightarrow> finished e p out rn = (rn', ev) \<Longrightarrow> runner_step rn ev rn'"
| swept: "runner_step rn [] (sweep e False rn)"
| environment: "env_step (rn_db rn) db \<Longrightarrow> runner_step rn [] (rn\<lparr>rn_db := db\<rparr>)"

inductive runner_run :: "'d runner \<Rightarrow> run_effect list \<Rightarrow> 'd runner \<Rightarrow> bool" for s0 where
  start: "runner_run s0 [] s0"
| step: "runner_run s0 ev s \<Longrightarrow> runner_step s ev' s' \<Longrightarrow> runner_run s0 (ev @ ev') s'"

text \<open>A history with crashes: after one, a new process recovers on the same tables.\<close>

inductive process_run :: "'d runner \<Rightarrow> run_effect list \<Rightarrow> 'd runner \<Rightarrow> bool" for s0 where
  p_start: "process_run s0 [] s0"
| p_step: "process_run s0 ev s \<Longrightarrow> runner_step s ev' s' \<Longrightarrow> process_run s0 (ev @ ev') s'"
| p_crash: "process_run s0 ev s \<Longrightarrow> process_run s0 ev (run_recover e (NewRunner (rn_db s) (rn_redis s)))"

section \<open>What the helpers leave alone\<close>

definition rows :: "store \<Rightarrow> (int \<times> row_state) list" where
  "rows st = map (\<lambda>r. (q_ID r, qr_state r)) (st_queued st)"

definition run_rows :: "store \<Rightarrow> int option list" where
  "run_rows st = map wr_queued_run_id (st_runs st)"

text \<open>What the invariants speak of: the dialed calls, the two sequences, the contacts' states and the
  contacts with a run.\<close>

definition db_view :: "store \<Rightarrow> int \<times> int \<times> (int \<times> row_state) list \<times> int option list" where
  "db_view st = (st_next_r st, st_next_q st, rows st, run_rows st)"

definition calls_of :: "'d runner \<Rightarrow> (int \<Rightarrow> int) \<times> int list \<times> placed list" where
  "calls_of rn = (rn_inflight rn, rn_live rn, rn_calls rn)"

definition rview :: "'d runner \<Rightarrow> ((int \<Rightarrow> int) \<times> int list \<times> placed list) \<times> int \<times> int \<times> (int \<times> row_state) list \<times> int option list" where
  "rview rn = (calls_of rn, db_view (rn_db rn))"

lemmas rview_defs = rview_def calls_of_def db_view_def

named_theorems run_frame \<open>what a helper does not change\<close>

lemma db_view_store [run_frame]:
  "db_view (AddFailedRow c st) = db_view st" "db_view (bump_processed c st) = db_view st"
  "db_view (fst (SetCampaignState i a b st)) = db_view st" "db_view (fst (CompleteCampaign i st)) = db_view st"
  "db_view (MarkRunRunning r st) = db_view st" "db_view (completeRun r t u st) = db_view st"
  "db_view (MarkNotConnected r u st) = db_view st" "db_view (MarkInterrupted r st) = db_view st"
  by (auto simp: db_view_def rows_def run_rows_def AddFailedRow_def bump_processed_def SetCampaignState_def
      CompleteCampaign_def MarkRunRunning_def completeRun_def MarkNotConnected_def MarkInterrupted_def
      split: option.split)

lemma db_call_calls [run_frame]: "calls_of (fst (db_call e a f rn)) = calls_of rn"
  by (simp add: db_call_def calls_of_def split_beta)

lemma db_call_db: "rn_db (fst (db_call e a f rn)) = rn_db rn \<or> rn_db (fst (db_call e a f rn)) = fst (f (rn_db rn))"
  by (cases "ev_fate e a") (simp_all add: db_call_def remote_call_def split_beta)

lemma db_call_some: "snd (db_call e a f rn) = Some x \<Longrightarrow> x = snd (f (rn_db rn)) \<and> rn_db (fst (db_call e a f rn)) = fst (f (rn_db rn))"
  by (cases "ev_fate e a") (simp_all add: db_call_def remote_call_def split_beta)

lemma db_call_quiet:
  assumes "\<And>st. db_view (fst (f st)) = db_view st"
  shows "rview (fst (db_call e a f rn)) = rview rn"
  using db_call_db [of e a f rn] assms by (auto simp: rview_def run_frame)

lemma db_do_calls [run_frame]: "calls_of (db_do e a f rn) = calls_of rn"
  by (simp add: db_do_def run_frame)

lemma db_do_db: "rn_db (db_do e a f rn) = rn_db rn \<or> rn_db (db_do e a f rn) = f (rn_db rn)"
  using db_call_db [of e a "\<lambda>d. (f d, ())" rn] by (simp add: db_do_def)

lemma db_do_quiet:
  assumes "\<And>st. db_view (f st) = db_view st"
  shows "rview (db_do e a f rn) = rview rn"
  using assms by (simp add: db_do_def db_call_quiet)

lemma redis_quiet [run_frame]: "rview (rn\<lparr>rn_redis := d\<rparr>) = rview rn" "rview (rn\<lparr>rn_wake := b\<rparr>) = rview rn"
  "rview (rn\<lparr>rn_draining := cs\<rparr>) = rview rn"
  by (simp_all add: rview_defs)

lemma pause_quiet [run_frame]: "rview (fst (run_pause e c rn)) = rview rn"
  by (simp add: run_pause_def split_beta db_call_quiet run_frame)

lemma release_quiet [run_frame]: "rview (fst (run_release e s rn)) = rview rn" "snd (run_release e s rn) = [Released s]"
  "rn_db (fst (run_release e s rn)) = rn_db rn"
  by (simp_all add: run_release_def rview_defs)

lemma mark_quiet [run_frame]: "rview (markNotConnected e r u rn) = rview rn"
  by (simp add: markNotConnected_def db_do_quiet run_frame)

lemma outcome_quiet [run_frame]: "rview (fst (run_recordOutcome e c f rn)) = rview rn"
  by (auto simp: run_recordOutcome_def Let_def split_beta run_frame split: sum.split prod.split bool.split)

lemma complete_quiet [run_frame]: "rview (fst (maybeComplete e c rn)) = rview rn"
proof -
  have o: "rview (fst (db_call e AtOpenWork (\<lambda>d. (d, OpenWork (cp_ID c) d)) rn)) = rview rn"
    by (rule db_call_quiet) simp
  have k: "rview (fst (db_call e AtComplete (CompleteCampaign (cp_ID c)) k)) = rview k" for k :: "'a runner"
    by (rule db_call_quiet) (simp add: run_frame)
  show ?thesis
    by (cases "db_call e AtOpenWork (\<lambda>d. (d, OpenWork (cp_ID c) d)) rn")
       (use o k in \<open>auto simp: maybeComplete_def split_beta split: option.split\<close>)
qed

lemma sweep_quiet [run_frame]: "rview (sweep e b rn) = rview rn"
proof -
  let ?f = "\<lambda>w rn. if wr_state w = WfRunning then db_do e AtNotConnected (MarkInterrupted (wr_ID w)) rn
    else db_do e AtNotConnected (MarkNotConnected (wr_ID w) StatusFailed) rn"
  have f: "rview (fold ?f ws k) = rview k" for ws :: "workflow_run list" and k :: "'a runner"
    by (induction ws arbitrary: k) (simp_all add: db_do_quiet run_frame)
  let ?call = "db_call e AtStale (\<lambda>d. (d, StaleRuns (ev_now e - (ev_RingTimeout e + 60 * second)) b (rn_live rn) d)) rn"
  have "rview (fst ?call) = rview rn" by (rule db_call_quiet) simp
  then show ?thesis by (cases ?call) (auto simp: sweep_def f split: option.split)
qed

lemma setRunState_calls [run_frame]: "calls_of (setRunState e q sta rn) = calls_of rn"
  by (simp add: setRunState_def run_frame)

lemma retry_calls [run_frame]: "calls_of (retry_or_fail e p out rn) = calls_of rn"
  by (simp add: retry_or_fail_def Let_def run_frame)

section \<open>What the effects say\<close>

definition acquired :: "run_effect list \<Rightarrow> slot multiset" where
  "acquired ev = mset (concat (map (\<lambda>x. case x of Acquired s \<Rightarrow> [s] | _ \<Rightarrow> []) ev))"

definition released :: "run_effect list \<Rightarrow> slot multiset" where
  "released ev = mset (concat (map (\<lambda>x. case x of Released s \<Rightarrow> [s] | _ \<Rightarrow> []) ev))"

definition dialed :: "run_effect list \<Rightarrow> int list" where
  "dialed ev = concat (map (\<lambda>x. case x of Dialed q _ _ _ \<Rightarrow> [q] | _ \<Rightarrow> []) ev)"

definition silent :: "run_effect list \<Rightarrow> bool" where
  "silent ev = (\<forall>x \<in> set ev. case x of PausedCampaign c \<Rightarrow> True | CompletedCampaign c \<Rightarrow> True | _ \<Rightarrow> False)"

lemma effects_simps [simp]:
  "acquired [] = {#}" "released [] = {#}" "dialed [] = []"
  "acquired (x # ev) = (case x of Acquired s \<Rightarrow> {#s#} | _ \<Rightarrow> {#}) + acquired ev"
  "released (x # ev) = (case x of Released s \<Rightarrow> {#s#} | _ \<Rightarrow> {#}) + released ev"
  "dialed (x # ev) = (case x of Dialed q _ _ _ \<Rightarrow> [q] | _ \<Rightarrow> []) @ dialed ev"
  "acquired (ev @ ev') = acquired ev + acquired ev'" "released (ev @ ev') = released ev + released ev'"
  "dialed (ev @ ev') = dialed ev @ dialed ev'"
  by (auto simp: acquired_def released_def dialed_def split: run_effect.split)

lemma silent_simps [simp]: "silent []" "silent (ev @ ev') \<longleftrightarrow> silent ev \<and> silent ev'"
  by (simp_all add: silent_def ball_Un)

lemma silentD: "silent ev \<Longrightarrow> acquired ev = {#} \<and> released ev = {#} \<and> dialed ev = []"
  by (induction ev) (auto simp: silent_def split: run_effect.splits)

lemma silent_helpers [run_frame]:
  "silent (snd (run_pause e c rn))" "silent (snd (run_recordOutcome e c f rn))" "silent (snd (maybeComplete e c rn))"
proof -
  show p: "silent (snd (run_pause e c rn))" for c and rn :: "'a runner"
    by (simp add: run_pause_def split_beta silent_def)
  show "silent (snd (run_recordOutcome e c f rn))"
    by (auto simp: run_recordOutcome_def Let_def split_beta p split: sum.split prod.split bool.split)
  show "silent (snd (maybeComplete e c rn))"
    by (auto simp: maybeComplete_def split_beta silent_def split: option.split)
qed

section \<open>The branches of \<open>dialOne\<close>\<close>

text \<open>A contact given back: its slot is released and its row is set to \<open>sta\<close>, in a database that
  may have gained a run.\<close>

definition given_back :: "'d env \<Rightarrow> campaign \<Rightarrow> queued_run \<Rightarrow> slot \<Rightarrow> row_state \<Rightarrow> 'd runner \<Rightarrow> 'd runner \<Rightarrow> run_effect list \<Rightarrow> bool" where
  "given_back e c q s sta rn rn' ev = (\<exists>rn1. rn' = setRunState e q sta rn1 \<and> calls_of rn1 = calls_of rn
     \<and> (db_view (rn_db rn1) = db_view (rn_db rn)
        \<or> db_view (rn_db rn1) = db_view (fst (CreateOutboundRun c (q_ID q) (ev_now e) (rn_db rn))))
     \<and> acquired ev = {#} \<and> released ev = {#s#} \<and> dialed ev = [])"

text \<open>A contact dialed.\<close>

definition placed_call :: "'d env \<Rightarrow> campaign \<Rightarrow> queued_run \<Rightarrow> slot \<Rightarrow> 'd runner \<Rightarrow> 'd runner \<Rightarrow> run_effect list \<Rightarrow> bool" where
  "placed_call e c q s rn rn' ev = (\<exists>r rn1. CreateOutboundRun c (q_ID q) (ev_now e) (rn_db rn) = (rn_db rn', Some r)
     \<and> rn1 = track r True (addInflight (cp_ID c) 1 rn)
     \<and> calls_of rn' = calls_of (rn1\<lparr>rn_calls := \<lparr>pl_campaign = c, pl_q = q, pl_run = r, pl_slot = s\<rparr> # rn_calls rn\<rparr>)
     \<and> acquired ev = {#} \<and> released ev = {#} \<and> dialed ev = [q_ID q])"

lemma rview_calls: "rview a = rview b \<Longrightarrow> calls_of a = calls_of b \<and> db_view (rn_db a) = db_view (rn_db b)"
  by (simp add: rview_def)

lemma release_back:
  assumes "calls_of rn1 = calls_of rn"
    and "db_view (rn_db rn1) = db_view (rn_db rn)
        \<or> db_view (rn_db rn1) = db_view (fst (CreateOutboundRun c (q_ID q) (ev_now e) (rn_db rn)))"
    and "silent ev"
  shows "given_back e c q s sta rn (setRunState e q sta (fst (run_release e s rn1))) (ev @ snd (run_release e s rn1))"
proof -
  have "rview (fst (run_release e s rn1)) = rview rn1" by (simp add: run_frame)
  then show ?thesis using assms silentD [OF assms(3)]
    unfolding given_back_def by (intro exI [of _ "fst (run_release e s rn1)"]) (auto simp: rview_def run_frame)
qed

lemma place_cases:
  assumes "place e c q s rn = (rn', ev, st)"
  shows "(\<exists>sta. (sta = RsFailed \<and> phoneOf (ev_format e) (q_Variables q) = [] \<and> st = StepDialed \<or> sta = RsQueued \<and> st = StepStop)
      \<and> given_back e c q s sta rn rn' ev) \<or> placed_call e c q s rn rn' ev \<and> st = StepDialed"
proof -
  let ?phone = "phoneOf (ev_format e) (q_Variables q)"
  let ?set = "if ev_fate e AtSettings = Answered then ev_settings e (cp_OrganizationID c) else None"
  let ?mk = "db_call e AtCreate (CreateOutboundRun c (q_ID q) (ev_now e)) rn"
  consider (phone) "?phone = []" | (none) "?phone \<noteq> []" "?set = None"
    | (provider) s' where "?phone \<noteq> []" "?set = Some s'" "ds_Provider s' \<noteq> ''ari''"
    | (ok) s' r where "?phone \<noteq> []" "?set = Some s'" "ds_Provider s' = ''ari''" "snd ?mk = Some (Some r)"
    | (fail) s' where "?phone \<noteq> []" "?set = Some s'" "ds_Provider s' = ''ari''" "\<nexists>r. snd ?mk = Some (Some r)"
    by fastforce
  then show ?thesis
  proof cases
    case phone
    then show ?thesis using assms release_back [of rn rn c q e "[]" s RsFailed] by (auto simp: place_def split_beta)
  next
    case none
    then show ?thesis using assms release_back [of rn rn c q e "[]" s RsQueued] by (auto simp: place_def split_beta)
  next
    case provider
    have "calls_of (fst (run_pause e c rn)) = calls_of rn \<and> db_view (rn_db (fst (run_pause e c rn))) = db_view (rn_db rn)"
      by (rule rview_calls) (simp add: run_frame)
    then show ?thesis using provider assms release_back [of "fst (run_pause e c rn)" rn c q e "snd (run_pause e c rn)" s RsQueued]
      by (auto simp: place_def split_beta run_frame)
  next
    case ok
    obtain k o' where k: "?mk = (k, o')" by (cases ?mk)
    have d: "CreateOutboundRun c (q_ID q) (ev_now e) (rn_db rn) = (rn_db k, Some r)"
      using db_call_some [of e AtCreate "CreateOutboundRun c (q_ID q) (ev_now e)" rn "Some r"] ok(4) k by (simp add: prod_eq_iff)
    have kc: "rn_calls k = rn_calls rn" "rn_inflight k = rn_inflight rn" "rn_live k = rn_live rn"
      using db_call_calls [of e AtCreate "CreateOutboundRun c (q_ID q) (ev_now e)" rn] k by (simp_all add: calls_of_def)
    have "placed_call e c q s rn rn' ev \<and> st = StepDialed"
      using assms ok k kc d
      by (auto simp: place_def split_beta placed_call_def track_def addInflight_def calls_of_def Let_def)
    then show ?thesis by simp
  next
    case fail
    obtain k o' where k: "?mk = (k, o')" by (cases ?mk)
    have kc: "calls_of k = calls_of rn" "rn_db k = rn_db rn \<or> rn_db k = fst (CreateOutboundRun c (q_ID q) (ev_now e) (rn_db rn))"
      using db_call_calls [of e AtCreate "CreateOutboundRun c (q_ID q) (ev_now e)" rn]
        db_call_db [of e AtCreate "CreateOutboundRun c (q_ID q) (ev_now e)" rn] k by simp_all
    have "place e c q s rn = (setRunState e q RsQueued (fst (run_release e s k)), [] @ snd (run_release e s k), StepStop)"
      using fail k by (auto simp: place_def split_beta Let_def split: option.splits)
    moreover have "given_back e c q s RsQueued rn (setRunState e q RsQueued (fst (run_release e s k))) ([] @ snd (run_release e s k))"
      by (rule release_back) (use kc in auto)
    ultimately show ?thesis using assms by auto
  qed
qed

lemma claim_and_place_cases:
  assumes "claim_and_place e c s rn = (rn', ev, st)"
  obtains (none) "calls_of rn' = calls_of rn" "acquired ev = {#}" "released ev = {#s#}" "dialed ev = []"
      "db_view (rn_db rn') = db_view (rn_db rn) \<or> ev_fate e AtClaim = AnswerLost
         \<and> db_view (rn_db rn') = db_view (fst (ClaimRuns (cp_ID c) 1 (ev_now e) (rn_db rn)))"
    | (place) q qs rn1 where "place e c q s rn1 = (rn', ev, st)" "calls_of rn1 = calls_of rn"
      "ClaimRuns (cp_ID c) 1 (ev_now e) (rn_db rn) = (rn_db rn1, q # qs)"
proof -
  obtain k o' where k: "db_call e AtClaim (ClaimRuns (cp_ID c) 1 (ev_now e)) rn = (k, o')" by (cases "db_call e AtClaim (ClaimRuns (cp_ID c) 1 (ev_now e)) rn")
  have kc: "calls_of k = calls_of rn" "rn_db k = rn_db rn \<or> rn_db k = fst (ClaimRuns (cp_ID c) 1 (ev_now e) (rn_db rn))"
    using db_call_calls [of e AtClaim "ClaimRuns (cp_ID c) 1 (ev_now e)" rn]
      db_call_db [of e AtClaim "ClaimRuns (cp_ID c) 1 (ev_now e)" rn] k by simp_all
  have rel: "calls_of (fst (run_release e s k)) = calls_of k" "db_view (rn_db (fst (run_release e s k))) = db_view (rn_db k)"
    using rview_calls [OF release_quiet(1)] by auto
  show ?thesis
  proof (cases o')
    case None
    have "rn_db k = rn_db rn \<or> ev_fate e AtClaim = AnswerLost \<and> rn_db k = fst (ClaimRuns (cp_ID c) 1 (ev_now e) (rn_db rn))"
      using k None by (cases "ev_fate e AtClaim") (auto simp: db_call_def remote_call_def)
    then show ?thesis using assms k None kc(1) rel none by (auto simp: claim_and_place_def split_beta run_frame)
  next
    case (Some x)
    show ?thesis
    proof (cases x)
      case Nil
      let ?k = "fst (run_release e s k)"
      have m: "calls_of (fst (maybeComplete e c ?k)) = calls_of k" "db_view (rn_db (fst (maybeComplete e c ?k))) = db_view (rn_db k)"
        using rview_calls [OF complete_quiet [of e c ?k]] rel by simp_all
      have "rn' = fst (maybeComplete e c ?k)" "ev = Released s # snd (maybeComplete e c ?k)"
        using assms k Some Nil by (auto simp: claim_and_place_def split_beta run_frame)
      moreover have "rn_db k = rn_db rn"
        using db_call_some [of e AtClaim "ClaimRuns (cp_ID c) 1 (ev_now e)" rn "[]"] k Some Nil
          ClaimRuns_none [of "cp_ID c" "ev_now e" "rn_db rn"] by (simp add: prod_eq_iff)
      ultimately show ?thesis using none m kc(1) silentD [OF silent_helpers(3) [of e c ?k]] by auto
    next
      case (Cons q qs)
      have "ClaimRuns (cp_ID c) 1 (ev_now e) (rn_db rn) = (rn_db k, q # qs)"
        using db_call_some [of e AtClaim "ClaimRuns (cp_ID c) 1 (ev_now e)" rn x] k Some Cons by (simp add: prod_eq_iff)
      then show ?thesis using place [of q k qs] assms k Some Cons kc by (simp add: claim_and_place_def)
    qed
  qed
qed

lemma pause_not_completes [run_frame]: "CompletedCampaign i \<notin> set (snd (run_pause e c rn))"
  by (simp add: run_pause_def split_beta)

lemma dialOne_cases:
  assumes "dialOne e c rn = (rn', ev, st)"
  obtains (quiet) "rview rn' = rview rn" "silent ev" "\<forall>i. CompletedCampaign i \<notin> set ev"
    | (slot) s rn1 ev1 where "claim_and_place e c s rn1 = (rn', ev1, st)" "rview rn1 = rview rn" "ev = Acquired s # ev1"
      "rn_db rn1 = rn_db rn"
  using assms unfolding dialOne_def Let_def split_beta
  by (auto simp: run_frame split: if_splits option.splits sum.splits bool.splits prod.splits)

end
