(* ===== verification/Runner_Book.thy ===== *)
theory Runner_Book
  imports Runner_Props
begin

text \<open>
  The accounts of slots and calls (\<open>call_book\<close>), which every step of the dialer keeps.
\<close>

section \<open>The accounts of the calls\<close>

definition calls_in :: "int \<Rightarrow> placed list \<Rightarrow> nat" where
  "calls_in c ps = length (filter (\<lambda>p. cp_ID (pl_campaign p) = c) ps)"

definition call_slots :: "'d runner \<Rightarrow> slot multiset" where
  "call_slots rn = mset (map pl_slot (rn_calls rn))"

text \<open>Every dialed call has its own run, younger than the sequence; the counters count them.\<close>

definition call_book :: "'d runner \<Rightarrow> bool" where
  "call_book rn \<longleftrightarrow> distinct (map pl_run (rn_calls rn)) \<and> (\<forall>p \<in> set (rn_calls rn). pl_run p < st_next_r (rn_db rn))
     \<and> (\<forall>c. rn_inflight rn c = int (calls_in c (rn_calls rn))) \<and> set (rn_live rn) = pl_run ` set (rn_calls rn)"

lemma calls_in_simps [simp]: "calls_in c [] = 0"
  "calls_in c (p # ps) = (if cp_ID (pl_campaign p) = c then 1 else 0) + calls_in c ps"
  by (simp_all add: calls_in_def)

lemma call_book_same:
  fixes rn rn' :: "'d runner"
  assumes "call_book rn" "calls_of rn' = calls_of rn" "st_next_r (rn_db rn) \<le> st_next_r (rn_db rn')"
  shows "call_book rn' \<and> call_slots rn' = call_slots rn"
  using assms by (force simp: call_book_def call_slots_def calls_of_def)

lemma call_book_add:
  fixes rn rn' :: "'d runner"
  assumes "call_book rn" "calls_of rn' = calls_of ((track r True (addInflight (cp_ID c) 1 rn))\<lparr>rn_calls :=
      \<lparr>pl_campaign = c, pl_q = q, pl_run = r, pl_slot = s\<rparr> # rn_calls rn\<rparr>)"
    and "r = st_next_r (rn_db rn)" "st_next_r (rn_db rn') = r + 1"
  shows "call_book rn' \<and> call_slots rn' = call_slots rn + {#s#}"
  using assms by (force simp: call_book_def call_slots_def calls_of_def track_def addInflight_def Let_def)

lemma remove_call:
  assumes "distinct (map pl_run ps)" "p \<in> set ps"
  obtains xs ys where "ps = xs @ p # ys" "filter (\<lambda>x. pl_run x \<noteq> pl_run p) ps = xs @ ys"
proof -
  obtain xs ys where ps: "ps = xs @ p # ys" using assms(2) by (meson split_list)
  with assms(1) have "\<forall>x \<in> set xs \<union> set ys. pl_run x \<noteq> pl_run p" by (auto simp: image_iff)
  then have "filter (\<lambda>x. pl_run x \<noteq> pl_run p) ps = xs @ ys" using ps by (simp add: filter_id_conv)
  with ps show ?thesis using that by blast
qed

lemma calls_in_append [simp]: "calls_in c (xs @ ys) = calls_in c xs + calls_in c ys"
  by (simp add: calls_in_def)

lemma call_book_remove:
  fixes rn rn' :: "'d runner"
  assumes "call_book rn" "p \<in> set (rn_calls rn)"
    and "calls_of rn' = calls_of (track (pl_run p) False (addInflight (cp_ID (pl_campaign p)) (- 1) (forget_call (pl_run p) rn)))"
    and "st_next_r (rn_db rn) \<le> st_next_r (rn_db rn')"
  shows "call_book rn' \<and> call_slots rn = call_slots rn' + {#pl_slot p#}"
proof -
  from assms(1) have d: "distinct (map pl_run (rn_calls rn))" by (simp add: call_book_def)
  obtain xs ys where xy: "rn_calls rn = xs @ p # ys" "filter (\<lambda>x. pl_run x \<noteq> pl_run p) (rn_calls rn) = xs @ ys"
    using remove_call [OF d assms(2)] by blast
  have c': "rn_calls rn' = xs @ ys" "rn_live rn' = removeAll (pl_run p) (rn_live rn)"
    "rn_inflight rn' = (rn_inflight rn)(cp_ID (pl_campaign p) := rn_inflight rn (cp_ID (pl_campaign p)) - 1)"
    using assms(1,3) xy by (auto simp: calls_of_def track_def addInflight_def forget_call_def Let_def call_book_def)
  have "set (rn_live rn') = pl_run ` set (xs @ ys)"
    using assms(1) d xy(1) by (auto simp: c' call_book_def image_iff)
  moreover have "rn_inflight rn' i = int (calls_in i (xs @ ys))" for i
    using assms(1) by (simp add: c'(3) call_book_def xy(1))
  moreover have "pl_run x < st_next_r (rn_db rn')" if "x \<in> set (xs @ ys)" for x
  proof -
    from that xy(1) have "x \<in> set (rn_calls rn)" by auto
    with assms(1) have "pl_run x < st_next_r (rn_db rn)" by (simp add: call_book_def)
    with assms(4) show ?thesis by simp
  qed
  ultimately have "call_book rn'" using d by (simp add: call_book_def c'(1) xy(1))
  then show ?thesis by (simp add: call_slots_def c'(1) xy(1))
qed

section \<open>Every step keeps them\<close>

lemma next_r_CreateOutboundRun:
  "CreateOutboundRun c q now st = (st', Some r) \<Longrightarrow> r = st_next_r st \<and> st_next_r st' = r + 1"
  "st_next_r st \<le> st_next_r (fst (CreateOutboundRun c q now st))"
  by (auto simp: CreateOutboundRun_def split: if_splits)

lemma next_r_rows [simp]: "st_next_r (fst (SetRunState i sta st)) = st_next_r st"
  "st_next_r (fst (ClaimRuns c n now st)) = st_next_r st" "st_next_r (ScheduleRetry q re de now st) = st_next_r st"
  by (auto simp: SetRunState_def ClaimRuns_def ScheduleRetry_def Let_def AddFailedRow_def bump_processed_def
      split: option.split row_state.split)

lemma next_r_setRunState [simp]: "st_next_r (rn_db (setRunState e q sta rn)) = st_next_r (rn_db rn)"
  using db_do_db [of e AtState "fst \<circ> SetRunState (q_ID q) sta" rn] by (auto simp: setRunState_def)

lemma next_r_retry [simp]: "st_next_r (rn_db (retry_or_fail e p out rn)) = st_next_r (rn_db rn)"
proof -
  have v: "st_next_r (AddFailedRow c st) = st_next_r st" for c st by (simp add: AddFailedRow_def)
  show ?thesis
    using db_do_db [of e AtRetry "AddFailedRow (cp_ID (pl_campaign p))" rn]
      db_do_db [of e AtRetry "ScheduleRetry (pl_q p) (retryReason (oc_Status out)) (rc_Delay (cp_Retry (pl_campaign p))) (ev_now e)" rn]
    by (auto simp: retry_or_fail_def Let_def v)
qed

lemma rview_next_r: "rview a = rview b \<Longrightarrow> st_next_r (rn_db a) = st_next_r (rn_db b)"
  by (simp add: rview_defs)

lemma dial_book:
  assumes "call_book rn" "dialOne e c rn = (rn', ev, st)"
  shows "call_book rn' \<and> call_slots rn + acquired ev = call_slots rn' + released ev"
  using assms(2)
proof (cases rule: dialOne_cases)
  case quiet
  then have "calls_of rn' = calls_of rn" "st_next_r (rn_db rn) \<le> st_next_r (rn_db rn')"
    by (simp_all add: rview_defs)
  from call_book_same [OF assms(1) this] silentD [OF quiet(2)] show ?thesis by simp
next
  case (slot s rn1 ev1)
  have b1: "call_book rn1 \<and> call_slots rn1 = call_slots rn"
  proof (rule call_book_same [OF assms(1)])
    show "calls_of rn1 = calls_of rn" "st_next_r (rn_db rn) \<le> st_next_r (rn_db rn1)"
      using slot(2) by (simp_all add: rview_defs)
  qed
  have "call_book rn' \<and> call_slots rn1 + {#s#} + acquired ev1 = call_slots rn' + released ev1"
    using slot(1)
  proof (cases rule: claim_and_place_cases)
    case none
    then show ?thesis using call_book_same [of rn1 rn'] b1 by (auto simp: db_view_def)
  next
    case (place q qs rn2)
    have b2: "call_book rn2 \<and> call_slots rn2 = call_slots rn1"
      using call_book_same [of rn1 rn2] b1 place(2,3) next_r_rows(2) [of "cp_ID c" 1 "ev_now e" "rn_db rn1"] by simp
    from place_cases [OF place(1)] show ?thesis
    proof (elim disjE exE conjE)
      assume "placed_call e c q s rn2 rn' ev1"
      then show ?thesis unfolding placed_call_def
        using call_book_add [where rn = rn2 and rn' = rn' and c = c and q = q and s = s] b2 next_r_CreateOutboundRun(1) by fastforce
    next
      fix sta assume "given_back e c q s sta rn2 rn' ev1"
      then show ?thesis unfolding given_back_def
        using call_book_same [of rn2 rn'] b2 next_r_CreateOutboundRun(2) [of "rn_db rn2" c "q_ID q" "ev_now e"]
        by (auto simp: run_frame db_view_def)
    next
      fix sta assume "given_back e c q s sta rn2 rn' ev1"
      then show ?thesis unfolding given_back_def
        using call_book_same [of rn2 rn'] b2 next_r_CreateOutboundRun(2) [of "rn_db rn2" c "q_ID q" "ev_now e"]
        by (auto simp: run_frame db_view_def)
    qed
  qed
  then show ?thesis using b1 slot(3) by (simp add: ac_simps)
qed

lemma rview_eq:
  "rview a = rview b \<longleftrightarrow> rn_inflight a = rn_inflight b \<and> rn_live a = rn_live b \<and> rn_calls a = rn_calls b
     \<and> db_view (rn_db a) = db_view (rn_db b)"
  by (auto simp: rview_def calls_of_def)

lemma finished_view:
  assumes "finished e p out rn = (rn', ev)"
  shows "calls_of rn' = calls_of (track (pl_run p) False (addInflight (cp_ID (pl_campaign p)) (- 1) (forget_call (pl_run p) rn)))"
    and "st_next_r (rn_db rn') = st_next_r (rn_db rn)" and "acquired ev = {#} \<and> released ev = {#pl_slot p#} \<and> dialed ev = []"
proof -
  let ?c = "pl_campaign p"
  define k where "k = fst (run_release e (pl_slot p) (forget_call (pl_run p) rn))"
  define f where "f \<longleftrightarrow> \<not> oc_Connected out \<and> (oc_Status out = StatusFailed \<or> oc_Status out = StatusRejected)"
  define m where "m = run_recordOutcome e ?c f k"
  define z where "z = (if oc_Connected out then fst m else markNotConnected e (pl_run p) (oc_Status out) (retry_or_fail e p out (fst m)))"
  have r: "rn' = (addInflight (cp_ID ?c) (- 1) (track (pl_run p) False z))\<lparr>rn_wake := True\<rparr>" "ev = Released (pl_slot p) # snd m"
    using assms by (auto simp: finished_def Let_def split_beta z_def m_def k_def f_def run_frame)
  have k: "rview k = rview (forget_call (pl_run p) rn)" by (simp add: k_def run_frame)
  have m: "rview (fst m) = rview k" by (simp add: m_def run_frame)
  have zc: "calls_of z = calls_of (fst m)"
    using rview_calls [OF mark_quiet [of e "pl_run p" "oc_Status out" "retry_or_fail e p out (fst m)"]]
    by (simp add: z_def run_frame)
  have zn: "st_next_r (rn_db z) = st_next_r (rn_db (fst m))"
    using rview_next_r [OF mark_quiet [of e "pl_run p" "oc_Status out" "retry_or_fail e p out (fst m)"]]
    by (simp add: z_def)
  from zc m k have "calls_of z = calls_of (forget_call (pl_run p) rn)" by (simp add: rview_def)
  then show "calls_of rn' = calls_of (track (pl_run p) False (addInflight (cp_ID ?c) (- 1) (forget_call (pl_run p) rn)))"
    by (simp add: r(1) calls_of_def track_def addInflight_def Let_def)
  show "st_next_r (rn_db rn') = st_next_r (rn_db rn)"
    using zn rview_next_r [OF m] rview_next_r [OF k] by (simp add: r(1) track_def addInflight_def forget_call_def Let_def)
  show "acquired ev = {#} \<and> released ev = {#pl_slot p#} \<and> dialed ev = []"
    using silentD [OF silent_helpers(2) [of e ?c f k]] by (simp add: r(2) m_def)
qed

lemma dial_err_view:
  assumes "dial_returned e p False rn = (rn', ev)"
  shows "calls_of rn' = calls_of (track (pl_run p) False (addInflight (cp_ID (pl_campaign p)) (- 1) (forget_call (pl_run p) rn)))"
    and "st_next_r (rn_db rn') = st_next_r (rn_db rn)" and "acquired ev = {#} \<and> released ev = {#pl_slot p#} \<and> dialed ev = []"
proof -
  let ?t = "track (pl_run p) False (addInflight (cp_ID (pl_campaign p)) (- 1) (forget_call (pl_run p) rn))"
  define k where "k = fst (run_release e (pl_slot p) ?t)"
  define m where "m = run_recordOutcome e (pl_campaign p) True k"
  define z where "z = markNotConnected e (pl_run p) StatusFailed (fst m)"
  have r: "rn' = setRunState e (pl_q p) RsFailed z" "ev = Released (pl_slot p) # snd m"
    using assms by (auto simp: dial_returned_def Let_def split_beta z_def m_def k_def run_frame)
  have z: "rview z = rview ?t" by (simp add: z_def m_def k_def run_frame)
  then show "calls_of rn' = calls_of ?t" by (simp add: r(1) run_frame rview_def)
  show "st_next_r (rn_db rn') = st_next_r (rn_db rn)"
    using rview_next_r [OF z] by (simp add: r(1) track_def addInflight_def forget_call_def Let_def)
  show "acquired ev = {#} \<and> released ev = {#pl_slot p#} \<and> dialed ev = []"
    using silentD [OF silent_helpers(2) [of e "pl_campaign p" True k]] by (simp add: r(2) m_def)
qed

lemma env_next_r: "env_step st st' \<Longrightarrow> st_next_r st \<le> st_next_r st'"
  by (erule env_step.cases) (auto simp: MarkRunRunning_def CreateOutboundRun_def split: if_splits)

lemma scan_view: "rview (fst (scan cs rn)) = rview rn"
proof -
  have "rview (fst (fold (\<lambda>c (rn, started). if cp_ID c \<in> set (rn_draining rn) then (rn, started)
     else (rn\<lparr>rn_draining := cp_ID c # rn_draining rn\<rparr>, started @ [c])) cs (k, l))) = rview k" for k :: "'a runner" and l
    by (induction cs arbitrary: k l) (simp_all add: run_frame)
  then show ?thesis by (simp add: scan_def)
qed

lemma step_book:
  assumes "runner_step rn ev rn'" "call_book rn"
  shows "call_book rn' \<and> call_slots rn + acquired ev = call_slots rn' + released ev"
  using assms
proof cases
  case (scanned cs)
  then show ?thesis using call_book_same [OF assms(2), of rn'] scan_view [of cs rn] by (simp add: rview_defs)
next
  case (dial c e st)
  then show ?thesis using dial_book [OF assms(2)] by blast
next
  case (drained c)
  then show ?thesis using call_book_same [OF assms(2), of rn'] by (simp add: drain_done_def calls_of_def)
next
  case (dial_ok e p)
  then show ?thesis using call_book_same [OF assms(2), of rn'] by (auto simp: dial_returned_def run_frame)
next
  case (dial_err p e)
  from dial_err_view [OF dial_err(2)] call_book_remove [OF assms(2) dial_err(1), of rn'] show ?thesis by simp
next
  case (call_over p e out)
  from finished_view [OF call_over(2)] call_book_remove [OF assms(2) call_over(1), of rn'] show ?thesis by simp
next
  case (swept e)
  then show ?thesis using call_book_same [OF assms(2), of rn'] sweep_quiet [of e False rn] by (simp add: rview_defs)
next
  case (environment db)
  then show ?thesis using call_book_same [OF assms(2), of rn'] env_next_r by (auto simp: calls_of_def)
qed

lemma run_book:
  assumes "runner_run rn0 ev rn" "call_book rn0"
  shows "call_book rn \<and> call_slots rn0 + acquired ev = call_slots rn + released ev"
  using assms
proof induction
  case start
  then show ?case by simp
next
  case (step ev s ev' s')
  then show ?case using step_book [of s ev' s'] by (metis (no_types, lifting) add.assoc add.commute effects_simps(7,8))
qed

lemma NewRunner_book: "call_book (NewRunner db d)" "call_slots (NewRunner db d) = {#}"
  by (simp_all add: call_book_def call_slots_def NewRunner_def calls_in_def)

end
