(* ===== verification/Runner_Rows.thy ===== *)
theory Runner_Rows
  imports Runner_Book
begin

text \<open>
  The contacts' rows over whole histories of the dialer, crashes included: a dialed contact has a run
  and never waits in the queue again (\<open>dialed_rows\<close>).
\<close>

section \<open>What holds of the rows\<close>

definition good_store :: "store \<Rightarrow> bool" where
  "good_store st \<longleftrightarrow> 1 \<le> st_next_q st \<and> (\<forall>r \<in> set (st_queued st). 1 \<le> q_ID r \<and> q_ID r < st_next_q st)"

text \<open>A dialed contact has a run, and is not waiting in the queue.\<close>

definition dialed_rows :: "int set \<Rightarrow> store \<Rightarrow> bool" where
  "dialed_rows D st \<longleftrightarrow> 1 \<le> st_next_q st \<and> (\<forall>(i, sta) \<in> set (rows st). 1 \<le> i \<and> i < st_next_q st)
     \<and> (\<forall>i \<in> D. i < st_next_q st \<and> Some i \<in> set (run_rows st) \<and> (i, RsQueued) \<notin> set (rows st))"

lemma dialed_rows_view: "db_view st' = db_view st \<Longrightarrow> dialed_rows D st \<Longrightarrow> dialed_rows D st'"
  by (simp add: dialed_rows_def db_view_def)

lemma dialed_rview: "rview rn' = rview rn \<Longrightarrow> dialed_rows D (rn_db rn) \<Longrightarrow> dialed_rows D (rn_db rn')"
  by (rule dialed_rows_view) (simp_all add: rview_def)

lemma rows_SetRunState:
  "rows (fst (SetRunState i sta st)) = (if find_row i (st_queued st) = None then rows st
     else map (\<lambda>(j, s). (j, if j = i then sta else s)) (rows st))"
  "st_next_q (fst (SetRunState i sta st)) = st_next_q st" "run_rows (fst (SetRunState i sta st)) = run_rows st"
  by (auto simp: SetRunState_def rows_def run_rows_def Let_def AddFailedRow_def bump_processed_def
      split: option.split row_state.split)

lemma dialed_SetRunState:
  assumes "dialed_rows D st" "sta \<noteq> RsQueued \<or> i \<notin> D"
  shows "dialed_rows D (fst (SetRunState i sta st))"
  using assms unfolding dialed_rows_def rows_SetRunState by (fastforce split: if_splits)

lemma dialed_ClaimRuns:
  assumes "dialed_rows D st"
  shows "dialed_rows D (fst (ClaimRuns c n now st))"
  using assms by (auto simp: dialed_rows_def rows_def run_rows_def ClaimRuns_def Let_def split: if_splits)

lemma dialed_ScheduleRetry:
  assumes "dialed_rows D st"
  shows "dialed_rows D (ScheduleRetry q re de now st)"
  using assms by (fastforce simp: dialed_rows_def rows_def run_rows_def ScheduleRetry_def Let_def)

lemma dialed_CreateOutboundRun:
  assumes "dialed_rows D st"
  shows "dialed_rows D (fst (CreateOutboundRun c q now st))"
  using assms by (auto simp: dialed_rows_def rows_def run_rows_def CreateOutboundRun_def)

lemma dialed_RecoverContacts:
  assumes "dialed_rows D st"
  shows "dialed_rows D (RecoverContacts st)"
proof -
  have "has_run st i" if "i \<in> D" for i
    using assms that by (fastforce simp: dialed_rows_def has_run_def list_ex_iff run_rows_def)
  then show ?thesis using assms
    by (fastforce simp: dialed_rows_def rows_def run_rows_def RecoverContacts_def split: if_splits)
qed

lemma dialed_env:
  assumes "env_step st st'" "dialed_rows D st"
  shows "dialed_rows D st'"
  using assms
proof cases
  case (other_run c now r)
  then show ?thesis using dialed_CreateOutboundRun [OF assms(2), of c 0 now] by simp
qed (fastforce simp: dialed_rows_def rows_def run_rows_def MarkRunRunning_def)+

text \<open>A statement whose effect keeps it keeps it with any fate.\<close>

lemma dialed_db_do: "dialed_rows D (rn_db rn) \<Longrightarrow> dialed_rows D (f (rn_db rn)) \<Longrightarrow> dialed_rows D (rn_db (db_do e a f rn))"
  using db_do_db [of e a f rn] by auto

lemma dialed_setRunState:
  assumes "dialed_rows D (rn_db rn)" "sta \<noteq> RsQueued \<or> q_ID q \<notin> D"
  shows "dialed_rows D (rn_db (setRunState e q sta rn))"
  unfolding setRunState_def by (rule dialed_db_do [OF assms(1)]) (use dialed_SetRunState [OF assms] in simp)

section \<open>A contact that is dialed\<close>

lemma claimed_row:
  assumes "ClaimRuns c 1 now st = (st', q # qs)" "dialed_rows D st"
  shows "q_ID q \<notin> D" "dialed_rows D st'" "1 \<le> q_ID q" "q_ID q < st_next_q st'" "(q_ID q, RsQueued) \<notin> set (rows st')"
proof -
  obtain r where r: "q = to_queued_run r" "r \<in> set (st_queued st)" "is_due c now r"
    "st' = st\<lparr>st_queued := map (\<lambda>x. if q_ID x = q_ID r then x\<lparr>qr_state := RsProcessing\<rparr> else x) (st_queued st)\<rparr>"
    by (rule ClaimRuns_one [OF assms(1)]) (rule that)
  have i: "q_ID q = q_ID r" by (simp add: r(1) to_queued_run_def queued_run.defs)
  have m: "(q_ID r, RsQueued) \<in> set (rows st)" using r(2,3) by (auto simp: rows_def is_due_def intro!: rev_image_eqI)
  show "q_ID q \<notin> D" using m assms(2) unfolding i by (auto simp: dialed_rows_def)
  show "dialed_rows D st'" using dialed_ClaimRuns [OF assms(2), of c 1 now] assms(1) by simp
  show "1 \<le> q_ID q" using m assms(2) unfolding i by (auto simp: dialed_rows_def)
  show "q_ID q < st_next_q st'" using m assms(2) unfolding i by (auto simp: dialed_rows_def r(4))
  have "rows st' = map (\<lambda>(j, s). (j, if j = q_ID r then RsProcessing else s)) (rows st)" by (simp add: rows_def r(4))
  then show "(q_ID q, RsQueued) \<notin> set (rows st')" unfolding i by (auto split: if_splits)
qed

lemma dialed_placed:
  assumes "CreateOutboundRun c i now st = (st', Some run)" "dialed_rows D st" "1 \<le> i" "i < st_next_q st"
    and "(i, RsQueued) \<notin> set (rows st)"
  shows "dialed_rows (insert i D) st'"
  using assms by (auto simp: dialed_rows_def rows_def run_rows_def CreateOutboundRun_def nullif0_def split: if_splits)

lemma dial_rows:
  assumes "dialOne e c rn = (rn', ev, st)" "dialed_rows D (rn_db rn)"
  shows "dialed_rows (D \<union> set (dialed ev)) (rn_db rn') \<and> distinct (dialed ev) \<and> set (dialed ev) \<inter> D = {}"
  using assms(1)
proof (cases rule: dialOne_cases)
  case quiet
  then show ?thesis using dialed_rview [OF _ assms(2)] by (simp add: silentD)
next
  case (slot s rn1 ev1)
  have b1: "dialed_rows D (rn_db rn1)"
    by (rule dialed_rview [OF slot(2) assms(2)])
  have "dialed_rows (D \<union> set (dialed ev1)) (rn_db rn') \<and> distinct (dialed ev1) \<and> set (dialed ev1) \<inter> D = {}"
    using slot(1)
  proof (cases rule: claim_and_place_cases)
    case none
    have "dialed_rows D (rn_db rn')"
      using none(5) b1 dialed_ClaimRuns [OF b1] by (blast intro: dialed_rows_view)
    then show ?thesis by (simp add: none(4))
  next
    case (place q qs rn2)
    note cl = claimed_row [OF place(3) b1]
    have gave: "dialed_rows (D \<union> set (dialed ev1)) (rn_db rn') \<and> distinct (dialed ev1) \<and> set (dialed ev1) \<inter> D = {}"
      if "given_back e c q s sta rn2 rn' ev1" for sta
    proof -
      from that obtain rn3 where k: "rn' = setRunState e q sta rn3" "dialed ev1 = []"
        "db_view (rn_db rn3) = db_view (rn_db rn2)
          \<or> db_view (rn_db rn3) = db_view (fst (CreateOutboundRun c (q_ID q) (ev_now e) (rn_db rn2)))"
        by (auto simp: given_back_def)
      have "dialed_rows D (rn_db rn3)"
        using k(3) cl(2) dialed_CreateOutboundRun [OF cl(2)] by (blast intro: dialed_rows_view)
      then show ?thesis using k cl(1) by (simp add: dialed_setRunState)
    qed
    have dial: "dialed_rows (D \<union> set (dialed ev1)) (rn_db rn') \<and> distinct (dialed ev1) \<and> set (dialed ev1) \<inter> D = {}"
      if "placed_call e c q s rn2 rn' ev1"
    proof -
      from that obtain run where "CreateOutboundRun c (q_ID q) (ev_now e) (rn_db rn2) = (rn_db rn', Some run)"
        "dialed ev1 = [q_ID q]" by (auto simp: placed_call_def)
      then show ?thesis using dialed_placed [OF _ cl(2,3,4,5)] cl(1) by simp
    qed
    from place_cases [OF place(1)] gave dial show ?thesis by blast
  qed
  then show ?thesis by (simp add: slot(3))
qed

section \<open>Every step, and a crash\<close>

lemma finished_rows:
  assumes "finished e p out rn = (rn', ev)" "dialed_rows D (rn_db rn)"
  shows "dialed_rows D (rn_db rn')"
proof -
  let ?c = "pl_campaign p"
  define k where "k = fst (run_release e (pl_slot p) (forget_call (pl_run p) rn))"
  define f where "f \<longleftrightarrow> \<not> oc_Connected out \<and> (oc_Status out = StatusFailed \<or> oc_Status out = StatusRejected)"
  define m where "m = fst (run_recordOutcome e ?c f k)"
  define z where "z = (if oc_Connected out then m else markNotConnected e (pl_run p) (oc_Status out) (retry_or_fail e p out m))"
  have r: "rn_db rn' = rn_db z"
    using assms(1) by (auto simp: finished_def Let_def split_beta z_def m_def k_def f_def track_def addInflight_def)
  have "rview m = rview (forget_call (pl_run p) rn)" by (simp add: m_def k_def run_frame)
  then have m: "dialed_rows D (rn_db m)"
    by (rule dialed_rview) (simp add: forget_call_def assms(2))
  have a: "dialed_rows D (AddFailedRow i st)" if "dialed_rows D st" for i st
    by (rule dialed_rows_view [OF _ that]) (simp add: run_frame)
  have q: "dialed_rows D (rn_db (retry_or_fail e p out m))"
    using m by (auto simp: retry_or_fail_def Let_def a dialed_ScheduleRetry intro!: dialed_db_do)
  then show ?thesis using m dialed_rview [OF mark_quiet q] by (simp add: r z_def)
qed

lemma dial_returned_rows:
  assumes "dial_returned e p ok rn = (rn', ev)" "dialed_rows D (rn_db rn)"
  shows "dialed_rows D (rn_db rn')"
proof (cases ok)
  case True
  then show ?thesis using assms by (auto simp: dial_returned_def dialed_setRunState)
next
  case False
  define t where "t = track (pl_run p) False (addInflight (cp_ID (pl_campaign p)) (- 1) (forget_call (pl_run p) rn))"
  define m where "m = markNotConnected e (pl_run p) StatusFailed
      (fst (run_recordOutcome e (pl_campaign p) True (fst (run_release e (pl_slot p) t))))"
  have r: "rn' = setRunState e (pl_q p) RsFailed m"
    using assms(1) False by (auto simp: dial_returned_def Let_def split_beta m_def t_def)
  have "rview m = rview t" by (simp add: m_def run_frame)
  moreover have "rn_db t = rn_db rn" by (simp add: t_def track_def addInflight_def forget_call_def Let_def)
  ultimately have "dialed_rows D (rn_db m)"
    using assms(2) dialed_rview [of m t D] by simp
  then show ?thesis by (simp add: r dialed_setRunState)
qed

lemma step_rows:
  assumes "runner_step rn ev rn'" "dialed_rows D (rn_db rn)"
  shows "dialed_rows (D \<union> set (dialed ev)) (rn_db rn') \<and> distinct (dialed ev) \<and> set (dialed ev) \<inter> D = {}"
  using assms
proof cases
  case (scanned cs)
  then show ?thesis using dialed_rview [OF scan_view [of cs rn] assms(2)] by simp
next
  case (dial c e st)
  then show ?thesis using dial_rows assms(2) by blast
next
  case (drained c)
  then show ?thesis using assms(2) by (simp add: drain_done_def)
next
  case (dial_ok e p)
  then have "ev = []" by (simp add: dial_returned_def)
  with dial_returned_rows [OF dial_ok assms(2)] show ?thesis by simp
next
  case (dial_err p e)
  with dial_returned_rows [OF dial_err(2) assms(2)] dial_err_view(3) [OF dial_err(2)] show ?thesis by simp
next
  case (call_over p e out)
  with finished_rows [OF call_over(2) assms(2)] finished_view(3) [OF call_over(2)] show ?thesis by simp
next
  case (swept e)
  then show ?thesis using dialed_rview [OF sweep_quiet [of e False rn] assms(2)] by simp
next
  case (environment db)
  then show ?thesis using dialed_env assms(2) by simp
qed

lemma recover_rows:
  assumes "dialed_rows D db"
  shows "dialed_rows D (rn_db (run_recover e (NewRunner db d)))"
proof -
  let ?k = "db_do e AtRecover RecoverContacts (NewRunner db d)"
  have "dialed_rows D (rn_db ?k)"
    by (rule dialed_db_do) (simp_all add: NewRunner_def assms dialed_RecoverContacts)
  then show ?thesis
    using dialed_rview [OF sweep_quiet [of e True ?k]] by (simp add: run_recover_def)
qed

lemma process_rows:
  assumes "process_run rn0 ev rn" "dialed_rows {} (rn_db rn0)"
  shows "dialed_rows (set (dialed ev)) (rn_db rn) \<and> distinct (dialed ev)"
  using assms
proof induction
  case p_start
  then show ?case by simp
next
  case (p_step ev s ev' s')
  then have a: "dialed_rows (set (dialed ev)) (rn_db s)" "distinct (dialed ev)" by simp_all
  from step_rows [OF p_step.hyps(2) a(1)] a(2) show ?case by (simp add: Int_commute)
next
  case (p_crash ev s e)
  then have "dialed_rows (set (dialed ev)) (rn_db s)" "distinct (dialed ev)" by simp_all
  then show ?case by (simp add: recover_rows)
qed

lemma good_dialed: "good_store st \<Longrightarrow> dialed_rows {} st"
  by (auto simp: good_store_def dialed_rows_def rows_def)

end
