(* ===== verification/Runner_Claims.thy ===== *)
theory Runner_Claims
  imports Runner_Rows
begin

text \<open>
  Properties of the dialer: slots, contacts, completion, and what a contact that was not dialed leaves
  behind; with a concrete dialer on which they are instantiated.
\<close>

section \<open>Slots and contacts\<close>


text \<open>C23: no contact is called twice: however the dialer's steps, the calls' ends, the faults of the
  database and of Redis, other runs and freshly loaded contacts interleave, and however often the process
  dies at a step's end and recovers, each row of the queue is dialed at most once, and a dialed row is
  not back in the queue.\<close>

theorem dialed_once:
  assumes "process_run (NewRunner db d) ev rn" and "good_store db"
  shows "distinct (dialed ev) \<and> (\<forall>r \<in> set (st_queued (rn_db rn)). q_ID r \<in> set (dialed ev) \<longrightarrow> qr_state r \<noteq> RsQueued)"
proof -
  have "dialed_rows (set (dialed ev)) (rn_db rn) \<and> distinct (dialed ev)"
    by (rule process_rows [OF assms(1)]) (simp add: NewRunner_def good_dialed assms(2))
  then show ?thesis by (force simp: dialed_rows_def rows_def)
qed

section \<open>Completion\<close>






section \<open>A contact that was not dialed\<close>

definition queued_ids :: "store \<Rightarrow> int set" where
  "queued_ids st = {i. (i, RsQueued) \<in> set (rows st)}"


lemma queued_CreateOutboundRun: "queued_ids (fst (CreateOutboundRun c q now st)) = queued_ids st"
  by (simp add: queued_ids_def rows_def CreateOutboundRun_def)







section \<open>A concrete dialer\<close>

definition sample_campaign :: campaign where
  "sample_campaign = \<lparr>cp_ID = 1, cp_OrganizationID = 7, cp_WorkflowID = 3, cp_RatePerSecond = 1, cp_MaxConcurrency = 0,
     cp_Retry = \<lparr>rc_Enabled = True, rc_MaxRetries = 1, rc_Delay = 120 * second, rc_OnBusy = True, rc_OnNoAnswer = True,
       rc_OnVoicemail = True\<rparr>,
     cp_Schedule = \<lparr>sc_Enabled = False, sc_Location = None, sc_Slots = []\<rparr>,
     cp_Breaker = \<lparr>br_Enabled = False, br_Threshold = 1 / 2, br_Window = 120 * second, br_MinCalls = 5\<rparr>\<rparr>"

definition sample_row :: "row_state \<Rightarrow> queued_row" where
  "sample_row sta = \<lparr>q_ID = 1, q_CampaignID = 1, q_SourceUUID = ''u'', q_Variables = [''phone_number'' \<mapsto> JStr ''501''],
     q_RetryCount = 0, q_RetryReason = [], qr_state = sta, qr_scheduled_for = None, qr_parent = None\<rparr>"

definition sample_store :: "queued_row list \<Rightarrow> store" where
  "sample_store qs = \<lparr>st_queued = qs,
     st_campaigns = [1 \<mapsto> \<lparr>cr_state = CsRunning, cr_org = 7, cr_processed_rows = 0, cr_failed_rows = 0\<rparr>],
     st_runs = [], st_vaani = (\<lambda>i. True), st_workflows = (\<lambda>i. True), st_next_q = 2, st_next_r = 1\<rparr>"

definition sample_env :: "(site \<Rightarrow> io) \<Rightarrow> mem_db env" where
  "sample_env fate = \<lparr>ev_fate = fate, ev_now = 5 * second, ev_rand = 9, ev_redis = mem_redis, ev_maxCalls = 2,
     ev_OrgLimit = (\<lambda>o'. Some 2), ev_OrgRate = (\<lambda>o'. None), ev_wallet = (\<lambda>o'. (None, None, None, None)),
     ev_settings = (\<lambda>o'. Some \<lparr>ds_Provider = ''ari'', ds_Technology = [], ds_Trunk = ''t'', ds_StripPrefix = [],
        ds_FromNumbers = [''100''], ds_WorkflowCLI = Map.empty\<rparr>),
     ev_format = (\<lambda>r. []), ev_DefaultOrgLimit = 2, ev_RingTimeout = 30 * second\<rparr>"

definition sample_runner :: "queued_row list \<Rightarrow> mem_db runner" where
  "sample_runner qs = fst (scan [sample_campaign] (NewRunner (sample_store qs) (\<lambda>k. [])))"

definition all_answered :: "site \<Rightarrow> io" where "all_answered a = Answered"

lemmas sample_defs = sample_runner_def sample_env_def sample_store_def sample_row_def sample_campaign_def all_answered_def
lemmas dial_defs = dialOne_def claim_and_place_def place_def Let_def CampaignRunning_def Allows_def BreakerOpen_def
  WalletBlocks_def walletBlocks_def orgLimit_def dialRate_def AcquireToken_def remote_call_def rateScript_def mem_redis_def
  AcquireSlot_def takeSlot_def slotScript_def dropCapacity_def newSlotID_def staleSlotAfter_def second_def db_call_def db_do_def
  ClaimRuns_def is_due_def claim_key_def to_queued_run_def queued_run.defs phoneOf_def CreateOutboundRun_def nullif0_def
  track_def addInflight_def DialEndpoint_def CallerID_def scan_def NewRunner_def run_release_def ReleaseSlot_def
  setRunState_def SetRunState_def maybeComplete_def OpenWork_def CompleteCampaign_def SetCampaignState_def InFlight_def

definition sample_slot :: slot where "sample_slot = \<lparr>sl_ID = SlotId 5000 9, sl_Org = 7\<rparr>"

lemma sample_dial:
  "snd (dialOne (sample_env all_answered) sample_campaign (sample_runner [sample_row RsQueued]))
     = ([Acquired sample_slot, Dialed 1 1 ''PJSIP/501@t'' ''100''], StepDialed)"
  by (simp add: sample_defs dial_defs sample_slot_def)




abbreviation sample_dialed :: "mem_db runner" where
  "sample_dialed \<equiv> fst (dialOne (sample_env all_answered) sample_campaign (sample_runner [sample_row RsQueued]))"

lemma sample_scanned: "runner_run (NewRunner (sample_store qs) (\<lambda>k. [])) [] (sample_runner qs)"
  using runner_run.step [OF runner_run.start runner_step.scanned] unfolding sample_runner_def by force

lemma sample_draining: "cp_ID sample_campaign \<in> set (rn_draining (sample_runner qs))"
  by (simp add: sample_defs scan_def NewRunner_def)

lemma sample_run: "runner_run (NewRunner (sample_store [sample_row RsQueued]) (\<lambda>k. []))
    [Acquired sample_slot, Dialed 1 1 ''PJSIP/501@t'' ''100''] sample_dialed"
proof -
  have "dialOne (sample_env all_answered) sample_campaign (sample_runner [sample_row RsQueued])
      = (sample_dialed, [Acquired sample_slot, Dialed 1 1 ''PJSIP/501@t'' ''100''], StepDialed)"
    using sample_dial by (simp add: prod_eq_iff)
  from runner_run.step [OF sample_scanned runner_step.dial [OF sample_draining this]] show ?thesis by simp
qed

lemma runner_process: "runner_run rn0 ev rn \<Longrightarrow> process_run rn0 ev rn"
  by (induction rule: runner_run.induct) (auto intro: process_run.intros)


theorem dialed_once_witness:
  "distinct (dialed [Acquired sample_slot, Dialed 1 1 ''PJSIP/501@t'' ''100''])
   \<and> list_all (\<lambda>r. q_ID r = 1 \<longrightarrow> qr_state r \<noteq> RsQueued) (st_queued (rn_db (run_recover (sample_env all_answered)
       (NewRunner (rn_db sample_dialed) (rn_redis sample_dialed)))))"
proof -
  have g: "good_store (sample_store [sample_row RsQueued])" by (simp add: good_store_def sample_defs)
  from dialed_once [OF p_crash [OF runner_process [OF sample_run]] g] show ?thesis by (simp add: list_all_iff)
qed



end
