(* ===== verification/Ari_State.thy ===== *)
theory Ari_State
  imports Port_Alloc Campaign_Config
begin

text \<open>
  State of the call manager: \<open>internal/session/call.go\<close> and the types of \<open>internal/ari/handlers.go\<close>,
  \<open>outbound.go\<close> and \<open>transfer.go\<close>. Calls and dialed calls are objects shared by goroutines: the
  manager holds them in stores (\<open>mg_calls\<close>, \<open>mg_outs\<close>) and its maps hold references.
\<close>

section \<open>session.Call\<close>

type_synonym chan = nat

datatype call_state = StateNew | StateStaged | StateBridged | StateMediaActive | StateTornDown

record call_info =
  ci_CallerNumber :: string
  ci_CalledNumber :: string
  ci_Direction :: string

text \<open>\<open>ac_once\<close>: \<open>teardownOnce\<close> was taken; \<open>ac_cancelled\<close>: \<open>Ctx\<close> is done.\<close>

record session_call =
  ac_ID :: chan
  ac_ExternalID :: chan
  ac_Port :: int
  ac_Info :: call_info
  ac_state :: call_state
  ac_once :: bool
  ac_cancelled :: bool

definition session_New :: "chan \<Rightarrow> chan \<Rightarrow> int \<Rightarrow> call_info \<Rightarrow> session_call" where
  "session_New i externalID port info = \<lparr>ac_ID = i, ac_ExternalID = externalID, ac_Port = port, ac_Info = info,
     ac_state = StateNew, ac_once = False, ac_cancelled = False\<rparr>"

definition SetState :: "call_state \<Rightarrow> 'a session_call_scheme \<Rightarrow> 'a session_call_scheme" where
  "SetState s c = c\<lparr>ac_state := s\<rparr>"

text \<open>\<open>Teardown\<close> up to \<open>fn\<close>; the flag is whether \<open>fn\<close> is to run.\<close>

definition session_Teardown :: "'a session_call_scheme \<Rightarrow> 'a session_call_scheme \<times> bool" where
  "session_Teardown c = (if ac_once c then (c, False)
     else ((SetState StateTornDown c)\<lparr>ac_once := True, ac_cancelled := True\<rparr>, True))"

section \<open>Calls of the manager\<close>

text \<open>\<open>ac_socket\<close>: the media socket is open; \<open>ac_media\<close>: \<open>cm\<close> or \<open>asm\<close> is set; \<open>ac_mediaDone\<close>: \<open>mediaCancel\<close>
  was called; \<open>ac_maxDur\<close>: the timer is armed.\<close>

record ari_call = session_call +
  ac_socket :: bool
  ac_out :: "nat option"
  ac_bridge :: "nat option"
  ac_media :: bool
  ac_mediaDone :: bool
  ac_transferChannel :: "chan option"
  ac_maxDur :: bool

record dial_request =
  dq_Endpoint :: string
  dq_CallerID :: string
  dq_Called :: string
  dq_RingTimeout :: int
  dq_WorkflowID :: int
  dq_RunID :: int

record dial_outcome =
  do_Connected :: bool
  do_Status :: string
  do_Cause :: int

record outbound_call =
  ob_req :: dial_request
  ob_done :: bool
  ob_watchdog :: bool
  ob_answered :: bool
  ob_agentStarted :: bool

text \<open>\<open>transfer()\<close> of a call, from dialing the destination: the two buffered channels.\<close>

record pending_transfer =
  pt_call :: nat
  pt_answered :: bool
  pt_failed :: bool

text \<open>Where the goroutines are: the event loop inside \<open>startCall\<close> (the externalMedia request) or
  \<open>completeBridge\<close>; the goroutine that starts a call's media; a cleanup entered through
  \<open>Teardown\<close>; a transfer after its destination answered (before and after \<open>AddChannel\<close> was sent).\<close>

datatype loop_at = LoopIdle | LoopStaging nat | LoopBridging nat | LoopStopped
datatype media_stage = Accepting | HandlerReady | PlaneSet
datatype cleanup_kind = FullCleanup | AbortCleanup
datatype connect_stage = ConnectCalled | Adding

text \<open>\<open>mg_seen\<close> is not in the code: the channels so far by what they are, since neither Asterisk nor \<open>rid.New\<close>
  repeats an id and a channel enters Stasis once. A dialed channel becomes a caller's when it answers.\<close>

datatype chan_role = CallerCh | ExternalCh | DialedCh | LegCh

record manager =
  mg_ports :: port_alloc
  mg_calls :: "nat \<rightharpoonup> ari_call"
  mg_nextCall :: nat
  mg_outs :: "nat \<rightharpoonup> outbound_call"
  mg_nextOut :: nat
  mg_pending :: "chan \<rightharpoonup> nat"
  mg_active :: "chan \<rightharpoonup> nat"
  mg_transfers :: "chan \<rightharpoonup> pending_transfer"
  mg_outbound :: "chan \<rightharpoonup> nat"
  mg_loop :: loop_at
  mg_starting :: "nat \<rightharpoonup> media_stage"
  mg_cleaning :: "nat \<rightharpoonup> cleanup_kind"
  mg_dialing :: "chan \<rightharpoonup> nat"
  mg_connecting :: "chan \<rightharpoonup> nat \<times> connect_stage"
  mg_seen :: "chan \<rightharpoonup> chan_role"

record ari_config =
  mc_audiosocket :: bool
  mc_MaxCallDuration :: int

datatype ari_effect =
    AnswerChan chan | HangupChan chan | DeletedBridge nat | MediaStarted nat | CallsInc | CallsDec
  | DoneCalled nat dial_outcome | DialFailed nat | TransferFailed chan | AddedToBridge nat chan | RemovedFromBridge nat chan

type_synonym ari_res = "manager \<times> ari_effect list"

definition NewManager :: "int \<Rightarrow> int \<Rightarrow> manager" where
  "NewManager base n = \<lparr>mg_ports = NewPortAllocator base n, mg_calls = Map.empty, mg_nextCall = 0, mg_outs = Map.empty,
     mg_nextOut = 0, mg_pending = Map.empty, mg_active = Map.empty, mg_transfers = Map.empty, mg_outbound = Map.empty,
     mg_loop = LoopIdle, mg_starting = Map.empty, mg_cleaning = Map.empty, mg_dialing = Map.empty,
     mg_connecting = Map.empty, mg_seen = Map.empty\<rparr>"

section \<open>Writes to an object\<close>

definition upd_call :: "nat \<Rightarrow> (ari_call \<Rightarrow> ari_call) \<Rightarrow> manager \<Rightarrow> manager" where
  "upd_call r f m = m\<lparr>mg_calls := (mg_calls m)(r := map_option f (mg_calls m r))\<rparr>"

definition upd_out :: "nat \<Rightarrow> (outbound_call \<Rightarrow> outbound_call) \<Rightarrow> manager \<Rightarrow> manager" where
  "upd_out o' f m = m\<lparr>mg_outs := (mg_outs m)(o' := map_option f (mg_outs m o'))\<rparr>"

text \<open>Delete the entries of a call's two channels.\<close>

definition without :: "chan \<Rightarrow> chan \<Rightarrow> (chan \<rightharpoonup> nat) \<Rightarrow> (chan \<rightharpoonup> nat)" where
  "without a b f = f(a := None, b := None)"

end
