(* ===== verification/Ari_Calls.thy ===== *)
theory Ari_Calls
  imports Ari_State
begin

text \<open>
  The call manager's operations (\<open>internal/ari/handlers.go\<close>, \<open>outbound.go\<close>, \<open>transfer.go\<close>), one definition
  per function or, where a function waits for Asterisk, per part between two requests. A part runs
  without interruption except that a call's cleanup is a step of its own, after \<open>Teardown\<close> marked the
  call. Log lines, traces and the metrics other than the count of active calls are left out.
\<close>

section \<open>Dialed calls\<close>

definition out_finish :: "nat \<Rightarrow> dial_outcome \<Rightarrow> manager \<Rightarrow> ari_res" where
  "out_finish o' out m = (case mg_outs m o' of
      None \<Rightarrow> (m, [])
    | Some oc \<Rightarrow> if ob_done oc then (m, []) else (upd_out o' (\<lambda>oc. oc\<lparr>ob_done := True\<rparr>) m, [DoneCalled o' out]))"

text \<open>\<open>Dial\<close> up to its originate request, and from the answer on.\<close>

definition Dial_start :: "chan \<Rightarrow> dial_request \<Rightarrow> manager \<Rightarrow> ari_res" where
  "Dial_start i req m =
     (let o' = mg_nextOut m
      in (m\<lparr>mg_outs := (mg_outs m)(o' \<mapsto> \<lparr>ob_req = req, ob_done = False, ob_watchdog = False, ob_answered = False,
              ob_agentStarted = False\<rparr>),
           mg_nextOut := o' + 1, mg_outbound := (mg_outbound m)(i \<mapsto> o'), mg_dialing := (mg_dialing m)(i \<mapsto> o'),
           mg_seen := (mg_seen m)(i \<mapsto> DialedCh)\<rparr>, []))"

definition Dial_reply :: "chan \<Rightarrow> nat \<Rightarrow> bool \<Rightarrow> manager \<Rightarrow> ari_res" where
  "Dial_reply i o' ok m =
     (let m = m\<lparr>mg_dialing := (mg_dialing m)(i := None)\<rparr>
      in if \<not> ok then (m\<lparr>mg_outbound := (mg_outbound m)(i := None)\<rparr>, [DialFailed o'])
         else if mg_outbound m i = Some o' \<and> (case mg_outs m o' of None \<Rightarrow> False | Some oc \<Rightarrow> \<not> ob_answered oc)
         then (upd_out o' (\<lambda>oc. oc\<lparr>ob_watchdog := True\<rparr>) m, []) else (m, []))"

definition takeRinging :: "chan \<Rightarrow> manager \<Rightarrow> manager \<times> nat option" where
  "takeRinging i m = (case mg_outbound m i of
      None \<Rightarrow> (m, None)
    | Some o' \<Rightarrow> (case mg_outs m o' of
        None \<Rightarrow> (m, None)
      | Some oc \<Rightarrow> if ob_answered oc then (m, None)
          else (upd_out o' (\<lambda>oc. oc\<lparr>ob_watchdog := False\<rparr>) (m\<lparr>mg_outbound := (mg_outbound m)(i := None)\<rparr>), Some o')))"

definition onOutboundDestroyed :: "chan \<Rightarrow> int \<Rightarrow> manager \<Rightarrow> ari_res" where
  "onOutboundDestroyed i cause m = (case takeRinging i m of
      (m, None) \<Rightarrow> (m, [])
    | (m, Some o') \<Rightarrow> out_finish o' \<lparr>do_Connected = False, do_Status = StatusForCause cause, do_Cause = cause\<rparr> m)"

definition outboundTimedOut :: "chan \<Rightarrow> manager \<Rightarrow> ari_res" where
  "outboundTimedOut i m = (case takeRinging i m of
      (m, None) \<Rightarrow> (m, [])
    | (m, Some o') \<Rightarrow>
        let (m, ev) = out_finish o' \<lparr>do_Connected = False, do_Status = StatusNoAnswer, do_Cause = 0\<rparr> m
        in (m, HangupChan i # ev))"

definition hangup_ringing :: "chan \<Rightarrow> manager \<Rightarrow> ari_res" where
  "hangup_ringing i m = (case takeRinging i m of
      (m, None) \<Rightarrow> (m, [])
    | (m, Some o') \<Rightarrow>
        let (m, ev) = out_finish o' \<lparr>do_Connected = False, do_Status = StatusFailed, do_Cause = 0\<rparr> m
        in (m, HangupChan i # ev))"

text \<open>Go iterates the map; \<open>ids\<close> are its keys in some order.\<close>

fun hangupRingingOutbound :: "chan list \<Rightarrow> manager \<Rightarrow> ari_res" where
  "hangupRingingOutbound [] m = (m, [])"
| "hangupRingingOutbound (i # ids) m =
     (let (m, ev) = hangup_ringing i m; (m, ev') = hangupRingingOutbound ids m in (m, ev @ ev'))"

definition outboundSetupFailed :: "chan \<Rightarrow> manager \<Rightarrow> ari_res" where
  "outboundSetupFailed i m =
     (let oc = mg_outbound m i; m = m\<lparr>mg_outbound := (mg_outbound m)(i := None)\<rparr>
      in case oc of None \<Rightarrow> (m, [])
         | Some o' \<Rightarrow> out_finish o' \<lparr>do_Connected = False, do_Status = StatusFailed, do_Cause = 0\<rparr> m)"

definition finishOutbound :: "ari_call \<Rightarrow> manager \<Rightarrow> ari_res" where
  "finishOutbound c m = (case ac_out c of
      None \<Rightarrow> (m, [])
    | Some o' \<Rightarrow>
        let started = (case mg_outs m o' of None \<Rightarrow> False | Some oc \<Rightarrow> ob_agentStarted oc)
        in out_finish o' (if started then \<lparr>do_Connected = True, do_Status = [], do_Cause = 0\<rparr>
             else \<lparr>do_Connected = False, do_Status = StatusFailed, do_Cause = 0\<rparr>)
             (m\<lparr>mg_outbound := (mg_outbound m)(ac_ID c := None)\<rparr>))"

section \<open>The end of a call\<close>

text \<open>\<open>c.Teardown(fn)\<close>: a call that was not torn down is marked, and \<open>fn\<close> is due.\<close>

definition Teardown :: "nat \<Rightarrow> cleanup_kind \<Rightarrow> manager \<Rightarrow> manager" where
  "Teardown r k m = (case mg_calls m r of
      None \<Rightarrow> m
    | Some c \<Rightarrow> (case session_Teardown c of (c, run) \<Rightarrow>
        let m = m\<lparr>mg_calls := (mg_calls m)(r \<mapsto> c)\<rparr> in if run then m\<lparr>mg_cleaning := (mg_cleaning m)(r \<mapsto> k)\<rparr> else m))"

definition teardown :: "nat \<Rightarrow> manager \<Rightarrow> manager" where
  "teardown r m = Teardown r FullCleanup m"

definition abort :: "nat \<Rightarrow> manager \<Rightarrow> manager" where
  "abort r m = (case mg_calls m r of
      None \<Rightarrow> m
    | Some c \<Rightarrow> Teardown r AbortCleanup (m\<lparr>mg_pending := without (ac_ID c) (ac_ExternalID c) (mg_pending m)\<rparr>))"

text \<open>The closures \<open>fn\<close> of \<open>teardown\<close> and \<open>abort\<close>.\<close>

definition teardown_fn :: "nat \<Rightarrow> ari_call \<Rightarrow> manager \<Rightarrow> ari_res" where
  "teardown_fn r c m =
     (let m = m\<lparr>mg_active := without (ac_ID c) (ac_ExternalID c) (mg_active m),
                mg_pending := without (ac_ID c) (ac_ExternalID c) (mg_pending m)\<rparr>;
          (m, ev) = (case ac_transferChannel c of
              None \<Rightarrow> (m, []) | Some t \<Rightarrow> (m\<lparr>mg_active := (mg_active m)(t := None)\<rparr>, [HangupChan t]));
          m = upd_call r (\<lambda>c. c\<lparr>ac_maxDur := False, ac_socket := False\<rparr>) m;
          ev' = (case ac_bridge c of None \<Rightarrow> [] | Some b \<Rightarrow> [DeletedBridge b]);
          m = m\<lparr>mg_ports := Free (ac_Port c) (mg_ports m)\<rparr>;
          (m, ev'') = finishOutbound c m
      in (m, ev @ ev' @ [HangupChan (ac_ID c), HangupChan (ac_ExternalID c), CallsDec] @ ev''))"

definition abort_fn :: "nat \<Rightarrow> ari_call \<Rightarrow> manager \<Rightarrow> ari_res" where
  "abort_fn r c m =
     (let m = upd_call r (\<lambda>c. c\<lparr>ac_socket := False\<rparr>) m;
          m = m\<lparr>mg_ports := Free (ac_Port c) (mg_ports m)\<rparr>;
          (m, ev) = finishOutbound c m
      in (m, [HangupChan (ac_ID c), HangupChan (ac_ExternalID c)] @ ev))"

definition cleanup :: "nat \<Rightarrow> cleanup_kind \<Rightarrow> ari_call \<Rightarrow> manager \<Rightarrow> ari_res" where
  "cleanup r k c m =
     (let m = m\<lparr>mg_cleaning := (mg_cleaning m)(r := None)\<rparr>
      in case k of FullCleanup \<Rightarrow> teardown_fn r c m | AbortCleanup \<Rightarrow> abort_fn r c m)"

definition hasCalls :: "manager \<Rightarrow> bool" where
  "hasCalls m = (mg_active m \<noteq> Map.empty \<or> mg_pending m \<noteq> Map.empty)"

definition onStasisEnd :: "chan \<Rightarrow> manager \<Rightarrow> manager" where
  "onStasisEnd i m = (case mg_active m i of
      Some r \<Rightarrow> (case mg_calls m r of
          None \<Rightarrow> m
        | Some c \<Rightarrow> teardown r (m\<lparr>mg_active := without (ac_ID c) (ac_ExternalID c) (mg_active m)\<rparr>))
    | None \<Rightarrow> (case mg_pending m i of Some r \<Rightarrow> abort r m | None \<Rightarrow> m))"

text \<open>\<open>refs\<close> are the calls of both maps and \<open>ids\<close> the dialed channels, in some order.\<close>

definition teardownAll :: "chan list \<Rightarrow> nat list \<Rightarrow> manager \<Rightarrow> ari_res" where
  "teardownAll ids refs m =
     (let (m, ev) = hangupRingingOutbound ids m;
          m = m\<lparr>mg_active := Map.empty, mg_pending := Map.empty\<rparr>
      in (fold teardown refs m, ev))"

section \<open>The start of a call\<close>

text \<open>\<open>startCall\<close> up to the externalMedia request. \<open>answered\<close> and \<open>bound\<close> are what \<open>Answer\<close> and the socket's
  bind returned.\<close>

definition startCall :: "ari_config \<Rightarrow> chan \<Rightarrow> chan \<Rightarrow> call_info \<Rightarrow> bool \<Rightarrow> bool \<Rightarrow> manager \<Rightarrow> ari_res" where
  "startCall cfg i externalID info answered bound m =
     (let out = mg_outbound m i
      in if out = None \<and> \<not> answered then (m, [HangupChan i])
         else let ans = (if out = None then [AnswerChan i] else []) in
         case Alloc (mg_ports m) of
           Inl err \<Rightarrow> let (m, ev) = outboundSetupFailed i m in (m, ans @ [HangupChan i] @ ev)
         | Inr (port, ports) \<Rightarrow>
             let m = m\<lparr>mg_ports := ports\<rparr> in
             if \<not> bound then
               let m = m\<lparr>mg_ports := Free port (mg_ports m)\<rparr>; (m, ev) = outboundSetupFailed i m
               in (m, ans @ [HangupChan i] @ ev)
             else
               let info = (case out of
                       None \<Rightarrow> info\<lparr>ci_Direction := ''inbound''\<rparr>
                     | Some o' \<Rightarrow> (case mg_outs m o' of
                         None \<Rightarrow> info
                       | Some oc \<Rightarrow> \<lparr>ci_CallerNumber = dq_CallerID (ob_req oc), ci_CalledNumber = dq_Called (ob_req oc),
                             ci_Direction = ''outbound''\<rparr>));
                   c = session_call.extend (session_New i externalID port info)
                         (ari_call.fields True out None False False None (mc_MaxCallDuration cfg > 0));
                   r = mg_nextCall m
               in (m\<lparr>mg_calls := (mg_calls m)(r \<mapsto> SetState StateStaged c), mg_nextCall := r + 1,
                     mg_pending := (mg_pending m)(externalID \<mapsto> r, i \<mapsto> r),
                     mg_loop := LoopStaging r, mg_seen := (mg_seen m)(externalID \<mapsto> ExternalCh)\<rparr>, ans))"

text \<open>The rest of \<open>startCall\<close>, with the answer of the externalMedia request.\<close>

definition externalMedia_reply :: "nat \<Rightarrow> ari_call \<Rightarrow> bool \<Rightarrow> manager \<Rightarrow> ari_res" where
  "externalMedia_reply r c ok m =
     (let m = m\<lparr>mg_loop := LoopIdle\<rparr>
      in if ok then (m, [])
         else
           let m = m\<lparr>mg_pending := without (ac_ID c) (ac_ExternalID c) (mg_pending m)\<rparr>;
               m = upd_call r (\<lambda>c. c\<lparr>ac_socket := False\<rparr>) m;
               m = m\<lparr>mg_ports := Free (ac_Port c) (mg_ports m)\<rparr>;
               (m, ev) = outboundSetupFailed (ac_ID c) m
           in (m, [HangupChan (ac_ID c)] @ ev))"

text \<open>\<open>completeBridge\<close>: the answers of its three requests.\<close>

datatype bridge_reply = CreateFailed | AddFailed | Bridged

definition completeBridge :: "nat \<Rightarrow> ari_call \<Rightarrow> nat \<Rightarrow> bridge_reply \<Rightarrow> manager \<Rightarrow> ari_res" where
  "completeBridge r c bridge reply m =
     (let m = m\<lparr>mg_loop := LoopIdle\<rparr>
      in case reply of
           CreateFailed \<Rightarrow> (abort r m, [])
         | AddFailed \<Rightarrow> (abort r m, [DeletedBridge bridge])
         | Bridged \<Rightarrow>
             let m = upd_call r (\<lambda>c. SetState StateBridged (c\<lparr>ac_bridge := Some bridge\<rparr>)) m
             in (m\<lparr>mg_active := (mg_active m)(ac_ID c \<mapsto> r, ac_ExternalID c \<mapsto> r), mg_starting := (mg_starting m)(r \<mapsto> Accepting)\<rparr>,
                 [AddedToBridge bridge (ac_ID c), AddedToBridge bridge (ac_ExternalID c), CallsInc]))"

section \<open>The start of its media\<close>

text \<open>\<open>mediaHandler\<close>, as far as the manager's state goes.\<close>

definition mediaHandler :: "ari_call \<Rightarrow> manager \<Rightarrow> manager" where
  "mediaHandler c m = (case ac_out c of None \<Rightarrow> m | Some o' \<Rightarrow> upd_out o' (\<lambda>oc. oc\<lparr>ob_agentStarted := True\<rparr>) m)"

text \<open>\<open>startRTPMedia\<close> and \<open>startAudioSocketMedia\<close>: until the handler is built (\<open>accepted\<close>: what \<open>Accept\<close>
  returned), the assignment of the media plane, the state after it.\<close>

definition startMedia_handler :: "ari_config \<Rightarrow> nat \<Rightarrow> ari_call \<Rightarrow> bool \<Rightarrow> manager \<Rightarrow> manager" where
  "startMedia_handler cfg r c accepted m =
     (if mc_audiosocket cfg \<and> \<not> accepted then teardown r (m\<lparr>mg_starting := (mg_starting m)(r := None)\<rparr>)
      else mediaHandler c (m\<lparr>mg_starting := (mg_starting m)(r \<mapsto> HandlerReady)\<rparr>))"

definition startMedia_plane :: "nat \<Rightarrow> ari_call \<Rightarrow> manager \<Rightarrow> manager" where
  "startMedia_plane r c m =
     (if ac_state c = StateTornDown then m\<lparr>mg_starting := (mg_starting m)(r := None)\<rparr>
      else upd_call r (\<lambda>c. c\<lparr>ac_media := True\<rparr>) (m\<lparr>mg_starting := (mg_starting m)(r \<mapsto> PlaneSet)\<rparr>))"

definition startMedia_run :: "nat \<Rightarrow> manager \<Rightarrow> ari_res" where
  "startMedia_run r m = (upd_call r (SetState StateMediaActive) (m\<lparr>mg_starting := (mg_starting m)(r := None)\<rparr>), [MediaStarted r])"

section \<open>Transfers\<close>

definition transfer_start :: "nat \<Rightarrow> chan \<Rightarrow> manager \<Rightarrow> manager" where
  "transfer_start r dest m =
     m\<lparr>mg_transfers := (mg_transfers m)(dest \<mapsto> \<lparr>pt_call = r, pt_answered = False, pt_failed = False\<rparr>),
       mg_seen := (mg_seen m)(dest \<mapsto> LegCh)\<rparr>"

definition forget_transfer :: "chan \<Rightarrow> manager \<Rightarrow> manager" where
  "forget_transfer dest m = m\<lparr>mg_transfers := (mg_transfers m)(dest := None)\<rparr>"

text \<open>What ends the wait of \<open>transfer\<close>: the originate request's error, or a branch of its \<open>select\<close>.\<close>

datatype transfer_end = OriginateError | LegAnswered | LegFailed | WaitOver | CtxDone

definition transfer_end :: "chan \<Rightarrow> pending_transfer \<Rightarrow> transfer_end \<Rightarrow> manager \<Rightarrow> ari_res" where
  "transfer_end dest pt w m = (case w of
      LegAnswered \<Rightarrow> ((forget_transfer dest m)\<lparr>mg_connecting := (mg_connecting m)(dest \<mapsto> (pt_call pt, ConnectCalled))\<rparr>, [])
    | OriginateError \<Rightarrow> (forget_transfer dest m, [TransferFailed dest])
    | LegFailed \<Rightarrow> (forget_transfer dest m, [TransferFailed dest])
    | WaitOver \<Rightarrow> (forget_transfer dest m, [HangupChan dest])
    | CtxDone \<Rightarrow> (forget_transfer dest m, [HangupChan dest]))"

text \<open>\<open>connectTransfer\<close> up to \<open>AddChannel\<close>, and from its answer on.\<close>

definition connect_start :: "chan \<Rightarrow> nat \<Rightarrow> ari_call \<Rightarrow> manager \<Rightarrow> ari_res" where
  "connect_start dest r c m =
     (if ac_state c = StateTornDown \<or> ac_bridge c = None
      then (m\<lparr>mg_connecting := (mg_connecting m)(dest := None)\<rparr>, [HangupChan dest])
      else (m\<lparr>mg_connecting := (mg_connecting m)(dest \<mapsto> (r, Adding))\<rparr>, []))"

definition connect_reply :: "chan \<Rightarrow> nat \<Rightarrow> ari_call \<Rightarrow> bool \<Rightarrow> manager \<Rightarrow> ari_res" where
  "connect_reply dest r c ok m =
     (let m = m\<lparr>mg_connecting := (mg_connecting m)(dest := None)\<rparr>
      in if \<not> ok \<or> ac_state c = StateTornDown then (m, [HangupChan dest])
         else
           let m = upd_call r (\<lambda>c. c\<lparr>ac_transferChannel := Some dest\<rparr>) m;
               m = m\<lparr>mg_active := (mg_active m)(dest \<mapsto> r, ac_ExternalID c := None)\<rparr>
           in (upd_call r (\<lambda>c. c\<lparr>ac_mediaDone := True\<rparr>) m,
               (case ac_bridge c of None \<Rightarrow> [] | Some b \<Rightarrow> [AddedToBridge b dest, RemovedFromBridge b (ac_ExternalID c)])
               @ [HangupChan (ac_ExternalID c)]))"

definition onTransferLegAnswered :: "chan \<Rightarrow> manager \<Rightarrow> ari_res" where
  "onTransferLegAnswered i m = (case mg_transfers m i of
      None \<Rightarrow> (m, [HangupChan i])
    | Some pt \<Rightarrow> (m\<lparr>mg_transfers := (mg_transfers m)(i \<mapsto> pt\<lparr>pt_answered := True\<rparr>)\<rparr>, []))"

definition onTransferLegDestroyed :: "chan \<Rightarrow> manager \<Rightarrow> manager" where
  "onTransferLegDestroyed i m = (case mg_transfers m i of
      None \<Rightarrow> m
    | Some pt \<Rightarrow> m\<lparr>mg_transfers := (mg_transfers m)(i \<mapsto> pt\<lparr>pt_failed := True\<rparr>)\<rparr>)"

section \<open>The event loop\<close>

datatype stasis_arg = TransferArg | OutboundArg | NoArg

definition onOutboundAnswered :: "ari_config \<Rightarrow> chan \<Rightarrow> chan \<Rightarrow> call_info \<Rightarrow> bool \<Rightarrow> manager \<Rightarrow> ari_res" where
  "onOutboundAnswered cfg i externalID info bound m = (case mg_outbound m i of
      None \<Rightarrow> (m, [HangupChan i])
    | Some o' \<Rightarrow> startCall cfg i externalID info True bound
        (upd_out o' (\<lambda>oc. oc\<lparr>ob_answered := True, ob_watchdog := False\<rparr>) m))"

definition onStasisStart :: "ari_config \<Rightarrow> chan \<Rightarrow> stasis_arg \<Rightarrow> chan \<Rightarrow> call_info \<Rightarrow> bool \<Rightarrow> bool \<Rightarrow> manager \<Rightarrow> ari_res" where
  "onStasisStart cfg i arg externalID info answered bound m =
     (if arg = TransferArg then onTransferLegAnswered i m
      else if arg = OutboundArg then onOutboundAnswered cfg i externalID info bound m
      else case mg_pending m i of
        Some r \<Rightarrow> (case mg_calls m r of
            None \<Rightarrow> (m, [])
          | Some c \<Rightarrow> if ac_ExternalID c = i
              then (m\<lparr>mg_pending := without (ac_ID c) (ac_ExternalID c) (mg_pending m), mg_loop := LoopBridging r\<rparr>, [])
              else startCall cfg i externalID info answered bound m)
      | None \<Rightarrow> startCall cfg i externalID info answered bound m)"

definition onChannelDestroyed :: "chan \<Rightarrow> int \<Rightarrow> manager \<Rightarrow> ari_res" where
  "onChannelDestroyed i cause m = onOutboundDestroyed i cause (onTransferLegDestroyed i m)"

text \<open>A step of any goroutine, with what its requests returned; \<open>None\<close> when the goroutine is not there.
  \<open>Inbound\<close> is the StasisStart of a caller's new channel. The agent of a call that is up makes one
  transfer at a time.\<close>

datatype ari_event =
    Inbound chan chan call_info bool bool | OutboundAnswered chan chan call_info bool | ExternalArrived chan
  | TransferAnswered chan | ExternalMediaReply bool | BridgeReply nat bridge_reply | StasisEnd chan
  | ChannelDestroyed chan int | Reconnected "chan list" "nat list" | Shutdown "chan list" "nat list"
  | MaxDuration nat | MediaDead nat | MediaHandlerBuilt nat bool | MediaPlane nat | MediaRun nat | Cleanup nat
  | DialCalled chan dial_request | Originated chan bool | RingTimeout chan
  | TransferCalled nat chan | TransferEnd chan transfer_end | ConnectStart chan | ConnectReply chan bool

fun ari_handle :: "ari_config \<Rightarrow> ari_event \<Rightarrow> manager \<Rightarrow> ari_res option" where
  "ari_handle cfg (Inbound i x info answered bound) m =
     (if mg_loop m = LoopIdle \<and> mg_seen m i = None \<and> mg_seen m x = None \<and> i \<noteq> x
      then Some (onStasisStart cfg i NoArg x info answered bound (m\<lparr>mg_seen := (mg_seen m)(i \<mapsto> CallerCh)\<rparr>)) else None)"
| "ari_handle cfg (OutboundAnswered i x info bound) m =
     (if mg_loop m = LoopIdle \<and> mg_seen m i = Some DialedCh \<and> mg_seen m x = None
      then Some (onStasisStart cfg i OutboundArg x info True bound (m\<lparr>mg_seen := (mg_seen m)(i \<mapsto> CallerCh)\<rparr>)) else None)"
| "ari_handle cfg (ExternalArrived i) m =
     (case mg_pending m i of
        None \<Rightarrow> None
      | Some r \<Rightarrow> (case mg_calls m r of
          None \<Rightarrow> None
        | Some c \<Rightarrow> if mg_loop m = LoopIdle \<and> ac_ExternalID c = i
            then Some (onStasisStart cfg i NoArg 0 (ac_Info c) True True m) else None))"
| "ari_handle cfg (TransferAnswered i) m =
     (if mg_loop m = LoopIdle then Some (onTransferLegAnswered i m) else None)"
| "ari_handle cfg (ExternalMediaReply ok) m =
     (case mg_loop m of LoopStaging r \<Rightarrow> (case mg_calls m r of None \<Rightarrow> None | Some c \<Rightarrow> Some (externalMedia_reply r c ok m)) | _ \<Rightarrow> None)"
| "ari_handle cfg (BridgeReply b reply) m =
     (case mg_loop m of LoopBridging r \<Rightarrow> (case mg_calls m r of None \<Rightarrow> None | Some c \<Rightarrow> Some (completeBridge r c b reply m)) | _ \<Rightarrow> None)"
| "ari_handle cfg (StasisEnd i) m = (if mg_loop m = LoopIdle then Some (onStasisEnd i m, []) else None)"
| "ari_handle cfg (ChannelDestroyed i cause) m = (if mg_loop m = LoopIdle then Some (onChannelDestroyed i cause m) else None)"
| "ari_handle cfg (Reconnected ids refs) m =
     (if hasCalls m \<and> set refs = ran (mg_active m) \<union> ran (mg_pending m) \<and> set ids = dom (mg_outbound m)
      then Some (teardownAll ids refs m) else None)"
| "ari_handle cfg (Shutdown ids refs) m =
     (if mg_loop m = LoopIdle \<and> set refs = ran (mg_active m) \<union> ran (mg_pending m) \<and> set ids = dom (mg_outbound m)
      then Some (teardownAll ids refs (m\<lparr>mg_loop := LoopStopped\<rparr>)) else None)"
| "ari_handle cfg (MaxDuration r) m =
     (case mg_calls m r of
        Some c \<Rightarrow> if ac_maxDur c then Some (teardown r (upd_call r (\<lambda>c. c\<lparr>ac_maxDur := False\<rparr>) m), []) else None
      | None \<Rightarrow> None)"
| "ari_handle cfg (MediaDead r) m =
     (case mg_calls m r of
        Some c \<Rightarrow> if ac_media c \<and> \<not> ac_cancelled c \<and> \<not> ac_mediaDone c then Some (teardown r m, []) else None
      | None \<Rightarrow> None)"
| "ari_handle cfg (MediaHandlerBuilt r accepted) m =
     (case mg_calls m r of
        Some c \<Rightarrow> if mg_starting m r = Some Accepting then Some (startMedia_handler cfg r c accepted m, []) else None
      | None \<Rightarrow> None)"
| "ari_handle cfg (MediaPlane r) m =
     (case mg_calls m r of
        Some c \<Rightarrow> if mg_starting m r = Some HandlerReady then Some (startMedia_plane r c m, []) else None
      | None \<Rightarrow> None)"
| "ari_handle cfg (MediaRun r) m = (if mg_starting m r = Some PlaneSet then Some (startMedia_run r m) else None)"
| "ari_handle cfg (Cleanup r) m =
     (case (mg_cleaning m r, mg_calls m r) of (Some k, Some c) \<Rightarrow> Some (cleanup r k c m) | _ \<Rightarrow> None)"
| "ari_handle cfg (DialCalled i req) m = (if mg_seen m i = None then Some (Dial_start i req m) else None)"
| "ari_handle cfg (Originated i ok) m =
     (case mg_dialing m i of None \<Rightarrow> None | Some o' \<Rightarrow> Some (Dial_reply i o' ok m))"
| "ari_handle cfg (RingTimeout i) m =
     (case mg_outbound m i of
        None \<Rightarrow> None
      | Some o' \<Rightarrow> (case mg_outs m o' of None \<Rightarrow> None | Some oc \<Rightarrow> if ob_watchdog oc then Some (outboundTimedOut i m) else None))"
| "ari_handle cfg (TransferCalled r dest) m =
     (case mg_calls m r of
        Some c \<Rightarrow> if ac_media c \<and> mg_starting m r = None \<and> \<not> ac_cancelled c \<and> ac_transferChannel c = None \<and> mg_seen m dest = None
            \<and> (\<forall>pt \<in> ran (mg_transfers m). pt_call pt \<noteq> r) \<and> (\<forall>x \<in> ran (mg_connecting m). fst x \<noteq> r)
          then Some (transfer_start r dest m, []) else None
      | None \<Rightarrow> None)"
| "ari_handle cfg (TransferEnd dest w) m =
     (case mg_transfers m dest of
        None \<Rightarrow> None
      | Some pt \<Rightarrow> if (w = LegAnswered \<longrightarrow> pt_answered pt) \<and> (w = LegFailed \<longrightarrow> pt_failed pt)
          then Some (transfer_end dest pt w m) else None)"
| "ari_handle cfg (ConnectStart dest) m =
     (case mg_connecting m dest of
        Some (r, ConnectCalled) \<Rightarrow> (case mg_calls m r of None \<Rightarrow> None | Some c \<Rightarrow> Some (connect_start dest r c m))
      | _ \<Rightarrow> None)"
| "ari_handle cfg (ConnectReply dest ok) m =
     (case mg_connecting m dest of
        Some (r, Adding) \<Rightarrow> (case mg_calls m r of None \<Rightarrow> None | Some c \<Rightarrow> Some (connect_reply dest r c ok m))
      | _ \<Rightarrow> None)"

fun ari_run :: "ari_config \<Rightarrow> ari_event list \<Rightarrow> manager \<Rightarrow> ari_res option" where
  "ari_run cfg [] m = Some (m, [])"
| "ari_run cfg (e # es) m = (case ari_handle cfg e m of
      None \<Rightarrow> None
    | Some (m, ev) \<Rightarrow> (case ari_run cfg es m of None \<Rightarrow> None | Some (m, ev') \<Rightarrow> Some (m, ev @ ev')))"

end
