(* ===== verification/Ari_Ports.thy ===== *)
theory Ari_Ports
  imports Ari_Calls
begin

text \<open>
  The call manager's invariant on ports and maps: the taken ports are those of the live calls, and
  every call that is up can be found by its caller's channel. It holds in every history in which no
  externalMedia request fails; \<open>Ari_Claims\<close> shows why that is needed.
\<close>

section \<open>What the invariant speaks of\<close>

type_synonym call_key = "chan \<times> chan \<times> int \<times> bool \<times> chan option"

definition key_of :: "ari_call \<Rightarrow> call_key" where
  "key_of c = (ac_ID c, ac_ExternalID c, ac_Port c, ac_once c, ac_transferChannel c)"

definition keys :: "manager \<Rightarrow> nat \<rightharpoonup> call_key" where
  "keys m = map_option key_of \<circ> mg_calls m"

definition aview :: "manager \<Rightarrow> port_alloc \<times> (nat \<rightharpoonup> call_key) \<times> nat \<times> (chan \<rightharpoonup> nat) \<times> (chan \<rightharpoonup> nat) \<times> (nat \<rightharpoonup> cleanup_kind)" where
  "aview m = (mg_ports m, keys m, mg_nextCall m, mg_pending m, mg_active m, mg_cleaning m)"

text \<open>A call holds its port until its cleanup ran.\<close>

definition holds_port :: "manager \<Rightarrow> nat \<Rightarrow> int \<Rightarrow> bool" where
  "holds_port m r p \<longleftrightarrow> (\<exists>i x u t. keys m r = Some (i, x, p, u, t) \<and> (u \<longrightarrow> mg_cleaning m r \<noteq> None))"

definition ports_ok :: "manager \<Rightarrow> bool" where
  "ports_ok m \<longleftrightarrow> pa_inv (mg_ports m) \<and> dom (pa_inUse (mg_ports m)) = {p. \<exists>r. holds_port m r p}
     \<and> (\<forall>r r' p. holds_port m r p \<and> holds_port m r' p \<longrightarrow> r = r')
     \<and> (\<forall>r k. mg_cleaning m r = Some k \<longrightarrow> (\<exists>i x p t. keys m r = Some (i, x, p, True, t)))
     \<and> (\<forall>r. keys m r \<noteq> None \<longrightarrow> r < mg_nextCall m)"

text \<open>Every id has its role, and no two calls share one.\<close>

definition ids_roles :: "manager \<Rightarrow> bool" where
  "ids_roles m \<longleftrightarrow> (\<forall>r i x p u t. keys m r = Some (i, x, p, u, t) \<longrightarrow>
     mg_seen m i = Some CallerCh \<and> mg_seen m x = Some ExternalCh \<and> (\<forall>d. t = Some d \<longrightarrow> mg_seen m d = Some LegCh))"

definition ids_unique :: "manager \<Rightarrow> bool" where
  "ids_unique m \<longleftrightarrow> (\<forall>r r' i x p u t i' x' p' u' t'. keys m r = Some (i, x, p, u, t) \<longrightarrow>
     keys m r' = Some (i', x', p', u', t') \<longrightarrow> i = i' \<or> x = x' \<longrightarrow> r = r')"

definition ids_maps :: "manager \<Rightarrow> bool" where
  "ids_maps m \<longleftrightarrow> (\<forall>y r. mg_pending m y = Some r \<longrightarrow> (\<exists>i x p u t. keys m r = Some (i, x, p, u, t) \<and> (y = i \<or> y = x)))
     \<and> (\<forall>y r. mg_active m y = Some r \<longrightarrow> (\<exists>i x p u t. keys m r = Some (i, x, p, u, t) \<and> (y = i \<or> y = x \<or> mg_seen m y = Some LegCh)))"

definition ids_legs :: "manager \<Rightarrow> bool" where
  "ids_legs m \<longleftrightarrow> (\<forall>d. mg_transfers m d \<noteq> None \<or> mg_connecting m d \<noteq> None \<longrightarrow> mg_seen m d = Some LegCh)"

definition ids_ok :: "manager \<Rightarrow> bool" where
  "ids_ok m \<longleftrightarrow> ids_roles m \<and> ids_unique m \<and> ids_maps m \<and> ids_legs m"

text \<open>Every call that was not torn down can be found, those of \<open>R\<close> aside.\<close>

definition findable :: "nat set \<Rightarrow> manager \<Rightarrow> bool" where
  "findable R m \<longleftrightarrow> (\<forall>r i x p t. keys m r = Some (i, x, p, False, t) \<and> r \<notin> R \<longrightarrow>
     mg_pending m i = Some r \<or> mg_active m i = Some r \<or> mg_loop m = LoopBridging r)"

lemma cleaning_torn: "ports_ok m \<Longrightarrow> mg_cleaning m r = Some k \<Longrightarrow> \<exists>i x p t. keys m r = Some (i, x, p, True, t)"
  unfolding ports_ok_def by blast

lemma holds_unique: "ports_ok m \<Longrightarrow> holds_port m r p \<Longrightarrow> holds_port m r' p \<Longrightarrow> r = r'"
  unfolding ports_ok_def by blast

lemma findableD:
  "findable R m \<Longrightarrow> keys m r = Some (i, x, p, False, t) \<Longrightarrow> r \<notin> R \<Longrightarrow>
    mg_pending m i = Some r \<or> mg_active m i = Some r \<or> mg_loop m = LoopBridging r"
  unfolding findable_def by blast

lemma findableI:
  assumes "\<And>r i x p t. keys m r = Some (i, x, p, False, t) \<Longrightarrow> r \<notin> R \<Longrightarrow>
    mg_pending m i = Some r \<or> mg_active m i = Some r \<or> mg_loop m = LoopBridging r"
  shows "findable R m"
  using assms unfolding findable_def by blast

lemma ids_okD:
  assumes "ids_ok m" "keys m r = Some (i, x, p, u, t)"
  shows "mg_seen m i = Some CallerCh" and "mg_seen m x = Some ExternalCh" and "t = Some d \<Longrightarrow> mg_seen m d = Some LegCh"
    and "keys m r' = Some (i', x', p', u', t') \<Longrightarrow> i = i' \<or> x = x' \<Longrightarrow> r = r'"
proof -
  from assms(1) have i: "ids_roles m" "ids_unique m" by (simp_all add: ids_ok_def)
  show "mg_seen m i = Some CallerCh" "mg_seen m x = Some ExternalCh" "t = Some d \<Longrightarrow> mg_seen m d = Some LegCh"
    using i(1) assms(2) unfolding ids_roles_def by blast+
  show "keys m r' = Some (i', x', p', u', t') \<Longrightarrow> i = i' \<or> x = x' \<Longrightarrow> r = r'"
    using i(2) assms(2) unfolding ids_unique_def by blast
qed

lemma ids_ok_maps:
  assumes "ids_ok m"
  shows "mg_pending m y = Some r \<Longrightarrow> \<exists>i x p u t. keys m r = Some (i, x, p, u, t) \<and> (y = i \<or> y = x)"
    and "mg_active m y = Some r \<Longrightarrow> \<exists>i x p u t. keys m r = Some (i, x, p, u, t) \<and> (y = i \<or> y = x \<or> mg_seen m y = Some LegCh)"
    and "mg_transfers m d \<noteq> None \<or> mg_connecting m d \<noteq> None \<Longrightarrow> mg_seen m d = Some LegCh"
proof -
  from assms have i: "ids_maps m" "ids_legs m" by (simp_all add: ids_ok_def)
  show "mg_pending m y = Some r \<Longrightarrow> \<exists>i x p u t. keys m r = Some (i, x, p, u, t) \<and> (y = i \<or> y = x)"
    "mg_active m y = Some r \<Longrightarrow> \<exists>i x p u t. keys m r = Some (i, x, p, u, t) \<and> (y = i \<or> y = x \<or> mg_seen m y = Some LegCh)"
    using i(1) unfolding ids_maps_def by blast+
  show "mg_transfers m d \<noteq> None \<or> mg_connecting m d \<noteq> None \<Longrightarrow> mg_seen m d = Some LegCh"
    using i(2) unfolding ids_legs_def by blast
qed

lemma ids_okI:
  assumes "\<And>r i x p u t. keys m r = Some (i, x, p, u, t) \<Longrightarrow> mg_seen m i = Some CallerCh \<and> mg_seen m x = Some ExternalCh
      \<and> (\<forall>d. t = Some d \<longrightarrow> mg_seen m d = Some LegCh)"
    and "\<And>r r' i x p u t i' x' p' u' t'. keys m r = Some (i, x, p, u, t) \<Longrightarrow> keys m r' = Some (i', x', p', u', t') \<Longrightarrow>
      i = i' \<or> x = x' \<Longrightarrow> r = r'"
    and "\<And>y r. mg_pending m y = Some r \<Longrightarrow> \<exists>i x p u t. keys m r = Some (i, x, p, u, t) \<and> (y = i \<or> y = x)"
    and "\<And>y r. mg_active m y = Some r \<Longrightarrow> \<exists>i x p u t. keys m r = Some (i, x, p, u, t) \<and> (y = i \<or> y = x \<or> mg_seen m y = Some LegCh)"
    and "\<And>d. mg_transfers m d \<noteq> None \<or> mg_connecting m d \<noteq> None \<Longrightarrow> mg_seen m d = Some LegCh"
  shows "ids_ok m"
proof -
  have "ids_roles m" unfolding ids_roles_def using assms(1) by blast
  moreover have "ids_unique m" unfolding ids_unique_def using assms(2) by blast
  moreover have "ids_maps m" unfolding ids_maps_def using assms(3,4) by blast
  moreover have "ids_legs m" unfolding ids_legs_def using assms(5) by blast
  ultimately show ?thesis by (simp add: ids_ok_def)
qed

section \<open>Operations that do not touch it\<close>

named_theorems ari_frame \<open>what an operation of the call manager does not change\<close>

lemma keys_upd [ari_frame]:
  assumes "\<And>c. key_of (f c) = key_of c"
  shows "keys (upd_call r f m) = keys m"
  by (rule ext) (simp add: keys_def upd_call_def assms option.map_comp comp_def)

lemma upd_frame [ari_frame]:
  "mg_ports (upd_call r f m) = mg_ports m" "mg_nextCall (upd_call r f m) = mg_nextCall m"
  "mg_pending (upd_call r f m) = mg_pending m" "mg_active (upd_call r f m) = mg_active m"
  "mg_cleaning (upd_call r f m) = mg_cleaning m" "mg_loop (upd_call r f m) = mg_loop m" "mg_seen (upd_call r f m) = mg_seen m"
  "mg_outs (upd_call r f m) = mg_outs m" "mg_outbound (upd_call r f m) = mg_outbound m"
  "mg_nextOut (upd_call r f m) = mg_nextOut m" "mg_transfers (upd_call r f m) = mg_transfers m"
  "mg_connecting (upd_call r f m) = mg_connecting m" "mg_dialing (upd_call r f m) = mg_dialing m"
  "mg_starting (upd_call r f m) = mg_starting m"
  by (simp_all add: upd_call_def)

text \<open>What dialed calls' bookkeeping leaves alone: everything but the dialed calls.\<close>

definition not_dial :: "manager \<Rightarrow> port_alloc \<times> (nat \<rightharpoonup> ari_call) \<times> nat \<times> (chan \<rightharpoonup> nat) \<times> (chan \<rightharpoonup> nat) \<times> (nat \<rightharpoonup> cleanup_kind)
    \<times> loop_at \<times> (nat \<rightharpoonup> media_stage) \<times> (chan \<rightharpoonup> pending_transfer) \<times> (chan \<rightharpoonup> nat \<times> connect_stage)" where
  "not_dial m = (mg_ports m, mg_calls m, mg_nextCall m, mg_pending m, mg_active m, mg_cleaning m, mg_loop m, mg_starting m,
     mg_transfers m, mg_connecting m)"

lemma dial_frame [ari_frame]:
  "not_dial (upd_out j f m) = not_dial m" "mg_seen (upd_out j f m) = mg_seen m"
  "not_dial (fst (out_finish j out m)) = not_dial m" "mg_seen (fst (out_finish j out m)) = mg_seen m"
  "not_dial (m\<lparr>mg_outbound := ob\<rparr>) = not_dial m" "not_dial (m\<lparr>mg_seen := sn\<rparr>) = not_dial m"
  "not_dial (fst (takeRinging i m)) = not_dial m" "mg_seen (fst (takeRinging i m)) = mg_seen m"
  by (simp_all add: not_dial_def upd_out_def out_finish_def takeRinging_def split: option.split)

lemma dial_frame2 [ari_frame]:
  "not_dial (fst (Dial_start i req m)) = not_dial m"
  "not_dial (fst (Dial_reply i j ok m)) = not_dial m" "mg_seen (fst (Dial_reply i j ok m)) = mg_seen m"
  "not_dial (fst (onOutboundDestroyed i cause m)) = not_dial m" "mg_seen (fst (onOutboundDestroyed i cause m)) = mg_seen m"
  "not_dial (fst (outboundTimedOut i m)) = not_dial m" "mg_seen (fst (outboundTimedOut i m)) = mg_seen m"
  "not_dial (fst (hangup_ringing i m)) = not_dial m" "mg_seen (fst (hangup_ringing i m)) = mg_seen m"
  "not_dial (fst (outboundSetupFailed i m)) = not_dial m" "mg_seen (fst (outboundSetupFailed i m)) = mg_seen m"
  "not_dial (fst (finishOutbound c m)) = not_dial m" "mg_seen (fst (finishOutbound c m)) = mg_seen m"
proof -
  note [simp] = ari_frame
  show "not_dial (fst (Dial_start i req m)) = not_dial m" by (simp add: Dial_start_def not_dial_def Let_def)
  show "not_dial (fst (Dial_reply i j ok m)) = not_dial m" "mg_seen (fst (Dial_reply i j ok m)) = mg_seen m"
    by (simp_all add: Dial_reply_def not_dial_def Let_def upd_out_def)
  have t: "not_dial (fst (out_finish j out (fst (takeRinging i m)))) = not_dial m \<and>
      mg_seen (fst (out_finish j out (fst (takeRinging i m)))) = mg_seen m" for j out by simp
  show "not_dial (fst (onOutboundDestroyed i cause m)) = not_dial m" "mg_seen (fst (onOutboundDestroyed i cause m)) = mg_seen m"
    "not_dial (fst (outboundTimedOut i m)) = not_dial m" "mg_seen (fst (outboundTimedOut i m)) = mg_seen m"
    "not_dial (fst (hangup_ringing i m)) = not_dial m" "mg_seen (fst (hangup_ringing i m)) = mg_seen m"
    using t dial_frame(7,8) [of i m]
    by (cases "takeRinging i m"; simp add: onOutboundDestroyed_def outboundTimedOut_def hangup_ringing_def split_beta split: option.split)+
  show "not_dial (fst (outboundSetupFailed i m)) = not_dial m" "mg_seen (fst (outboundSetupFailed i m)) = mg_seen m"
    "not_dial (fst (finishOutbound c m)) = not_dial m" "mg_seen (fst (finishOutbound c m)) = mg_seen m"
    by (simp_all add: outboundSetupFailed_def finishOutbound_def Let_def split: option.split)
qed

lemma hangupRinging_frame [ari_frame]:
  "not_dial (fst (hangupRingingOutbound ids m)) = not_dial m" "mg_seen (fst (hangupRingingOutbound ids m)) = mg_seen m"
  by (induction ids arbitrary: m) (simp_all add: split_beta dial_frame2)

lemma not_dial_parts:
  assumes "not_dial m' = not_dial m"
  shows "aview m' = aview m" "mg_loop m' = mg_loop m" "mg_starting m' = mg_starting m" "mg_transfers m' = mg_transfers m"
    "mg_connecting m' = mg_connecting m" "mg_calls m' = mg_calls m"
  using assms by (simp_all add: not_dial_def aview_def keys_def)

lemma aview_parts:
  assumes "aview m' = aview m"
  shows "mg_ports m' = mg_ports m" "keys m' = keys m" "mg_nextCall m' = mg_nextCall m" "mg_pending m' = mg_pending m"
    "mg_active m' = mg_active m" "mg_cleaning m' = mg_cleaning m"
  using assms by (simp_all add: aview_def)

text \<open>Roles only move on from a dialed channel to a caller's.\<close>

definition seen_le :: "(chan \<rightharpoonup> chan_role) \<Rightarrow> (chan \<rightharpoonup> chan_role) \<Rightarrow> bool" where
  "seen_le s s' \<longleftrightarrow> (\<forall>i r. s i = Some r \<longrightarrow> r \<noteq> DialedCh \<longrightarrow> s' i = Some r)"

definition mgr_inv :: "nat set \<Rightarrow> manager \<Rightarrow> bool" where
  "mgr_inv R m \<longleftrightarrow> ports_ok m \<and> ids_ok m \<and> findable R m"

lemma mgr_inv_same:
  assumes "mgr_inv R m" "aview m' = aview m" "seen_le (mg_seen m) (mg_seen m')"
    and "\<And>r. mg_loop m = LoopBridging r \<Longrightarrow> mg_loop m' = LoopBridging r"
    and "\<And>d. mg_transfers m' d \<noteq> None \<or> mg_connecting m' d \<noteq> None \<Longrightarrow> mg_seen m' d = Some LegCh"
  shows "mgr_inv R m'"
proof -
  note p = aview_parts [OF assms(2)]
  have "ports_ok m'" using assms(1) by (simp add: mgr_inv_def ports_ok_def holds_port_def p)
  moreover have "findable R m'" using assms(1,4) unfolding mgr_inv_def findable_def p by blast
  moreover have "ids_ok m'"
  proof (rule ids_okI; (unfold p)?)
    from assms(1) have ids: "ids_ok m" by (simp add: mgr_inv_def)
    show "mg_seen m' i = Some CallerCh \<and> mg_seen m' x = Some ExternalCh \<and> (\<forall>d. t = Some d \<longrightarrow> mg_seen m' d = Some LegCh)"
      if "keys m r = Some (i, x, p, u, t)" for r i x p u t
      using ids_okD(1-3) [OF ids that] assms(3) unfolding seen_le_def by blast
    show "r = r'" if "keys m r = Some (i, x, p, u, t)" "keys m r' = Some (i', x', p', u', t')" "i = i' \<or> x = x'"
      for r r' i x p u t i' x' p' u' t' using ids_okD(4) [OF ids that(1,2,3)] .
    show "\<exists>i x p u t. keys m r = Some (i, x, p, u, t) \<and> (y = i \<or> y = x)" if "mg_pending m y = Some r" for y r
      using ids_ok_maps(1) [OF ids that] .
    show "\<exists>i x p u t. keys m r = Some (i, x, p, u, t) \<and> (y = i \<or> y = x \<or> mg_seen m' y = Some LegCh)" if "mg_active m y = Some r" for y r
      using ids_ok_maps(2) [OF ids that] assms(3) unfolding seen_le_def by blast
    show "mg_seen m' d = Some LegCh" if "mg_transfers m' d \<noteq> None \<or> mg_connecting m' d \<noteq> None" for d
      using assms(5) that by blast
  qed
  ultimately show ?thesis by (simp add: mgr_inv_def)
qed

lemma mgr_inv_dial:
  assumes "mgr_inv R m" "not_dial m' = not_dial m" "mg_seen m' = mg_seen m"
  shows "mgr_inv R m'"
proof (rule mgr_inv_same [OF assms(1)])
  note p = not_dial_parts [OF assms(2)]
  show "aview m' = aview m" by (rule p)
  show "seen_le (mg_seen m) (mg_seen m')" by (simp add: assms(3) seen_le_def)
  show "mg_loop m' = LoopBridging r" if "mg_loop m = LoopBridging r" for r using that p(2) by simp
  show "mg_seen m' d = Some LegCh" if "mg_transfers m' d \<noteq> None \<or> mg_connecting m' d \<noteq> None" for d
    using that ids_ok_maps(3) assms(1,3) unfolding mgr_inv_def p by metis
qed

section \<open>The end of a call\<close>

definition torn_key :: "call_key \<Rightarrow> call_key" where
  "torn_key k = (case k of (i, x, p, u, t) \<Rightarrow> (i, x, p, True, t))"

lemma Teardown_frame:
  "mg_ports (Teardown r k m) = mg_ports m" "mg_nextCall (Teardown r k m) = mg_nextCall m" "mg_pending (Teardown r k m) = mg_pending m"
  "mg_active (Teardown r k m) = mg_active m" "mg_loop (Teardown r k m) = mg_loop m" "mg_seen (Teardown r k m) = mg_seen m"
  "mg_transfers (Teardown r k m) = mg_transfers m" "mg_connecting (Teardown r k m) = mg_connecting m"
  "mg_outs (Teardown r k m) = mg_outs m" "mg_outbound (Teardown r k m) = mg_outbound m" "mg_dialing (Teardown r k m) = mg_dialing m"
  "mg_nextOut (Teardown r k m) = mg_nextOut m" "mg_starting (Teardown r k m) = mg_starting m"
  by (simp_all add: Teardown_def Let_def split_beta split: option.split)

lemma Teardown_keys: "keys (Teardown r k m) = (keys m)(r := map_option torn_key (keys m r))"
  by (rule ext) (auto simp: Teardown_def Let_def split_beta keys_def key_of_def torn_key_def session_Teardown_def SetState_def
      split: option.split)

lemma Teardown_cleaning: "mg_cleaning (Teardown r k m) =
    (if (\<exists>i x p t. keys m r = Some (i, x, p, False, t)) then (mg_cleaning m)(r \<mapsto> k) else mg_cleaning m)"
  by (cases "mg_calls m r") (auto simp: Teardown_def Let_def split_beta keys_def key_of_def session_Teardown_def)

lemma torn_Some: "map_option torn_key K = Some (i, x, p, u, t) \<longleftrightarrow> u \<and> (\<exists>u'. K = Some (i, x, p, u', t))"
  by (cases K) (auto simp: torn_key_def)

lemma Teardown_holds:
  assumes "ports_ok m"
  shows "holds_port (Teardown r k m) q p \<longleftrightarrow> holds_port m q p"
proof (cases "q = r")
  case True
  show ?thesis
  proof (cases "keys m r")
    case None
    then show ?thesis by (simp add: True holds_port_def Teardown_keys)
  next
    case (Some K)
    obtain i x p' u t where K: "K = (i, x, p', u, t)" by (cases K) auto
    have "\<not> u \<Longrightarrow> mg_cleaning m r = None"
      using assms Some K by (auto simp: ports_ok_def dest: spec [of _ r])
    then show ?thesis
      by (cases u) (auto simp: True holds_port_def Teardown_keys Teardown_cleaning Some K torn_key_def)
  qed
next
  case False
  then show ?thesis by (auto simp: holds_port_def Teardown_keys Teardown_cleaning)
qed

lemma Teardown_inv:
  assumes "mgr_inv (insert r R) m"
  shows "mgr_inv R (Teardown r k m)"
proof -
  have po: "ports_ok m" using assms by (simp add: mgr_inv_def)
  have "ports_ok (Teardown r k m)"
    unfolding ports_ok_def Teardown_holds [OF po]
  proof (intro conjI)
    have "\<exists>i x p t. keys (Teardown r k m) q = Some (i, x, p, True, t)" if "mg_cleaning (Teardown r k m) q = Some k'" for q k'
    proof (cases "mg_cleaning m q")
      case None
      with that have "q = r" "\<exists>i x p t. keys m r = Some (i, x, p, False, t)"
        by (auto simp: Teardown_cleaning split: if_splits)
      then show ?thesis by (auto simp: Teardown_keys torn_key_def)
    next
      case (Some k'')
      with po obtain i x p t where "keys m q = Some (i, x, p, True, t)" unfolding ports_ok_def by blast
      then show ?thesis by (cases "q = r") (simp_all add: Teardown_keys torn_key_def)
    qed
    then show "\<forall>q k'. mg_cleaning (Teardown r k m) q = Some k' \<longrightarrow> (\<exists>i x p t. keys (Teardown r k m) q = Some (i, x, p, True, t))"
      by blast
    show "\<forall>q. keys (Teardown r k m) q \<noteq> None \<longrightarrow> q < mg_nextCall (Teardown r k m)"
      using po by (auto simp: ports_ok_def Teardown_keys Teardown_frame)
  qed (use po in \<open>simp_all add: ports_ok_def Teardown_frame\<close>)
  moreover have "ids_ok (Teardown r k m)"
  proof -
    have k': "\<exists>u'. keys m q = Some (i, x, p, u', t)" if "keys (Teardown r k m) q = Some (i, x, p, u, t)" for q i x p u t
      using that by (cases "q = r") (auto simp: Teardown_keys torn_key_def)
    have k: "\<exists>u'. keys (Teardown r k m) q = Some (i, x, p, u', t)" if "keys m q = Some (i, x, p, u, t)" for q i x p u t
      using that by (cases "q = r") (auto simp: Teardown_keys torn_key_def)
    from assms have ids: "ids_ok m" by (simp add: mgr_inv_def)
    show ?thesis
    proof (rule ids_okI; (unfold Teardown_frame)?)
      show "mg_seen m i = Some CallerCh \<and> mg_seen m x = Some ExternalCh \<and> (\<forall>d. t = Some d \<longrightarrow> mg_seen m d = Some LegCh)"
        if "keys (Teardown r k m) q = Some (i, x, p, u, t)" for q i x p u t
        using k' [OF that] ids_okD [OF ids] by metis
      show "q = q'" if "keys (Teardown r k m) q = Some (i, x, p, u, t)" "keys (Teardown r k m) q' = Some (i', x', p', u', t')"
        "i = i' \<or> x = x'" for q q' i x p u t i' x' p' u' t'
        using k' [OF that(1)] k' [OF that(2)] ids_okD(4) [OF ids] that(3) by metis
      show "\<exists>i x p u t. keys (Teardown r k m) q = Some (i, x, p, u, t) \<and> (y = i \<or> y = x)" if "mg_pending m y = Some q" for y q
        using ids_ok_maps(1) [OF ids that] k by metis
      show "\<exists>i x p u t. keys (Teardown r k m) q = Some (i, x, p, u, t) \<and> (y = i \<or> y = x \<or> mg_seen m y = Some LegCh)" if "mg_active m y = Some q" for y q
        using ids_ok_maps(2) [OF ids that] k by metis
      show "mg_seen m d = Some LegCh" if "mg_transfers m d \<noteq> None \<or> mg_connecting m d \<noteq> None" for d
        by (rule ids_ok_maps(3) [OF ids that])
    qed
  qed
  moreover have "findable R (Teardown r k m)"
  proof (rule findableI, unfold Teardown_frame)
    fix q i x p t assume "keys (Teardown r k m) q = Some (i, x, p, False, t)" "q \<notin> R"
    then have "keys m q = Some (i, x, p, False, t)" "q \<notin> insert r R"
      by (auto simp: Teardown_keys torn_key_def split: if_splits)
    then show "mg_pending m i = Some q \<or> mg_active m i = Some q \<or> mg_loop m = LoopBridging q"
      using assms findableD unfolding mgr_inv_def by blast
  qed
  ultimately show ?thesis by (simp add: mgr_inv_def)
qed

text \<open>The maps' entries of one call deleted.\<close>

lemma keys_same [simp]:
  "keys (m\<lparr>mg_pending := a\<rparr>) = keys m" "keys (m\<lparr>mg_active := b\<rparr>) = keys m" "keys (m\<lparr>mg_ports := c\<rparr>) = keys m"
  "keys (m\<lparr>mg_cleaning := d\<rparr>) = keys m" "keys (m\<lparr>mg_loop := l\<rparr>) = keys m" "keys (m\<lparr>mg_seen := sn\<rparr>) = keys m"
  "keys (m\<lparr>mg_starting := e\<rparr>) = keys m" "keys (m\<lparr>mg_transfers := tr\<rparr>) = keys m" "keys (m\<lparr>mg_connecting := co\<rparr>) = keys m"
  "keys (m\<lparr>mg_nextCall := n\<rparr>) = keys m"
  by (simp_all add: keys_def fun_eq_iff)

lemma map_removed:
  assumes "mgr_inv R m" "keys m r = Some (i, x, p, u, t)"
    and "\<And>y. pe y \<noteq> mg_pending m y \<Longrightarrow> pe y = None \<and> mg_pending m y = Some r"
    and "\<And>y. ac y \<noteq> mg_active m y \<Longrightarrow> ac y = None \<and> mg_active m y = Some r"
  shows "mgr_inv (insert r R) (m\<lparr>mg_pending := pe, mg_active := ac\<rparr>)"
proof -
  have "ports_ok (m\<lparr>mg_pending := pe, mg_active := ac\<rparr>)"
    using assms(1) by (simp add: mgr_inv_def ports_ok_def holds_port_def)
  moreover have "findable (insert r R) (m\<lparr>mg_pending := pe, mg_active := ac\<rparr>)"
  proof (rule findableI)
    fix q i x p t assume k: "keys (m\<lparr>mg_pending := pe, mg_active := ac\<rparr>) q = Some (i, x, p, False, t)" and q: "q \<notin> insert r R"
    then have "mg_pending m i = Some q \<or> mg_active m i = Some q \<or> mg_loop m = LoopBridging q"
      using assms(1) findableD [of R m q i x p t] by (simp add: mgr_inv_def)
    moreover have "pe i = mg_pending m i \<or> mg_pending m i = Some r" "ac i = mg_active m i \<or> mg_active m i = Some r"
      using assms(3,4) by blast+
    ultimately show "mg_pending (m\<lparr>mg_pending := pe, mg_active := ac\<rparr>) i = Some q \<or> mg_active (m\<lparr>mg_pending := pe, mg_active := ac\<rparr>) i = Some q
        \<or> mg_loop (m\<lparr>mg_pending := pe, mg_active := ac\<rparr>) = LoopBridging q"
      using q by auto
  qed
  moreover have "ids_ok (m\<lparr>mg_pending := pe, mg_active := ac\<rparr>)"
  proof -
    have p: "mg_pending m y = Some q" if "pe y = Some q" for y q using assms(3) [of y] that by (cases "pe y = mg_pending m y") auto
    have a: "mg_active m y = Some q" if "ac y = Some q" for y q using assms(4) [of y] that by (cases "ac y = mg_active m y") auto
    from assms(1) have ids: "ids_ok m" by (simp add: mgr_inv_def)
    show ?thesis
      by (rule ids_okI) (use ids_okD [OF ids] ids_ok_maps [OF ids] p a in \<open>simp_all; blast\<close>)+
  qed
  ultimately show ?thesis by (simp add: mgr_inv_def)
qed

text \<open>Deleting by a call's ids only meets its own entries.\<close>

lemma own_entries:
  assumes "ids_ok m" "keys m r = Some (i, x, p, u, t)" "y \<in> {i, x} \<or> t = Some y"
  shows "mg_pending m y = Some q \<Longrightarrow> q = r \<or> t = Some y"
    and "mg_active m y = Some q \<Longrightarrow> y \<in> {i, x} \<Longrightarrow> q = r"
proof -
  note role = ids_okD [OF assms(1,2)]
  show "q = r \<or> t = Some y" if pe: "mg_pending m y = Some q"
  proof -
    obtain i' x' p' u' t' where k: "keys m q = Some (i', x', p', u', t')" "y = i' \<or> y = x'"
      using ids_ok_maps(1) [OF assms(1) pe] by metis
    have "i = i' \<or> x = x' \<or> t = Some y"
      using k(2) assms(3) role(1,2) ids_okD(1,2) [OF assms(1) k(1)] by auto
    then show ?thesis using role(4) [OF k(1)] by blast
  qed
  show "q = r" if act: "mg_active m y = Some q" and y: "y \<in> {i, x}"
  proof -
    obtain i' x' p' u' t' where k: "keys m q = Some (i', x', p', u', t')" "y = i' \<or> y = x' \<or> mg_seen m y = Some LegCh"
      using ids_ok_maps(2) [OF assms(1) act] by metis
    have "i = i' \<or> x = x'"
      using k(2) y role(1,2) ids_okD(1,2) [OF assms(1) k(1)] by auto
    then show ?thesis using role(4) [OF k(1)] by blast
  qed
qed

lemma keysE:
  assumes "mg_calls m r = Some c"
  shows "keys m r = Some (ac_ID c, ac_ExternalID c, ac_Port c, ac_once c, ac_transferChannel c)"
  using assms by (simp add: keys_def key_of_def)

lemma without_entries:
  assumes "mgr_inv R m" "mg_calls m r = Some c"
  shows "without (ac_ID c) (ac_ExternalID c) (mg_pending m) y \<noteq> mg_pending m y \<Longrightarrow>
      without (ac_ID c) (ac_ExternalID c) (mg_pending m) y = None \<and> mg_pending m y = Some r"
    and "without (ac_ID c) (ac_ExternalID c) (mg_active m) y \<noteq> mg_active m y \<Longrightarrow>
      without (ac_ID c) (ac_ExternalID c) (mg_active m) y = None \<and> mg_active m y = Some r"
proof -
  have ids: "ids_ok m" using assms(1) by (simp add: mgr_inv_def)
  have leg: "mg_seen m (ac_ID c) \<noteq> Some LegCh" "mg_seen m (ac_ExternalID c) \<noteq> Some LegCh"
    "ac_transferChannel c = Some d \<Longrightarrow> mg_seen m d = Some LegCh" for d
    using ids_okD(1-3) [OF ids keysE [OF assms(2)]] by simp_all
  show "without (ac_ID c) (ac_ExternalID c) (mg_pending m) y = None \<and> mg_pending m y = Some r"
    if "without (ac_ID c) (ac_ExternalID c) (mg_pending m) y \<noteq> mg_pending m y"
    using that own_entries(1) [OF ids keysE [OF assms(2)], of y] leg
    by (cases "mg_pending m y") (auto simp: without_def split: if_splits)
  show "without (ac_ID c) (ac_ExternalID c) (mg_active m) y = None \<and> mg_active m y = Some r"
    if "without (ac_ID c) (ac_ExternalID c) (mg_active m) y \<noteq> mg_active m y"
    using that own_entries(2) [OF ids keysE [OF assms(2)], of y]
    by (cases "mg_active m y") (auto simp: without_def split: if_splits)
qed

lemma abort_inv:
  assumes "mgr_inv (insert r R) m"
  shows "mgr_inv R (abort r m)"
proof (cases "mg_calls m r")
  case None
  have "findable R m"
  proof (rule findableI)
    fix q i x p t assume "keys m q = Some (i, x, p, False, t)" "q \<notin> R"
    moreover from this None have "q \<noteq> r" by (auto simp: keys_def)
    ultimately show "mg_pending m i = Some q \<or> mg_active m i = Some q \<or> mg_loop m = LoopBridging q"
      using assms findableD unfolding mgr_inv_def by blast
  qed
  then show ?thesis using assms None by (simp add: abort_def mgr_inv_def)
next
  case (Some c)
  have "mgr_inv (insert r (insert r R)) (m\<lparr>mg_pending := without (ac_ID c) (ac_ExternalID c) (mg_pending m), mg_active := mg_active m\<rparr>)"
    by (rule map_removed [OF assms keysE [OF Some]]) (use without_entries [OF assms Some] in auto)
  then have "mgr_inv (insert r R) (m\<lparr>mg_pending := without (ac_ID c) (ac_ExternalID c) (mg_pending m)\<rparr>)" by simp
  from Teardown_inv [OF this] show ?thesis by (simp add: abort_def Some)
qed

lemma mgr_inv_weaken: "mgr_inv R m \<Longrightarrow> R \<subseteq> R' \<Longrightarrow> mgr_inv R' m"
  unfolding mgr_inv_def findable_def by blast

lemma onStasisEnd_inv:
  assumes "mgr_inv R m"
  shows "mgr_inv R (onStasisEnd i m)"
proof (cases "mg_active m i")
  case None
  then show ?thesis
    by (cases "mg_pending m i") (auto simp: onStasisEnd_def assms intro: abort_inv mgr_inv_weaken [OF assms])
next
  case (Some r)
  show ?thesis
  proof (cases "mg_calls m r")
    case None
    then show ?thesis by (simp add: onStasisEnd_def Some assms)
  next
    case c: (Some c)
    have "mgr_inv (insert r R) (m\<lparr>mg_pending := mg_pending m, mg_active := without (ac_ID c) (ac_ExternalID c) (mg_active m)\<rparr>)"
      by (rule map_removed [OF assms keysE [OF c]]) (use without_entries [OF assms c] in auto)
    then have "mgr_inv (insert r R) (m\<lparr>mg_active := without (ac_ID c) (ac_ExternalID c) (mg_active m)\<rparr>)" by simp
    from Teardown_inv [OF this] show ?thesis by (simp add: onStasisEnd_def Some c teardown_def)
  qed
qed

lemma teardowns_inv: "mgr_inv (R \<union> set rs) m \<Longrightarrow> mgr_inv R (fold teardown rs m)"
proof (induction rs arbitrary: m)
  case (Cons r rs)
  have "mgr_inv (R \<union> set rs) (teardown r m)"
    unfolding teardown_def by (rule Teardown_inv) (use Cons.prems in simp)
  then show ?case using Cons.IH by simp
qed simp

lemma teardownAll_inv:
  assumes "mgr_inv R m" "set refs = ran (mg_active m) \<union> ran (mg_pending m)"
  shows "mgr_inv R (fst (teardownAll ids refs m))"
proof -
  define h where "h = fst (hangupRingingOutbound ids m)"
  have n: "not_dial h = not_dial m" "mg_seen h = mg_seen m" by (simp_all add: h_def ari_frame)
  have h: "mgr_inv R h" by (rule mgr_inv_dial [OF assms(1) n])
  have e: "mg_active h = mg_active m" "mg_pending h = mg_pending m" using n(1) by (simp_all add: not_dial_def)
  have "mgr_inv (R \<union> set refs) (h\<lparr>mg_active := Map.empty, mg_pending := Map.empty\<rparr>)"
    unfolding mgr_inv_def
  proof (intro conjI)
    show "ports_ok (h\<lparr>mg_active := Map.empty, mg_pending := Map.empty\<rparr>)"
      using h by (simp add: mgr_inv_def ports_ok_def holds_port_def)
    show "ids_ok (h\<lparr>mg_active := Map.empty, mg_pending := Map.empty\<rparr>)"
      using h ids_okD ids_ok_maps(3) unfolding mgr_inv_def by (intro ids_okI; simp; metis)
    show "findable (R \<union> set refs) (h\<lparr>mg_active := Map.empty, mg_pending := Map.empty\<rparr>)"
    proof (rule findableI)
      fix q i x p t assume "keys (h\<lparr>mg_active := Map.empty, mg_pending := Map.empty\<rparr>) q = Some (i, x, p, False, t)"
        and q: "q \<notin> R \<union> set refs"
      then have "mg_pending h i = Some q \<or> mg_active h i = Some q \<or> mg_loop h = LoopBridging q"
        using h findableD [of R h q i x p t] by (simp add: mgr_inv_def)
      moreover have "mg_pending h i \<noteq> Some q" "mg_active h i \<noteq> Some q" using q unfolding e assms(2) by (auto simp: ran_def)
      ultimately show "mg_pending (h\<lparr>mg_active := Map.empty, mg_pending := Map.empty\<rparr>) i = Some q
          \<or> mg_active (h\<lparr>mg_active := Map.empty, mg_pending := Map.empty\<rparr>) i = Some q
          \<or> mg_loop (h\<lparr>mg_active := Map.empty, mg_pending := Map.empty\<rparr>) = LoopBridging q" by simp
    qed
  qed
  from teardowns_inv [OF this] show ?thesis by (simp add: teardownAll_def split_beta flip: h_def)
qed

lemma noncaller_changed:
  assumes "mgr_inv R m"
    and "\<And>y. ac y \<noteq> mg_active m y \<Longrightarrow> mg_seen m y \<noteq> Some CallerCh"
    and "\<And>y q. ac y \<noteq> mg_active m y \<Longrightarrow> ac y = Some q \<Longrightarrow> keys m q \<noteq> None \<and> mg_seen m y = Some LegCh"
  shows "mgr_inv R (m\<lparr>mg_active := ac\<rparr>)"
proof -
  let ?m = "m\<lparr>mg_active := ac\<rparr>"
  from assms(1) have ids: "ids_ok m" and po: "ports_ok m" and fi: "findable R m" by (simp_all add: mgr_inv_def)
  have "ids_ok ?m"
  proof (rule ids_okI)
    show "\<exists>i x p u t. keys ?m q = Some (i, x, p, u, t) \<and> (y = i \<or> y = x \<or> mg_seen ?m y = Some LegCh)" if "mg_active ?m y = Some q" for y q
      using that ids_ok_maps(2) [OF ids, of y q] assms(3) [of y q] by (cases "ac y = mg_active m y") auto
  qed (use ids_okD [OF ids] ids_ok_maps [OF ids] in \<open>simp_all; blast\<close>)+
  moreover have "findable R ?m"
  proof (rule findableI)
    fix r i x p t assume k: "keys ?m r = Some (i, x, p, False, t)" "r \<notin> R"
    then have "ac i = mg_active m i" using ids_okD(1) [OF ids, of r i x p False t] assms(2) [of i] by auto
    then show "mg_pending ?m i = Some r \<or> mg_active ?m i = Some r \<or> mg_loop ?m = LoopBridging r"
      using findableD [OF fi, of r i x p t] k by simp
  qed
  moreover have "ports_ok ?m" using po by (simp add: ports_ok_def holds_port_def)
  ultimately show ?thesis by (simp add: mgr_inv_def)
qed

lemma leg_removed: "mgr_inv R m \<Longrightarrow> mg_seen m d = Some LegCh \<Longrightarrow> mgr_inv R (m\<lparr>mg_active := (mg_active m)(d := None)\<rparr>)"
  by (rule noncaller_changed) (auto split: if_splits)

lemma torn_found:
  assumes "mgr_inv (insert r R) m" "keys m r = Some (i, x, p, True, t)"
  shows "mgr_inv R m"
proof -
  have "findable R m"
  proof (rule findableI)
    fix q i' x' p' t' assume "keys m q = Some (i', x', p', False, t')" "q \<notin> R"
    moreover from this(1) assms(2) have "q \<noteq> r" by auto
    ultimately show "mg_pending m i' = Some q \<or> mg_active m i' = Some q \<or> mg_loop m = LoopBridging q"
      using assms(1) findableD [of "insert r R" m] by (simp add: mgr_inv_def)
  qed
  with assms(1) show ?thesis by (simp add: mgr_inv_def)
qed

lemma port_freed:
  assumes "mgr_inv R m" "mg_cleaning m r = Some k" "keys m r = Some (i, x, p, u, t)"
  shows "mgr_inv R (m\<lparr>mg_cleaning := (mg_cleaning m)(r := None), mg_ports := Free p (mg_ports m)\<rparr>)"
proof -
  let ?m = "m\<lparr>mg_cleaning := (mg_cleaning m)(r := None), mg_ports := Free p (mg_ports m)\<rparr>"
  from assms(1) have ids: "ids_ok m" and po: "ports_ok m" and fi: "findable R m" by (simp_all add: mgr_inv_def)
  have u: "u" using po assms(2,3) unfolding ports_ok_def by auto
  have hold: "holds_port ?m q p' \<longleftrightarrow> holds_port m q p' \<and> q \<noteq> r" for q p'
    using assms(3) u by (auto simp: holds_port_def)
  have mine: "holds_port m r p" using assms(2,3) by (auto simp: holds_port_def)
  have inv: "pa_inv (mg_ports m)" using po by (simp add: ports_ok_def)
  have uniq: "holds_port m q p' \<Longrightarrow> holds_port m q' p' \<Longrightarrow> q = q'" for q q' p' using po unfolding ports_ok_def by blast
  have "dom (pa_inUse (Free p (mg_ports m))) = {p'. \<exists>q. holds_port m q p'} - {p}"
    using ports.free_taken [OF inv] po by (simp add: ports_ok_def)
  also have "\<dots> = {p'. \<exists>q. holds_port ?m q p'}"
  proof -
    have "holds_port m q p' \<and> q = r \<Longrightarrow> p' = p" for q p' using assms(3) by (auto simp: holds_port_def)
    then show ?thesis using mine uniq unfolding hold by blast
  qed
  finally have "ports_ok ?m"
    using po ports.free_inv [OF inv] uniq by (auto simp: ports_ok_def hold)
  moreover have "ids_ok ?m" by (rule ids_okI) (use ids_okD [OF ids] ids_ok_maps [OF ids] in \<open>simp_all; blast\<close>)+
  moreover have "findable R ?m" by (rule findableI) (use findableD [OF fi] in simp)
  ultimately show ?thesis by (simp add: mgr_inv_def)
qed

lemma upd_inv:
  assumes "mgr_inv R m" "\<And>c. key_of (f c) = key_of c"
  shows "mgr_inv R (upd_call r f m)"
proof (rule mgr_inv_same [OF assms(1)])
  show "aview (upd_call r f m) = aview m" by (simp add: aview_def ari_frame assms(2))
  show "mg_seen (upd_call r f m) d = Some LegCh" if "mg_transfers (upd_call r f m) d \<noteq> None \<or> mg_connecting (upd_call r f m) d \<noteq> None" for d
    using that assms(1) ids_ok_maps(3) [of m d] by (simp add: mgr_inv_def ari_frame)
qed (simp_all add: ari_frame seen_le_def)

lemma finishOutbound_inv: "mgr_inv R m \<Longrightarrow> mgr_inv R (fst (finishOutbound c m))"
  by (rule mgr_inv_dial) (simp_all add: dial_frame2)

lemma cleanup_inv:
  assumes "mgr_inv R m" "mg_cleaning m r = Some k" "mg_calls m r = Some c"
  shows "mgr_inv R (fst (cleanup r k c m))"
proof -
  note kc = keysE [OF assms(3)]
  have po: "ports_ok m" using assms(1) by (simp add: mgr_inv_def)
  have torn: "ac_once c" using po assms(2) kc unfolding ports_ok_def by auto
  define w where "w = m\<lparr>mg_cleaning := (mg_cleaning m)(r := None), mg_ports := Free (ac_Port c) (mg_ports m)\<rparr>"
  have w: "mgr_inv R w" "mg_calls w = mg_calls m" "mg_active w = mg_active m" "mg_pending w = mg_pending m" "mg_seen w = mg_seen m"
    using port_freed [OF assms(1,2) kc] by (simp_all add: w_def)
  have kw: "keys w r = Some (ac_ID c, ac_ExternalID c, ac_Port c, True, ac_transferChannel c)" using kc torn by (simp add: w_def)
  define wf where "wf = w\<lparr>mg_pending := without (ac_ID c) (ac_ExternalID c) (mg_pending w),
      mg_active := without (ac_ID c) (ac_ExternalID c) (mg_active w)\<rparr>"
  have cw: "mg_calls w r = Some c" using assms(3) w(2) by simp
  have wf: "mgr_inv R wf"
  proof (rule torn_found)
    show "mgr_inv (insert r R) wf"
      unfolding wf_def by (rule map_removed [OF w(1) kw]) (use without_entries [OF w(1) cw] in auto)
    show "keys wf r = Some (ac_ID c, ac_ExternalID c, ac_Port c, True, ac_transferChannel c)" using kw by (simp add: wf_def)
  qed
  define wt where "wt = (case ac_transferChannel c of None \<Rightarrow> wf | Some d \<Rightarrow> wf\<lparr>mg_active := (mg_active wf)(d := None)\<rparr>)"
  have wt: "mgr_inv R wt"
  proof (cases "ac_transferChannel c")
    case (Some d)
    then have "mg_seen wf d = Some LegCh" using ids_okD(3) [OF _ kc, of d] assms(1) by (simp add: wf_def w(5) mgr_inv_def)
    from leg_removed [OF wf this] show ?thesis by (simp add: wt_def Some)
  qed (simp add: wt_def wf)
  have a: "cleanup r AbortCleanup c m = (let (x, ev) = finishOutbound c (upd_call r (\<lambda>c. c\<lparr>ac_socket := False\<rparr>) w)
      in (x, [HangupChan (ac_ID c), HangupChan (ac_ExternalID c)] @ ev))"
    by (cases m) (simp add: cleanup_def abort_fn_def Let_def w_def upd_call_def)
  have f: "fst (cleanup r FullCleanup c m) = fst (finishOutbound c (upd_call r (\<lambda>c. c\<lparr>ac_maxDur := False, ac_socket := False\<rparr>) wt))"
    by (cases m) (simp add: cleanup_def teardown_fn_def Let_def w_def wf_def wt_def upd_call_def split_beta split: option.split)
  show ?thesis
  proof (cases k)
    case FullCleanup
    show ?thesis unfolding FullCleanup f by (intro finishOutbound_inv upd_inv wt) (simp add: key_of_def)
  next
    case AbortCleanup
    show ?thesis unfolding AbortCleanup a
      by (simp add: split_beta) (intro finishOutbound_inv upd_inv w(1), simp add: key_of_def)
  qed
qed

section \<open>The start of a call\<close>

lemma Free_Alloc: "pa_inv a \<Longrightarrow> Alloc a = Inr (p, a') \<Longrightarrow> Free p a' = a"
  using ports.alloc_fresh [of a p a'] by (auto dest!: Alloc_Inr simp: Free_def domIff)

lemma new_call_inv:
  assumes "mgr_inv R m" "Alloc (mg_ports m) = Inr (port, ports)" "key_of c = (i, x, port, False, None)"
    and "mg_seen m i = Some CallerCh" "mg_seen m x = None"
    and "\<And>r x p u t. keys m r \<noteq> Some (i, x, p, u, t)"
    and "\<And>r. l \<noteq> LoopBridging r" "mg_loop m = LoopIdle"
  shows "mgr_inv R (m\<lparr>mg_ports := ports, mg_calls := (mg_calls m)(mg_nextCall m \<mapsto> c), mg_nextCall := Suc (mg_nextCall m),
      mg_pending := (mg_pending m)(x \<mapsto> mg_nextCall m, i \<mapsto> mg_nextCall m), mg_loop := l,
      mg_seen := (mg_seen m)(x \<mapsto> ExternalCh)\<rparr>)" (is "mgr_inv R ?m")
proof -
  let ?r = "mg_nextCall m"
  from assms(1) have ids: "ids_ok m" and po: "ports_ok m" and fi: "findable R m" by (simp_all add: mgr_inv_def)
  have inv: "pa_inv (mg_ports m)" using po by (simp add: ports_ok_def)
  have old: "keys m q \<noteq> None \<Longrightarrow> q < ?r" for q using po unfolding ports_ok_def by blast
  have k: "keys ?m = (keys m)(?r \<mapsto> (i, x, port, False, None))" by (rule ext) (simp add: keys_def assms(3))
  have xi: "x \<noteq> i" using assms(4,5) by auto
  have cl: "mg_cleaning m ?r = None"
    using po old [of ?r] unfolding ports_ok_def by (metis option.exhaust option.distinct(1) less_irrefl)
  have hold: "holds_port ?m q p \<longleftrightarrow> (if q = ?r then p = port else holds_port m q p)" for q p
    unfolding holds_port_def k by (auto simp: cl)
  have fresh: "\<not> holds_port m q port" for q
    using ports.alloc_fresh [OF inv assms(2)] po unfolding ports_ok_def by blast
  have "ports_ok ?m"
    unfolding ports_ok_def
  proof (intro conjI)
    show "pa_inv (mg_ports ?m)" using ports.alloc_inv [OF inv assms(2)] by simp
    have "keys m ?r = None" using old [of ?r] less_irrefl by metis
    then have "holds_port m ?r p \<Longrightarrow> False" for p by (simp add: holds_port_def)
    then show "dom (pa_inUse (mg_ports ?m)) = {p. \<exists>q. holds_port ?m q p}"
      using ports.alloc_taken [OF inv assms(2)] po unfolding hold by (auto simp: ports_ok_def) metis
    show "\<forall>q q' p. holds_port ?m q p \<and> holds_port ?m q' p \<longrightarrow> q = q'"
      using holds_unique [OF po] fresh unfolding hold by metis
    show "\<forall>q kd. mg_cleaning ?m q = Some kd \<longrightarrow> (\<exists>i x p t. keys ?m q = Some (i, x, p, True, t))"
      using po cl unfolding k ports_ok_def by auto
    show "\<forall>q. keys ?m q \<noteq> None \<longrightarrow> q < mg_nextCall ?m"
      using old unfolding k by (auto simp: less_Suc_eq)
  qed
  moreover have "ids_ok ?m"
  proof (rule ids_okI)
    show "mg_seen ?m i' = Some CallerCh \<and> mg_seen ?m x' = Some ExternalCh \<and> (\<forall>d. t = Some d \<longrightarrow> mg_seen ?m d = Some LegCh)"
      if "keys ?m q = Some (i', x', p, u, t)" for q i' x' p u t
      using that ids_okD(1-3) [OF ids, of q i' x' p u t] assms(4,5) xi unfolding k by (auto split: if_splits)
    show "q = q'" if q: "keys ?m q = Some (j, y, p, u, t)" "keys ?m q' = Some (j', y', p', u', t')" "j = j' \<or> y = y'"
      for q q' j y p u t j' y' p' u' t'
    proof -
      have e: "mg_seen m y' \<noteq> None" if "keys m q' = Some (j', y', p', u', t')" for q' j' y' p' u' t'
        using ids_okD(2) [OF ids that] by simp
      consider "q = ?r" "q' = ?r" | "q = ?r" "q' \<noteq> ?r" | "q \<noteq> ?r" "q' = ?r" | "q \<noteq> ?r" "q' \<noteq> ?r" by blast
      then show ?thesis
      proof cases
        case 2
        then have "keys m q' = Some (j', y', p', u', t')" "j = i" "y = x" using q unfolding k by simp_all
        then show ?thesis using e q(3) assms(5,6) by metis
      next
        case 3
        then have "keys m q = Some (j, y, p, u, t)" "j' = i" "y' = x" using q unfolding k by simp_all
        then show ?thesis using e q(3) assms(5,6) by metis
      next
        case 4
        then show ?thesis using q ids_okD(4) [OF ids] unfolding k by (metis fun_upd_other)
      qed simp
    qed
    show "\<exists>i x p u t. keys ?m q = Some (i, x, p, u, t) \<and> (y = i \<or> y = x)" if "mg_pending ?m y = Some q" for y q
      using that ids_ok_maps(1) [OF ids, of y q] old [of q] unfolding k by (auto split: if_splits)
    show "\<exists>i x p u t. keys ?m q = Some (i, x, p, u, t) \<and> (y = i \<or> y = x \<or> mg_seen ?m y = Some LegCh)" if "mg_active ?m y = Some q" for y q
      using that ids_ok_maps(2) [OF ids, of y q] old [of q] assms(5) unfolding k by (auto split: if_splits)
    show "mg_seen ?m d = Some LegCh" if "mg_transfers ?m d \<noteq> None \<or> mg_connecting ?m d \<noteq> None" for d
      using that ids_ok_maps(3) [OF ids, of d] assms(5) by auto
  qed
  moreover have "findable R ?m"
  proof (rule findableI)
    fix q j y p t assume q: "keys ?m q = Some (j, y, p, False, t)" "q \<notin> R"
    show "mg_pending ?m j = Some q \<or> mg_active ?m j = Some q \<or> mg_loop ?m = LoopBridging q"
    proof (cases "q = ?r")
      case True
      then show ?thesis using q(1) unfolding k by simp
    next
      case False
      then have kq: "keys m q = Some (j, y, p, False, t)" using q(1) unfolding k by simp
      have "j \<noteq> i" using kq assms(6) by auto
      moreover have "j \<noteq> x" using ids_okD(1) [OF ids kq] assms(5) by auto
      ultimately show ?thesis using findableD [OF fi kq q(2)] assms(8) by auto
    qed
  qed
  ultimately show ?thesis by (simp add: mgr_inv_def)
qed

lemma startCall_inv:
  assumes "mgr_inv R m" "mg_seen m i = Some CallerCh" "mg_seen m x = None"
    and "\<And>r x p u t. keys m r \<noteq> Some (i, x, p, u, t)" "mg_loop m = LoopIdle"
  shows "mgr_inv R (fst (startCall cfg i x info answered bound m))"
proof -
  have pa: "pa_inv (mg_ports m)" using assms(1) by (simp add: mgr_inv_def ports_ok_def)
  have fail: "mgr_inv R (fst (outboundSetupFailed i m))" by (rule mgr_inv_dial [OF assms(1)]) (simp_all add: dial_frame2)
  show ?thesis
  proof (cases "mg_outbound m i = None \<and> \<not> answered")
    case True
    then show ?thesis by (simp add: startCall_def Let_def assms(1))
  next
    case up: False
    show ?thesis
    proof (cases "Alloc (mg_ports m)")
      case (Inl err)
      then show ?thesis using fail up by (auto simp: startCall_def Let_def split_beta)
    next
      case (Inr pp)
      obtain port ports where al: "Alloc (mg_ports m) = Inr (port, ports)" using Inr by (cases pp) simp
      show ?thesis
      proof (cases bound)
        case False
        have "m\<lparr>mg_ports := Free port ports\<rparr> = m" using Free_Alloc [OF pa al] by simp
        then show ?thesis using fail up False al by (auto simp: startCall_def Let_def split_beta)
      next
        case True
        show ?thesis
          using up True al
          by (auto simp: startCall_def Let_def intro!: new_call_inv [OF assms(1) al _ assms(2-4) _ assms(5)])
            (simp_all add: key_of_def SetState_def session_call.extend_def session_New_def ari_call.fields_def)
      qed
    qed
  qed
qed

section \<open>The bridge, and transfers\<close>

lemma loop_idle_inv:
  assumes "mgr_inv R m" "mg_loop m = LoopBridging r \<or> (\<forall>q. mg_loop m \<noteq> LoopBridging q)"
  shows "mgr_inv (insert r R) (m\<lparr>mg_loop := LoopIdle\<rparr>)"
proof -
  from assms(1) have ids: "ids_ok m" and po: "ports_ok m" and fi: "findable R m" by (simp_all add: mgr_inv_def)
  have "ids_ok (m\<lparr>mg_loop := LoopIdle\<rparr>)" by (rule ids_okI) (use ids_okD [OF ids] ids_ok_maps [OF ids] in \<open>simp_all; blast\<close>)+
  moreover have "ports_ok (m\<lparr>mg_loop := LoopIdle\<rparr>)" using po by (simp add: ports_ok_def holds_port_def)
  moreover have "findable (insert r R) (m\<lparr>mg_loop := LoopIdle\<rparr>)"
  proof (rule findableI)
    fix q i x p t assume "keys (m\<lparr>mg_loop := LoopIdle\<rparr>) q = Some (i, x, p, False, t)" "q \<notin> insert r R"
    then show "mg_pending (m\<lparr>mg_loop := LoopIdle\<rparr>) i = Some q \<or> mg_active (m\<lparr>mg_loop := LoopIdle\<rparr>) i = Some q
        \<or> mg_loop (m\<lparr>mg_loop := LoopIdle\<rparr>) = LoopBridging q"
      using findableD [OF fi, of q i x p t] assms(2) by auto
  qed
  ultimately show ?thesis by (simp add: mgr_inv_def)
qed

text \<open>Entries of a call under its own ids.\<close>

lemma own_entry_added:
  assumes "mgr_inv (insert r R) m" "keys m r = Some (i, x, p, u, t)"
    and "\<And>y. ac y \<noteq> mg_active m y \<Longrightarrow> y \<in> {i, x} \<or> mg_seen m y = Some LegCh"
    and "\<And>y. ac y \<noteq> mg_active m y \<Longrightarrow> ac y = Some r \<or> ac y = None \<and> y \<noteq> i"
    and "ac i = Some r"
  shows "mgr_inv R (m\<lparr>mg_active := ac\<rparr>)"
proof -
  let ?m = "m\<lparr>mg_active := ac\<rparr>"
  from assms(1) have ids: "ids_ok m" and po: "ports_ok m" and fi: "findable (insert r R) m" by (simp_all add: mgr_inv_def)
  have "ids_ok ?m"
  proof (rule ids_okI)
    show "\<exists>i x p u t. keys ?m q = Some (i, x, p, u, t) \<and> (y = i \<or> y = x \<or> mg_seen ?m y = Some LegCh)" if "mg_active ?m y = Some q" for y q
    proof (cases "ac y = mg_active m y")
      case True
      then show ?thesis using that ids_ok_maps(2) [OF ids, of y q] by simp
    next
      case False
      then have "q = r" using assms(4) [OF False] that by auto
      then show ?thesis using assms(2) assms(3) [OF False] by auto
    qed
  qed (use ids_okD [OF ids] ids_ok_maps [OF ids] in \<open>simp_all; blast\<close>)+
  moreover have "ports_ok ?m" using po by (simp add: ports_ok_def holds_port_def)
  moreover have "findable R ?m"
  proof (rule findableI)
    fix q j y p' t' assume q: "keys ?m q = Some (j, y, p', False, t')" "q \<notin> R"
    show "mg_pending ?m j = Some q \<or> mg_active ?m j = Some q \<or> mg_loop ?m = LoopBridging q"
    proof (cases "q = r")
      case True
      then show ?thesis using q(1) assms(2,5) by simp
    next
      case False
      have kq: "keys m q = Some (j, y, p', False, t')" using q(1) by simp
      have "j \<notin> {i, x} \<and> mg_seen m j \<noteq> Some LegCh"
        using ids_okD(1) [OF ids kq] ids_okD(2) [OF ids assms(2)] ids_okD(4) [OF ids kq assms(2)] False by auto
      then have "ac j = mg_active m j" using assms(3) by blast
      then show ?thesis using findableD [OF fi kq] q(2) False by simp
    qed
  qed
  ultimately show ?thesis by (simp add: mgr_inv_def)
qed

lemma rest_inv:
  assumes "mgr_inv R m"
  shows "mgr_inv R (m\<lparr>mg_starting := st\<rparr>)"
  by (rule mgr_inv_same [OF assms]) (use assms ids_ok_maps(3) in \<open>auto simp: aview_def seen_le_def mgr_inv_def\<close>)

lemma completeBridge_inv:
  assumes "mgr_inv R m" "mg_loop m = LoopBridging r" "mg_calls m r = Some c"
  shows "mgr_inv R (fst (completeBridge r c b reply m))"
proof -
  define w where "w = m\<lparr>mg_loop := LoopIdle\<rparr>"
  have w: "mgr_inv (insert r R) w" using loop_idle_inv [OF assms(1)] assms(2) by (simp add: w_def)
  show ?thesis
  proof (cases "reply = Bridged")
    case False
    then show ?thesis using abort_inv [OF w] by (cases reply) (simp_all add: completeBridge_def w_def)
  next
    case True
    define v where "v = upd_call r (\<lambda>c. SetState StateBridged (c\<lparr>ac_bridge := Some b\<rparr>)) w"
    have v: "mgr_inv (insert r R) v" unfolding v_def by (rule upd_inv [OF w]) (simp add: key_of_def SetState_def)
    have kv: "keys v r = Some (ac_ID c, ac_ExternalID c, ac_Port c, ac_once c, ac_transferChannel c)"
      using keysE [OF assms(3)] by (simp add: v_def w_def keys_upd key_of_def SetState_def)
    have "mgr_inv R (v\<lparr>mg_active := (mg_active v)(ac_ID c \<mapsto> r, ac_ExternalID c \<mapsto> r)\<rparr>)"
      by (rule own_entry_added [OF v kv]) (auto split: if_splits)
    from rest_inv [OF this, of "(mg_starting v)(r \<mapsto> Accepting)"] show ?thesis
      by (simp add: completeBridge_def True Let_def v_def w_def)
  qed
qed

lemma leg_key:
  assumes "mgr_inv R m" "keys m r = Some (i, x, p, u, t)" "keys m' = (keys m)(r \<mapsto> (i, x, p, u, Some d))" "mg_seen m d = Some LegCh"
    and "mg_ports m' = mg_ports m" "mg_nextCall m' = mg_nextCall m" "mg_pending m' = mg_pending m" "mg_active m' = mg_active m"
      "mg_cleaning m' = mg_cleaning m" "mg_loop m' = mg_loop m" "mg_seen m' = mg_seen m" "mg_transfers m' = mg_transfers m"
      "mg_connecting m' = mg_connecting m"
  shows "mgr_inv R m'"
proof -
  note s = assms(5-13)
  from assms(1) have ids: "ids_ok m" and po: "ports_ok m" and fi: "findable R m" by (simp_all add: mgr_inv_def)
  have back_key: "\<exists>t'. keys m q = Some (j, y, p', u', t') \<and> (t'' \<noteq> t' \<longrightarrow> t'' = Some d)"
    if "keys m' q = Some (j, y, p', u', t'')" for q j y p' u' t''
    using that assms(2,3) by (cases "q = r") auto
  have fwd: "\<exists>t'. keys m' q = Some (j, y, p', u', t')" if "keys m q = Some (j, y, p', u', t'')" for q j y p' u' t''
    using that assms(2,3) by (cases "q = r") auto
  have hold: "holds_port m' q p' \<longleftrightarrow> holds_port m q p'" for q p'
    unfolding holds_port_def s using back_key fwd by metis
  have "ports_ok m'"
    unfolding ports_ok_def hold s
  proof (intro conjI)
    show "\<forall>q k. mg_cleaning m q = Some k \<longrightarrow> (\<exists>i x p t. keys m' q = Some (i, x, p, True, t))"
      using cleaning_torn [OF po] fwd by metis
    show "\<forall>q. keys m' q \<noteq> None \<longrightarrow> q < mg_nextCall m"
      using po assms(2,3) unfolding ports_ok_def by auto
  qed (use po in \<open>simp_all add: ports_ok_def\<close>)
  moreover have "ids_ok m'"
  proof (rule ids_okI; (unfold s)?)
    show "mg_seen m j = Some CallerCh \<and> mg_seen m y = Some ExternalCh \<and> (\<forall>d. t' = Some d \<longrightarrow> mg_seen m d = Some LegCh)"
      if "keys m' q = Some (j, y, p', u', t')" for q j y p' u' t'
      using back_key [OF that] ids_okD(1-3) [OF ids] assms(4) by (metis option.inject)
    show "q = q'" if "keys m' q = Some (j, y, p1, u1, t1)" "keys m' q' = Some (j', y', p2, u2, t2)" "j = j' \<or> y = y'"
      for q q' j y p1 u1 t1 j' y' p2 u2 t2
      using back_key [OF that(1)] back_key [OF that(2)] ids_okD(4) [OF ids] that(3) by metis
    show "\<exists>i x p u t. keys m' q = Some (i, x, p, u, t) \<and> (y = i \<or> y = x)" if "mg_pending m y = Some q" for y q
      using ids_ok_maps(1) [OF ids that] fwd by metis
    show "\<exists>i x p u t. keys m' q = Some (i, x, p, u, t) \<and> (y = i \<or> y = x \<or> mg_seen m y = Some LegCh)" if "mg_active m y = Some q" for y q
      using ids_ok_maps(2) [OF ids that] fwd by metis
    show "mg_seen m d = Some LegCh" if "mg_transfers m d \<noteq> None \<or> mg_connecting m d \<noteq> None" for d
      by (rule ids_ok_maps(3) [OF ids that])
  qed
  moreover have "findable R m'"
  proof (rule findableI; (unfold s)?)
    fix q j y p' t' assume "keys m' q = Some (j, y, p', False, t')" "q \<notin> R"
    then show "mg_pending m j = Some q \<or> mg_active m j = Some q \<or> mg_loop m = LoopBridging q"
      using back_key findableD [OF fi] by metis
  qed
  ultimately show ?thesis by (simp add: mgr_inv_def)
qed

lemma connect_reply_inv:
  assumes "mgr_inv R m" "mg_connecting m dest = Some (r, Adding)" "mg_calls m r = Some c"
  shows "mgr_inv R (fst (connect_reply dest r c ok m))"
proof -
  define w where "w = m\<lparr>mg_connecting := (mg_connecting m)(dest := None)\<rparr>"
  from assms(1) have ids: "ids_ok m" by (simp add: mgr_inv_def)
  have leg: "mg_seen m dest = Some LegCh" by (rule ids_ok_maps(3) [OF ids]) (simp add: assms(2))
  have w: "mgr_inv R w"
    by (rule mgr_inv_same [OF assms(1)]) (use ids_ok_maps(3) [OF ids] in \<open>auto simp: w_def aview_def seen_le_def split: if_splits\<close>)
  show ?thesis
  proof (cases "\<not> ok \<or> ac_state c = StateTornDown")
    case True
    then show ?thesis using w by (auto simp: connect_reply_def Let_def w_def)
  next
    case False
    define v where "v = upd_call r (\<lambda>c. c\<lparr>ac_transferChannel := Some dest\<rparr>) w"
    have kr: "keys m r = Some (ac_ID c, ac_ExternalID c, ac_Port c, ac_once c, ac_transferChannel c)" by (rule keysE [OF assms(3)])
    have kv: "keys v = (keys w)(r \<mapsto> (ac_ID c, ac_ExternalID c, ac_Port c, ac_once c, Some dest))"
      by (rule ext) (simp add: v_def w_def keys_def upd_call_def key_of_def assms(3))
    have v: "mgr_inv R v" by (rule leg_key [OF w _ kv]) (use kr leg in \<open>simp_all add: v_def w_def ari_frame\<close>)
    have x: "mg_seen v (ac_ExternalID c) = Some ExternalCh" "mg_seen v dest = Some LegCh"
      using ids_okD(2) [OF ids kr] leg by (simp_all add: v_def w_def ari_frame)
    have "mgr_inv R (v\<lparr>mg_active := (mg_active v)(dest \<mapsto> r, ac_ExternalID c := None)\<rparr>)"
      by (rule noncaller_changed [OF v]) (use x kv in \<open>auto split: if_splits\<close>)
    from upd_inv [OF this, of "\<lambda>c. c\<lparr>ac_mediaDone := True\<rparr>" r] show ?thesis
      using False by (simp add: connect_reply_def Let_def v_def w_def key_of_def)
  qed
qed

lemma legs_inv:
  assumes "mgr_inv R m" "\<And>d. tr d \<noteq> None \<or> co d \<noteq> None \<Longrightarrow> sn d = Some LegCh" "seen_le (mg_seen m) sn"
  shows "mgr_inv R (m\<lparr>mg_transfers := tr, mg_connecting := co, mg_seen := sn\<rparr>)"
  by (rule mgr_inv_same [OF assms(1)]) (use assms(2,3) in \<open>simp_all add: aview_def\<close>)

section \<open>Every step keeps it\<close>

lemma onStasisStart_inv:
  assumes "mgr_inv R m" "mg_loop m = LoopIdle" "mg_seen m i = Some CallerCh" "mg_seen m x = None"
    and "\<And>r x p u t. keys m r \<noteq> Some (i, x, p, u, t)" "arg \<noteq> TransferArg"
  shows "mgr_inv R (fst (onStasisStart cfg i arg x info answered bound m))"
proof -
  from assms(1) have ids: "ids_ok m" by (simp add: mgr_inv_def)
  have pend: "mg_pending m i = None"
  proof (rule ccontr)
    assume "mg_pending m i \<noteq> None"
    then obtain q where "mg_pending m i = Some q" by auto
    from ids_ok_maps(1) [OF ids this] ids_okD(2) [OF ids] assms(3,5) show False by force
  qed
  have start: "mgr_inv R (fst (startCall cfg i x info answered bound m))" by (rule startCall_inv [OF assms(1,3,4,5,2)])
  have out: "mgr_inv R (fst (onOutboundAnswered cfg i x info bound m))"
  proof (cases "mg_outbound m i")
    case (Some j)
    let ?m = "upd_out j (\<lambda>oc. oc\<lparr>ob_answered := True, ob_watchdog := False\<rparr>) m"
    have n: "not_dial ?m = not_dial m" "mg_seen ?m = mg_seen m" by (simp_all add: ari_frame)
    have "mgr_inv R (fst (startCall cfg i x info True bound ?m))"
      by (rule startCall_inv [OF mgr_inv_dial [OF assms(1) n]])
        (use assms not_dial_parts [OF n(1)] aview_parts [OF not_dial_parts(1) [OF n(1)]] n(2) in simp_all)
    then show ?thesis by (simp add: onOutboundAnswered_def Some)
  qed (simp add: onOutboundAnswered_def assms(1))
  show ?thesis using start out assms(6) by (cases arg) (simp_all add: onStasisStart_def pend)
qed

lemma seen_caller:
  assumes "mgr_inv R m" "mg_seen m i = None \<or> mg_seen m i = Some DialedCh"
  shows "mgr_inv R (m\<lparr>mg_seen := (mg_seen m)(i \<mapsto> CallerCh)\<rparr>)"
    and "keys m r \<noteq> Some (i, x, p, u, t)"
proof -
  from assms(1) have ids: "ids_ok m" by (simp add: mgr_inv_def)
  show "mgr_inv R (m\<lparr>mg_seen := (mg_seen m)(i \<mapsto> CallerCh)\<rparr>)"
    by (rule mgr_inv_same [OF assms(1)]) (use assms(2) ids_ok_maps(3) [OF ids] in \<open>auto simp: aview_def seen_le_def\<close>)
  show "keys m r \<noteq> Some (i, x, p, u, t)" using ids_okD(1) [OF ids, of r i x p u t] assms(2) by auto
qed

lemma external_inv:
  assumes "mgr_inv R m" "mg_calls m r = Some c" "mg_loop m = LoopIdle"
  shows "mgr_inv R (m\<lparr>mg_pending := without (ac_ID c) (ac_ExternalID c) (mg_pending m), mg_loop := LoopBridging r\<rparr>)"
proof -
  let ?w = "m\<lparr>mg_pending := without (ac_ID c) (ac_ExternalID c) (mg_pending m)\<rparr>"
  have "mgr_inv (insert r R) (m\<lparr>mg_pending := without (ac_ID c) (ac_ExternalID c) (mg_pending m), mg_active := mg_active m\<rparr>)"
    by (rule map_removed [OF assms(1) keysE [OF assms(2)]]) (use without_entries [OF assms(1,2)] in auto)
  then have w: "mgr_inv (insert r R) ?w" by simp
  then have ids: "ids_ok ?w" and fi: "findable (insert r R) ?w" by (simp_all add: mgr_inv_def)
  have "ids_ok (?w\<lparr>mg_loop := LoopBridging r\<rparr>)"
    by (rule ids_okI) (use ids_okD [OF ids] ids_ok_maps [OF ids] in \<open>simp_all; blast\<close>)+
  moreover have "ports_ok (?w\<lparr>mg_loop := LoopBridging r\<rparr>)" using w by (simp add: mgr_inv_def ports_ok_def holds_port_def)
  moreover have "findable R (?w\<lparr>mg_loop := LoopBridging r\<rparr>)"
  proof (rule findableI)
    fix q i x p t assume "keys (?w\<lparr>mg_loop := LoopBridging r\<rparr>) q = Some (i, x, p, False, t)" "q \<notin> R"
    then show "mg_pending (?w\<lparr>mg_loop := LoopBridging r\<rparr>) i = Some q \<or> mg_active (?w\<lparr>mg_loop := LoopBridging r\<rparr>) i = Some q
        \<or> mg_loop (?w\<lparr>mg_loop := LoopBridging r\<rparr>) = LoopBridging q"
      using findableD [OF fi, of q i x p t] assms(3) by auto
  qed
  ultimately show ?thesis by (simp add: mgr_inv_def)
qed

lemma no_caller_map:
  "mgr_inv R m \<Longrightarrow> mg_loop m = LoopStaging r \<Longrightarrow> mgr_inv R (m\<lparr>mg_loop := LoopIdle\<rparr>)"
  by (rule mgr_inv_same) (use ids_ok_maps(3) in \<open>auto simp: aview_def seen_le_def mgr_inv_def\<close>)

lemma startMedia_inv:
  assumes "mgr_inv R m"
  shows "mgr_inv R (startMedia_handler cfg r c acc m)" "mgr_inv R (startMedia_plane r c m)" "mgr_inv R (fst (startMedia_run r m))"
proof -
  have h: "mgr_inv R (mediaHandler c w)" if "mgr_inv R w" for w
    by (rule mgr_inv_dial [OF that]) (simp_all add: mediaHandler_def ari_frame split: option.split)
  show "mgr_inv R (startMedia_handler cfg r c acc m)"
    unfolding startMedia_handler_def teardown_def
    by (simp add: h rest_inv assms Teardown_inv mgr_inv_weaken [OF rest_inv [OF assms] subset_insertI])
  show "mgr_inv R (startMedia_plane r c m)" "mgr_inv R (fst (startMedia_run r m))"
    by (simp_all add: startMedia_plane_def startMedia_run_def rest_inv assms upd_inv key_of_def SetState_def)
qed

lemma transfers_inv:
  assumes "mgr_inv R m"
  shows "mg_seen m d = None \<Longrightarrow> mgr_inv R (transfer_start r d m)"
    and "mg_transfers m d = Some pt \<Longrightarrow> mgr_inv R (fst (transfer_end d pt w m))"
    and "mg_connecting m d = Some s \<Longrightarrow> mgr_inv R (fst (connect_start d r c m))"
    and "mgr_inv R (fst (onTransferLegAnswered d m))" and "mgr_inv R (onTransferLegDestroyed d m)"
proof -
  from assms have ids: "ids_ok m" by (simp add: mgr_inv_def)
  note leg = ids_ok_maps(3) [OF ids]
  show "mgr_inv R (transfer_start r d m)" if "mg_seen m d = None"
    by (rule mgr_inv_same [OF assms]) (use that leg in \<open>auto simp: transfer_start_def aview_def keys_def seen_le_def split: if_splits\<close>)
  show "mgr_inv R (fst (transfer_end d pt w m))" if "mg_transfers m d = Some pt"
    by (rule mgr_inv_same [OF assms])
      (use that leg in \<open>auto simp: transfer_end_def forget_transfer_def aview_def keys_def seen_le_def split: transfer_end.splits if_splits\<close>)
  show "mgr_inv R (fst (connect_start d r c m))" if "mg_connecting m d = Some s"
    by (rule mgr_inv_same [OF assms]) (use that leg in \<open>auto simp: connect_start_def aview_def keys_def seen_le_def split: if_splits\<close>)
  show "mgr_inv R (fst (onTransferLegAnswered d m))" "mgr_inv R (onTransferLegDestroyed d m)"
    by (rule mgr_inv_same [OF assms];
      use leg in \<open>auto simp: onTransferLegAnswered_def onTransferLegDestroyed_def aview_def keys_def seen_le_def split: option.splits if_splits\<close>)+
qed

lemma teardown_inv: "mgr_inv R m \<Longrightarrow> mgr_inv R (teardown r m)"
  unfolding teardown_def by (rule Teardown_inv) (erule mgr_inv_weaken, blast)

lemma Dial_start_inv:
  assumes "mgr_inv R m" "mg_seen m i = None"
  shows "mgr_inv R (fst (Dial_start i req m))"
proof (rule mgr_inv_same [OF assms(1)])
  have n: "not_dial (fst (Dial_start i req m)) = not_dial m" by (rule dial_frame2)
  note p = not_dial_parts [OF n]
  show "aview (fst (Dial_start i req m)) = aview m" by (rule p)
  show "mg_loop (fst (Dial_start i req m)) = LoopBridging r" if "mg_loop m = LoopBridging r" for r using that p(2) by simp
  show "seen_le (mg_seen m) (mg_seen (fst (Dial_start i req m)))" using assms(2) by (auto simp: Dial_start_def Let_def seen_le_def)
  show "mg_seen (fst (Dial_start i req m)) d = Some LegCh"
    if "mg_transfers (fst (Dial_start i req m)) d \<noteq> None \<or> mg_connecting (fst (Dial_start i req m)) d \<noteq> None" for d
    using that ids_ok_maps(3) [of m d] assms unfolding p mgr_inv_def by (auto simp: Dial_start_def Let_def)
qed

lemma ari_handle_inv:
  assumes "ari_handle cfg e m = Some (m', ev)" "mgr_inv {} m" "e \<noteq> ExternalMediaReply False"
  shows "mgr_inv {} m'"
proof (cases e)
  case (Inbound i x info answered bound)
  let ?m = "m\<lparr>mg_seen := (mg_seen m)(i \<mapsto> CallerCh)\<rparr>"
  have g: "mg_loop m = LoopIdle" "mg_seen m i = None" "mg_seen m x = None" "i \<noteq> x"
    "m' = fst (onStasisStart cfg i NoArg x info answered bound ?m)"
    using assms(1) Inbound by (auto split: if_splits dest: arg_cong [of _ _ fst])
  note s = seen_caller [OF assms(2), of i]
  have "mgr_inv {} (fst (onStasisStart cfg i NoArg x info answered bound ?m))"
    by (rule onStasisStart_inv) (use s g in auto)
  then show ?thesis using g(5) by simp
next
  case (OutboundAnswered i x info bound)
  let ?m = "m\<lparr>mg_seen := (mg_seen m)(i \<mapsto> CallerCh)\<rparr>"
  have g: "mg_loop m = LoopIdle" "mg_seen m i = Some DialedCh" "mg_seen m x = None"
    "m' = fst (onStasisStart cfg i OutboundArg x info True bound ?m)"
    using assms(1) OutboundAnswered by (auto split: if_splits dest: arg_cong [of _ _ fst])
  note s = seen_caller [OF assms(2), of i]
  have "mgr_inv {} (fst (onStasisStart cfg i OutboundArg x info True bound ?m))"
    by (rule onStasisStart_inv) (use s g in auto)
  then show ?thesis using g(4) by simp
next
  case (ExternalArrived i)
  then obtain r c where g: "mg_pending m i = Some r" "mg_calls m r = Some c" "mg_loop m = LoopIdle" "ac_ExternalID c = i"
    "m' = m\<lparr>mg_pending := without (ac_ID c) (ac_ExternalID c) (mg_pending m), mg_loop := LoopBridging r\<rparr>"
    using assms(1) by (auto simp: onStasisStart_def split: option.splits if_splits)
  then show ?thesis using external_inv [OF assms(2) g(2,3)] by simp
next
  case (ExternalMediaReply ok)
  then show ?thesis using assms no_caller_map [OF assms(2)]
    by (auto simp: externalMedia_reply_def Let_def split: loop_at.splits option.splits if_splits)
next
  case (BridgeReply b reply)
  then obtain r c where g: "mg_loop m = LoopBridging r" "mg_calls m r = Some c" "(m', ev) = completeBridge r c b reply m"
    using assms(1) by (auto split: loop_at.splits option.splits)
  then show ?thesis using completeBridge_inv [OF assms(2) g(1,2), of b reply] by (metis fst_conv)
next
  case (Cleanup r)
  then obtain k c where g: "mg_cleaning m r = Some k" "mg_calls m r = Some c" "(m', ev) = cleanup r k c m"
    using assms(1) by (auto split: option.splits)
  then show ?thesis using cleanup_inv [OF assms(2) g(1,2)] by (metis fst_conv)
next
  case (ConnectReply d ok)
  then obtain r c where g: "mg_connecting m d = Some (r, Adding)" "mg_calls m r = Some c" "(m', ev) = connect_reply d r c ok m"
    using assms(1) by (auto split: option.splits connect_stage.splits)
  then show ?thesis using connect_reply_inv [OF assms(2) g(1,2), of ok] by (metis fst_conv)
next
  case (ConnectStart d)
  then obtain r c where g: "mg_connecting m d = Some (r, ConnectCalled)" "connect_start d r c m = (m', ev)"
    using assms(1) by (auto split: option.splits connect_stage.splits)
  then show ?thesis using transfers_inv(3) [OF assms(2) g(1), of r c] by simp
next
  case (TransferEnd d w)
  then obtain pt where g: "mg_transfers m d = Some pt" "(m', ev) = transfer_end d pt w m"
    using assms(1) by (auto split: option.splits if_splits)
  then show ?thesis using transfers_inv(2) [OF assms(2) g(1), of w] by (metis fst_conv)
next
  case (TransferCalled r d)
  then have g: "mg_seen m d = None" "m' = transfer_start r d m" using assms(1) by (auto split: option.splits if_splits)
  then show ?thesis using transfers_inv(1) [OF assms(2) g(1)] by simp
next
  case (TransferAnswered i)
  then show ?thesis using assms(1) transfers_inv(4) [OF assms(2), of i] by (auto split: if_splits)
next
  case (ChannelDestroyed i cause)
  have "mgr_inv {} (fst (onChannelDestroyed i cause m))"
    unfolding onChannelDestroyed_def
    by (rule mgr_inv_dial [OF transfers_inv(5) [OF assms(2)]]) (simp_all add: dial_frame2)
  then show ?thesis using assms(1) ChannelDestroyed by (auto split: if_splits)
next
  case (StasisEnd i)
  then show ?thesis using assms(1) onStasisEnd_inv [OF assms(2), of i] by (auto split: if_splits)
next
  case (Reconnected ids refs)
  then show ?thesis using assms(1) teardownAll_inv [OF assms(2), of refs ids] by (auto split: if_splits)
next
  case (Shutdown ids refs)
  have "mgr_inv {} (m\<lparr>mg_loop := LoopStopped\<rparr>)" if "mg_loop m = LoopIdle"
    by (rule mgr_inv_same [OF assms(2)]) (use that assms(2) ids_ok_maps(3) in \<open>auto simp: aview_def seen_le_def mgr_inv_def\<close>)
  then show ?thesis using assms(1) Shutdown teardownAll_inv [of "{}" "m\<lparr>mg_loop := LoopStopped\<rparr>" refs ids] by (auto split: if_splits)
next
  case (MaxDuration r)
  have "mgr_inv {} (upd_call r (\<lambda>c. c\<lparr>ac_maxDur := False\<rparr>) m)" by (rule upd_inv [OF assms(2)]) (simp add: key_of_def)
  from teardown_inv [OF this] show ?thesis using assms(1) MaxDuration by (auto split: option.splits if_splits)
next
  case (MediaDead r)
  then show ?thesis using assms(1) teardown_inv [OF assms(2)] by (auto split: option.splits if_splits)
next
  case (MediaHandlerBuilt r acc)
  then show ?thesis using assms(1) startMedia_inv(1) [OF assms(2)] by (auto split: option.splits if_splits)
next
  case (MediaPlane r)
  then show ?thesis using assms(1) startMedia_inv(2) [OF assms(2)] by (auto split: option.splits if_splits)
next
  case (MediaRun r)
  then show ?thesis using assms(1) startMedia_inv(3) [OF assms(2), of r] by (auto split: if_splits)
next
  case (DialCalled i req)
  then show ?thesis using assms(1) Dial_start_inv [OF assms(2), of i req] by (auto split: if_splits)
next
  case (Originated i ok)
  then obtain j where g: "Dial_reply i j ok m = (m', ev)"
    using assms(1) by (auto split: option.splits)
  have m': "m' = fst (Dial_reply i j ok m)" by (simp add: g)
  show ?thesis unfolding m' by (rule mgr_inv_dial [OF assms(2)]) (simp_all add: dial_frame2)
next
  case (RingTimeout i)
  then have g: "m' = fst (outboundTimedOut i m)"
    using assms(1) by (auto split: option.splits if_splits dest: arg_cong [of _ _ fst])
  show ?thesis unfolding g by (rule mgr_inv_dial [OF assms(2)]) (simp_all add: dial_frame2)
qed

lemma NewManager_inv: "mgr_inv {} (NewManager base n)"
  by (auto simp: mgr_inv_def NewManager_def ports_ok_def ids_ok_def ids_roles_def ids_unique_def ids_maps_def ids_legs_def
      findable_def holds_port_def keys_def pa_inv_new) (simp add: NewPortAllocator_def)

lemma ari_run_inv:
  assumes "ari_run cfg es m = Some (m', ev)" "mgr_inv {} m" "ExternalMediaReply False \<notin> set es"
  shows "mgr_inv {} m'"
  using assms
proof (induction es arbitrary: m ev)
  case (Cons e es)
  then obtain m1 ev1 ev2 where "ari_handle cfg e m = Some (m1, ev1)" "ari_run cfg es m1 = Some (m', ev2)"
    by (auto split: option.splits)
  then show ?case using Cons.IH [of m1] ari_handle_inv [of cfg e m m1 ev1] Cons.prems(2,3) by auto
qed simp

end
