(* ===== verification/Ari_Dials.thy ===== *)
theory Ari_Dials
  imports Ari_Ports
begin

text \<open>
  The call manager's invariant on the calls it dials: each is being dialed, ringing under a
  watchdog, carried by a call that is not cleaned up yet, reported, or refused by \<open>Dial\<close>.
\<close>

section \<open>What the invariant speaks of\<close>

definition okeys :: "manager \<Rightarrow> nat \<rightharpoonup> chan \<times> nat option" where
  "okeys m = map_option (\<lambda>c. (ac_ID c, ac_out c)) \<circ> mg_calls m"

definition held :: "manager \<Rightarrow> nat \<Rightarrow> bool" where
  "held m r \<longleftrightarrow> (\<exists>c. mg_calls m r = Some c \<and> (ac_once c \<longrightarrow> mg_cleaning m r \<noteq> None))"

definition dview :: "manager \<Rightarrow> (nat \<rightharpoonup> outbound_call) \<times> nat \<times> (chan \<rightharpoonup> nat) \<times> (chan \<rightharpoonup> nat)" where
  "dview m = (mg_outs m, mg_nextOut m, mg_outbound m, mg_dialing m)"

definition is_done :: "manager \<Rightarrow> nat \<Rightarrow> bool" where
  "is_done m j \<longleftrightarrow> (\<exists>oc. mg_outs m j = Some oc \<and> ob_done oc)"

text \<open>Where a tracked call is.\<close>

definition tracked_ok :: "manager \<Rightarrow> chan \<Rightarrow> nat \<Rightarrow> bool" where
  "tracked_ok m i j \<longleftrightarrow> (\<exists>oc. mg_outs m j = Some oc \<and> \<not> ob_done oc \<and>
     (if ob_answered oc then mg_seen m i = Some CallerCh \<and> (\<exists>r. okeys m r = Some (i, Some j) \<and> held m r)
      else mg_seen m i = Some DialedCh \<and> (mg_dialing m i = Some j \<or> ob_watchdog oc)))"

definition dials_ok :: "nat set \<Rightarrow> manager \<Rightarrow> bool" where
  "dials_ok F m \<longleftrightarrow> (\<forall>j. j < mg_nextOut m \<longleftrightarrow> mg_outs m j \<noteq> None)
     \<and> (\<forall>i j. mg_outbound m i = Some j \<longrightarrow> tracked_ok m i j)
     \<and> (\<forall>i i' j. mg_outbound m i = Some j \<longrightarrow> mg_outbound m i' = Some j \<longrightarrow> i = i')
     \<and> (\<forall>r r' i i' j. okeys m r = Some (i, Some j) \<longrightarrow> okeys m r' = Some (i', Some j) \<longrightarrow> r = r')
     \<and> (\<forall>r i j. okeys m r = Some (i, Some j) \<longrightarrow> (\<exists>oc. mg_outs m j = Some oc \<and> ob_answered oc))
     \<and> (\<forall>i j. mg_dialing m i = Some j \<longrightarrow> j < mg_nextOut m \<and> mg_seen m i \<noteq> None
          \<and> (\<forall>j'. mg_outbound m i = Some j' \<longrightarrow> j' = j))
     \<and> (\<forall>j < mg_nextOut m. (\<exists>i. mg_outbound m i = Some j) \<or> is_done m j \<or> j \<in> F)
     \<and> (\<forall>r i a. okeys m r = Some (i, a) \<longrightarrow> mg_seen m i = Some CallerCh)
     \<and> (\<forall>r r' i a a'. okeys m r = Some (i, a) \<longrightarrow> okeys m r' = Some (i, a') \<longrightarrow> r = r')
     \<and> (\<forall>r. okeys m r \<noteq> None \<longrightarrow> r < mg_nextCall m)"

lemma dials_okD:
  assumes "dials_ok F m"
  shows "j < mg_nextOut m \<longleftrightarrow> mg_outs m j \<noteq> None"
    and "mg_outbound m i = Some j \<Longrightarrow> tracked_ok m i j"
    and "mg_outbound m i = Some j \<Longrightarrow> mg_outbound m i' = Some j \<Longrightarrow> i = i'"
    and "okeys m r = Some (i, Some j) \<Longrightarrow> okeys m r' = Some (i', Some j) \<Longrightarrow> r = r'"
    and "okeys m r = Some (i, Some j) \<Longrightarrow> \<exists>oc. mg_outs m j = Some oc \<and> ob_answered oc"
    and "mg_dialing m i = Some j \<Longrightarrow> j < mg_nextOut m \<and> mg_seen m i \<noteq> None \<and> (\<forall>j'. mg_outbound m i = Some j' \<longrightarrow> j' = j)"
    and "j < mg_nextOut m \<Longrightarrow> (\<exists>i. mg_outbound m i = Some j) \<or> is_done m j \<or> j \<in> F"
    and "okeys m r = Some (i, a) \<Longrightarrow> mg_seen m i = Some CallerCh"
    and "okeys m r = Some (i, a) \<Longrightarrow> okeys m r' = Some (i, a') \<Longrightarrow> r = r'"
    and "okeys m r \<noteq> None \<Longrightarrow> r < mg_nextCall m"
proof -
  note d = assms [unfolded dials_ok_def]
  show "j < mg_nextOut m \<longleftrightarrow> mg_outs m j \<noteq> None" using d [THEN conjunct1] by blast
  show "mg_outbound m i = Some j \<Longrightarrow> tracked_ok m i j" using d [THEN conjunct2, THEN conjunct1] by blast
  show "mg_outbound m i = Some j \<Longrightarrow> mg_outbound m i' = Some j \<Longrightarrow> i = i'"
    using d [THEN conjunct2, THEN conjunct2, THEN conjunct1] by blast
  show "okeys m r = Some (i, Some j) \<Longrightarrow> okeys m r' = Some (i', Some j) \<Longrightarrow> r = r'"
    using d [THEN conjunct2, THEN conjunct2, THEN conjunct2, THEN conjunct1] by blast
  show "okeys m r = Some (i, Some j) \<Longrightarrow> \<exists>oc. mg_outs m j = Some oc \<and> ob_answered oc"
    using d [THEN conjunct2, THEN conjunct2, THEN conjunct2, THEN conjunct2, THEN conjunct1] by blast
  show "mg_dialing m i = Some j \<Longrightarrow> j < mg_nextOut m \<and> mg_seen m i \<noteq> None \<and> (\<forall>j'. mg_outbound m i = Some j' \<longrightarrow> j' = j)"
    using d [THEN conjunct2, THEN conjunct2, THEN conjunct2, THEN conjunct2, THEN conjunct2, THEN conjunct1] by blast
  show "j < mg_nextOut m \<Longrightarrow> (\<exists>i. mg_outbound m i = Some j) \<or> is_done m j \<or> j \<in> F"
    using d [THEN conjunct2, THEN conjunct2, THEN conjunct2, THEN conjunct2, THEN conjunct2, THEN conjunct2, THEN conjunct1] by blast
  note e = d [THEN conjunct2, THEN conjunct2, THEN conjunct2, THEN conjunct2, THEN conjunct2, THEN conjunct2, THEN conjunct2]
  show "okeys m r = Some (i, a) \<Longrightarrow> mg_seen m i = Some CallerCh" using e [THEN conjunct1] by blast
  show "okeys m r = Some (i, a) \<Longrightarrow> okeys m r' = Some (i, a') \<Longrightarrow> r = r'" using e [THEN conjunct2, THEN conjunct1] by blast
  show "okeys m r \<noteq> None \<Longrightarrow> r < mg_nextCall m" using e [THEN conjunct2, THEN conjunct2] by blast
qed

lemma dials_okI:
  assumes "\<And>j. j < mg_nextOut m \<longleftrightarrow> mg_outs m j \<noteq> None"
    and "\<And>i j. mg_outbound m i = Some j \<Longrightarrow> tracked_ok m i j"
    and "\<And>i i' j. mg_outbound m i = Some j \<Longrightarrow> mg_outbound m i' = Some j \<Longrightarrow> i = i'"
    and "\<And>r r' i i' j. okeys m r = Some (i, Some j) \<Longrightarrow> okeys m r' = Some (i', Some j) \<Longrightarrow> r = r'"
    and "\<And>r i j. okeys m r = Some (i, Some j) \<Longrightarrow> \<exists>oc. mg_outs m j = Some oc \<and> ob_answered oc"
    and "\<And>i j. mg_dialing m i = Some j \<Longrightarrow> j < mg_nextOut m \<and> mg_seen m i \<noteq> None \<and> (\<forall>j'. mg_outbound m i = Some j' \<longrightarrow> j' = j)"
    and "\<And>j. j < mg_nextOut m \<Longrightarrow> (\<exists>i. mg_outbound m i = Some j) \<or> is_done m j \<or> j \<in> F"
    and "\<And>r i a. okeys m r = Some (i, a) \<Longrightarrow> mg_seen m i = Some CallerCh"
    and "\<And>r r' i a a'. okeys m r = Some (i, a) \<Longrightarrow> okeys m r' = Some (i, a') \<Longrightarrow> r = r'"
    and "\<And>r. okeys m r \<noteq> None \<Longrightarrow> r < mg_nextCall m"
  shows "dials_ok F m"
  unfolding dials_ok_def
  by (intro conjI; (intro allI impI)?; (fact assms)?)

section \<open>Steps that leave the dialed calls alone\<close>

lemma dials_same:
  assumes "dials_ok F m" "dview m' = dview m" "okeys m' = okeys m"
      "\<And>r i j. held m r \<Longrightarrow> okeys m r = Some (i, Some j) \<Longrightarrow> held m' r"
    and "\<And>i. mg_seen m i \<noteq> None \<Longrightarrow> mg_seen m' i = mg_seen m i" "mg_nextCall m' = mg_nextCall m"
  shows "dials_ok F m'"
proof -
  have v: "mg_outs m' = mg_outs m" "mg_nextOut m' = mg_nextOut m" "mg_outbound m' = mg_outbound m" "mg_dialing m' = mg_dialing m"
    using assms(2) by (simp_all add: dview_def)
  show ?thesis
  proof (rule dials_okI; (unfold v assms(3,6))?)
    fix i j assume "mg_outbound m i = Some j"
    from dials_okD(2) [OF assms(1) this] obtain oc where oc: "mg_outs m j = Some oc" "\<not> ob_done oc"
      "if ob_answered oc then mg_seen m i = Some CallerCh \<and> (\<exists>r. okeys m r = Some (i, Some j) \<and> held m r)
       else mg_seen m i = Some DialedCh \<and> (mg_dialing m i = Some j \<or> ob_watchdog oc)"
      unfolding tracked_ok_def by blast
    then show "tracked_ok m' i j"
      unfolding tracked_ok_def v assms(3) using assms(4,5) by (intro exI [of _ oc]) (auto split: if_splits)
  next
    show "j < mg_nextOut m \<longleftrightarrow> mg_outs m j \<noteq> None" for j by (rule dials_okD(1) [OF assms(1)])
    show "i = i'" if "mg_outbound m i = Some j" "mg_outbound m i' = Some j" for i i' j
      by (rule dials_okD(3) [OF assms(1) that])
    show "r = r'" if "okeys m r = Some (i, Some j)" "okeys m r' = Some (i', Some j)" for r r' i i' j
      by (rule dials_okD(4) [OF assms(1) that])
    show "\<exists>oc. mg_outs m j = Some oc \<and> ob_answered oc" if "okeys m r = Some (i, Some j)" for r i j
      by (rule dials_okD(5) [OF assms(1) that])
    show "j < mg_nextOut m \<and> mg_seen m' i \<noteq> None \<and> (\<forall>j'. mg_outbound m i = Some j' \<longrightarrow> j' = j)" if "mg_dialing m i = Some j" for i j
      using dials_okD(6) [OF assms(1) that] assms(5) by auto
    show "(\<exists>i. mg_outbound m i = Some j) \<or> is_done m' j \<or> j \<in> F" if "j < mg_nextOut m" for j
      using dials_okD(7) [OF assms(1) that] by (auto simp: is_done_def v)
    show "mg_seen m' i = Some CallerCh" if "okeys m r = Some (i, a)" for r i a
      using dials_okD(8) [OF assms(1) that] assms(5) by simp
    show "r = r'" if "okeys m r = Some (i, a)" "okeys m r' = Some (i, a')" for r r' i a a'
      by (rule dials_okD(9) [OF assms(1) that])
    show "r < mg_nextCall m" if "okeys m r \<noteq> None" for r by (rule dials_okD(10) [OF assms(1) that])
  qed
qed

text \<open>Steps of this kind, as a relation that composes.\<close>

definition calm :: "manager \<Rightarrow> manager \<Rightarrow> bool" where
  "calm m m' \<longleftrightarrow> dview m' = dview m \<and> okeys m' = okeys m \<and> (\<forall>r. held m r \<longrightarrow> held m' r)
     \<and> (\<forall>i. mg_seen m i \<noteq> None \<longrightarrow> mg_seen m' i = mg_seen m i) \<and> mg_nextCall m' = mg_nextCall m"

lemma calm_refl [intro, simp]: "calm m m" by (simp add: calm_def)

lemma calm_trans [trans]: "calm a b \<Longrightarrow> calm b c \<Longrightarrow> calm a c" unfolding calm_def by auto

lemma calm_dials:
  assumes "dials_ok F m" "calm m m'"
  shows "dials_ok F m'"
proof (rule dials_same [OF assms(1)])
  show "dview m' = dview m" "okeys m' = okeys m" "held m r \<Longrightarrow> held m' r" for r using assms(2) unfolding calm_def by blast+
  show "mg_seen m i \<noteq> None \<Longrightarrow> mg_seen m' i = mg_seen m i" for i using assms(2) unfolding calm_def by blast
  show "mg_nextCall m' = mg_nextCall m" using assms(2) unfolding calm_def by blast
qed

lemma calmI:
  assumes "dview m' = dview m" "mg_calls m' = mg_calls m" "mg_cleaning m' = mg_cleaning m"
    "\<And>i. mg_seen m i \<noteq> None \<Longrightarrow> mg_seen m' i = mg_seen m i" "mg_nextCall m' = mg_nextCall m"
  shows "calm m m'"
  using assms by (auto simp: calm_def okeys_def held_def)

lemma calm_upd:
  assumes "\<And>c. ac_ID (f c) = ac_ID c \<and> ac_out (f c) = ac_out c \<and> ac_once (f c) = ac_once c"
  shows "calm m (upd_call r f m)"
proof -
  have "okeys (upd_call r f m) = okeys m"
    by (rule ext) (simp add: okeys_def upd_call_def assms option.map_comp comp_def)
  moreover have "held m q \<Longrightarrow> held (upd_call r f m) q" for q
    using assms by (auto simp: held_def upd_call_def)
  ultimately show ?thesis by (simp add: calm_def dview_def ari_frame)
qed

lemma calm_Teardown: "calm m (Teardown r k m)"
proof -
  have "okeys (Teardown r k m) = okeys m"
    by (rule ext) (auto simp: okeys_def Teardown_def Let_def session_Teardown_def SetState_def split: option.split)
  moreover have "held m q \<Longrightarrow> held (Teardown r k m) q" for q
    by (auto simp: held_def Teardown_def Let_def session_Teardown_def SetState_def split: option.split)
  ultimately show ?thesis by (simp add: calm_def dview_def Teardown_frame)
qed

lemma calm_abort: "calm m (abort r m)"
proof (cases "mg_calls m r")
  case (Some c)
  have "calm m (m\<lparr>mg_pending := without (ac_ID c) (ac_ExternalID c) (mg_pending m)\<rparr>)" by (rule calmI) (simp_all add: dview_def)
  also note calm_Teardown [of _ r AbortCleanup]
  finally show ?thesis by (simp add: abort_def Some)
qed (simp add: abort_def)

lemma calm_teardown: "calm m (teardown r m)"
  by (simp add: teardown_def calm_Teardown)

lemma calm_StasisEnd: "calm m (onStasisEnd i m)"
proof -
  have "calm m (teardown r (m\<lparr>mg_active := a\<rparr>))" for r a
    by (rule calm_trans [OF _ calm_teardown]) (rule calmI, simp_all add: dview_def)
  then show ?thesis by (simp add: onStasisEnd_def calm_abort split: option.split)
qed

lemma calm_teardowns: "calm m (fold teardown rs m)"
  by (induction rs arbitrary: m) (auto intro: calm_trans [OF calm_teardown])

lemma calm_bridge: "calm m (fst (completeBridge r c b reply m))"
proof -
  have l: "calm m (m\<lparr>mg_loop := LoopIdle\<rparr>)" by (rule calmI) (simp_all add: dview_def)
  have u: "calm w (upd_call r (\<lambda>c. SetState StateBridged (c\<lparr>ac_bridge := Some b\<rparr>)) w)" for w
    by (rule calm_upd) (simp add: SetState_def)
  have t: "calm w (w\<lparr>mg_active := a, mg_starting := s\<rparr>)" for w a s by (rule calmI) (simp_all add: dview_def)
  show ?thesis
    by (cases reply)
      (simp_all add: completeBridge_def Let_def calm_trans [OF l calm_abort] calm_trans [OF l calm_trans [OF u t]])
qed

lemma calm_transfers:
  "mg_seen m d = None \<Longrightarrow> calm m (transfer_start r d m)" "calm m (fst (transfer_end d pt w m))"
  "calm m (fst (connect_start d r c m))" "calm m (fst (onTransferLegAnswered d m))" "calm m (onTransferLegDestroyed d m)"
  by (rule calmI; auto simp: transfer_start_def transfer_end_def forget_transfer_def connect_start_def onTransferLegAnswered_def
      onTransferLegDestroyed_def dview_def split: option.split transfer_end.split)+

lemma calm_connect: "calm m (fst (connect_reply d r c ok m))"
proof -
  have a: "calm m (m\<lparr>mg_connecting := co\<rparr>)" for co by (rule calmI) (simp_all add: dview_def)
  have b: "calm w (w\<lparr>mg_active := ac\<rparr>)" for w ac by (rule calmI) (simp_all add: dview_def)
  have u: "calm w (upd_call r (\<lambda>c. c\<lparr>ac_transferChannel := Some d\<rparr>) w)" "calm w (upd_call r (\<lambda>c. c\<lparr>ac_mediaDone := True\<rparr>) w)" for w
    by (rule calm_upd; simp)+
  show ?thesis
    by (simp add: connect_reply_def Let_def a calm_trans [OF a calm_trans [OF u(1) calm_trans [OF b u(2)]]])
qed

section \<open>Reports\<close>

text \<open>A tracked call dropped and marked done; a call that carried it may be gone.\<close>

lemma dials_drop:
  assumes "dials_ok F m" "mg_outbound m' = (mg_outbound m)(i := None)" "mg_nextOut m' = mg_nextOut m" "mg_dialing m' = mg_dialing m"
    and "\<And>a. a \<noteq> i \<Longrightarrow> mg_seen m' a = mg_seen m a" "okeys m' = okeys m"
    and "\<And>j'. mg_outbound m i = Some j' \<Longrightarrow> j' = j" "\<And>i'. mg_outbound m i' = Some j \<Longrightarrow> i' = i"
    and "\<And>j'. j' \<noteq> j \<Longrightarrow> mg_outs m' j' = mg_outs m j'"
    and "mg_outs m j = Some oc" "mg_outs m' j = Some oc'" "ob_answered oc \<longrightarrow> ob_answered oc'" "ob_done oc'"
    and "\<And>q i' j'. held m q \<Longrightarrow> okeys m q = Some (i', Some j') \<Longrightarrow> mg_outbound m i' = Some j' \<Longrightarrow> i' \<noteq> i \<Longrightarrow> held m' q"
    and "mg_seen m i = Some CallerCh \<Longrightarrow> mg_seen m' i = Some CallerCh" "mg_seen m i \<noteq> None \<Longrightarrow> mg_seen m' i \<noteq> None"
      "mg_nextCall m' = mg_nextCall m"
  shows "dials_ok F m'"
proof (rule dials_okI; (unfold assms(3,4,6,17))?)
  show "j' < mg_nextOut m \<longleftrightarrow> mg_outs m' j' \<noteq> None" for j'
    using dials_okD(1) [OF assms(1), of j'] assms(9-11) by (cases "j' = j") auto
next
  fix i' j' assume t: "mg_outbound m' i' = Some j'"
  then have i': "i' \<noteq> i" "mg_outbound m i' = Some j'" by (auto simp: assms(2) split: if_splits)
  then have j': "j' \<noteq> j" using assms(8) by blast
  from dials_okD(2) [OF assms(1) i'(2)] obtain oc1 where oc1: "mg_outs m j' = Some oc1" "\<not> ob_done oc1"
      "if ob_answered oc1 then mg_seen m i' = Some CallerCh \<and> (\<exists>r. okeys m r = Some (i', Some j') \<and> held m r)
       else mg_seen m i' = Some DialedCh \<and> (mg_dialing m i' = Some j' \<or> ob_watchdog oc1)"
    unfolding tracked_ok_def by blast
  then show "tracked_ok m' i' j'"
    unfolding tracked_ok_def assms(4,6) assms(9) [OF j'] assms(5) [OF i'(1)] using assms(14) [OF _ _ i'(2) i'(1)]
    by (intro exI [of _ oc1]) (auto split: if_splits)
next
  show "i1 = i2" if "mg_outbound m' i1 = Some j'" "mg_outbound m' i2 = Some j'" for i1 i2 j'
    using that dials_okD(3) [OF assms(1), of i1 j' i2] by (auto simp: assms(2) split: if_splits)
  show "r = r'" if "okeys m r = Some (a, Some j')" "okeys m r' = Some (b, Some j')" for r r' a b j'
    by (rule dials_okD(4) [OF assms(1) that])
  show "\<exists>oc. mg_outs m' j' = Some oc \<and> ob_answered oc" if "okeys m r = Some (a, Some j')" for r a j'
    using dials_okD(5) [OF assms(1) that] assms(9-12) by (cases "j' = j") auto
  show "j' < mg_nextOut m \<and> mg_seen m' a \<noteq> None \<and> (\<forall>j''. mg_outbound m' a = Some j'' \<longrightarrow> j'' = j')" if "mg_dialing m a = Some j'" for a j'
    using dials_okD(6) [OF assms(1) that] assms(5) [of a] assms(16) by (cases "a = i") (auto simp: assms(2))
  show "(\<exists>a. mg_outbound m' a = Some j') \<or> is_done m' j' \<or> j' \<in> F" if j': "j' < mg_nextOut m" for j'
  proof (cases "j' = j")
    case True
    then show ?thesis using assms(11,13) by (simp add: is_done_def)
  next
    case False
    show ?thesis using dials_okD(7) [OF assms(1) j']
    proof (elim disjE exE)
      fix a assume a: "mg_outbound m a = Some j'"
      then have "a \<noteq> i" using assms(7) False by blast
      then show ?thesis using a by (auto simp: assms(2))
    qed (auto simp: is_done_def assms(9) [OF False])
  qed
  show "mg_seen m' a = Some CallerCh" if "okeys m r = Some (a, b)" for r a b
    using dials_okD(8) [OF assms(1) that] assms(5) [of a] assms(15) by (cases "a = i") auto
  show "r < mg_nextCall m" if "okeys m r \<noteq> None" for r by (rule dials_okD(10) [OF assms(1) that])
  show "r = r'" if "okeys m r = Some (a, b)" "okeys m r' = Some (a, b')" for r r' a b b'
    by (rule dials_okD(9) [OF assms(1) that])
qed

text \<open>How often a step reports each call.\<close>

definition reports :: "nat \<Rightarrow> ari_effect list \<Rightarrow> nat" where
  "reports j ev = length (filter (\<lambda>x. case x of DoneCalled j' out \<Rightarrow> j' = j | _ \<Rightarrow> False) ev)"

lemma reports_simps [simp]: "reports j [] = 0" "reports j (ev @ ev') = reports j ev + reports j ev'"
  "reports j (x # ev) = (case x of DoneCalled j' out \<Rightarrow> if j' = j then 1 else 0 | _ \<Rightarrow> 0) + reports j ev"
  by (simp_all add: reports_def split: ari_effect.split)

definition once_reported :: "manager \<Rightarrow> ari_effect list \<Rightarrow> manager \<Rightarrow> bool" where
  "once_reported m ev m' \<longleftrightarrow> (\<forall>j. reports j ev + (if is_done m j then 1 else 0) = (if is_done m' j then 1 else 0))"

lemma once_reported_trans:
  assumes "once_reported m ev m1" "once_reported m1 ev' m'"
  shows "once_reported m (ev @ ev') m'"
  unfolding once_reported_def
proof
  fix j
  have "reports j ev + (if is_done m j then 1 else 0) = (if is_done m1 j then 1 else 0)"
    "reports j ev' + (if is_done m1 j then 1 else 0) = (if is_done m' j then 1 else 0)"
    using assms by (simp_all only: once_reported_def)
  then show "reports j (ev @ ev') + (if is_done m j then 1 else 0) = (if is_done m' j then 1 else 0)"
    unfolding reports_simps by linarith
qed

lemma same_done: "(\<And>j. is_done m' j = is_done m j) \<Longrightarrow> (\<And>j. reports j ev = 0) \<Longrightarrow> once_reported m ev m'"
  by (simp add: once_reported_def)

lemma calm_reported: "calm m m' \<Longrightarrow> (\<And>j. reports j ev = 0) \<Longrightarrow> once_reported m ev m'"
  by (rule same_done) (simp_all add: calm_def dview_def is_done_def)

lemma finish_reported: "once_reported m (snd (out_finish j out m)) (fst (out_finish j out m))"
proof (cases "mg_outs m j")
  case None
  then show ?thesis by (simp add: out_finish_def once_reported_def)
next
  case (Some oc)
  show ?thesis
  proof (cases "ob_done oc")
    case True
    then show ?thesis by (simp add: out_finish_def once_reported_def Some)
  next
    case False
    have "is_done (upd_out j (\<lambda>oc. oc\<lparr>ob_done := True\<rparr>) m) j' \<longleftrightarrow> j' = j \<or> is_done m j'" for j'
      by (auto simp: is_done_def upd_out_def Some)
    then show ?thesis using Some False by (auto simp: out_finish_def once_reported_def is_done_def)
  qed
qed

section \<open>Steps of the dialed calls\<close>

lemma upd_out_frame:
  "mg_outbound (upd_out j f m) = mg_outbound m" "mg_nextOut (upd_out j f m) = mg_nextOut m" "mg_dialing (upd_out j f m) = mg_dialing m"
  "mg_seen (upd_out j f m) = mg_seen m" "okeys (upd_out j f m) = okeys m" "held (upd_out j f m) q = held m q"
  "mg_nextCall (upd_out j f m) = mg_nextCall m"
  "mg_outs (upd_out j f m) = (mg_outs m)(j := map_option f (mg_outs m j))"
  by (simp_all add: upd_out_def okeys_def held_def)

lemma out_finish_frame:
  "mg_outbound (fst (out_finish j out m)) = mg_outbound m" "mg_nextOut (fst (out_finish j out m)) = mg_nextOut m"
  "mg_dialing (fst (out_finish j out m)) = mg_dialing m" "mg_seen (fst (out_finish j out m)) = mg_seen m"
  "okeys (fst (out_finish j out m)) = okeys m" "held (fst (out_finish j out m)) q = held m q"
  "mg_nextCall (fst (out_finish j out m)) = mg_nextCall m"
  by (simp_all add: out_finish_def upd_out_frame split: option.split)

lemma out_finish_outs:
  "j' \<noteq> j \<Longrightarrow> mg_outs (fst (out_finish j out m)) j' = mg_outs m j'"
  "mg_outs m j = Some oc \<Longrightarrow> mg_outs (fst (out_finish j out m)) j = Some (oc\<lparr>ob_done := True\<rparr>)"
  by (auto simp: out_finish_def upd_out_frame split: option.split)

text \<open>The three that take a ringing call report it.\<close>

lemma take_finish:
  assumes "dials_ok F m" "takeRinging i m = (m1, Some j)"
  shows "dials_ok F (fst (out_finish j out m1))" and "once_reported m (snd (out_finish j out m1)) (fst (out_finish j out m1))"
proof -
  obtain oc where t: "mg_outbound m i = Some j" "mg_outs m j = Some oc" "\<not> ob_answered oc"
    "m1 = upd_out j (\<lambda>oc. oc\<lparr>ob_watchdog := False\<rparr>) (m\<lparr>mg_outbound := (mg_outbound m)(i := None)\<rparr>)"
    using assms(2) by (auto simp: takeRinging_def split: option.splits if_splits)
  have o1: "mg_outs m1 j = Some (oc\<lparr>ob_watchdog := False\<rparr>)" by (simp add: t(2,4) upd_out_frame)
  show "dials_ok F (fst (out_finish j out m1))"
  proof (rule dials_drop [OF assms(1), where i = i and j = j and oc = oc])
    show "j' = j" if "mg_outbound m i = Some j'" for j' using that t(1) by simp
    show "i' = i" if "mg_outbound m i' = Some j" for i' by (rule dials_okD(3) [OF assms(1) that t(1)])
    show "mg_outs (fst (out_finish j out m1)) j = Some (oc\<lparr>ob_watchdog := False, ob_done := True\<rparr>)"
      using out_finish_outs(2) [OF o1] by simp
    show "mg_outs (fst (out_finish j out m1)) j' = mg_outs m j'" if "j' \<noteq> j" for j'
      using that by (simp add: out_finish_outs(1) t(4) upd_out_frame)
    show "held (fst (out_finish j out m1)) q" if "held m q" for q
      using that by (simp add: out_finish_frame t(4) upd_out_frame) (simp add: held_def)
    show "okeys (fst (out_finish j out m1)) = okeys m" by (simp add: out_finish_frame t(4) upd_out_frame) (simp add: okeys_def)
  qed (simp_all add: out_finish_frame t upd_out_frame)
  have "once_reported m [] m1"
    by (rule same_done) (auto simp: is_done_def t(2,4) upd_out_frame)
  from once_reported_trans [OF this finish_reported] show
    "once_reported m (snd (out_finish j out m1)) (fst (out_finish j out m1))" by simp
qed

lemma take_none: "takeRinging i m = (m1, None) \<Longrightarrow> m1 = m"
  by (auto simp: takeRinging_def split: option.splits if_splits)

lemma ringing_ops:
  assumes "dials_ok F m"
  shows "dials_ok F (fst (onOutboundDestroyed i cause m)) \<and> once_reported m (snd (onOutboundDestroyed i cause m)) (fst (onOutboundDestroyed i cause m))"
    and "dials_ok F (fst (outboundTimedOut i m)) \<and> once_reported m (snd (outboundTimedOut i m)) (fst (outboundTimedOut i m))"
    and "dials_ok F (fst (hangup_ringing i m)) \<and> once_reported m (snd (hangup_ringing i m)) (fst (hangup_ringing i m))"
proof -
  obtain m1 w where t: "takeRinging i m = (m1, w)" by (cases "takeRinging i m")
  have h: "once_reported a (HangupChan i # ev) b \<longleftrightarrow> once_reported a ev b" for a ev b by (simp add: once_reported_def)
  show "dials_ok F (fst (onOutboundDestroyed i cause m)) \<and> once_reported m (snd (onOutboundDestroyed i cause m)) (fst (onOutboundDestroyed i cause m))"
    and "dials_ok F (fst (outboundTimedOut i m)) \<and> once_reported m (snd (outboundTimedOut i m)) (fst (outboundTimedOut i m))"
    and "dials_ok F (fst (hangup_ringing i m)) \<and> once_reported m (snd (hangup_ringing i m)) (fst (hangup_ringing i m))"
  proof (atomize (full), cases w)
    case None
    have "once_reported m [] m" by (simp add: once_reported_def)
    then show "(dials_ok F (fst (onOutboundDestroyed i cause m)) \<and> once_reported m (snd (onOutboundDestroyed i cause m)) (fst (onOutboundDestroyed i cause m)))
      \<and> (dials_ok F (fst (outboundTimedOut i m)) \<and> once_reported m (snd (outboundTimedOut i m)) (fst (outboundTimedOut i m)))
      \<and> (dials_ok F (fst (hangup_ringing i m)) \<and> once_reported m (snd (hangup_ringing i m)) (fst (hangup_ringing i m)))"
      using take_none [of i m m1] t assms None
      by (simp add: onOutboundDestroyed_def outboundTimedOut_def hangup_ringing_def)
  next
    case (Some j)
    from t Some have t': "takeRinging i m = (m1, Some j)" by simp
    show "(dials_ok F (fst (onOutboundDestroyed i cause m)) \<and> once_reported m (snd (onOutboundDestroyed i cause m)) (fst (onOutboundDestroyed i cause m)))
      \<and> (dials_ok F (fst (outboundTimedOut i m)) \<and> once_reported m (snd (outboundTimedOut i m)) (fst (outboundTimedOut i m)))
      \<and> (dials_ok F (fst (hangup_ringing i m)) \<and> once_reported m (snd (hangup_ringing i m)) (fst (hangup_ringing i m)))"
      by (simp add: onOutboundDestroyed_def outboundTimedOut_def hangup_ringing_def t' split_beta h take_finish [OF assms t'])
  qed
qed

lemma hangupRinging_ops:
  assumes "dials_ok F m"
  shows "dials_ok F (fst (hangupRingingOutbound ids m))
    \<and> once_reported m (snd (hangupRingingOutbound ids m)) (fst (hangupRingingOutbound ids m))"
  using assms
proof (induction ids arbitrary: m)
  case Nil
  then show ?case by (simp add: once_reported_def)
next
  case (Cons i ids)
  from ringing_ops(3) [OF Cons.prems, of i] Cons.IH [of "fst (hangup_ringing i m)"] show ?case
    by (auto simp: split_beta intro: once_reported_trans)
qed

section \<open>The end of a call that was dialed\<close>

lemma before_finish:
  assumes "mg_calls m r = Some c"
  shows "\<exists>w ev. cleanup r k c m = (fst (finishOutbound c w), ev @ snd (finishOutbound c w)) \<and> (\<forall>j. reports j ev = 0)
    \<and> dview w = dview m \<and> okeys w = okeys m \<and> mg_seen w = mg_seen m \<and> mg_nextCall w = mg_nextCall m
    \<and> (\<forall>q. q \<noteq> r \<longrightarrow> held m q \<longrightarrow> held w q)"
proof -
  have u: "dview (upd_call r f w) = dview w \<and> okeys (upd_call r f w) = okeys w \<and> (\<forall>q. q \<noteq> r \<longrightarrow> held (upd_call r f w) q = held w q)"
    if "\<And>c. ac_ID (f c) = ac_ID c \<and> ac_out (f c) = ac_out c \<and> ac_once (f c) = ac_once c" for f w
    using calm_upd [of f w r] that by (auto simp: calm_def held_def upd_call_def)
  show ?thesis
  proof (cases k)
    case FullCleanup
    let ?act = "without (ac_ID c) (ac_ExternalID c) (mg_active m)"
    let ?w = "upd_call r (\<lambda>c. c\<lparr>ac_maxDur := False, ac_socket := False\<rparr>)
      (m\<lparr>mg_cleaning := (mg_cleaning m)(r := None), mg_pending := without (ac_ID c) (ac_ExternalID c) (mg_pending m),
         mg_active := (case ac_transferChannel c of None \<Rightarrow> ?act | Some d \<Rightarrow> ?act(d := None))\<rparr>)\<lparr>mg_ports := Free (ac_Port c) (mg_ports m)\<rparr>"
    let ?ev = "(case ac_transferChannel c of None \<Rightarrow> [] | Some d \<Rightarrow> [HangupChan d])
      @ (case ac_bridge c of None \<Rightarrow> [] | Some b \<Rightarrow> [DeletedBridge b]) @ [HangupChan (ac_ID c), HangupChan (ac_ExternalID c), CallsDec]"
    have "cleanup r k c m = (fst (finishOutbound c ?w), ?ev @ snd (finishOutbound c ?w))"
      by (cases m) (simp add: FullCleanup cleanup_def teardown_fn_def Let_def split_beta upd_call_def split: option.split)
    moreover have "dview ?w = dview m \<and> okeys ?w = okeys m \<and> mg_seen ?w = mg_seen m \<and> mg_nextCall ?w = mg_nextCall m
        \<and> (\<forall>q. q \<noteq> r \<longrightarrow> held m q \<longrightarrow> held ?w q)"
      by (auto simp: dview_def okeys_def held_def upd_call_def fun_eq_iff option.map_comp comp_def)
    moreover have "\<forall>j. reports j ?ev = 0" by (simp split: option.split)
    ultimately show ?thesis by blast
  next
    case AbortCleanup
    let ?w = "upd_call r (\<lambda>c. c\<lparr>ac_socket := False\<rparr>)
      (m\<lparr>mg_cleaning := (mg_cleaning m)(r := None)\<rparr>)\<lparr>mg_ports := Free (ac_Port c) (mg_ports m)\<rparr>"
    have "cleanup r k c m = (fst (finishOutbound c ?w), [HangupChan (ac_ID c), HangupChan (ac_ExternalID c)] @ snd (finishOutbound c ?w))"
      by (cases m) (simp add: AbortCleanup cleanup_def abort_fn_def Let_def split_beta upd_call_def)
    moreover have "dview ?w = dview m \<and> okeys ?w = okeys m \<and> mg_seen ?w = mg_seen m \<and> mg_nextCall ?w = mg_nextCall m
        \<and> (\<forall>q. q \<noteq> r \<longrightarrow> held m q \<longrightarrow> held ?w q)"
      by (auto simp: dview_def okeys_def held_def upd_call_def fun_eq_iff option.map_comp comp_def)
    moreover have "\<forall>j. reports j [HangupChan (ac_ID c), HangupChan (ac_ExternalID c)] = 0" by simp
    ultimately show ?thesis by blast
  qed
qed

lemma cleanup_dials:
  assumes "dials_ok F m" "mg_calls m r = Some c"
  shows "dials_ok F (fst (cleanup r k c m)) \<and> once_reported m (snd (cleanup r k c m)) (fst (cleanup r k c m))"
proof -
  obtain w ev where w: "cleanup r k c m = (fst (finishOutbound c w), ev @ snd (finishOutbound c w))" "\<And>j. reports j ev = 0"
    "dview w = dview m" "okeys w = okeys m" "mg_seen w = mg_seen m" "mg_nextCall w = mg_nextCall m"
    "\<And>q. q \<noteq> r \<Longrightarrow> held m q \<Longrightarrow> held w q"
    using before_finish [OF assms(2)] by blast
  have v: "mg_outs w = mg_outs m" "mg_nextOut w = mg_nextOut m" "mg_outbound w = mg_outbound m" "mg_dialing w = mg_dialing m"
    using w(3) by (simp_all add: dview_def)
  have kr: "okeys m r = Some (ac_ID c, ac_out c)" by (simp add: okeys_def assms(2))
  have r0: "once_reported m ev w" by (rule same_done) (simp_all add: is_done_def v(1) w(2))
  show ?thesis
  proof (cases "ac_out c")
    case None
    have "held w q" if "held m q" "okeys m q = Some (i, Some j)" for q i j
      using that kr None by (intro w(7)) auto
    then have "dials_ok F w" by (rule dials_same [OF assms(1) w(3,4)]) (simp_all add: w(5,6))
    then show ?thesis using r0 by (simp add: w(1) finishOutbound_def None)
  next
    case (Some j)
    have kj: "okeys m r = Some (ac_ID c, Some j)" by (simp add: kr Some)
    obtain oc where oc: "mg_outs m j = Some oc" "ob_answered oc" using dials_okD(5) [OF assms(1) kj] by blast
    let ?w = "w\<lparr>mg_outbound := (mg_outbound w)(ac_ID c := None)\<rparr>"
    obtain out where f: "finishOutbound c w = out_finish j out ?w" by (simp add: finishOutbound_def Some Let_def split: if_splits)
    have "dials_ok F (fst (out_finish j out ?w))"
    proof (rule dials_drop [OF assms(1), where i = "ac_ID c" and j = j and oc = oc])
      show "j' = j" if "mg_outbound m (ac_ID c) = Some j'" for j'
      proof -
        from dials_okD(2) [OF assms(1) that] dials_okD(8) [OF assms(1) kj]
        obtain q where "okeys m q = Some (ac_ID c, Some j')" by (auto simp: tracked_ok_def split: if_splits)
        moreover from this have "q = r" by (rule dials_okD(9) [OF assms(1) _ kj])
        ultimately show ?thesis using kj by simp
      qed
      show "i' = ac_ID c" if "mg_outbound m i' = Some j" for i'
      proof -
        from dials_okD(2) [OF assms(1) that] oc obtain q where "okeys m q = Some (i', Some j)" by (auto simp: tracked_ok_def)
        moreover from this have "q = r" by (rule dials_okD(4) [OF assms(1) _ kj])
        ultimately show ?thesis using kj by simp
      qed
      show "mg_outs (fst (out_finish j out ?w)) j' = mg_outs m j'" if "j' \<noteq> j" for j' using that by (simp add: out_finish_outs(1) v)
      show "mg_outs (fst (out_finish j out ?w)) j = Some (oc\<lparr>ob_done := True\<rparr>)" by (rule out_finish_outs(2)) (simp add: v oc)
      show "held (fst (out_finish j out ?w)) q" if "held m q" "okeys m q = Some (i', Some j')" "i' \<noteq> ac_ID c" for q i' j'
      proof -
        from that(2,3) kj have "q \<noteq> r" by auto
        from w(7) [OF this that(1)] show ?thesis by (simp add: out_finish_frame) (simp add: held_def)
      qed
      show "okeys (fst (out_finish j out ?w)) = okeys m" by (simp add: out_finish_frame flip: w(4)) (simp add: okeys_def)
    qed (simp_all add: out_finish_frame v w(5,6) oc)
    moreover have "once_reported w (snd (out_finish j out ?w)) (fst (out_finish j out ?w))"
      using finish_reported [of ?w j out] by (simp add: once_reported_def is_done_def)
    ultimately show ?thesis using once_reported_trans [OF r0] by (simp add: w(1) f)
  qed
qed

section \<open>Dialing\<close>

lemma Dial_start_dials:
  assumes "dials_ok F m" "mg_seen m i = None"
  shows "dials_ok F (fst (Dial_start i req m)) \<and> once_reported m (snd (Dial_start i req m)) (fst (Dial_start i req m))"
proof
  let ?j = "mg_nextOut m"
  define m' where "m' = fst (Dial_start i req m)"
  define oc where "oc = \<lparr>ob_req = req, ob_done = False, ob_watchdog = False, ob_answered = False, ob_agentStarted = False\<rparr>"
  have m': "mg_outs m' = (mg_outs m)(?j \<mapsto> oc)" "mg_nextOut m' = Suc ?j" "mg_outbound m' = (mg_outbound m)(i \<mapsto> ?j)"
    "mg_dialing m' = (mg_dialing m)(i \<mapsto> ?j)" "mg_seen m' = (mg_seen m)(i \<mapsto> DialedCh)" "okeys m' = okeys m"
    "\<And>q. held m' q = held m q" "mg_nextCall m' = mg_nextCall m"
    by (simp_all add: m'_def Dial_start_def Let_def oc_def okeys_def held_def)
  have fresh: "mg_outs m ?j = None" using dials_okD(1) [OF assms(1), of ?j] by simp
  have seen: "mg_seen m a \<noteq> None" if "mg_outbound m a = Some j" for a j
    using dials_okD(2) [OF assms(1) that] by (auto simp: tracked_ok_def split: if_splits)
  have old: "j < ?j" if "mg_outs m j \<noteq> None" for j using dials_okD(1) [OF assms(1), of j] that by simp
  have tr: "j < ?j" if "mg_outbound m a = Some j" for a j
    using dials_okD(2) [OF assms(1) that] old by (auto simp: tracked_ok_def)
  show "dials_ok F (fst (Dial_start i req m))"
    unfolding m'_def [symmetric]
  proof (rule dials_okI)
    show "j < mg_nextOut m' \<longleftrightarrow> mg_outs m' j \<noteq> None" for j
      using dials_okD(1) [OF assms(1), of j] by (auto simp: m' less_Suc_eq)
    show "tracked_ok m' a j" if "mg_outbound m' a = Some j" for a j
    proof (cases "a = i")
      case True
      then show ?thesis using that by (simp add: tracked_ok_def m' oc_def)
    next
      case False
      then have a: "mg_outbound m a = Some j" using that by (simp add: m')
      then have "j \<noteq> ?j" using tr by fastforce
      with False have "mg_outs m' j = mg_outs m j" "mg_seen m' a = mg_seen m a" "mg_dialing m' a = mg_dialing m a"
        by (simp_all add: m')
      then show ?thesis using dials_okD(2) [OF assms(1) a] by (simp only: tracked_ok_def m'(6,7))
    qed
    show "a = b" if "mg_outbound m' a = Some j" "mg_outbound m' b = Some j" for a b j
      using that tr dials_okD(3) [OF assms(1)] by (auto simp: m' split: if_splits)
    show "r = r'" if "okeys m' r = Some (a, Some j)" "okeys m' r' = Some (b, Some j)" for r r' a b j
      using that dials_okD(4) [OF assms(1)] by (simp add: m')
    show "\<exists>oc. mg_outs m' j = Some oc \<and> ob_answered oc" if "okeys m' r = Some (a, Some j)" for r a j
      using that dials_okD(5) [OF assms(1), of r a j] fresh by (auto simp: m')
    show "j < mg_nextOut m' \<and> mg_seen m' a \<noteq> None \<and> (\<forall>j'. mg_outbound m' a = Some j' \<longrightarrow> j' = j)" if "mg_dialing m' a = Some j" for a j
      using that dials_okD(6) [OF assms(1), of a j] by (auto simp: m' split: if_splits)
    show "(\<exists>a. mg_outbound m' a = Some j) \<or> is_done m' j \<or> j \<in> F" if "j < mg_nextOut m'" for j
    proof (cases "j = ?j")
      case True
      then show ?thesis by (auto simp: m')
    next
      case False
      then have "j < ?j" using that by (simp add: m')
      from dials_okD(7) [OF assms(1) this] show ?thesis
      proof (elim disjE exE)
        fix a assume a: "mg_outbound m a = Some j"
        then have "a \<noteq> i" using seen [OF a] assms(2) by auto
        then show ?thesis using a by (auto simp: m'(3))
      qed (use False in \<open>auto simp: m'(1) is_done_def\<close>)
    qed
    show "mg_seen m' a = Some CallerCh" if "okeys m' r = Some (a, b)" for r a b
      using that dials_okD(8) [OF assms(1), of r a b] assms(2) by (auto simp: m')
    show "r = r'" if "okeys m' r = Some (a, b)" "okeys m' r' = Some (a, b')" for r r' a b b'
      using that dials_okD(9) [OF assms(1)] by (simp add: m')
    show "r < mg_nextCall m'" if "okeys m' r \<noteq> None" for r using that dials_okD(10) [OF assms(1)] by (simp add: m')
  qed
  have "is_done m' j = is_done m j" for j using fresh by (auto simp: is_done_def m' oc_def)
  then show "once_reported m (snd (Dial_start i req m)) (fst (Dial_start i req m))"
    by (intro same_done) (simp_all flip: m'_def, simp add: Dial_start_def Let_def)
qed

lemma Dial_reply_dials:
  assumes "dials_ok F m" "mg_dialing m i = Some j"
  shows "dials_ok (F \<union> (if ok then {} else {j})) (fst (Dial_reply i j ok m))
    \<and> once_reported m (snd (Dial_reply i j ok m)) (fst (Dial_reply i j ok m))"
proof
  define m' where "m' = fst (Dial_reply i j ok m)"
  define arm where "arm \<longleftrightarrow> ok \<and> mg_outbound m i = Some j \<and> (case mg_outs m j of None \<Rightarrow> False | Some oc \<Rightarrow> \<not> ob_answered oc)"
  have m': "mg_outs m' = (if arm then (mg_outs m)(j := map_option (\<lambda>oc. oc\<lparr>ob_watchdog := True\<rparr>) (mg_outs m j)) else mg_outs m)"
    "mg_nextOut m' = mg_nextOut m" "mg_outbound m' = (if ok then mg_outbound m else (mg_outbound m)(i := None))"
    "mg_dialing m' = (mg_dialing m)(i := None)" "mg_seen m' = mg_seen m" "okeys m' = okeys m"
    "\<And>q. held m' q = held m q" "mg_nextCall m' = mg_nextCall m"
    by (simp_all add: m'_def Dial_reply_def Let_def arm_def upd_out_def okeys_def held_def)
  have outs: "\<exists>oc'. mg_outs m' a = Some oc' \<and> ob_answered oc' = ob_answered oc \<and> ob_done oc' = ob_done oc
      \<and> (ob_watchdog oc \<longrightarrow> ob_watchdog oc') \<and> (a = j \<and> arm \<longrightarrow> ob_watchdog oc')" if "mg_outs m a = Some oc" for a oc
    using that by (cases "a = j \<and> arm") (auto simp: m'(1))
  have dom: "mg_outs m' a = None \<longleftrightarrow> mg_outs m a = None" for a by (simp add: m'(1))
  have dn: "is_done m' a = is_done m a" for a by (auto simp: is_done_def m'(1))
  have sub: "mg_outbound m a = Some b \<and> (ok \<or> a \<noteq> i)" if "mg_outbound m' a = Some b" for a b
    using that by (simp add: m'(3) split: if_splits)
  show "dials_ok (F \<union> (if ok then {} else {j})) (fst (Dial_reply i j ok m))"
    unfolding m'_def [symmetric]
  proof (rule dials_okI)
    show "a < mg_nextOut m' \<longleftrightarrow> mg_outs m' a \<noteq> None" for a using dials_okD(1) [OF assms(1), of a] by (simp add: m'(2) dom)
    show "tracked_ok m' a b" if "mg_outbound m' a = Some b" for a b
    proof -
      from sub [OF that] have a: "mg_outbound m a = Some b" "ok \<or> a \<noteq> i" by simp_all
      from dials_okD(2) [OF assms(1) a(1)] obtain oc where oc: "mg_outs m b = Some oc" "\<not> ob_done oc"
        "if ob_answered oc then mg_seen m a = Some CallerCh \<and> (\<exists>r. okeys m r = Some (a, Some b) \<and> held m r)
         else mg_seen m a = Some DialedCh \<and> (mg_dialing m a = Some b \<or> ob_watchdog oc)"
        unfolding tracked_ok_def by blast
      obtain oc' where oc': "mg_outs m' b = Some oc'" "ob_answered oc' = ob_answered oc" "ob_done oc' = ob_done oc"
        "ob_watchdog oc \<longrightarrow> ob_watchdog oc'" "b = j \<and> arm \<longrightarrow> ob_watchdog oc'" using outs [OF oc(1)] by blast
      have "mg_dialing m' a = Some b \<or> ob_watchdog oc'" if "\<not> ob_answered oc" "mg_dialing m a = Some b"
      proof (cases "a = i")
        case True
        then have "b = j" using assms(2) that(2) by simp
        moreover have arm using True a \<open>b = j\<close> oc(1) that(1) by (simp add: arm_def)
        ultimately show ?thesis using oc'(5) by simp
      qed (use that in \<open>simp add: m'(4)\<close>)
      then show ?thesis using oc oc' unfolding tracked_ok_def by (auto simp: m'(5-7) split: if_splits)
    qed
    show "a = b" if "mg_outbound m' a = Some k" "mg_outbound m' b = Some k" for a b k
      using sub [OF that(1)] sub [OF that(2)] dials_okD(3) [OF assms(1)] by blast
    show "r = r'" if "okeys m' r = Some (a, Some k)" "okeys m' r' = Some (b, Some k)" for r r' a b k
      using that dials_okD(4) [OF assms(1)] by (simp add: m'(6))
    show "\<exists>oc. mg_outs m' k = Some oc \<and> ob_answered oc" if "okeys m' r = Some (a, Some k)" for r a k
      using that dials_okD(5) [OF assms(1), of r a k] outs by (fastforce simp: m'(6))
    show "k < mg_nextOut m' \<and> mg_seen m' a \<noteq> None \<and> (\<forall>j'. mg_outbound m' a = Some j' \<longrightarrow> j' = k)" if "mg_dialing m' a = Some k" for a k
      using that dials_okD(6) [OF assms(1), of a k] sub [of a] by (auto simp: m'(2,4,5) split: if_splits)
    show "(\<exists>a. mg_outbound m' a = Some k) \<or> is_done m' k \<or> k \<in> F \<union> (if ok then {} else {j})" if "k < mg_nextOut m'" for k
      using that dials_okD(7) [OF assms(1), of k] dials_okD(6) [OF assms] by (auto simp: m'(2,3) dn)
    show "mg_seen m' a = Some CallerCh" if "okeys m' r = Some (a, b)" for r a b
      using that dials_okD(8) [OF assms(1), of r a b] by (simp add: m'(5,6))
    show "r = r'" if "okeys m' r = Some (a, b)" "okeys m' r' = Some (a, b')" for r r' a b b'
      using that dials_okD(9) [OF assms(1)] by (simp add: m'(6))
    show "r < mg_nextCall m'" if "okeys m' r \<noteq> None" for r using that dials_okD(10) [OF assms(1)] by (simp add: m'(6,8))
  qed
  have "reports k (snd (Dial_reply i j ok m)) = 0" for k by (simp add: Dial_reply_def Let_def)
  then show "once_reported m (snd (Dial_reply i j ok m)) (fst (Dial_reply i j ok m))"
    by (intro same_done) (simp_all add: dn flip: m'_def)
qed

section \<open>Answering\<close>

text \<open>A new call on channel \<open>i\<close>, of the dialed call \<open>j\<close> if any.\<close>

lemma dials_carry:
  assumes "dials_ok F m" "mg_nextOut m' = mg_nextOut m" "mg_outbound m' = mg_outbound m" "mg_dialing m' = mg_dialing m"
    and "mg_nextCall m' = Suc (mg_nextCall m)" "okeys m' = (okeys m)(mg_nextCall m \<mapsto> (i, out))" "held m' (mg_nextCall m)"
    and "\<And>q. held m q \<Longrightarrow> held m' q" "mg_seen m i \<noteq> Some CallerCh" "mg_seen m' i = Some CallerCh"
    and "\<And>a. a \<noteq> i \<Longrightarrow> mg_seen m a \<noteq> None \<Longrightarrow> mg_seen m' a = mg_seen m a" "mg_outbound m i = out"
    and "\<And>j. out \<noteq> Some j \<Longrightarrow> mg_outs m' j = mg_outs m j"
    and "\<And>j. out = Some j \<Longrightarrow> \<exists>oc oc'. mg_outs m j = Some oc \<and> mg_outs m' j = Some oc' \<and> \<not> ob_answered oc \<and> \<not> ob_done oc
       \<and> ob_answered oc' \<and> \<not> ob_done oc'"
  shows "dials_ok F m'"
proof (rule dials_okI; (unfold assms(2-5))?)
  have fresh: "okeys m (mg_nextCall m) = None" using dials_okD(10) [OF assms(1)] less_irrefl by metis
  have ok: "okeys m' r = (if r = mg_nextCall m then Some (i, out) else okeys m r)" for r by (simp add: assms(6))
  have new: "okeys m r \<noteq> Some (a, Some j)" if "out = Some j" for r a j
    using dials_okD(5) [OF assms(1), of r a j] assms(14) [OF that] by auto
  show "j < mg_nextOut m \<longleftrightarrow> mg_outs m' j \<noteq> None" for j
    using dials_okD(1) [OF assms(1), of j] assms(13,14) [of j] by (cases "out = Some j") auto
  show "tracked_ok m' a j" if a: "mg_outbound m a = Some j" for a j
  proof (cases "out = Some j")
    case True
    then have "a = i" using dials_okD(3) [OF assms(1) a, of i] assms(12) by simp
    moreover have "okeys m' (mg_nextCall m) = Some (i, Some j)" by (simp add: ok True)
    ultimately show ?thesis using assms(14) [OF True] assms(7,10) unfolding tracked_ok_def by auto
  next
    case False
    then have "a \<noteq> i" using a assms(12) by auto
    from dials_okD(2) [OF assms(1) a] obtain oc where oc: "mg_outs m j = Some oc" "\<not> ob_done oc"
      "if ob_answered oc then mg_seen m a = Some CallerCh \<and> (\<exists>r. okeys m r = Some (a, Some j) \<and> held m r)
       else mg_seen m a = Some DialedCh \<and> (mg_dialing m a = Some j \<or> ob_watchdog oc)"
      unfolding tracked_ok_def by blast
    have "mg_seen m' a = mg_seen m a" using oc(3) by (intro assms(11) [OF \<open>a \<noteq> i\<close>]) (auto split: if_splits)
    moreover have "\<exists>r. okeys m' r = Some (a, Some j) \<and> held m' r" if "okeys m r = Some (a, Some j)" "held m r" for r
      using that fresh assms(8) by (intro exI [of _ r]) (auto simp: ok)
    ultimately show ?thesis
      unfolding tracked_ok_def assms(4) using oc assms(13) [OF False] by (intro exI [of _ oc]) (auto split: if_splits)
  qed
  show "a = b" if "mg_outbound m a = Some j" "mg_outbound m b = Some j" for a b j by (rule dials_okD(3) [OF assms(1) that])
  show "r = r'" if "okeys m' r = Some (a, Some j)" "okeys m' r' = Some (b, Some j)" for r r' a b j
    using that new dials_okD(4) [OF assms(1), of r a j r' b] by (auto simp: ok split: if_splits)
  show "\<exists>oc. mg_outs m' j = Some oc \<and> ob_answered oc" if "okeys m' r = Some (a, Some j)" for r a j
  proof (cases "out = Some j")
    case True
    then show ?thesis using assms(14) by blast
  next
    case False
    then show ?thesis using that dials_okD(5) [OF assms(1), of r a j] assms(13) by (auto simp: ok split: if_splits)
  qed
  show "j < mg_nextOut m \<and> mg_seen m' a \<noteq> None \<and> (\<forall>j'. mg_outbound m a = Some j' \<longrightarrow> j' = j)" if "mg_dialing m a = Some j" for a j
    using dials_okD(6) [OF assms(1) that] assms(10) assms(11) [of a] by (cases "a = i") auto
  show "(\<exists>a. mg_outbound m a = Some j) \<or> is_done m' j \<or> j \<in> F" if "j < mg_nextOut m" for j
  proof (cases "out = Some j")
    case True
    then show ?thesis using assms(12) by blast
  next
    case False
    then show ?thesis using dials_okD(7) [OF assms(1) that] by (simp add: is_done_def assms(13))
  qed
  show "mg_seen m' a = Some CallerCh" if "okeys m' r = Some (a, b)" for r a b
    using that dials_okD(8) [OF assms(1), of r a b] assms(9-11) by (auto simp: ok split: if_splits) fastforce
  show "r = r'" if "okeys m' r = Some (a, b)" "okeys m' r' = Some (a, b')" for r r' a b b'
    using that dials_okD(9) [OF assms(1), of r a b r' b'] dials_okD(8) [OF assms(1)] assms(9) by (auto simp: ok split: if_splits)
  show "r < Suc (mg_nextCall m)" if "okeys m' r \<noteq> None" for r
    using that dials_okD(10) [OF assms(1), of r] by (auto simp: ok split: if_splits)
qed

text \<open>An answered call whose media setup fails is reported.\<close>

lemma setup_failed_dials:
  assumes "dials_ok F m" "mg_seen m i = Some DialedCh" "mg_outbound m i = Some j"
    and "m1 = upd_out j (\<lambda>oc. oc\<lparr>ob_answered := True, ob_watchdog := False\<rparr>) (m\<lparr>mg_seen := (mg_seen m)(i \<mapsto> CallerCh)\<rparr>)\<lparr>mg_ports := po\<rparr>"
  shows "dials_ok F (fst (outboundSetupFailed i m1))"
    and "once_reported m (snd (outboundSetupFailed i m1)) (fst (outboundSetupFailed i m1))"
proof -
  obtain oc where oc: "mg_outs m j = Some oc" "\<not> ob_done oc"
    using dials_okD(2) [OF assms(1,3)] by (auto simp: tracked_ok_def)
  let ?w = "m1\<lparr>mg_outbound := (mg_outbound m1)(i := None)\<rparr>"
  have out1: "mg_outbound m1 i = Some j" by (simp add: assms(3,4) upd_out_frame)
  obtain out where f: "outboundSetupFailed i m1 = out_finish j out ?w" by (simp add: outboundSetupFailed_def Let_def out1)
  have o1: "mg_outs ?w j = Some (oc\<lparr>ob_answered := True, ob_watchdog := False\<rparr>)" by (simp add: assms(4) upd_out_frame oc)
  show "dials_ok F (fst (outboundSetupFailed i m1))"
    unfolding f
  proof (rule dials_drop [OF assms(1), where i = i and j = j and oc = oc])
    show "mg_outs (fst (out_finish j out ?w)) j = Some (oc\<lparr>ob_answered := True, ob_watchdog := False, ob_done := True\<rparr>)"
      using out_finish_outs(2) [OF o1] by simp
    show "mg_outs (fst (out_finish j out ?w)) j' = mg_outs m j'" if "j' \<noteq> j" for j'
      using that by (simp add: out_finish_outs(1) assms(4) upd_out_frame)
    show "i' = i" if "mg_outbound m i' = Some j" for i' by (rule dials_okD(3) [OF assms(1) that assms(3)])
    show "held (fst (out_finish j out ?w)) q" if "held m q" for q
      using that by (simp add: out_finish_frame) (simp add: held_def assms(4) upd_out_def)
    show "okeys (fst (out_finish j out ?w)) = okeys m" by (simp add: out_finish_frame) (simp add: okeys_def assms(4) upd_out_def)
  qed (use assms(2,3) oc in \<open>simp_all add: out_finish_frame assms(4) upd_out_frame\<close>)
  have "once_reported m [] ?w" by (rule same_done) (auto simp: is_done_def assms(4) upd_out_frame oc)
  from once_reported_trans [OF this finish_reported [where j = j and out = out and m = ?w]]
  show "once_reported m (snd (outboundSetupFailed i m1)) (fst (outboundSetupFailed i m1))" by (simp add: f)
qed

text \<open>The call \<open>startCall\<close> adds, as far as this invariant sees it.\<close>

lemma startCall_added:
  assumes "\<not> (mg_outbound m i = None \<and> \<not> answered)" "Alloc (mg_ports m) = Inr (port, ports)" "bound"
  shows "okeys (fst (startCall cfg i x info answered bound m)) = (okeys m)(mg_nextCall m \<mapsto> (i, mg_outbound m i))"
    "held (fst (startCall cfg i x info answered bound m)) (mg_nextCall m)"
    "\<And>q. okeys m (mg_nextCall m) = None \<Longrightarrow> held m q \<Longrightarrow> held (fst (startCall cfg i x info answered bound m)) q"
    "dview (fst (startCall cfg i x info answered bound m)) = dview m"
    "mg_nextCall (fst (startCall cfg i x info answered bound m)) = Suc (mg_nextCall m)"
    "mg_seen (fst (startCall cfg i x info answered bound m)) = (mg_seen m)(x \<mapsto> ExternalCh)"
    "snd (startCall cfg i x info answered bound m) = (if mg_outbound m i = None then [AnswerChan i] else [])"
proof -
  define info' where "info' = (case mg_outbound m i of None \<Rightarrow> info\<lparr>ci_Direction := ''inbound''\<rparr>
     | Some o' \<Rightarrow> (case mg_outs m o' of None \<Rightarrow> info
         | Some oc \<Rightarrow> \<lparr>ci_CallerNumber = dq_CallerID (ob_req oc), ci_CalledNumber = dq_Called (ob_req oc), ci_Direction = ''outbound''\<rparr>))"
  define c where "c = SetState StateStaged (session_call.extend (session_New i x port info')
      (ari_call.fields True (mg_outbound m i) None False False None (mc_MaxCallDuration cfg > 0)))"
  have c: "ac_ID c = i" "ac_out c = mg_outbound m i" "\<not> ac_once c"
    by (simp_all add: c_def SetState_def session_call.extend_def session_New_def ari_call.fields_def)
  have f: "fst (startCall cfg i x info answered bound m) = m\<lparr>mg_ports := ports, mg_calls := (mg_calls m)(mg_nextCall m \<mapsto> c),
      mg_nextCall := Suc (mg_nextCall m), mg_pending := (mg_pending m)(x \<mapsto> mg_nextCall m, i \<mapsto> mg_nextCall m),
      mg_loop := LoopStaging (mg_nextCall m), mg_seen := (mg_seen m)(x \<mapsto> ExternalCh)\<rparr>"
    using assms by (auto simp: startCall_def Let_def c_def info'_def split: option.split)
  show "okeys (fst (startCall cfg i x info answered bound m)) = (okeys m)(mg_nextCall m \<mapsto> (i, mg_outbound m i))"
    by (rule ext) (simp add: f okeys_def c)
  show "held (fst (startCall cfg i x info answered bound m)) (mg_nextCall m)" by (simp add: f held_def c)
  show "held (fst (startCall cfg i x info answered bound m)) q" if "okeys m (mg_nextCall m) = None" "held m q" for q
    using that by (auto simp: f held_def okeys_def)
  show "dview (fst (startCall cfg i x info answered bound m)) = dview m"
    "mg_nextCall (fst (startCall cfg i x info answered bound m)) = Suc (mg_nextCall m)"
    "mg_seen (fst (startCall cfg i x info answered bound m)) = (mg_seen m)(x \<mapsto> ExternalCh)" by (simp_all add: f dview_def)
  show "snd (startCall cfg i x info answered bound m) = (if mg_outbound m i = None then [AnswerChan i] else [])"
    using assms by (auto simp: startCall_def Let_def)
qed

text \<open>\<open>startCall\<close> on a channel that just became a caller's; \<open>m\<close> is the state before that.\<close>

lemma untracked_setup: "mg_outbound m i = None \<Longrightarrow> outboundSetupFailed i m = (m, [])"
  by (cases m) (auto simp: outboundSetupFailed_def Let_def fun_eq_iff)

lemma fresh_call: "dials_ok F m \<Longrightarrow> okeys m (mg_nextCall m) = None"
  using dials_okD(10) [of F m "mg_nextCall m"] less_irrefl by metis

lemma Inbound_dials:
  assumes "dials_ok F m" "mg_seen m i = None" "mg_seen m x = None" "i \<noteq> x"
    and "m1 = m\<lparr>mg_seen := (mg_seen m)(i \<mapsto> CallerCh)\<rparr>"
  shows "dials_ok F (fst (startCall cfg i x info answered bound m1))
    \<and> once_reported m (snd (startCall cfg i x info answered bound m1)) (fst (startCall cfg i x info answered bound m1))"
proof -
  have out: "mg_outbound m i = None"
  proof (cases "mg_outbound m i")
    case (Some j)
    from dials_okD(2) [OF assms(1) Some] assms(2) show ?thesis by (auto simp: tracked_ok_def split: if_splits)
  qed
  have c: "calm m (m1\<lparr>mg_ports := po\<rparr>)" for po by (rule calmI) (use assms(2) in \<open>auto simp: assms(5) dview_def\<close>)
  have c1: "calm m m1" by (rule calmI) (use assms(2) in \<open>auto simp: assms(5) dview_def\<close>)
  have out1: "mg_outbound m1 i = None" "mg_outbound (m1\<lparr>mg_ports := po\<rparr>) i = None" for po by (simp_all add: assms(5) out)
  consider (no) "\<not> answered" | (full) err where "answered" "Alloc (mg_ports m1) = Inl err"
    | (unbound) port ports where "answered" "Alloc (mg_ports m1) = Inr (port, ports)" "\<not> bound"
    | (new) port ports where "answered" "Alloc (mg_ports m1) = Inr (port, ports)" "bound"
    by (cases "Alloc (mg_ports m1)") auto
  then show ?thesis
  proof cases
    case no
    then show ?thesis using calm_dials [OF assms(1) c1] calm_reported [OF c1] by (simp add: startCall_def Let_def out1)
  next
    case full
    then show ?thesis using calm_dials [OF assms(1) c1]
      by (auto simp: startCall_def Let_def out1 untracked_setup intro: calm_reported [OF c1])
  next
    case unbound
    then show ?thesis using calm_dials [OF assms(1) c]
      by (auto simp: startCall_def Let_def out1 untracked_setup intro: calm_reported [OF c])
  next
    case new
    let ?m = "fst (startCall cfg i x info answered bound m1)"
    note add = startCall_added [OF _ new(2,3), where i = i and answered = answered and cfg = cfg and x = x and info = info]
    have g: "\<not> (mg_outbound m1 i = None \<and> \<not> answered)" using new(1) by simp
    have e: "okeys m1 = okeys m" "dview m1 = dview m" "mg_nextCall m1 = mg_nextCall m" "held m1 = held m"
      by (auto simp: assms(5) okeys_def dview_def held_def fun_eq_iff)
    have v: "mg_outs ?m = mg_outs m" "mg_nextOut ?m = mg_nextOut m" "mg_outbound ?m = mg_outbound m" "mg_dialing ?m = mg_dialing m"
      using add(4) [OF g] e(2) by (simp_all add: dview_def)
    have "dials_ok F ?m"
    proof (rule dials_carry [OF assms(1), where i = i and out = None])
      show "okeys ?m = (okeys m)(mg_nextCall m \<mapsto> (i, None))" using add(1) [OF g] by (simp add: e out1)
      show "held ?m (mg_nextCall m)" using add(2) [OF g] by (simp add: e)
      show "held ?m q" if "held m q" for q using add(3) [OF g, of q] that fresh_call [OF assms(1)] by (simp add: e)
      show "mg_seen ?m i = Some CallerCh" using add(6) [OF g] assms(4) by (simp add: assms(5))
      show "mg_seen ?m a = mg_seen m a" if "a \<noteq> i" "mg_seen m a \<noteq> None" for a
        using add(6) [OF g] that assms(3) by (auto simp: assms(5))
      show "mg_nextCall ?m = Suc (mg_nextCall m)" using add(5) [OF g] by (simp add: e)
    qed (use assms(2) out in \<open>simp_all add: v\<close>)
    moreover have "once_reported m (snd (startCall cfg i x info answered bound m1)) ?m"
      by (rule same_done) (simp_all add: is_done_def v add(7) [OF g])
    ultimately show ?thesis by simp
  qed
qed

lemma OutboundAnswered_dials:
  assumes "dials_ok F m" "mg_seen m i = Some DialedCh" "mg_seen m x = None"
    and "m1 = m\<lparr>mg_seen := (mg_seen m)(i \<mapsto> CallerCh)\<rparr>"
  shows "dials_ok F (fst (onOutboundAnswered cfg i x info bound m1))
    \<and> once_reported m (snd (onOutboundAnswered cfg i x info bound m1)) (fst (onOutboundAnswered cfg i x info bound m1))"
proof (cases "mg_outbound m i")
  case None
  have s: "dials_ok F m1"
  proof (rule dials_okI)
    have v: "mg_outs m1 = mg_outs m" "mg_nextOut m1 = mg_nextOut m" "mg_outbound m1 = mg_outbound m" "mg_dialing m1 = mg_dialing m"
      "okeys m1 = okeys m" "mg_nextCall m1 = mg_nextCall m" "held m1 = held m" "is_done m1 = is_done m"
      by (auto simp: assms(4) okeys_def held_def is_done_def fun_eq_iff)
    note d = dials_okD [OF assms(1)]
    show "tracked_ok m1 a j" if "mg_outbound m1 a = Some j" for a j
    proof -
      from that have a: "mg_outbound m a = Some j" by (simp add: v)
      with None have "mg_seen m1 a = mg_seen m a" by (auto simp: assms(4))
      then show ?thesis using d(2) [OF a] by (simp only: tracked_ok_def v)
    qed
    show "mg_seen m1 a = Some CallerCh" if "okeys m1 r = Some (a, b)" for r a b
      using d(8) [of r a b] that by (simp add: v) (simp add: assms(4))
    show "j < mg_nextOut m1 \<and> mg_seen m1 a \<noteq> None \<and> (\<forall>j'. mg_outbound m1 a = Some j' \<longrightarrow> j' = j)" if "mg_dialing m1 a = Some j" for a j
      using d(6) [of a j] that by (simp add: v) (simp add: assms(4))
    show "j < mg_nextOut m1 \<longleftrightarrow> mg_outs m1 j \<noteq> None" for j using d(1) [of j] by (simp add: v)
    show "a = b" if "mg_outbound m1 a = Some j" "mg_outbound m1 b = Some j" for a b j using d(3) that by (simp add: v)
    show "r = r'" if "okeys m1 r = Some (a, Some j)" "okeys m1 r' = Some (b, Some j)" for r r' a b j using d(4) that by (simp add: v)
    show "\<exists>oc. mg_outs m1 j = Some oc \<and> ob_answered oc" if "okeys m1 r = Some (a, Some j)" for r a j using d(5) that by (simp add: v)
    show "(\<exists>a. mg_outbound m1 a = Some j) \<or> is_done m1 j \<or> j \<in> F" if "j < mg_nextOut m1" for j using d(7) that by (simp add: v)
    show "r = r'" if "okeys m1 r = Some (a, b)" "okeys m1 r' = Some (a, b')" for r r' a b b' using d(9) that by (simp add: v)
    show "r < mg_nextCall m1" if "okeys m1 r \<noteq> None" for r using d(10) that by (simp add: v)
  qed
  have "once_reported m [HangupChan i] m1" by (rule same_done) (simp_all add: is_done_def assms(4))
  then show ?thesis using s None by (simp add: onOutboundAnswered_def assms(4))
next
  case (Some j)
  define w where "w = upd_out j (\<lambda>oc. oc\<lparr>ob_answered := True, ob_watchdog := False\<rparr>) m1"
  have out1: "mg_outbound m1 i = Some j" "mg_outbound w i = Some j" by (simp_all add: assms(4) w_def upd_out_frame Some)
  have f: "onOutboundAnswered cfg i x info bound m1 = startCall cfg i x info True bound w"
    by (simp add: onOutboundAnswered_def out1 w_def)
  obtain oc where oc: "mg_outs m j = Some oc" "\<not> ob_done oc" "\<not> ob_answered oc"
    using dials_okD(2) [OF assms(1) Some] assms(2) by (auto simp: tracked_ok_def split: if_splits)
  note fail = setup_failed_dials [OF assms(1,2) Some]
  consider (full) err where "Alloc (mg_ports w) = Inl err" | (unbound) port ports where "Alloc (mg_ports w) = Inr (port, ports)" "\<not> bound"
    | (new) port ports where "Alloc (mg_ports w) = Inr (port, ports)" "bound"
    by (cases "Alloc (mg_ports w)") auto
  then show ?thesis
  proof cases
    case full
    have w: "w = upd_out j (\<lambda>oc. oc\<lparr>ob_answered := True, ob_watchdog := False\<rparr>) (m\<lparr>mg_seen := (mg_seen m)(i \<mapsto> CallerCh)\<rparr>)\<lparr>mg_ports := mg_ports m\<rparr>"
      by (cases m) (simp add: w_def assms(4) upd_out_def)
    from fail [OF w] full show ?thesis unfolding f
      by (simp add: startCall_def Let_def out1 split_beta) (simp add: once_reported_def)
  next
    case unbound
    have w: "w\<lparr>mg_ports := Free port ports\<rparr> = upd_out j (\<lambda>oc. oc\<lparr>ob_answered := True, ob_watchdog := False\<rparr>)
        (m\<lparr>mg_seen := (mg_seen m)(i \<mapsto> CallerCh)\<rparr>)\<lparr>mg_ports := Free port ports\<rparr>"
      by (simp add: w_def assms(4) upd_out_def)
    from fail [OF w] unbound show ?thesis unfolding f
      by (simp add: startCall_def Let_def out1 split_beta) (simp add: once_reported_def)
  next
    case new
    let ?m = "fst (startCall cfg i x info True bound w)"
    note add = startCall_added [OF _ new, where i = i and answered = True and cfg = cfg and x = x and info = info]
    have g: "\<not> (mg_outbound w i = None \<and> \<not> True)" by simp
    have e: "okeys w = okeys m" "mg_nextCall w = mg_nextCall m" "held w = held m"
      by (auto simp: w_def assms(4) upd_out_def okeys_def held_def fun_eq_iff)
    have v: "mg_outs ?m = mg_outs w" "mg_nextOut ?m = mg_nextOut m" "mg_outbound ?m = mg_outbound m" "mg_dialing ?m = mg_dialing m"
      using add(4) [OF g] by (simp_all add: dview_def w_def assms(4) upd_out_def)
    have wo: "mg_outs w = (mg_outs m)(j \<mapsto> oc\<lparr>ob_answered := True, ob_watchdog := False\<rparr>)"
      by (simp add: w_def assms(4) upd_out_def oc)
    have xi: "x \<noteq> i" using assms(2,3) by auto
    have "dials_ok F ?m"
    proof (rule dials_carry [OF assms(1), where i = i and out = "Some j"])
      show "okeys ?m = (okeys m)(mg_nextCall m \<mapsto> (i, Some j))" using add(1) [OF g] by (simp add: e out1)
      show "held ?m (mg_nextCall m)" using add(2) [OF g] by (simp add: e)
      show "held ?m q" if "held m q" for q using add(3) [OF g, of q] that fresh_call [OF assms(1)] by (simp add: e)
      show "mg_seen ?m i = Some CallerCh" using add(6) [OF g] xi by (simp add: w_def assms(4) upd_out_def)
      show "mg_seen ?m a = mg_seen m a" if "a \<noteq> i" "mg_seen m a \<noteq> None" for a
        using add(6) [OF g] that assms(3) by (auto simp: w_def assms(4) upd_out_def)
      show "mg_nextCall ?m = Suc (mg_nextCall m)" using add(5) [OF g] by (simp add: e)
      show "mg_outs ?m j' = mg_outs m j'" if "Some j \<noteq> Some j'" for j' using that by (simp add: v(1) wo)
      show "\<exists>oc oc'. mg_outs m j' = Some oc \<and> mg_outs ?m j' = Some oc' \<and> \<not> ob_answered oc \<and> \<not> ob_done oc
          \<and> ob_answered oc' \<and> \<not> ob_done oc'" if "Some j = Some j'" for j'
        using that oc by (simp add: v(1) wo)
    qed (use assms(2) Some in \<open>simp_all add: v\<close>)
    moreover have "once_reported m (snd (startCall cfg i x info True bound w)) ?m"
      by (rule same_done) (auto simp: is_done_def v(1) wo oc add(7) [OF g])
    ultimately show ?thesis by (simp add: f)
  qed
qed

section \<open>The other steps, and every step\<close>

text \<open>A setup that fails at the externalMedia request reports its call like the end of one.\<close>

lemma setup_reply_dials:
  assumes "dials_ok F m" "mg_calls m r = Some c"
  shows "dials_ok F (fst (externalMedia_reply r c ok m))
    \<and> once_reported m (snd (externalMedia_reply r c ok m)) (fst (externalMedia_reply r c ok m))"
proof (cases ok)
  case True
  have "calm m (m\<lparr>mg_loop := LoopIdle\<rparr>)" by (rule calmI) (simp_all add: dview_def)
  then show ?thesis using True calm_dials [OF assms(1)] calm_reported by (simp add: externalMedia_reply_def Let_def)
next
  case False
  define w where "w = upd_call r (\<lambda>c. c\<lparr>ac_socket := False\<rparr>)
      (m\<lparr>mg_loop := LoopIdle, mg_pending := without (ac_ID c) (ac_ExternalID c) (mg_pending m)\<rparr>)\<lparr>mg_ports := Free (ac_Port c) (mg_ports m)\<rparr>"
  have f: "externalMedia_reply r c ok m = (fst (outboundSetupFailed (ac_ID c) w), HangupChan (ac_ID c) # snd (outboundSetupFailed (ac_ID c) w))"
    by (simp add: externalMedia_reply_def Let_def False w_def split_beta upd_call_def)
  have cw: "calm m w"
  proof -
    have "calm m (m\<lparr>mg_loop := LoopIdle, mg_pending := without (ac_ID c) (ac_ExternalID c) (mg_pending m)\<rparr>)"
      by (rule calmI) (simp_all add: dview_def)
    also have "calm \<dots> (upd_call r (\<lambda>c. c\<lparr>ac_socket := False\<rparr>) \<dots>)" by (rule calm_upd) simp
    also have "calm \<dots> w" unfolding w_def by (rule calmI) (simp_all add: dview_def)
    finally show ?thesis .
  qed
  have dw: "dials_ok F w" by (rule calm_dials [OF assms(1) cw])
  have "okeys w r = Some (ac_ID c, ac_out c)" using cw by (simp add: calm_def okeys_def assms(2))
  note kw = this
  show ?thesis
  proof (cases "mg_outbound w (ac_ID c)")
    case None
    have "once_reported m [HangupChan (ac_ID c)] w" by (rule calm_reported [OF cw]) simp
    then show ?thesis using dw by (simp add: f untracked_setup [OF None])
  next
    case (Some j)
    obtain oc where oc: "mg_outs w j = Some oc" using dials_okD(2) [OF dw Some] by (auto simp: tracked_ok_def)
    let ?w = "w\<lparr>mg_outbound := (mg_outbound w)(ac_ID c := None)\<rparr>"
    obtain out where g: "outboundSetupFailed (ac_ID c) w = out_finish j out ?w" by (simp add: outboundSetupFailed_def Let_def Some)
    have "dials_ok F (fst (out_finish j out ?w))"
    proof (rule dials_drop [OF dw, where i = "ac_ID c" and j = j and oc = oc])
      show "i' = ac_ID c" if "mg_outbound w i' = Some j" for i' by (rule dials_okD(3) [OF dw that Some])
      show "mg_outs (fst (out_finish j out ?w)) j' = mg_outs w j'" if "j' \<noteq> j" for j' using that by (simp add: out_finish_outs(1))
      show "mg_outs (fst (out_finish j out ?w)) j = Some (oc\<lparr>ob_done := True\<rparr>)" by (rule out_finish_outs(2)) (simp add: oc)
      show "held (fst (out_finish j out ?w)) q" if "held w q" for q using that by (simp add: out_finish_frame) (simp add: held_def)
      show "okeys (fst (out_finish j out ?w)) = okeys w" by (simp add: out_finish_frame) (simp add: okeys_def)
    qed (simp_all add: out_finish_frame Some oc)
    moreover have "once_reported m [HangupChan (ac_ID c)] ?w"
      using calm_reported [OF cw, of "[HangupChan (ac_ID c)]"] by (simp add: once_reported_def is_done_def)
    ultimately show ?thesis using once_reported_trans [OF _ finish_reported [where j = j and out = out and m = ?w]] by (simp add: f g) force
  qed
qed

text \<open>An agent that starts only sets its call's flag.\<close>

lemma agentStarted_dials:
  assumes "dials_ok F m"
  shows "dials_ok F (upd_out j (\<lambda>oc. oc\<lparr>ob_agentStarted := True\<rparr>) m) \<and> once_reported m [] (upd_out j (\<lambda>oc. oc\<lparr>ob_agentStarted := True\<rparr>) m)"
proof
  let ?m = "upd_out j (\<lambda>oc. oc\<lparr>ob_agentStarted := True\<rparr>) m"
  have o: "\<exists>oc'. mg_outs ?m a = Some oc' \<and> ob_answered oc' = ob_answered oc \<and> ob_done oc' = ob_done oc \<and> ob_watchdog oc' = ob_watchdog oc"
    if "mg_outs m a = Some oc" for a oc using that by (auto simp: upd_out_frame)
  have dn: "is_done ?m a = is_done m a" for a by (auto simp: is_done_def upd_out_frame)
  note d = dials_okD [OF assms]
  show "dials_ok F ?m"
  proof (rule dials_okI; (unfold dn upd_out_frame(1-7))?)
    show "tracked_ok ?m i k" if "mg_outbound m i = Some k" for i k
    proof -
      from d(2) [OF that] obtain oc where oc: "mg_outs m k = Some oc" "\<not> ob_done oc"
        "if ob_answered oc then mg_seen m i = Some CallerCh \<and> (\<exists>r. okeys m r = Some (i, Some k) \<and> held m r)
         else mg_seen m i = Some DialedCh \<and> (mg_dialing m i = Some k \<or> ob_watchdog oc)"
        unfolding tracked_ok_def by blast
      with o [OF oc(1)] show ?thesis unfolding tracked_ok_def by (auto simp: upd_out_frame(1-6) split: if_splits)
    qed
    show "\<exists>oc. mg_outs ?m k = Some oc \<and> ob_answered oc" if "okeys m r = Some (i, Some k)" for r i k
      using d(5) [OF that] o by metis
    show "k < mg_nextOut m \<longleftrightarrow> mg_outs ?m k \<noteq> None" for k using d(1) [of k] by (auto simp: upd_out_frame)
    show "i = i'" if "mg_outbound m i = Some k" "mg_outbound m i' = Some k" for i i' k by (rule d(3) [OF that])
    show "r = r'" if "okeys m r = Some (i, Some k)" "okeys m r' = Some (i', Some k)" for r r' i i' k by (rule d(4) [OF that])
    show "k < mg_nextOut m \<and> mg_seen m i \<noteq> None \<and> (\<forall>j'. mg_outbound m i = Some j' \<longrightarrow> j' = k)" if "mg_dialing m i = Some k" for i k
      by (rule d(6) [OF that])
    show "(\<exists>i. mg_outbound m i = Some k) \<or> is_done m k \<or> k \<in> F" if "k < mg_nextOut m" for k by (rule d(7) [OF that])
    show "mg_seen m i = Some CallerCh" if "okeys m r = Some (i, a)" for r i a by (rule d(8) [OF that])
    show "r = r'" if "okeys m r = Some (i, a)" "okeys m r' = Some (i, a')" for r r' i a a' by (rule d(9) [OF that])
    show "r < mg_nextCall m" if "okeys m r \<noteq> None" for r by (rule d(10) [OF that])
  qed
  show "once_reported m [] ?m" by (rule same_done) (simp_all add: dn)
qed

definition refused :: "ari_effect list \<Rightarrow> nat set" where
  "refused ev = {j. DialFailed j \<in> set ev}"

lemma refused_append: "refused (ev @ ev') = refused ev \<union> refused ev'" by (auto simp: refused_def)

lemma dials_weaken:
  assumes "dials_ok F m" "F \<subseteq> F'"
  shows "dials_ok F' m"
proof -
  have "\<forall>j < mg_nextOut m. (\<exists>i. mg_outbound m i = Some j) \<or> is_done m j \<or> j \<in> F'"
    using dials_okD(7) [OF assms(1)] assms(2) by blast
  with assms(1) show ?thesis unfolding dials_ok_def by - (elim conjE, intro conjI; assumption)
qed

text \<open>The steps that leave dialed calls alone report nothing.\<close>

lemma quiet_effects:
  "reports j (snd (completeBridge r c b reply m)) = 0" "reports j (snd (transfer_end d pt w m)) = 0"
  "reports j (snd (connect_start d r c m)) = 0" "reports j (snd (connect_reply d r c ok m)) = 0"
  "reports j (snd (onTransferLegAnswered d m)) = 0" "reports j (snd (startMedia_run r m)) = 0"
  by (simp_all add: completeBridge_def transfer_end_def connect_start_def connect_reply_def onTransferLegAnswered_def
      startMedia_run_def Let_def split: bridge_reply.split transfer_end.split option.split)

lemma calm_step:
  assumes "dials_ok F m" "calm m m'" "\<And>j. reports j ev = 0"
  shows "dials_ok (F \<union> G) m' \<and> once_reported m ev m'"
  using dials_weaken [OF calm_dials [OF assms(1,2)], of "F \<union> G"] calm_reported [OF assms(2,3)] by simp

lemma start_media_dials:
  assumes "dials_ok F m"
  shows "dials_ok F (startMedia_handler cfg r c acc m) \<and> once_reported m [] (startMedia_handler cfg r c acc m)"
    and "calm m (startMedia_plane r c m)" and "calm m (fst (startMedia_run r m))"
proof -
  have s: "calm w (w\<lparr>mg_starting := st\<rparr>)" for w st by (rule calmI) (simp_all add: dview_def)
  have "calm m (teardown r (m\<lparr>mg_starting := st\<rparr>))" for st by (rule calm_trans [OF s calm_teardown])
  then have "dials_ok F (teardown r (m\<lparr>mg_starting := st\<rparr>)) \<and> once_reported m [] (teardown r (m\<lparr>mg_starting := st\<rparr>))" for st
    using calm_dials [OF assms] calm_reported by simp
  moreover have "dials_ok F (mediaHandler c (m\<lparr>mg_starting := st\<rparr>)) \<and> once_reported m [] (mediaHandler c (m\<lparr>mg_starting := st\<rparr>))" for st
  proof (cases "ac_out c")
    case None
    then show ?thesis using calm_dials [OF assms s] calm_reported [OF s] by (simp add: mediaHandler_def)
  next
    case (Some j)
    then show ?thesis
      using agentStarted_dials [OF calm_dials [OF assms s], of j st] once_reported_trans [OF calm_reported [OF s [of m st], of "[]"], of "[]"]
      by (simp add: mediaHandler_def)
  qed
  ultimately show "dials_ok F (startMedia_handler cfg r c acc m) \<and> once_reported m [] (startMedia_handler cfg r c acc m)"
    by (simp add: startMedia_handler_def)
  have u: "calm w (upd_call r (\<lambda>c. c\<lparr>ac_media := True\<rparr>) w)" "calm w (upd_call r (SetState StateMediaActive) w)" for w
    by (rule calm_upd, simp add: SetState_def)+
  show "calm m (startMedia_plane r c m)" "calm m (fst (startMedia_run r m))"
    by (simp_all add: startMedia_plane_def startMedia_run_def s calm_trans [OF s u(1)] calm_trans [OF s u(2)])
qed

lemma teardownAll_dials:
  assumes "dials_ok F m"
  shows "dials_ok F (fst (teardownAll ids refs m)) \<and> once_reported m (snd (teardownAll ids refs m)) (fst (teardownAll ids refs m))"
proof -
  obtain m1 ev where h: "hangupRingingOutbound ids m = (m1, ev)" by (cases "hangupRingingOutbound ids m")
  have "calm m1 (m1\<lparr>mg_active := Map.empty, mg_pending := Map.empty\<rparr>)" by (rule calmI) (simp_all add: dview_def)
  also note calm_teardowns
  finally have c: "calm m1 (fold teardown refs (m1\<lparr>mg_active := Map.empty, mg_pending := Map.empty\<rparr>))" .
  from hangupRinging_ops [OF assms, of ids] h have d: "dials_ok F m1" "once_reported m ev m1" by simp_all
  from once_reported_trans [OF d(2) calm_reported [OF c, of "[]"]] calm_dials [OF d(1) c] show ?thesis
    by (simp add: teardownAll_def h)
qed

lemma ari_handle_dials:
  assumes "ari_handle cfg e m = Some (m', ev)" "dials_ok F m"
  shows "dials_ok (F \<union> refused ev) m' \<and> once_reported m ev m'"
proof -
  have full: ?thesis if "dials_ok F m'" "once_reported m ev m'"
    using that dials_weaken [OF that(1), of "F \<union> refused ev"] by simp
  have calmly: ?thesis if "calm m m'" "\<And>j. reports j ev = 0"
    by (rule calm_step [OF assms(2) that])
  show ?thesis
  proof (cases e)
    case (Inbound i x info answered bound)
    let ?m = "m\<lparr>mg_seen := (mg_seen m)(i \<mapsto> CallerCh)\<rparr>"
    have g: "mg_seen m i = None" "mg_seen m x = None" "i \<noteq> x" "onStasisStart cfg i NoArg x info answered bound ?m = (m', ev)"
      using assms(1) Inbound by (auto split: if_splits)
    show ?thesis
    proof (cases "\<exists>r. mg_pending m i = Some r \<and> mg_calls m r \<noteq> None \<and> ac_ExternalID (the (mg_calls m r)) = i")
      case True
      then have "calm m m' \<and> ev = []" using g(1,4) by (auto simp: onStasisStart_def intro!: calmI simp: dview_def)
      then show ?thesis using calmly by simp
    next
      case False
      show ?thesis
      proof (cases "\<exists>r. mg_pending m i = Some r \<and> mg_calls m r = None")
        case True
        then have "calm m m' \<and> ev = []" using g(1,4) by (auto simp: onStasisStart_def intro!: calmI simp: dview_def)
        then show ?thesis using calmly by simp
      next
        case none: False
        have "startCall cfg i x info answered bound ?m = (m', ev)"
          using g(4) False none by (auto simp: onStasisStart_def split: option.splits if_splits)
        then show ?thesis using Inbound_dials [OF assms(2) g(1-3) refl, of cfg info answered bound] full by simp
      qed
    qed
  next
    case (OutboundAnswered i x info bound)
    let ?m = "m\<lparr>mg_seen := (mg_seen m)(i \<mapsto> CallerCh)\<rparr>"
    have g: "mg_seen m i = Some DialedCh" "mg_seen m x = None" "onOutboundAnswered cfg i x info bound ?m = (m', ev)"
      using assms(1) OutboundAnswered by (auto simp: onStasisStart_def split: if_splits)
    then show ?thesis using OutboundAnswered_dials [OF assms(2) g(1,2) refl, of cfg info bound] full by simp
  next
    case (ExternalArrived i)
    then have "calm m m' \<and> ev = []"
      using assms(1) by (auto simp: onStasisStart_def dview_def split: option.splits if_splits intro!: calmI)
    then show ?thesis using calmly by simp
  next
    case (TransferAnswered i)
    then show ?thesis using assms(1) calmly calm_transfers(4) [of m i] quiet_effects(5) [of _ i m] by (auto split: if_splits)
  next
    case (ExternalMediaReply ok)
    then obtain r c where g: "mg_calls m r = Some c" "externalMedia_reply r c ok m = (m', ev)"
      using assms(1) by (auto split: loop_at.splits option.splits)
    from setup_reply_dials [OF assms(2) g(1), of ok] g(2) show ?thesis using full by simp
  next
    case (BridgeReply b reply)
    then obtain r c where g: "completeBridge r c b reply m = (m', ev)"
      using assms(1) by (auto split: loop_at.splits option.splits)
    show ?thesis using calmly calm_bridge [of m r c b reply] quiet_effects(1) [of _ r c b reply m] unfolding g by simp
  next
    case (StasisEnd i)
    then show ?thesis using assms(1) calmly calm_StasisEnd [of m i] by (auto split: if_splits)
  next
    case (ChannelDestroyed i cause)
    have c: "calm m (onTransferLegDestroyed i m)" by (rule calm_transfers)
    have g: "onOutboundDestroyed i cause (onTransferLegDestroyed i m) = (m', ev)"
      using assms(1) ChannelDestroyed by (auto simp: onChannelDestroyed_def split: if_splits)
    from ringing_ops(1) [OF calm_dials [OF assms(2) c], of i cause] once_reported_trans [OF calm_reported [OF c, of "[]"]] g
    show ?thesis using full by fastforce
  next
    case (Reconnected ids refs)
    then show ?thesis using assms(1) teardownAll_dials [OF assms(2), of ids refs] full by (auto split: if_splits)
  next
    case (Shutdown ids refs)
    have c: "calm m (m\<lparr>mg_loop := LoopStopped\<rparr>)" by (rule calmI) (simp_all add: dview_def)
    have g: "teardownAll ids refs (m\<lparr>mg_loop := LoopStopped\<rparr>) = (m', ev)" using assms(1) Shutdown by (auto split: if_splits)
    from teardownAll_dials [OF calm_dials [OF assms(2) c], of ids refs] once_reported_trans [OF calm_reported [OF c, of "[]"]] g
    show ?thesis using full by fastforce
  next
    case (MaxDuration r)
    have "calm m (teardown r (upd_call r (\<lambda>c. c\<lparr>ac_maxDur := False\<rparr>) m))"
      by (rule calm_trans [OF calm_upd calm_teardown]) simp
    then show ?thesis using assms(1) MaxDuration calmly by (auto split: option.splits if_splits)
  next
    case (MediaDead r)
    then show ?thesis using assms(1) calmly calm_teardown [of m r] by (auto split: option.splits if_splits)
  next
    case (MediaHandlerBuilt r acc)
    then obtain c where "m' = startMedia_handler cfg r c acc m" "ev = []" using assms(1) by (auto split: option.splits if_splits)
    then show ?thesis using start_media_dials(1) [OF assms(2), of cfg r c acc] full by simp
  next
    case (MediaPlane r)
    then show ?thesis using assms(1) calmly start_media_dials(2) [OF assms(2), of r] by (auto split: option.splits if_splits)
  next
    case (MediaRun r)
    then have g: "startMedia_run r m = (m', ev)" using assms(1) by (auto split: if_splits)
    show ?thesis using calmly start_media_dials(3) [OF assms(2), of r] quiet_effects(6) [of _ r m] unfolding g by simp
  next
    case (Cleanup r)
    then obtain k c where g: "mg_calls m r = Some c" "cleanup r k c m = (m', ev)" using assms(1) by (auto split: option.splits)
    then show ?thesis using cleanup_dials [OF assms(2) g(1), of k] full by simp
  next
    case (DialCalled i req)
    then show ?thesis using assms(1) Dial_start_dials [OF assms(2), of i req] full by (auto split: if_splits)
  next
    case (Originated i ok)
    then obtain j where g: "mg_dialing m i = Some j" "Dial_reply i j ok m = (m', ev)" using assms(1) by (auto split: option.splits)
    have "(if ok then {} else {j}) \<subseteq> refused ev" using g(2) by (auto simp: Dial_reply_def Let_def refused_def)
    then show ?thesis using Dial_reply_dials [OF assms(2) g(1), of ok] g(2)
      dials_weaken [of "F \<union> (if ok then {} else {j})" m' "F \<union> refused ev"] by auto
  next
    case (RingTimeout i)
    then have g: "outboundTimedOut i m = (m', ev)" using assms(1) by (auto split: option.splits if_splits)
    then show ?thesis using ringing_ops(2) [OF assms(2), of i] full by simp
  next
    case (TransferCalled r d)
    then show ?thesis using assms(1) calmly calm_transfers(1) [of m d r] by (auto split: option.splits if_splits)
  next
    case (TransferEnd d w)
    then obtain pt where g: "transfer_end d pt w m = (m', ev)" using assms(1) by (auto split: option.splits if_splits)
    show ?thesis using calmly calm_transfers(2) [of m d pt w] quiet_effects(2) [of _ d pt w m] unfolding g by simp
  next
    case (ConnectStart d)
    then obtain r c where g: "connect_start d r c m = (m', ev)" using assms(1) by (auto split: option.splits connect_stage.splits)
    show ?thesis using calmly calm_transfers(3) [of m d r c] quiet_effects(3) [of _ d r c m] unfolding g by simp
  next
    case (ConnectReply d ok)
    then obtain r c where g: "connect_reply d r c ok m = (m', ev)" using assms(1) by (auto split: option.splits connect_stage.splits)
    show ?thesis using calmly calm_connect [of m d r c ok] quiet_effects(4) [of _ d r c ok m] unfolding g by simp
  qed
qed

lemma ari_run_dials:
  assumes "ari_run cfg es m = Some (m', ev)" "dials_ok F m"
  shows "dials_ok (F \<union> refused ev) m' \<and> once_reported m ev m'"
  using assms
proof (induction es arbitrary: m ev F)
  case Nil
  then show ?case by (simp add: refused_def once_reported_def)
next
  case (Cons e es)
  then obtain m1 ev1 ev2 where s: "ari_handle cfg e m = Some (m1, ev1)" "ari_run cfg es m1 = Some (m', ev2)" "ev = ev1 @ ev2"
    by (auto split: option.splits)
  from ari_handle_dials [OF s(1) Cons.prems(2)] have a: "dials_ok (F \<union> refused ev1) m1" "once_reported m ev1 m1" by simp_all
  from Cons.IH [OF s(2) a(1)] once_reported_trans [OF a(2)] show ?case by (simp add: s(3) refused_append Un_assoc)
qed

lemma NewManager_dials: "dials_ok {} (NewManager base n)"
  by (rule dials_okI) (simp_all add: NewManager_def okeys_def)

end
