(* ===== verification/Ari_Claims.thy ===== *)
theory Ari_Claims
  imports Ari_Dials
begin

text \<open>
  Properties of the call manager, over every interleaving of its event loop, its timers, the agents and
  the dialer, with a concrete run on which they are instantiated; and runs that show where the code
  does not do what its comments say.
\<close>

section \<open>A dialed call from its start to its end\<close>

definition demo_request :: dial_request where
  "demo_request = \<lparr>dq_Endpoint = ''PJSIP/1@trunk'', dq_CallerID = ''100'', dq_Called = ''200'', dq_RingTimeout = 30,
     dq_WorkflowID = 1, dq_RunID = 7\<rparr>"

definition demo_info :: call_info where
  "demo_info = \<lparr>ci_CallerNumber = ''200'', ci_CalledNumber = ''100'', ci_Direction = []\<rparr>"

definition demo_config :: ari_config where
  "demo_config = \<lparr>mc_audiosocket = False, mc_MaxCallDuration = 600\<rparr>"

definition demo_answered :: "ari_event list" where
  "demo_answered = [DialCalled 1 demo_request, Originated 1 True, OutboundAnswered 1 2 demo_info True, ExternalMediaReply True,
     ExternalArrived 2, BridgeReply 0 Bridged, MediaHandlerBuilt 0 True, MediaPlane 0, MediaRun 0]"

definition demo_transferred :: "ari_event list" where
  "demo_transferred = [TransferCalled 0 3, TransferAnswered 3, TransferEnd 3 LegAnswered, ConnectStart 3, ConnectReply 3 True]"

lemmas ari_step_defs = Dial_start_def Dial_reply_def takeRinging_def out_finish_def onOutboundDestroyed_def
  outboundTimedOut_def hangup_ringing_def outboundSetupFailed_def finishOutbound_def Teardown_def teardown_def abort_def
  teardown_fn_def abort_fn_def cleanup_def onStasisEnd_def teardownAll_def startCall_def externalMedia_reply_def
  completeBridge_def mediaHandler_def startMedia_handler_def startMedia_plane_def startMedia_run_def transfer_start_def
  forget_transfer_def transfer_end_def connect_start_def connect_reply_def onTransferLegAnswered_def
  onTransferLegDestroyed_def onOutboundAnswered_def onStasisStart_def onChannelDestroyed_def upd_call_def upd_out_def
  without_def session_New_def SetState_def session_Teardown_def

lemmas demo_defs = demo_request_def demo_info_def demo_config_def demo_answered_def demo_transferred_def NewManager_def
  NewPortAllocator_def Alloc_def Free_def

lemma pa_scan_numeral:
  "pa_scan m p (numeral n) = (if m p \<noteq> Some True then Some p else pa_scan m (p + 1) (pred_numeral n))"
  by (simp add: numeral_eq_Suc)

lemma demo_up:
  "case ari_run demo_config (demo_answered @ demo_transferred) (NewManager 20000 4) of
     None \<Rightarrow> False
   | Some (m, ev) \<Rightarrow> mg_nextOut m = 1 \<and> (\<exists>c. mg_calls m 0 = Some c \<and> ac_Port c = 20000 \<and> \<not> ac_once c) \<and> reports 0 ev = 0"
  by (simp add: ari_step_defs demo_defs session_call.defs ari_call.defs Let_def pa_scan_numeral)

section \<open>The range of the ports\<close>














section \<open>Ports and references\<close>

lemma keys_call:
  "keys m r = Some (i, x, p, u, t) \<longleftrightarrow> (\<exists>c. mg_calls m r = Some c \<and> i = ac_ID c \<and> x = ac_ExternalID c \<and> p = ac_Port c
     \<and> u = ac_once c \<and> t = ac_transferChannel c)"
  by (auto simp: keys_def key_of_def)




text \<open>Under the same conditions the manager's maps are well typed: an entry of the pending calls names a
  call by one of its two channels, an entry of the active calls by one of those or by the leg of a transfer,
  the channels of a call, its external media and its transfer leg keep their kinds, and calls do not share channels.\<close>

theorem maps_well_typed:
  assumes "ari_run cfg es (NewManager base n) = Some (m, ev)" and "ExternalMediaReply False \<notin> set es"
  shows "(\<forall>y r. mg_pending m y = Some r \<longrightarrow> (\<exists>c. mg_calls m r = Some c \<and> y \<in> {ac_ID c, ac_ExternalID c}))
    \<and> (\<forall>y r. mg_active m y = Some r \<longrightarrow> (\<exists>c. mg_calls m r = Some c \<and> (y \<in> {ac_ID c, ac_ExternalID c} \<or> mg_seen m y = Some LegCh)))
    \<and> (\<forall>r c. mg_calls m r = Some c \<longrightarrow> mg_seen m (ac_ID c) = Some CallerCh \<and> mg_seen m (ac_ExternalID c) = Some ExternalCh
         \<and> (\<forall>d. ac_transferChannel c = Some d \<longrightarrow> mg_seen m d = Some LegCh))
    \<and> (\<forall>r r' c c'. mg_calls m r = Some c \<and> mg_calls m r' = Some c' \<and> (ac_ID c = ac_ID c' \<or> ac_ExternalID c = ac_ExternalID c') \<longrightarrow> r = r')"
proof -
  have "mgr_inv {} m" by (rule ari_run_inv [OF assms(1) NewManager_inv assms(2)])
  then have i: "ids_maps m" "ids_roles m" "ids_unique m" by (simp_all add: mgr_inv_def ids_ok_def)
  show ?thesis
  proof (intro conjI)
    show "\<forall>y r. mg_pending m y = Some r \<longrightarrow> (\<exists>c. mg_calls m r = Some c \<and> y \<in> {ac_ID c, ac_ExternalID c})"
      using i(1) unfolding ids_maps_def keys_call by blast
    show "\<forall>y r. mg_active m y = Some r \<longrightarrow> (\<exists>c. mg_calls m r = Some c \<and> (y \<in> {ac_ID c, ac_ExternalID c} \<or> mg_seen m y = Some LegCh))"
      using i(1) unfolding ids_maps_def keys_call by blast
    show "\<forall>r c. mg_calls m r = Some c \<longrightarrow> mg_seen m (ac_ID c) = Some CallerCh \<and> mg_seen m (ac_ExternalID c) = Some ExternalCh
         \<and> (\<forall>d. ac_transferChannel c = Some d \<longrightarrow> mg_seen m d = Some LegCh)"
      using i(2) unfolding ids_roles_def keys_call by blast
    show "\<forall>r r' c c'. mg_calls m r = Some c \<and> mg_calls m r' = Some c' \<and> (ac_ID c = ac_ID c' \<or> ac_ExternalID c = ac_ExternalID c') \<longrightarrow> r = r'"
      using i(3) unfolding ids_unique_def keys_call by blast
  qed
qed

section \<open>What becomes of a dialed call\<close>

text \<open>C27: the dialer learns of every call it dials, once: however the steps interleave and whatever Asterisk
  answers, a dialed call that \<open>Dial\<close> did not refuse was reported through \<open>Done\<close> exactly once, or was not yet
  and is still on its way: it is being originated, rings under an armed watchdog, or was answered and
  belongs to a call whose cleanup, which reports it, is still to come. None is reported twice.\<close>

theorem dialed_reported:
  assumes "ari_run cfg es (NewManager base n) = Some (m, ev)" and "j < mg_nextOut m"
  shows "reports j ev \<le> 1 \<and> (DialFailed j \<in> set ev \<or> reports j ev = 1
    \<or> (\<exists>i oc. mg_outbound m i = Some j \<and> mg_outs m j = Some oc \<and>
         (if ob_answered oc then \<exists>r c. mg_calls m r = Some c \<and> ac_ID c = i \<and> ac_out c = Some j \<and> (ac_once c \<longrightarrow> mg_cleaning m r \<noteq> None)
          else mg_dialing m i = Some j \<or> ob_watchdog oc)))"
proof -
  from ari_run_dials [OF assms(1) NewManager_dials]
  have d: "dials_ok (refused ev) m" and o: "once_reported (NewManager base n) ev m" by simp_all
  have r: "reports j ev = (if is_done m j then 1 else 0)"
    using o by (simp add: once_reported_def is_done_def NewManager_def)
  from dials_okD(7) [OF d assms(2)] show ?thesis
  proof (elim disjE exE)
    fix i assume t: "mg_outbound m i = Some j"
    from dials_okD(2) [OF d t] obtain oc where oc: "mg_outs m j = Some oc" "\<not> ob_done oc"
      "if ob_answered oc then mg_seen m i = Some CallerCh \<and> (\<exists>r. okeys m r = Some (i, Some j) \<and> held m r)
       else mg_seen m i = Some DialedCh \<and> (mg_dialing m i = Some j \<or> ob_watchdog oc)"
      unfolding tracked_ok_def by blast
    then have "if ob_answered oc then \<exists>r c. mg_calls m r = Some c \<and> ac_ID c = i \<and> ac_out c = Some j \<and> (ac_once c \<longrightarrow> mg_cleaning m r \<noteq> None)
          else mg_dialing m i = Some j \<or> ob_watchdog oc"
      by (force simp: okeys_def held_def split: if_splits)
    with t oc(1) show ?thesis using r by auto
  qed (use r in \<open>auto simp: refused_def\<close>)
qed

section \<open>The properties at a concrete run\<close>

lemma case_runE:
  assumes "case x of None \<Rightarrow> False | Some (m, ev) \<Rightarrow> P m ev"
  obtains m ev where "x = Some (m, ev)" "P m ev"
  using assms by (auto split: option.splits)

lemma demo_run:
  obtains m ev where "ari_run demo_config (demo_answered @ demo_transferred) (NewManager 20000 4) = Some (m, ev)"
    "mg_nextOut m = 1" "reports 0 ev = 0" "\<exists>c. mg_calls m 0 = Some c \<and> ac_Port c = 20000 \<and> \<not> ac_once c"
proof (rule case_runE [OF demo_up])
  fix m ev assume r: "ari_run demo_config (demo_answered @ demo_transferred) (NewManager 20000 4) = Some (m, ev)"
    "mg_nextOut m = 1 \<and> (\<exists>c. mg_calls m 0 = Some c \<and> ac_Port c = 20000 \<and> \<not> ac_once c) \<and> reports 0 ev = 0"
  then show thesis using that [OF r(1)] by blast
qed

lemma demo_granted: "ExternalMediaReply False \<notin> set (demo_answered @ demo_transferred)"
  by (simp add: demo_answered_def demo_transferred_def)



lemma maps_well_typed_witness:
  "\<exists>m ev. ari_run demo_config (demo_answered @ demo_transferred) (NewManager 20000 4) = Some (m, ev)
     \<and> (\<exists>c. mg_calls m 0 = Some c \<and> mg_seen m (ac_ID c) = Some CallerCh)"
proof -
  obtain m ev where r: "ari_run demo_config (demo_answered @ demo_transferred) (NewManager 20000 4) = Some (m, ev)"
    "\<exists>c. mg_calls m 0 = Some c \<and> ac_Port c = 20000 \<and> \<not> ac_once c" by (rule demo_run) blast
  from maps_well_typed [OF r(1) demo_granted] r show ?thesis by blast
qed

lemma dialed_reported_witness:
  "\<exists>m ev. ari_run demo_config (demo_answered @ demo_transferred) (NewManager 20000 4) = Some (m, ev) \<and> reports 0 ev = 0 \<and> reports 0 ev \<le> 1"
proof -
  obtain m ev where r: "ari_run demo_config (demo_answered @ demo_transferred) (NewManager 20000 4) = Some (m, ev)"
    "mg_nextOut m = 1" "reports 0 ev = 0" by (rule demo_run) blast
  with dialed_reported [OF r(1), of 0] show ?thesis by auto
qed

section \<open>Where the code differs from its comments\<close>

text \<open>\<open>startCall\<close> frees the port of a call whose external media was refused, without tearing the call
  down or stopping its duration timer: when the timer fires, the cleanup frees the port again, while
  the next call uses it, and counts an active call less.\<close>

lemma refused_media_frees_twice:
  "case ari_run demo_config [Inbound 1 2 demo_info True True, ExternalMediaReply False, Inbound 3 4 demo_info True True,
       ExternalMediaReply True, MaxDuration 0, Cleanup 0] (NewManager 20000 4) of
     None \<Rightarrow> False
   | Some (m, ev) \<Rightarrow> pa_inUse (mg_ports m) 20000 = None \<and> CallsDec \<in> set ev \<and> CallsInc \<notin> set ev
       \<and> (\<exists>c. mg_calls m 1 = Some c \<and> ac_Port c = 20000 \<and> \<not> ac_once c \<and> mg_pending m 3 = Some 1)"
  by (simp add: ari_step_defs demo_defs session_call.defs ari_call.defs Let_def pa_scan_numeral)

text \<open>A channel destroyed, or a shutdown, before the originate request fails: \<open>Done\<close> is called and \<open>Dial\<close>
  returns an error.\<close>

lemma dial_refused_and_reported:
  "case ari_run demo_config [DialCalled 1 demo_request, ChannelDestroyed 1 17, Originated 1 False] (NewManager 20000 4) of
     None \<Rightarrow> False
   | Some (m, ev) \<Rightarrow> reports 0 ev = 1 \<and> DialFailed 0 \<in> set ev"
  by (simp add: ari_step_defs demo_defs Let_def)

text \<open>The duration timer fires while the event loop waits for the bridge: the cleanup has run, and the call is
  bridged after it: it leaves \<open>StateTornDown\<close> for \<open>StateBridged\<close>, and its bridge is never deleted, not even when its
  channels end.\<close>

lemma bridged_after_teardown:
  "case ari_run demo_config [Inbound 1 2 demo_info True True, ExternalMediaReply True, ExternalArrived 2, MaxDuration 0, Cleanup 0,
       BridgeReply 9 Bridged, StasisEnd 1, StasisEnd 2] (NewManager 20000 4) of
     None \<Rightarrow> False
   | Some (m, ev) \<Rightarrow> (\<exists>c. mg_calls m 0 = Some c \<and> ac_once c \<and> ac_state c = StateBridged) \<and> mg_cleaning m 0 = None
       \<and> DeletedBridge 9 \<notin> set ev"
  by (simp add: ari_step_defs demo_defs session_call.defs ari_call.defs Let_def pa_scan_numeral)

text \<open>The destination of a transfer hangs up between \<open>AddChannel\<close> and the insert into the active calls: nothing
  ends the call, and the caller stays alone in the bridge.\<close>

lemma transfer_hangup_missed:
  "case ari_run demo_config (demo_answered @ [TransferCalled 0 3, TransferAnswered 3, TransferEnd 3 LegAnswered, ConnectStart 3,
       StasisEnd 3, ChannelDestroyed 3 16, ConnectReply 3 True]) (NewManager 20000 4) of
     None \<Rightarrow> False
   | Some (m, ev) \<Rightarrow> HangupChan 1 \<notin> set ev
       \<and> (\<exists>c. mg_calls m 0 = Some c \<and> \<not> ac_once c \<and> ac_mediaDone c \<and> ac_transferChannel c = Some 3)"
  by (simp add: ari_step_defs demo_defs session_call.defs ari_call.defs Let_def pa_scan_numeral)

end
