(* ===== verification/Llm_Client.thy ===== *)
theory Llm_Client
  imports Vaani_Prelude
begin

text \<open>
  The client of the language model (\<open>internal/ai/llm/client.go\<close>): a request with its retries, the stream of
  events of one attempt, and the assembly of tool calls from their fragments. What the provider answers
  is an argument: whether a response came, its status, and the lines of its body. Decoding a line's
  JSON (\<open>encoding/json\<close>) is a parameter. Times are nanoseconds; tracing is left out.
\<close>

section \<open>Tool calls from fragments\<close>

record whole_call =
  wc_ID :: string
  wc_Type :: string
  wc_Name :: string
  wc_Arguments :: string
  wc_ExtraContent :: string

record tool_delta =
  td_Index :: "int option"
  td_ID :: string
  td_Type :: string
  td_Name :: string
  td_Arguments :: string
  td_ExtraContent :: string

definition no_call :: whole_call where
  "no_call = \<lparr>wc_ID = [], wc_Type = [], wc_Name = [], wc_Arguments = [], wc_ExtraContent = []\<rparr>"

text \<open>\<open>range a.calls\<close>: the first call with the id.\<close>

fun find_call :: "string \<Rightarrow> whole_call list \<Rightarrow> nat option" where
  "find_call i [] = None"
| "find_call i (c # cs) = (if wc_ID c = i then Some 0 else map_option Suc (find_call i cs))"

text \<open>\<open>slot\<close>; the two definitions are its second and third choice.\<close>

definition slot_last :: "whole_call list \<Rightarrow> nat \<times> whole_call list" where
  "slot_last calls = (if calls = [] then (0, [no_call]) else (length calls - 1, calls))"

definition slot_by_id :: "tool_delta \<Rightarrow> whole_call list \<Rightarrow> nat \<times> whole_call list" where
  "slot_by_id d calls =
     (if td_ID d \<noteq> [] then
        (case find_call (td_ID d) calls of Some i \<Rightarrow> (i, calls) | None \<Rightarrow> (length calls, calls @ [no_call]))
      else slot_last calls)"

definition call_slot :: "tool_delta \<Rightarrow> whole_call list \<Rightarrow> nat \<times> whole_call list" where
  "call_slot d calls = (case td_Index d of
      None \<Rightarrow> slot_by_id d calls
    | Some n \<Rightarrow>
        if n < 0 then slot_by_id d calls
        else
          let i = nat n in
          if i \<ge> length calls then (i, calls @ replicate (i + 1 - length calls) no_call)
          else if td_ID d = [] \<or> wc_ID (calls ! i) = [] \<or> wc_ID (calls ! i) = td_ID d then (i, calls)
          else slot_by_id d calls)"

definition merge_delta :: "tool_delta \<Rightarrow> whole_call \<Rightarrow> whole_call" where
  "merge_delta d c =
     (let c = (if td_ID d \<noteq> [] then c\<lparr>wc_ID := td_ID d\<rparr> else c);
          c = (if td_Type d \<noteq> [] then c\<lparr>wc_Type := td_Type d\<rparr> else c);
          c = (if td_Name d \<noteq> [] then c\<lparr>wc_Name := td_Name d\<rparr> else c);
          c = c\<lparr>wc_Arguments := wc_Arguments c @ td_Arguments d\<rparr>
      in if td_ExtraContent d \<noteq> [] \<and> td_ExtraContent d \<noteq> ''null'' then c\<lparr>wc_ExtraContent := td_ExtraContent d\<rparr> else c)"

definition add_delta :: "tool_delta \<Rightarrow> whole_call list \<Rightarrow> whole_call list" where
  "add_delta d calls = (let (i, calls) = call_slot d calls in calls[i := merge_delta d (calls ! i)])"

text \<open>\<open>strings.TrimSpace(s) == ""\<close>, for the ASCII text of arguments.\<close>

definition only_space :: "string \<Rightarrow> bool" where
  "only_space s \<longleftrightarrow> list_all (\<lambda>c. of_char c \<in> {9, 10, 11, 12, 13, 32 :: nat}) s"

definition finish_call :: "whole_call \<Rightarrow> whole_call" where
  "finish_call c =
     (let c = (if wc_Type c = [] then c\<lparr>wc_Type := ''function''\<rparr> else c)
      in if only_space (wc_Arguments c) then c\<lparr>wc_Arguments := ''{}''\<rparr> else c)"

definition calls_done :: "whole_call list \<Rightarrow> whole_call list" where
  "calls_done calls = map finish_call (filter (\<lambda>c. wc_Name c \<noteq> []) calls)"

section \<open>The tools that are offered\<close>

record llm_tool =
  lt_Type :: string
  lt_Name :: string
  lt_Description :: string
  lt_Parameters :: string

definition noParams :: string where
  "noParams = ''{'' @ [CHR 0x22] @ ''type'' @ [CHR 0x22] @ '':'' @ [CHR 0x22] @ ''object'' @ [CHR 0x22] @ '','' @ [CHR 0x22]
     @ ''properties'' @ [CHR 0x22] @ '':{}}''"

definition sent_tool :: "llm_tool \<Rightarrow> llm_tool" where
  "sent_tool t =
     (let t = (if lt_Type t = [] then t\<lparr>lt_Type := ''function''\<rparr> else t)
      in if lt_Parameters t = [] then t\<lparr>lt_Parameters := noParams\<rparr> else t)"

section \<open>The stream of one attempt\<close>

record usage =
  us_Prompt :: int
  us_Completion :: int
  us_Total :: int
  us_Cached :: int

definition usage_Add :: "usage \<Rightarrow> usage \<Rightarrow> usage" where
  "usage_Add u v = \<lparr>us_Prompt = us_Prompt u + us_Prompt v, us_Completion = us_Completion u + us_Completion v,
     us_Total = us_Total u + us_Total v, us_Cached = us_Cached u + us_Cached v\<rparr>"

record chat_chunk =
  cc_ID :: string
  cc_Error :: string
  cc_Usage :: "usage option"
  cc_Choices :: "(string \<times> tool_delta list) list"

text \<open>\<open>StatusError\<close> with its \<open>RetryAfter\<close>, a request without a response, and the other errors.\<close>

datatype llm_error = StatusError int int | RequestError | ProviderError string | ReadError | NoReply | StreamIdle

record stream_state =
  ss_calls :: "whole_call list"
  ss_got :: bool
  ss_usage :: "usage option"
  ss_chunkID :: string
  ss_tokens :: "string list"

definition stream_start :: stream_state where
  "stream_start = \<lparr>ss_calls = [], ss_got = False, ss_usage = None, ss_chunkID = [], ss_tokens = []\<rparr>"

definition on_choice :: "string \<times> tool_delta list \<Rightarrow> stream_state \<Rightarrow> stream_state" where
  "on_choice ch s = (case ch of (content, deltas) \<Rightarrow>
     let s = (if content \<noteq> [] then s\<lparr>ss_got := True, ss_tokens := ss_tokens s @ [content]\<rparr> else s)
     in if deltas \<noteq> [] then s\<lparr>ss_got := True, ss_calls := fold add_delta deltas (ss_calls s)\<rparr> else s)"

text \<open>\<open>strings.CutPrefix(line, "data:")\<close> and \<open>strings.TrimPrefix(data, " ")\<close>.\<close>

definition sse_data :: "string \<Rightarrow> string option" where
  "sse_data line = (if take 5 line = ''data:'' then
     Some (let d = drop 5 line in if take 1 d = '' '' then drop 1 d else d) else None)"

text \<open>One line: go on, the end of the reply, or an error.\<close>

datatype line_result = GoOn stream_state | ReplyDone stream_state | LineError llm_error stream_state

definition on_line :: "(string \<Rightarrow> chat_chunk option) \<Rightarrow> string \<Rightarrow> stream_state \<Rightarrow> line_result" where
  "on_line decode line s = (case sse_data line of
      None \<Rightarrow> GoOn s
    | Some data \<Rightarrow>
        if data = ''[DONE]'' then ReplyDone s
        else (case decode data of
            None \<Rightarrow> GoOn s
          | Some ck \<Rightarrow>
              let s = (if ss_chunkID s = [] then s\<lparr>ss_chunkID := cc_ID ck\<rparr> else s)
              in if cc_Error ck \<noteq> [] \<and> cc_Error ck \<noteq> ''null'' then LineError (ProviderError (cc_Error ck)) s
                 else
                   let s = (case cc_Usage ck of None \<Rightarrow> s | Some u \<Rightarrow> s\<lparr>ss_usage := Some u\<rparr>)
                   in GoOn (fold on_choice (cc_Choices ck) s)))"

text \<open>The body's lines, and whether reading them ended in an error. The result: the calls or an error.\<close>

fun on_lines :: "(string \<Rightarrow> chat_chunk option) \<Rightarrow> string list \<Rightarrow> bool \<Rightarrow> stream_state \<Rightarrow> stream_state \<times> (llm_error + whole_call list)" where
  "on_lines decode [] broken s =
     (if broken then (s, Inl ReadError)
      else if \<not> ss_got s then (s, Inl NoReply)
      else (s, Inr (calls_done (ss_calls s))))"
| "on_lines decode (l # ls) broken s = (case on_line decode l s of
      GoOn s \<Rightarrow> on_lines decode ls broken s
    | ReplyDone s \<Rightarrow> (s, Inr (calls_done (ss_calls s)))
    | LineError e s \<Rightarrow> (s, Inl e))"

text \<open>What the provider did with an attempt.\<close>

datatype attempt = NoResponse | Responded int int "string list" bool

definition stream_once :: "(string \<Rightarrow> chat_chunk option) \<Rightarrow> attempt \<Rightarrow> stream_state \<times> (llm_error + whole_call list)" where
  "stream_once decode a = (case a of
      NoResponse \<Rightarrow> (stream_start, Inl RequestError)
    | Responded status after ls broken \<Rightarrow>
        if status < 200 \<or> status \<ge> 300 then (stream_start, Inl (StatusError status after))
        else on_lines decode ls broken stream_start)"

section \<open>Retries\<close>

record client =
  cl_Retries :: int
  cl_RetryMaxWait :: int

definition NewClient :: client where
  "NewClient = \<lparr>cl_Retries = 2, cl_RetryMaxWait = 2000000000\<rparr>"

definition retryable :: "bool \<Rightarrow> llm_error \<Rightarrow> bool" where
  "retryable dead e = (if dead then False else case e of
      StatusError code after \<Rightarrow> code \<in> {429, 502, 503, 504}
    | RequestError \<Rightarrow> True
    | _ \<Rightarrow> False)"

definition retryWait :: "client \<Rightarrow> int \<Rightarrow> int \<Rightarrow> llm_error \<Rightarrow> int" where
  "retryWait c attempt jitter e =
     min (case e of StatusError code after \<Rightarrow> if after > 0 then after else attempt * 300000000 + jitter
                  | _ \<Rightarrow> attempt * 300000000 + jitter) (cl_RetryMaxWait c)"

text \<open>What the surroundings of a request do: the attempts' answers, whether the context has ended when
  a retry is considered and while it is waited for, the jitter, and whether it ended in silence.\<close>

record llm_env =
  le_attempt :: "nat \<Rightarrow> attempt"
  le_dead :: "nat \<Rightarrow> bool"
  le_slept :: "nat \<Rightarrow> bool"
  le_jitter :: "nat \<Rightarrow> int"
  le_idle :: bool
  le_ended :: bool

datatype retry_report = Recovered | Exhausted

record stream_result =
  sr_tokens :: "string list"
  sr_result :: "llm_error + whole_call list"
  sr_usage :: "usage list"
  sr_waits :: "int list"
  sr_attempts :: nat
  sr_report :: "retry_report option"

text \<open>\<open>report\<close>: the usage of a reply that came to its end.\<close>

definition reported :: "stream_state \<times> (llm_error + whole_call list) \<Rightarrow> usage list" where
  "reported r = (case r of (s, Inr calls) \<Rightarrow> (case ss_usage s of None \<Rightarrow> [] | Some u \<Rightarrow> [u]) | (s, Inl e) \<Rightarrow> [])"

text \<open>The loop of \<open>Stream\<close>, after \<open>k\<close> attempts whose last ended with \<open>r\<close>; \<open>n\<close> is the number of retries left.\<close>

fun retry_loop :: "client \<Rightarrow> (string \<Rightarrow> chat_chunk option) \<Rightarrow> llm_env \<Rightarrow> nat \<Rightarrow> nat \<Rightarrow> stream_result \<Rightarrow> stream_result" where
  "retry_loop c decode env 0 k r = r"
| "retry_loop c decode env (Suc n) k r = (case sr_result r of
      Inr calls \<Rightarrow> r
    | Inl e \<Rightarrow>
        if \<not> retryable (le_dead env k) e then r
        else
          let r = r\<lparr>sr_waits := sr_waits r @ [retryWait c (int k) (le_jitter env k) e]\<rparr> in
          if \<not> le_slept env k then r
          else
            let (s, res) = stream_once decode (le_attempt env k)
            in retry_loop c decode env n (k + 1) (r\<lparr>sr_tokens := sr_tokens r @ ss_tokens s, sr_result := res,
                 sr_usage := sr_usage r @ reported (s, res), sr_attempts := sr_attempts r + 1\<rparr>))"

definition Stream :: "client \<Rightarrow> (string \<Rightarrow> chat_chunk option) \<Rightarrow> llm_env \<Rightarrow> stream_result" where
  "Stream c decode env =
     (let (s, res) = stream_once decode (le_attempt env 0);
          r = retry_loop c decode env (nat (cl_Retries c)) 1 \<lparr>sr_tokens = ss_tokens s, sr_result = res, sr_usage = reported (s, res),
                sr_waits = [], sr_attempts = 1, sr_report = None\<rparr>;
          r = (if sr_attempts r > 1 \<and> \<not> le_ended env
               then r\<lparr>sr_report := Some (case sr_result r of Inr calls \<Rightarrow> Recovered | Inl e \<Rightarrow> Exhausted)\<rparr> else r)
      in case sr_result r of Inl e \<Rightarrow> if le_idle env then r\<lparr>sr_result := Inl StreamIdle\<rparr> else r | Inr calls \<Rightarrow> r)"

end
