(* ===== verification/Llm_Stream.thy ===== *)
theory Llm_Stream
  imports Llm_Client
begin

text \<open>
  What the client of the language model promises: fragments of tool calls are put together whatever
  their interleaving, whole calls are kept in order, and a request is repeated only while nothing of
  a reply has been spoken.
\<close>

section \<open>Fragments by index\<close>

text \<open>The fragments of call \<open>k\<close>, and the last value a field was given.\<close>

definition of_index :: "nat \<Rightarrow> tool_delta list \<Rightarrow> tool_delta list" where
  "of_index k ds = filter (\<lambda>d. td_Index d = Some (int k)) ds"

definition last_given :: "string list \<Rightarrow> string" where
  "last_given vs = (let given = filter (\<lambda>v. v \<noteq> []) vs in if given = [] then [] else last given)"

text \<open>Fragments that carry their call's number, and no two ids for one number.\<close>

definition numbered :: "tool_delta list \<Rightarrow> bool" where
  "numbered ds \<longleftrightarrow> list_all (\<lambda>d. \<exists>n. td_Index d = Some n \<and> 0 \<le> n) ds
     \<and> list_all (\<lambda>d. list_all (\<lambda>e. td_Index d = td_Index e \<and> td_ID d \<noteq> [] \<and> td_ID e \<noteq> [] \<longrightarrow> td_ID d = td_ID e) ds) ds"

definition joined_call :: "tool_delta list \<Rightarrow> whole_call" where
  "joined_call ds = \<lparr>wc_ID = last_given (map td_ID ds), wc_Type = last_given (map td_Type ds),
     wc_Name = last_given (map td_Name ds), wc_Arguments = concat (map td_Arguments ds),
     wc_ExtraContent = last_given (map (\<lambda>d. if td_ExtraContent d = ''null'' then [] else td_ExtraContent d) ds)\<rparr>"

definition top_index :: "tool_delta list \<Rightarrow> nat" where
  "top_index ds = fold (\<lambda>d n. max n (case td_Index d of None \<Rightarrow> 0 | Some i \<Rightarrow> Suc (nat i))) ds 0"

lemma last_given_simps [simp]:
  "last_given [] = []"
  "last_given (vs @ [v]) = (if v = [] then last_given vs else v)"
  by (auto simp: last_given_def Let_def)

lemma of_index_snoc [simp]:
  "of_index k [] = []"
  "of_index k (ds @ [d]) = (if td_Index d = Some (int k) then of_index k ds @ [d] else of_index k ds)"
  by (auto simp: of_index_def)

lemma joined_call_simps [simp]:
  "joined_call [] = no_call"
  "joined_call (ds @ [d]) = merge_delta d (joined_call ds)"
  by (auto simp: joined_call_def no_call_def merge_delta_def Let_def)

lemma joined_ID: "wc_ID (joined_call ds) \<noteq> [] \<Longrightarrow> \<exists>d \<in> set ds. td_ID d = wc_ID (joined_call ds)"
proof (induction ds rule: rev_induct)
  case (snoc d ds)
  then show ?case by (cases "td_ID d = []") (auto simp: merge_delta_def Let_def)
qed (simp add: no_call_def)

lemma top_index_snoc [simp]:
  "top_index [] = 0"
  "top_index (ds @ [d]) = max (top_index ds) (case td_Index d of None \<Rightarrow> 0 | Some n \<Rightarrow> Suc (nat n))"
  by (simp_all add: top_index_def)

lemma of_index_beyond: "top_index ds \<le> k \<Longrightarrow> of_index k ds = []"
  by (induction ds rule: rev_induct) auto

lemma add_known:
  "td_Index d = Some (int k) \<Longrightarrow> k < length cs \<Longrightarrow> td_ID d = [] \<or> wc_ID (cs ! k) = [] \<or> wc_ID (cs ! k) = td_ID d
     \<Longrightarrow> add_delta d cs = cs[k := merge_delta d (cs ! k)]"
  by (simp add: add_delta_def call_slot_def Let_def)

lemma add_beyond:
  "td_Index d = Some (int k) \<Longrightarrow> length cs \<le> k
     \<Longrightarrow> add_delta d cs = cs @ replicate (k - length cs) no_call @ [merge_delta d no_call]"
  by (simp add: add_delta_def call_slot_def Let_def Suc_diff_le replicate_append_same nth_append list_update_append
      flip: replicate_append_same)

lemma add_fresh:
  "td_Index d \<in> {None, Some 0} \<Longrightarrow> td_ID d \<noteq> [] \<Longrightarrow> find_call (td_ID d) cs = None \<Longrightarrow> list_all (\<lambda>c. wc_ID c \<noteq> []) cs
     \<Longrightarrow> add_delta d cs = cs @ [merge_delta d no_call]"
  by (cases cs) (auto simp: add_delta_def call_slot_def slot_by_id_def Let_def)

lemma numbered_snoc: "numbered (ds @ [d]) \<Longrightarrow> numbered ds"
  by (auto simp: numbered_def list_all_iff)

lemma numbered_index: "numbered (ds @ [d]) \<Longrightarrow> \<exists>k. td_Index d = Some (int k)"
  by (auto simp: numbered_def list_all_iff) (metis nonneg_int_cases)

lemma numbered_ID:
  assumes "numbered (ds @ [d])" "td_Index d = Some (int k)"
  shows "td_ID d = [] \<or> wc_ID (joined_call (of_index k ds)) = [] \<or> wc_ID (joined_call (of_index k ds)) = td_ID d"
proof (rule ccontr)
  assume c: "\<not> ?thesis"
  then obtain e where "e \<in> set (of_index k ds)" "td_ID e = wc_ID (joined_call (of_index k ds))"
    using joined_ID by blast
  then show False using assms c by (auto simp: numbered_def list_all_iff of_index_def)
qed

lemma assembled:
  "numbered ds \<Longrightarrow> fold add_delta ds [] = map (\<lambda>k. joined_call (of_index k ds)) [0..<top_index ds]"
proof (induction ds rule: rev_induct)
  case (snoc d ds)
  let ?j = "\<lambda>k. joined_call (of_index k ds)"
  obtain k where k: "td_Index d = Some (int k)" using numbered_index [OF snoc.prems] by blast
  have ih: "fold add_delta ds [] = map ?j [0..<top_index ds]"
    using snoc.IH numbered_snoc [OF snoc.prems] by simp
  show ?case
  proof (cases "k < top_index ds")
    case True
    have "fold add_delta (ds @ [d]) [] = (map ?j [0..<top_index ds])[k := merge_delta d (?j k)]"
      using add_known [of d k "map ?j [0..<top_index ds]"] numbered_ID [OF snoc.prems k] True k ih by simp
    also have "\<dots> = map (\<lambda>i. joined_call (of_index i (ds @ [d]))) [0..<top_index (ds @ [d])]"
      by (rule nth_equalityI) (use True k in \<open>auto simp: nth_list_update\<close>)
    finally show ?thesis .
  next
    case False
    have "fold add_delta (ds @ [d]) [] = map ?j [0..<top_index ds] @ replicate (k - top_index ds) no_call @ [merge_delta d no_call]"
      using add_beyond [of d k "map ?j [0..<top_index ds]"] False k ih by simp
    also have "\<dots> = map (\<lambda>i. joined_call (of_index i (ds @ [d]))) [0..<top_index (ds @ [d])]"
      by (rule nth_equalityI) (use False k of_index_beyond [of ds] joined_call_simps(2) [of "[]" d] in \<open>auto simp: nth_append nth_Cons'\<close>)
    finally show ?thesis .
  qed
qed simp

section \<open>Whole calls\<close>

text \<open>Providers that send each call whole, with its own id, and no index or always the index 0.\<close>

definition whole_calls :: "tool_delta list \<Rightarrow> bool" where
  "whole_calls ds \<longleftrightarrow> list_all (\<lambda>d. td_Index d \<in> {None, Some 0} \<and> td_ID d \<noteq> []) ds \<and> distinct (map td_ID ds)"

lemma find_call_None: "find_call i cs = None \<longleftrightarrow> i \<notin> set (map wc_ID cs)"
  by (induction cs) auto

lemma merge_ID: "wc_ID (merge_delta d c) = (if td_ID d \<noteq> [] then td_ID d else wc_ID c)"
  by (simp add: merge_delta_def Let_def)

lemma kept_whole: "whole_calls ds \<Longrightarrow> fold add_delta ds [] = map (\<lambda>d. merge_delta d no_call) ds"
proof (induction ds rule: rev_induct)
  case (snoc d ds)
  then have ih: "fold add_delta ds [] = map (\<lambda>d. merge_delta d no_call) ds"
    by (simp add: whole_calls_def list_all_iff)
  have ids: "map wc_ID (map (\<lambda>d. merge_delta d no_call) ds) = map td_ID ds"
    using snoc.prems by (auto simp: whole_calls_def list_all_iff merge_ID)
  then have fresh: "find_call (td_ID d) (map (\<lambda>d. merge_delta d no_call) ds) = None"
    using snoc.prems unfolding find_call_None by (simp add: whole_calls_def)
  have "list_all (\<lambda>c. wc_ID c \<noteq> []) (map (\<lambda>d. merge_delta d no_call) ds)"
    using snoc.prems by (simp add: whole_calls_def list_all_iff merge_ID)
  then show ?case using add_fresh [of d] fresh ih snoc.prems by (simp add: whole_calls_def)
qed simp

section \<open>Retries\<close>

text \<open>The attempt of a number, and a failure before any of the reply came.\<close>

definition attempted :: "(string \<Rightarrow> chat_chunk option) \<Rightarrow> llm_env \<Rightarrow> nat \<Rightarrow> stream_state \<times> (llm_error + whole_call list)" where
  "attempted decode env k = stream_once decode (le_attempt env k)"

definition silent_failure :: "stream_state \<times> (llm_error + whole_call list) \<Rightarrow> bool" where
  "silent_failure r \<longleftrightarrow> fst r = stream_start \<and> (case snd r of Inl e \<Rightarrow> retryable False e | Inr calls \<Rightarrow> False)"

text \<open>Nothing more is tried: the retries are used up, or the last attempt is not one to repeat.\<close>

definition gave_up :: "client \<Rightarrow> llm_env \<Rightarrow> nat \<Rightarrow> llm_error + whole_call list \<Rightarrow> bool" where
  "gave_up c env k res \<longleftrightarrow> k = Suc (nat (cl_Retries c)) \<or>
     (case res of Inr calls \<Rightarrow> True | Inl e \<Rightarrow> \<not> retryable (le_dead env k) e \<or> \<not> le_slept env k)"

definition tried :: "client \<Rightarrow> (string \<Rightarrow> chat_chunk option) \<Rightarrow> llm_env \<Rightarrow> nat \<Rightarrow> stream_result \<Rightarrow> bool" where
  "tried c decode env k r \<longleftrightarrow> sr_attempts r = Suc k \<and> sr_tokens r = ss_tokens (fst (attempted decode env k))
     \<and> sr_result r = snd (attempted decode env k) \<and> sr_usage r = reported (attempted decode env k)
     \<and> (\<forall>j<k. silent_failure (attempted decode env j)) \<and> (\<forall>w \<in> set (sr_waits r). w \<le> cl_RetryMaxWait c)"

lemma tried_eqs:
  assumes "tried c decode env k r"
  shows "sr_attempts r = Suc k" "sr_tokens r = ss_tokens (fst (attempted decode env k))"
    "sr_result r = snd (attempted decode env k)" "sr_usage r = reported (attempted decode env k)"
  using assms by (auto simp: tried_def)

lemma on_lines_error: "snd (on_lines decode ls broken s) = Inl e \<Longrightarrow> \<not> retryable dead e"
  by (induction decode ls broken s rule: on_lines.induct)
    (auto simp: retryable_def on_line_def Let_def split: if_splits line_result.splits option.splits)

lemma retryable_silent:
  assumes "snd (stream_once decode a) = Inl e" "retryable dead e"
  shows "silent_failure (stream_once decode a)"
proof (cases a)
  case (Responded status after ls broken)
  have "snd (on_lines decode ls broken stream_start) \<noteq> Inl e"
    using on_lines_error assms(2) by blast
  then show ?thesis using Responded assms
    by (auto simp: stream_once_def silent_failure_def retryable_def split: if_splits)
qed (simp add: stream_once_def silent_failure_def retryable_def)

lemma retryWait_capped: "retryWait c k jitter e \<le> cl_RetryMaxWait c"
  by (simp add: retryWait_def)

lemma retry_step:
  assumes "tried c decode env k r" "sr_result r = Inl e" "retryable dead e" "w \<le> cl_RetryMaxWait c"
    "attempted decode env (Suc k) = (s, res)"
  shows "tried c decode env (Suc k) (r\<lparr>sr_waits := sr_waits r @ [w], sr_tokens := sr_tokens r @ ss_tokens s,
    sr_result := res, sr_usage := sr_usage r @ reported (s, res), sr_attempts := sr_attempts r + 1\<rparr>)"
proof -
  have silent: "silent_failure (attempted decode env k)"
    using retryable_silent [of decode _ e dead] assms by (simp add: tried_def attempted_def)
  then have "ss_tokens (fst (attempted decode env k)) = []" "reported (attempted decode env k) = []"
    by (auto simp: silent_failure_def stream_start_def reported_def split: sum.splits prod.splits)
  then show ?thesis using assms silent by (auto simp: tried_def less_Suc_eq)
qed

lemma retry_loop_tried:
  assumes "tried c decode env k r" "Suc k + n = Suc (nat (cl_Retries c))"
  shows "\<exists>m r'. retry_loop c decode env n (Suc k) r = r' \<and> sr_report r' = sr_report r \<and> m \<le> nat (cl_Retries c)
    \<and> (tried c decode env m r' \<and> gave_up c env (Suc m) (sr_result r'))"
  using assms
proof (induction n arbitrary: k r)
  case 0
  then show ?case by (auto simp: gave_up_def)
next
  case (Suc n)
  show ?case
  proof (cases "sr_result r")
    case (Inr calls)
    then show ?thesis using Suc.prems by (auto simp: gave_up_def intro!: exI [of _ k])
  next
    case err: (Inl e)
    let ?w = "retryWait c (int (Suc k)) (le_jitter env (Suc k)) e"
    have waited: "tried c decode env k (r\<lparr>sr_waits := sr_waits r @ [?w]\<rparr>)"
      using Suc.prems(1) retryWait_capped [of c "int (Suc k)" _ e] by (auto simp: tried_def)
    show ?thesis
    proof (cases "retryable (le_dead env (Suc k)) e \<and> le_slept env (Suc k)")
      case False
      then show ?thesis using err Suc.prems waited by (auto simp: gave_up_def Let_def intro!: exI [of _ k])
    next
      case True
      obtain s res where a: "attempted decode env (Suc k) = (s, res)" by fastforce
      have t: "tried c decode env (Suc k) (r\<lparr>sr_waits := sr_waits r @ [?w], sr_tokens := sr_tokens r @ ss_tokens s,
          sr_result := res, sr_usage := sr_usage r @ reported (s, res), sr_attempts := sr_attempts r + 1\<rparr>)"
        using retry_step [OF Suc.prems(1) err _ retryWait_capped a] True by blast
      show ?thesis using Suc.IH [OF t] Suc.prems(2) True err a by (simp add: Let_def attempted_def)
    qed
  qed
qed

section \<open>A reply as it is streamed\<close>

text \<open>The pieces of a reply: the contents and fragments of the lines that decode, in order.\<close>

definition pieces :: "(string \<Rightarrow> chat_chunk option) \<Rightarrow> string list \<Rightarrow> (string \<times> tool_delta list) list" where
  "pieces decode ls = concat (map (\<lambda>l. case Option.bind (sse_data l) decode of None \<Rightarrow> [] | Some ck \<Rightarrow> cc_Choices ck) ls)"

definition spoken :: "(string \<Rightarrow> chat_chunk option) \<Rightarrow> string list \<Rightarrow> string list" where
  "spoken decode ls = filter (\<lambda>t. t \<noteq> []) (map fst (pieces decode ls))"

definition fragments :: "(string \<Rightarrow> chat_chunk option) \<Rightarrow> string list \<Rightarrow> tool_delta list" where
  "fragments decode ls = concat (map snd (pieces decode ls))"

text \<open>Lines that neither end the reply nor report an error; whatever else does not decode is skipped.\<close>

definition no_end :: "(string \<Rightarrow> chat_chunk option) \<Rightarrow> string list \<Rightarrow> bool" where
  "no_end decode ls \<longleftrightarrow> list_all (\<lambda>l. sse_data l \<noteq> Some ''[DONE]''
     \<and> (case Option.bind (sse_data l) decode of None \<Rightarrow> True | Some ck \<Rightarrow> cc_Error ck \<in> {[], ''null''})) ls"

lemma choices_read:
  "ss_tokens (fold on_choice chs s) = ss_tokens s @ filter (\<lambda>t. t \<noteq> []) (map fst chs)"
  "ss_calls (fold on_choice chs s) = fold add_delta (concat (map snd chs)) (ss_calls s)"
  by (induction chs arbitrary: s) (auto simp: on_choice_def Let_def split: prod.splits)

lemma line_read:
  assumes "no_end decode [l]"
  shows "\<exists>s'. on_line decode l s = GoOn s' \<and> ss_tokens s' = ss_tokens s @ spoken decode [l]
    \<and> ss_calls s' = fold add_delta (fragments decode [l]) (ss_calls s)"
proof (cases "Option.bind (sse_data l) decode")
  case None
  then show ?thesis using assms
    by (cases "sse_data l") (auto simp: on_line_def no_end_def spoken_def fragments_def pieces_def)
next
  case (Some ck)
  then obtain data where d: "sse_data l = Some data" "decode data = Some ck" by (cases "sse_data l") auto
  then show ?thesis using assms
    by (auto simp: on_line_def no_end_def spoken_def fragments_def pieces_def Let_def choices_read split: option.splits)
qed

lemma pieces_Cons: "pieces decode (l # ls) = pieces decode [l] @ pieces decode ls"
  by (simp add: pieces_def)

lemma done_line: "on_line decode ''data: [DONE]'' s = ReplyDone s"
  by (simp add: on_line_def sse_data_def)

lemma reply_read:
  "no_end decode ls \<Longrightarrow> \<exists>s'. on_lines decode (ls @ [''data: [DONE]'']) broken s
       = (s', Inr (calls_done (fold add_delta (fragments decode ls) (ss_calls s))))
     \<and> ss_tokens s' = ss_tokens s @ spoken decode ls"
proof (induction ls arbitrary: s)
  case Nil
  then show ?case by (simp add: done_line fragments_def spoken_def pieces_def)
next
  case (Cons l ls)
  then have "no_end decode [l]" "no_end decode ls" by (simp_all add: no_end_def)
  then obtain s' where s': "on_line decode l s = GoOn s'" "ss_tokens s' = ss_tokens s @ spoken decode [l]"
    "ss_calls s' = fold add_delta (fragments decode [l]) (ss_calls s)"
    using line_read by blast
  then show ?case using Cons.IH [OF \<open>no_end decode ls\<close>, of s']
    by (simp add: fragments_def spoken_def pieces_Cons [of decode l ls])
qed

section \<open>The properties\<close>

text \<open>C9: The words of a streamed reply are passed on in the order they came and nothing else is, lines that do not decode being
  skipped; and its tool calls come out whole: when fragments carry their call's number, each call has the
  concatenation of exactly its own fragments' arguments and the last id, type and name given for it,
  however the fragments of several calls are interleaved; when each call is sent whole with an id of its own, without a
  number or always with the number 0, the calls are those sent, in order.\<close>

theorem reply_assembled:
  assumes "no_end decode ls"
  shows "ss_tokens (fst (on_lines decode (ls @ [''data: [DONE]'']) broken stream_start)) = spoken decode ls
    \<and> (numbered (fragments decode ls) \<longrightarrow>
        snd (on_lines decode (ls @ [''data: [DONE]'']) broken stream_start)
          = Inr (calls_done (map (\<lambda>k. joined_call (of_index k (fragments decode ls))) [0..<top_index (fragments decode ls)])))
    \<and> (whole_calls (fragments decode ls) \<longrightarrow>
        snd (on_lines decode (ls @ [''data: [DONE]'']) broken stream_start)
          = Inr (calls_done (map (\<lambda>d. merge_delta d no_call) (fragments decode ls))))"
  using reply_read [OF assms, of broken stream_start] assembled kept_whole
  by (auto simp: stream_start_def)

text \<open>C10: Whatever the provider does, a request is tried at most once more than the retries allow, each wait is capped, and
  what is spoken, counted and returned comes from the last attempt alone: every attempt before it failed without
  saying anything, and no further one would have been allowed. A reply is never spoken twice or from two attempts.\<close>

theorem reply_from_one_attempt:
  "\<exists>m \<le> nat (cl_Retries c).
     sr_attempts (Stream c decode env) = Suc m
   \<and> (\<forall>j<m. silent_failure (attempted decode env j))
   \<and> gave_up c env (Suc m) (snd (attempted decode env m))
   \<and> sr_tokens (Stream c decode env) = ss_tokens (fst (attempted decode env m))
   \<and> sr_usage (Stream c decode env) = reported (attempted decode env m)
   \<and> sr_result (Stream c decode env) = (case snd (attempted decode env m) of
        Inr calls \<Rightarrow> Inr calls | Inl e \<Rightarrow> Inl (if le_idle env then StreamIdle else e))
   \<and> sr_report (Stream c decode env) = (if m = 0 \<or> le_ended env then None
        else Some (case snd (attempted decode env m) of Inr calls \<Rightarrow> Recovered | Inl e \<Rightarrow> Exhausted))
   \<and> (\<forall>w \<in> set (sr_waits (Stream c decode env)). w \<le> cl_RetryMaxWait c)"
proof -
  obtain s res where first: "stream_once decode (le_attempt env 0) = (s, res)" by fastforce
  let ?r0 = "\<lparr>sr_tokens = ss_tokens s, sr_result = res, sr_usage = reported (s, res),
    sr_waits = [], sr_attempts = 1, sr_report = None\<rparr>"
  have t0: "tried c decode env 0 ?r0" using first by (simp add: tried_def attempted_def)
  obtain m r where r: "retry_loop c decode env (nat (cl_Retries c)) 1 ?r0 = r" "sr_report r = None"
    "m \<le> nat (cl_Retries c)" "tried c decode env m r" "gave_up c env (Suc m) (sr_result r)"
    using retry_loop_tried [OF t0, of "nat (cl_Retries c)"] by auto
  have "sr_attempts (Stream c decode env) = Suc m" "sr_tokens (Stream c decode env) = ss_tokens (fst (attempted decode env m))"
    "sr_usage (Stream c decode env) = reported (attempted decode env m)"
    "sr_waits (Stream c decode env) = sr_waits r"
    "sr_result (Stream c decode env) = (case snd (attempted decode env m) of
        Inr calls \<Rightarrow> Inr calls | Inl e \<Rightarrow> Inl (if le_idle env then StreamIdle else e))"
    "sr_report (Stream c decode env) = (if m = 0 \<or> le_ended env then None
        else Some (case snd (attempted decode env m) of Inr calls \<Rightarrow> Recovered | Inl e \<Rightarrow> Exhausted))"
    using first r tried_eqs [OF r(4)] by (auto simp: Stream_def Let_def split: sum.splits)
  then show ?thesis using r(3-5) by (intro exI [of _ m]) (simp add: tried_def)
qed

text \<open>A reply in two interleaved calls: the fragments of the second come between those of the first.\<close>

definition demo_delta :: "int \<Rightarrow> string \<Rightarrow> string \<Rightarrow> string \<Rightarrow> tool_delta" where
  "demo_delta n i name args = \<lparr>td_Index = Some n, td_ID = i, td_Type = [], td_Name = name, td_Arguments = args, td_ExtraContent = []\<rparr>"

definition demo_decode :: "string \<Rightarrow> chat_chunk option" where
  "demo_decode s = (if s = ''a'' then Some \<lparr>cc_ID = [], cc_Error = [], cc_Usage = None, cc_Choices =
       [(''One moment.'', [demo_delta 0 ''x'' ''look_up'' ''{k:'', demo_delta 1 ''y'' ''end_call'' []])]\<rparr>
     else if s = ''b'' then Some \<lparr>cc_ID = [], cc_Error = [], cc_Usage = None, cc_Choices =
       [([], [demo_delta 0 [] [] ''1}''])]\<rparr> else None)"

theorem reply_assembled_witness:
  "map (\<lambda>c. (wc_ID c, wc_Name c, wc_Arguments c))
     (projr (snd (on_lines demo_decode ([''data: a'', '': ping'', ''data:b''] @ [''data: [DONE]'']) False stream_start)))
   = [(''x'', ''look_up'', ''{k:1}''), (''y'', ''end_call'', ''{}'')]"
proof -
  have f: "fragments demo_decode [''data: a'', '': ping'', ''data:b''] =
      [demo_delta 0 ''x'' ''look_up'' ''{k:'', demo_delta 1 ''y'' ''end_call'' [], demo_delta 0 [] [] ''1}'']"
    by (simp add: fragments_def pieces_def sse_data_def demo_decode_def)
  have "no_end demo_decode [''data: a'', '': ping'', ''data:b'']"
    by (simp add: no_end_def sse_data_def demo_decode_def)
  from reply_assembled [OF this, of False] show ?thesis
    unfolding f by (simp add: numbered_def demo_delta_def top_index_def of_index_def joined_call_def last_given_def
        calls_done_def finish_call_def only_space_def Let_def)
qed

definition demo_env :: llm_env where
  "demo_env = \<lparr>le_attempt = (\<lambda>k. if k = 0 then NoResponse else Responded 200 0 [''data: a'', ''data: [DONE]''] False),
     le_dead = (\<lambda>_. False), le_slept = (\<lambda>_. True), le_jitter = (\<lambda>_. 0), le_idle = False, le_ended = False\<rparr>"

lemma demo_second: "attempted demo_decode demo_env 1 = (s, res) \<Longrightarrow> \<exists>calls. res = Inr calls \<and> ss_tokens s = [''One moment.'']"
  by (auto simp: attempted_def demo_env_def stream_once_def on_line_def sse_data_def demo_decode_def on_choice_def stream_start_def Let_def)

theorem reply_from_one_attempt_witness:
  "sr_attempts (Stream NewClient demo_decode demo_env) = 2 \<and> sr_tokens (Stream NewClient demo_decode demo_env) = [''One moment.'']"
proof -
  have "\<not> gave_up NewClient demo_env (Suc 0) (snd (attempted demo_decode demo_env 0))"
    by (simp add: gave_up_def NewClient_def attempted_def demo_env_def stream_once_def retryable_def)
  moreover have "\<not> silent_failure (attempted demo_decode demo_env 1)"
    by (cases "attempted demo_decode demo_env 1") (use demo_second in \<open>auto simp: silent_failure_def\<close>)
  ultimately show ?thesis using reply_from_one_attempt [of NewClient demo_decode demo_env] demo_second
    by (metis One_nat_def Suc_1 Suc_lessI fst_conv gr0I surj_pair)
qed

end
