(* ===== verification/Esl_Wire.thy ===== *)
theory Esl_Wire
  imports Vaani_Prelude
begin

text \<open>
  Messages of the FreeSWITCH event socket on the wire (\<open>readMessage\<close>, \<open>Get\<close>, \<open>Name\<close>, \<open>checkLine\<close> and
  \<open>verb\<close> of \<open>internal/esl/esl.go\<close>), with what they use of \<open>net/textproto\<close> and \<open>net/url\<close>: lines,
  continuation lines, canonical header names and percent decoding. Bytes are characters; an exhausted
  input is a closed connection. The round trip: a message framed as the protocol says is read back.
\<close>

section \<open>Lines and header names\<close>

abbreviation nl :: char where "nl \<equiv> CHR 0x0A"
abbreviation cr :: char where "cr \<equiv> CHR 0x0D"

definition blank :: "char \<Rightarrow> bool" where
  "blank c \<longleftrightarrow> c = CHR '' '' \<or> c = CHR 0x09"

text \<open>\<open>readLineSlice\<close>: a line without its end; the last one may have none.\<close>

definition read_line :: "string \<Rightarrow> (string \<times> string) option" where
  "read_line s = (if s = [] then None else
     let l = takeWhile (\<lambda>c. c \<noteq> nl) s
     in case dropWhile (\<lambda>c. c \<noteq> nl) s of
          [] \<Rightarrow> Some (l, [])
        | c # r \<Rightarrow> Some (if l \<noteq> [] \<and> last l = cr then butlast l else l, r))"

definition trim_blanks :: "string \<Rightarrow> string" where
  "trim_blanks s = rev (dropWhile blank (rev (dropWhile blank s)))"

lemma read_line_shorter:
  assumes "read_line s = Some (l, r)"
  shows "length r < length s"
proof -
  obtain d where d: "d = dropWhile (\<lambda>c. c \<noteq> nl) s" by blast
  have "length d \<le> length s" unfolding d by (rule length_dropWhile_le)
  then show ?thesis using assms unfolding read_line_def Let_def d [symmetric]
    by (cases s; cases d) (auto split: if_splits)
qed

text \<open>\<open>readContinuedLineSlice\<close> after its first line: lines that start with a blank are joined to it.\<close>

function continue_line :: "string \<Rightarrow> string \<Rightarrow> string \<times> string" where
  "continue_line acc s =
     (if s \<noteq> [] \<and> blank (hd s) then
        let s' = dropWhile blank s in
        (case read_line s' of
           None \<Rightarrow> (acc @ '' '', s')
         | Some (l, r) \<Rightarrow> continue_line (acc @ '' '' @ trim_blanks l) r)
      else (acc, s))"
  by auto

termination
proof (relation "measure (length \<circ> snd)")
  fix acc s s' p l r
  assume "s' = dropWhile blank s" "read_line s' = Some p" "(l, r) = p"
  then show "((acc @ '' '' @ trim_blanks l, r), acc, s) \<in> measure (length \<circ> snd)"
    using read_line_shorter [of s' l r] length_dropWhile_le [of blank s] by simp
qed simp

declare continue_line.simps [simp del]

lemma continue_line_le: "length (snd (continue_line acc s)) \<le> length s"
proof (induction acc s rule: continue_line.induct)
  case (1 acc s)
  show ?case
  proof (cases "s \<noteq> [] \<and> blank (hd s)")
    case True
    have d: "length (dropWhile blank s) \<le> length s" by (rule length_dropWhile_le)
    show ?thesis
    proof (cases "read_line (dropWhile blank s)")
      case None
      then show ?thesis using True d by (simp add: continue_line.simps [of acc s])
    next
      case (Some p)
      obtain l r where p: "p = (l, r)" by fastforce
      have "length (snd (continue_line (acc @ '' '' @ trim_blanks l) r)) \<le> length r"
        using 1 [OF True refl Some] p by simp
      then show ?thesis using True d Some p read_line_shorter [of "dropWhile blank s" l r]
        by (simp add: continue_line.simps [of acc s])
    qed
  qed (subst continue_line.simps, auto)
qed

text \<open>\<open>canonicalMIMEHeaderKey\<close>: a name of token bytes gets its letters' cases set; with spaces it is kept.\<close>

definition token_byte :: "char \<Rightarrow> bool" where
  "token_byte c \<longleftrightarrow> (let n = of_char c :: nat in
     48 \<le> n \<and> n \<le> 57 \<or> 65 \<le> n \<and> n \<le> 90 \<or> 97 \<le> n \<and> n \<le> 122 \<or> c \<in> set ''!#$%&*+-.^_`|~'' \<or> n = 39)"

fun canon_case :: "bool \<Rightarrow> string \<Rightarrow> string" where
  "canon_case upper [] = []"
| "canon_case upper (c # cs) =
     (let n = of_char c :: nat;
          c = (if upper \<and> 97 \<le> n \<and> n \<le> 122 then char_of (n - 32)
               else if \<not> upper \<and> 65 \<le> n \<and> n \<le> 90 then char_of (n + 32) else c)
      in c # canon_case (c = CHR ''-'') cs)"

definition canonical_key :: "string \<Rightarrow> string option" where
  "canonical_key k =
     (if k = [] \<or> list_ex (\<lambda>c. \<not> token_byte c \<and> c \<noteq> CHR '' '') k then None
      else if CHR '' '' \<in> set k then Some k else Some (canon_case True k))"

definition value_byte :: "char \<Rightarrow> bool" where
  "value_byte c \<longleftrightarrow> (let n = of_char c :: nat in 128 \<le> n \<or> 33 \<le> n \<and> n \<le> 126 \<or> blank c)"

section \<open>Messages\<close>

datatype wire_error = EndOfStream | BadHeader | BadLength string | ShortBody

type_synonym mime_header = "(string \<times> string) list"

record message =
  m_Header :: mime_header
  m_Body :: string

text \<open>\<open>ReadMIMEHeader\<close>: names and values in order; what is left to read.\<close>

function header_lines :: "mime_header \<Rightarrow> string \<Rightarrow> wire_error + mime_header \<times> string" where
  "header_lines h s = (case read_line s of
      None \<Rightarrow> Inl EndOfStream
    | Some (l, r) \<Rightarrow>
        if l = [] then Inr (h, r)
        else if CHR '':'' \<notin> set l then Inl BadHeader
        else
          let kv = fst (continue_line (trim_blanks l) r);
              r' = snd (continue_line (trim_blanks l) r);
              k = takeWhile (\<lambda>c. c \<noteq> CHR '':'') kv;
              v = drop (Suc (length k)) kv
          in case canonical_key k of
               None \<Rightarrow> Inl BadHeader
             | Some key \<Rightarrow>
                 if \<not> list_all value_byte v then Inl BadHeader
                 else header_lines (h @ [(key, dropWhile blank v)]) r')"
  by auto

termination
proof (relation "measure (length \<circ> snd)")
  fix h :: mime_header and s p l r kv r' k v key
  assume "read_line s = Some p" "(l, r) = p" "r' = snd (continue_line (trim_blanks l) r)"
  then show "((h @ [(key, dropWhile blank v)], r'), h, s) \<in> measure (length \<circ> snd)"
    using read_line_shorter [of s l r] continue_line_le [of "trim_blanks l" r] by auto
qed simp

declare header_lines.simps [simp del]

definition ReadMIMEHeader :: "string \<Rightarrow> wire_error + mime_header \<times> string" where
  "ReadMIMEHeader s = (if s \<noteq> [] \<and> blank (hd s) then Inl BadHeader else header_lines [] s)"

text \<open>\<open>Header.Get\<close>: the first value under the canonical name, or nothing.\<close>

definition header_get :: "mime_header \<Rightarrow> string \<Rightarrow> string" where
  "header_get h name = (case map_of h (case canonical_key name of Some k \<Rightarrow> k | None \<Rightarrow> name) of Some v \<Rightarrow> v | None \<Rightarrow> [])"

text \<open>\<open>strconv.Atoi\<close> on a 64-bit machine.\<close>

definition is_digit :: "char \<Rightarrow> bool" where
  "is_digit c \<longleftrightarrow> (let n = of_char c :: nat in 48 \<le> n \<and> n \<le> 57)"

fun digits_value :: "nat \<Rightarrow> string \<Rightarrow> nat" where
  "digits_value acc [] = acc"
| "digits_value acc (c # cs) = digits_value (10 * acc + (of_char c - 48)) cs"

definition Atoi :: "string \<Rightarrow> int option" where
  "Atoi s =
     (let neg = take 1 s = ''-'';
          ds = (if take 1 s \<in> {''-'', ''+''} then drop 1 s else s);
          n = (if neg then - int (digits_value 0 ds) else int (digits_value 0 ds))
      in if ds = [] \<or> \<not> list_all is_digit ds \<or> n < - (2 ^ 63) \<or> n \<ge> 2 ^ 63 then None else Some n)"

definition readMessage :: "string \<Rightarrow> wire_error + message \<times> string" where
  "readMessage s = (case ReadMIMEHeader s of
      Inl e \<Rightarrow> Inl e
    | Inr (h, r) \<Rightarrow>
        let cl = header_get h ''Content-Length'' in
        if cl = [] then Inr (\<lparr>m_Header = h, m_Body = []\<rparr>, r)
        else (case Atoi cl of
            None \<Rightarrow> Inl (BadLength cl)
          | Some n \<Rightarrow>
              if n < 0 then Inl (BadLength cl)
              else if length r < nat n then Inl ShortBody
              else Inr (\<lparr>m_Header = h, m_Body = take (nat n) r\<rparr>, drop (nat n) r)))"

text \<open>\<open>url.PathUnescape\<close>.\<close>

definition hex_value :: "char \<Rightarrow> nat option" where
  "hex_value c = (let n = of_char c in
     if 48 \<le> n \<and> n \<le> 57 then Some (n - 48)
     else if 97 \<le> n \<and> n \<le> 102 then Some (n - 87)
     else if 65 \<le> n \<and> n \<le> 70 then Some (n - 55) else None)"

fun PathUnescape :: "string \<Rightarrow> string option" where
  "PathUnescape [] = Some []"
| "PathUnescape (c # cs) =
     (if c = CHR ''%'' then
        (case cs of
           a # b # rest \<Rightarrow>
             (case (hex_value a, hex_value b) of
                (Some x, Some y) \<Rightarrow> map_option (Cons (char_of (16 * x + y))) (PathUnescape rest)
              | _ \<Rightarrow> None)
         | _ \<Rightarrow> None)
      else map_option (Cons c) (PathUnescape cs))"

definition Get :: "message \<Rightarrow> string \<Rightarrow> string" where
  "Get m name = (let v = header_get (m_Header m) name in case PathUnescape v of Some d \<Rightarrow> d | None \<Rightarrow> v)"

definition Name :: "message \<Rightarrow> string" where
  "Name m = (let n = Get m ''Event-Name'' in if n \<noteq> ''CUSTOM'' then n else Get m ''Event-Subclass'')"

section \<open>Command lines\<close>

definition checkLine :: "string \<Rightarrow> bool" where
  "checkLine s \<longleftrightarrow> cr \<notin> set s \<and> nl \<notin> set s"

definition TrimPrefix :: "string \<Rightarrow> string \<Rightarrow> string" where
  "TrimPrefix s p = (if take (length p) s = p then drop (length p) s else s)"

definition verb :: "string \<Rightarrow> string" where
  "verb cmd = takeWhile (\<lambda>c. c \<noteq> CHR '' '') (TrimPrefix (TrimPrefix cmd ''api '') ''bgapi '')"

section \<open>What the switch writes\<close>

text \<open>The protocol's framing: headers, the length of a body, an empty line, the body. Event values are percent-encoded,
  except for the bytes in \<open>keep\<close>.\<close>

definition header_line :: "string \<times> string \<Rightarrow> string" where
  "header_line kv = fst kv @ '': '' @ snd kv @ [nl]"

fun decimal :: "nat \<Rightarrow> string" where
  "decimal n = (if n < 10 then [char_of (48 + n)] else decimal (n div 10) @ [char_of (48 + n mod 10)])"

declare decimal.simps [simp del]

definition frame_message :: "(string \<times> string) list \<Rightarrow> string option \<Rightarrow> string" where
  "frame_message hs body = (case body of
      None \<Rightarrow> concat (map header_line hs) @ [nl]
    | Some b \<Rightarrow> concat (map header_line (hs @ [(''Content-Length'', decimal (length b))])) @ [nl] @ b)"

definition hex_digit :: "nat \<Rightarrow> char" where
  "hex_digit n = char_of (if n < 10 then 48 + n else 87 + n)"

definition percent_encode :: "char set \<Rightarrow> string \<Rightarrow> string" where
  "percent_encode keep s = concat (map (\<lambda>c. if c \<in> keep then [c]
     else [CHR ''%'', hex_digit (of_char c div 16), hex_digit (of_char c mod 16)]) s)"

definition good_name :: "string \<Rightarrow> bool" where
  "good_name k \<longleftrightarrow> k \<noteq> [] \<and> list_all token_byte k"

definition good_value :: "string \<Rightarrow> bool" where
  "good_value v \<longleftrightarrow> list_all value_byte v \<and> (v \<noteq> [] \<longrightarrow> \<not> blank (hd v) \<and> \<not> blank (last v))"

abbreviation canon_header :: "string \<times> string \<Rightarrow> string \<times> string" where
  "canon_header kv \<equiv> (canon_case True (fst kv), snd kv)"

lemma of_char_lt: "(of_char (c :: char) :: nat) < 256"
  by (metis of_char_mod_256 mod_less_divisor zero_less_numeral)

lemma nibbles: "(of_char (c :: char) :: nat) div 16 < 16" "(of_char (c :: char) :: nat) mod 16 < 16"
  using of_char_lt [of c] by linarith simp

lemma token_facts:
  assumes "token_byte c"
  shows "c \<noteq> nl" "c \<noteq> cr" "\<not> blank c" "c \<noteq> CHR '':''" "c \<noteq> CHR '' ''"
  using assms by (auto simp: token_byte_def blank_def)

lemma value_facts:
  assumes "value_byte c"
  shows "c \<noteq> nl" "c \<noteq> cr"
  using assms by (auto simp: value_byte_def blank_def)

lemma read_line_end:
  "nl \<notin> set l \<Longrightarrow> l \<noteq> [] \<longrightarrow> last l \<noteq> cr \<Longrightarrow> read_line (l @ nl # rest) = Some (l, rest)"
  by (simp add: read_line_def Let_def takeWhile_append dropWhile_append) (auto simp: takeWhile_eq_all_conv)

lemma trim_line:
  assumes "good_name k" "good_value v"
  shows "trim_blanks (k @ '': '' @ v) = k @ '':'' @ (if v = [] then [] else '' '' @ v)"
proof -
  have k: "dropWhile blank (k @ x) = k @ x" for x
    using assms(1) token_facts(3) by (cases k) (auto simp: good_name_def)
  show ?thesis
  proof (cases "v = []")
    case True
    then show ?thesis using k [of "'': ''"] by (simp add: trim_blanks_def blank_def)
  next
    case False
    then have "dropWhile blank (rev v @ x) = rev v @ x" for x
      using assms(2) by (cases v rule: rev_cases) (auto simp: good_value_def)
    then show ?thesis using k [of "'': '' @ v"] False by (simp add: trim_blanks_def)
  qed
qed

lemma header_line_read:
  assumes "good_name k" "good_value v" "rest = [] \<or> \<not> blank (hd rest)"
  shows "header_lines h (header_line (k, v) @ rest) = header_lines (h @ [(canon_case True k, v)]) rest"
proof -
  have k: "\<And>c. c \<in> set k \<Longrightarrow> token_byte c" and v: "\<And>c. c \<in> set v \<Longrightarrow> value_byte c"
    using assms by (auto simp: good_name_def good_value_def list_all_iff)
  have nlk: "nl \<notin> set k" "CHR '':'' \<notin> set k" "CHR '' '' \<notin> set k" "nl \<notin> set v" "cr \<notin> set v"
    using k v token_facts value_facts by blast+
  have line: "read_line (header_line (k, v) @ rest) = Some (k @ '': '' @ v, rest)"
  proof -
    have "v \<noteq> [] \<Longrightarrow> last v \<noteq> cr" using nlk(5) last_in_set by metis
    then show ?thesis using read_line_end [of "k @ '': '' @ v" rest] nlk by (auto simp: header_line_def)
  qed
  let ?kv = "k @ '':'' @ (if v = [] then [] else '' '' @ v)"
  have cont: "continue_line ?kv rest = (?kv, rest)" using assms(3) by (subst continue_line.simps) auto
  have key: "takeWhile (\<lambda>c. c \<noteq> CHR '':'') ?kv = k" using nlk(2) by (simp add: takeWhile_append takeWhile_eq_all_conv)
  have canon: "canonical_key k = Some (canon_case True k)"
    using assms(1) k nlk(3) by (auto simp: canonical_key_def good_name_def list_ex_iff)
  have val: "list_all value_byte (if v = [] then [] else '' '' @ v)"
    "dropWhile blank (if v = [] then [] else '' '' @ v) = v"
    using assms(2) by (auto simp: good_value_def value_byte_def blank_def dropWhile_eq_self_iff)
  show ?thesis using line trim_line [OF assms(1,2)] cont key canon val
    by (subst header_lines.simps) (simp add: Let_def)
qed

lemma headers_read:
  "\<forall>(k, v) \<in> set hs. good_name k \<and> good_value v \<Longrightarrow>
     header_lines h (concat (map header_line hs) @ nl # rest) = Inr (h @ map canon_header hs, rest)"
proof (induction hs arbitrary: h)
  case Nil
  then show ?case using read_line_end [of "[]" rest] by (subst header_lines.simps) simp
next
  case (Cons kv hs)
  obtain k v where kv: "kv = (k, v)" by fastforce
  have "\<not> blank (hd (concat (map header_line hs) @ nl # rest))"
    using Cons.prems token_facts(3)
    by (cases hs) (auto simp: blank_def header_line_def good_name_def hd_append list_all_iff)
  then show ?case using Cons header_line_read [of k v "concat (map header_line hs) @ nl # rest" h] kv by simp
qed

lemma digit_char: "m < 10 \<Longrightarrow> of_char (char_of (48 + m) :: char) = (48 + m :: nat)"
  unfolding of_char_of by (rule mod_less) simp

lemma digits_value_snoc: "digits_value acc (ds @ [c]) = 10 * digits_value acc ds + (of_char c - 48)"
  by (induction ds arbitrary: acc) auto

lemma decimal_read: "list_all is_digit (decimal n) \<and> digits_value 0 (decimal n) = n \<and> decimal n \<noteq> []"
proof (induction n rule: decimal.induct)
  case (1 n)
  show ?case
  proof (cases "n < 10")
    case True
    then show ?thesis using digit_char [of n] by (simp add: decimal.simps [of n] is_digit_def)
  next
    case False
    then show ?thesis using 1 digit_char [of "n mod 10"]
      by (simp add: decimal.simps [of n] is_digit_def digits_value_snoc)
  qed
qed

lemma digit_facts: "is_digit c \<Longrightarrow> value_byte c \<and> \<not> blank c \<and> c \<noteq> CHR ''-'' \<and> c \<noteq> CHR ''+''"
  by (auto simp: is_digit_def value_byte_def blank_def Let_def)

lemma Atoi_decimal: "int n < 2 ^ 63 \<Longrightarrow> Atoi (decimal n) = Some (int n)"
  using decimal_read [of n] digit_facts
  by (cases "decimal n") (auto simp: Atoi_def Let_def)

lemma good_decimal: "good_value (decimal n)"
  using decimal_read [of n] digit_facts by (auto simp: good_value_def list_all_iff)

lemma hex_digit_read:
  assumes "n < 16"
  shows "hex_value (hex_digit n) = Some n"
proof -
  have "of_char (hex_digit n) = (if n < 10 then 48 + n else 87 + n)"
    unfolding hex_digit_def of_char_of by (rule mod_less) (use assms in simp)
  then show ?thesis using assms by (simp add: hex_value_def Let_def)
qed

lemma hex_digit_facts: "n < 16 \<Longrightarrow> value_byte (hex_digit n) \<and> \<not> blank (hex_digit n)"
proof -
  assume "n < 16"
  then have n: "of_char (hex_digit n) = (if n < 10 then 48 + n else 87 + n)"
    unfolding hex_digit_def of_char_of by (intro mod_less) simp
  then have "of_char (hex_digit n) \<noteq> (of_char (CHR '' '') :: nat)" "of_char (hex_digit n) \<noteq> (of_char (CHR 0x09) :: nat)"
    by simp_all
  then show ?thesis using n \<open>n < 16\<close> by (auto simp: value_byte_def blank_def Let_def)
qed

lemma unescape_encoded:
  assumes "CHR ''%'' \<notin> keep"
  shows "PathUnescape (percent_encode keep s) = Some s"
proof (induction s)
  case (Cons c s)
  note c = nibbles [of c]
  have "char_of (16 * (of_char c div 16) + of_char c mod 16 :: nat) = c" by simp
  then show ?case using Cons assms hex_digit_read [OF c(1)] hex_digit_read [OF c(2)]
    by (auto simp: percent_encode_def)
qed (simp add: percent_encode_def)

text \<open>The bytes that may be left as they are.\<close>

definition plain_bytes :: "char set \<Rightarrow> bool" where
  "plain_bytes keep \<longleftrightarrow> (\<forall>c \<in> keep. value_byte c \<and> \<not> blank c \<and> c \<noteq> CHR ''%'')"

lemma encoded_bytes:
  assumes "plain_bytes keep" "c \<in> set (percent_encode keep s)"
  shows "value_byte c \<and> \<not> blank c"
proof -
  obtain x where "c \<in> set (if x \<in> keep then [x]
      else [CHR ''%'', hex_digit (of_char x div 16), hex_digit (of_char x mod 16)])"
    using assms(2) unfolding percent_encode_def set_concat set_map by blast
  moreover note nibbles [of x]
  ultimately consider "c \<in> keep" | "c = CHR ''%''" | n where "n < 16" "c = hex_digit n"
    by (cases "x \<in> keep") (auto simp del: mod_less_divisor)
  then show ?thesis
  proof cases
    case 1
    then show ?thesis using assms(1) by (simp add: plain_bytes_def)
  next
    case 3
    then show ?thesis using hex_digit_facts by blast
  qed (simp add: value_byte_def blank_def)
qed

lemma good_encoded: "plain_bytes keep \<Longrightarrow> good_value (percent_encode keep s)"
  using encoded_bytes [of keep _ s] hd_in_set last_in_set by (metis good_value_def list_all_iff)

section \<open>The round trip\<close>

text \<open>The headers of an event: its names and encoded values.\<close>

definition event_headers :: "char set \<Rightarrow> (string \<times> string) list \<Rightarrow> (string \<times> string) list" where
  "event_headers keep fs = map (\<lambda>(k, v). (k, percent_encode keep v)) fs"

lemma frame_start: "frame_message hs body \<noteq> []" "list_all (good_name \<circ> fst) hs \<Longrightarrow> \<not> blank (hd (frame_message hs body @ rest))"
proof -
  show "frame_message hs body \<noteq> []" by (simp add: frame_message_def split: option.splits)
  show "list_all (good_name \<circ> fst) hs \<Longrightarrow> \<not> blank (hd (frame_message hs body @ rest))"
    using token_facts(3) by (cases hs)
      (auto simp: frame_message_def blank_def header_line_def good_name_def hd_append list_all_iff split: option.splits)
qed

lemma map_of_canon:
  "distinct (map (canon_case True \<circ> fst) fs) \<Longrightarrow> (k, v) \<in> set fs \<Longrightarrow>
     map_of (map canon_header (event_headers keep fs)) (canon_case True k) = Some (percent_encode keep v)"
proof (induction fs)
  case (Cons f fs)
  then show ?case by (cases "f = (k, v)") (force simp: event_headers_def split: prod.splits)+
qed simp

lemma canonical_good: "good_name k \<Longrightarrow> canonical_key k = Some (canon_case True k)"
  using token_facts(5) by (auto simp: canonical_key_def good_name_def list_ex_iff list_all_iff)

lemma map_of_absent: "x \<notin> fst ` set hs \<Longrightarrow> map_of hs x = None"
  by (simp add: map_of_eq_None_iff)

lemma length_name: "good_name ''Content-Length''" "canon_case True ''Content-Length'' = ''Content-Length''"
  "canonical_key ''Content-Length'' = Some ''Content-Length''"
  by (simp_all add: canonical_key_def token_byte_def good_name_def Let_def)

lemma event_good: "plain_bytes keep \<Longrightarrow> list_all (good_name \<circ> fst) fs \<Longrightarrow>
    \<forall>(k, v) \<in> set (event_headers keep fs). good_name k \<and> good_value v"
  using good_encoded by (auto simp: event_headers_def list_all_iff)

lemma get_event:
  assumes "CHR ''%'' \<notin> keep" "list_all (good_name \<circ> fst) fs" "distinct (map (canon_case True \<circ> fst) fs)" "(k, v) \<in> set fs"
  shows "Get \<lparr>m_Header = map canon_header (event_headers keep fs) @ extra, m_Body = b\<rparr> k = v"
  using assms(2,4) unescape_encoded [OF assms(1), of v] canonical_good [of k] map_of_canon [OF assms(3,4), of keep]
  by (force simp: Get_def header_get_def list_all_iff)

definition length_header :: "string option \<Rightarrow> (string \<times> string) list" where
  "length_header body = (case body of None \<Rightarrow> [] | Some b \<Rightarrow> [(''Content-Length'', decimal (length b))])"

definition body_bytes :: "string option \<Rightarrow> string" where
  "body_bytes body = (case body of None \<Rightarrow> [] | Some b \<Rightarrow> b)"

lemma frame_eq: "frame_message hs body = concat (map header_line (hs @ length_header body)) @ nl # body_bytes body"
  by (simp add: frame_message_def length_header_def body_bytes_def split: option.split)

lemma framed_read:
  assumes "plain_bytes keep" "list_all (good_name \<circ> fst) fs"
    "''Content-Length'' \<notin> set (map (canon_case True \<circ> fst) fs)" "int (length (body_bytes body)) < 2 ^ 63"
  shows "readMessage (frame_message (event_headers keep fs) body @ rest)
    = Inr (\<lparr>m_Header = map canon_header (event_headers keep fs) @ length_header body, m_Body = body_bytes body\<rparr>, rest)"
proof -
  let ?hs = "event_headers keep fs"
  have names: "list_all (good_name \<circ> fst) ?hs" using assms(2) by (auto simp: event_headers_def list_all_iff)
  have absent: "''Content-Length'' \<notin> fst ` set (map canon_header ?hs)" using assms(3) by (force simp: event_headers_def)
  note start = frame_start(1) [of ?hs body] frame_start(2) [OF names, of body rest]
  have "\<forall>(k, v) \<in> set (?hs @ length_header body). good_name k \<and> good_value v"
    using event_good [OF assms(1,2)] length_name(1) good_decimal by (auto simp: length_header_def split: option.splits)
  moreover have "map canon_header (length_header body) = length_header body"
    using length_name(2) by (simp add: length_header_def split: option.splits)
  ultimately have lines: "header_lines [] (frame_message ?hs body @ rest) = Inr (map canon_header ?hs @ length_header body, body_bytes body @ rest)"
    using headers_read [of "?hs @ length_header body" "[]" "body_bytes body @ rest"] by (simp add: frame_eq)
  have "header_get (map canon_header ?hs @ length_header body) ''Content-Length'' = (case body of None \<Rightarrow> [] | Some b \<Rightarrow> decimal (length b))"
    unfolding header_get_def length_name(3) map_of_append map_add_def option.case map_of_absent [OF absent]
    by (simp add: length_header_def split: option.split)
  moreover have "Atoi (decimal (length b)) = Some (int (length b)) \<and> decimal (length b) \<noteq> []" if "body = Some b" for b
    using that Atoi_decimal [of "length b"] decimal_read [of "length b"] assms(4) by (simp add: body_bytes_def)
  ultimately show ?thesis using start lines
    by (cases body) (simp_all add: readMessage_def ReadMIMEHeader_def Let_def body_bytes_def)
qed

text \<open>A message framed as the protocol says is read back and nothing after it is touched: whatever bytes the values
  of its headers and its body hold - line ends, text that looks like headers or like another message -
  the body is returned byte for byte, each header is found under its name in any letter case of it that
  has the same canonical form, with the value it had before it was encoded, and reading goes on with the next message.\<close>

theorem message_read_back:
  assumes "plain_bytes keep" "list_all (good_name \<circ> fst) fs" "distinct (map (canon_case True \<circ> fst) fs)"
    "''Content-Length'' \<notin> set (map (canon_case True \<circ> fst) fs)" "int (length (body_bytes body)) < 2 ^ 63"
  shows "\<exists>m. readMessage (frame_message (event_headers keep fs) body @ rest) = Inr (m, rest)
    \<and> m_Body m = body_bytes body \<and> (\<forall>(k, v) \<in> set fs. Get m k = v)"
proof -
  have "CHR ''%'' \<notin> keep" using assms(1) by (auto simp: plain_bytes_def)
  from get_event [OF this assms(2,3)] have
    "\<forall>(k, v) \<in> set fs. Get \<lparr>m_Header = map canon_header (event_headers keep fs) @ length_header body, m_Body = body_bytes body\<rparr> k = v"
    by blast
  then show ?thesis using framed_read [OF assms(1,2,4,5)] by simp
qed

theorem message_read_back_witness:
  "\<exists>m. readMessage (frame_message (event_headers {CHR ''a'', CHR ''b''} [(''Unique-ID'', ''a b'')]) (Some ''x: y'') @ ''rest'') = Inr (m, ''rest'')
    \<and> m_Body m = ''x: y'' \<and> Get m ''Unique-ID'' = ''a b''"
proof -
  have "plain_bytes {CHR ''a'', CHR ''b''}" by (simp add: plain_bytes_def value_byte_def blank_def)
  moreover have "list_all (good_name \<circ> fst) [(''Unique-ID'', ''a b'')]" by (simp add: good_name_def token_byte_def)
  moreover have "canon_case True ''Unique-ID'' \<noteq> ''Content-Length''" by (simp add: Let_def char_of_def)
  ultimately show ?thesis
    using message_read_back [of "{CHR ''a'', CHR ''b''}" "[(''Unique-ID'', ''a b'')]" "Some ''x: y''" "''rest''"] by (simp add: body_bytes_def)
qed

end
