(* ===== verification/Esl_Client.thy ===== *)
theory Esl_Client
  imports Esl_Wire
begin

text \<open>
  The client of the FreeSWITCH event socket (\<open>internal/esl/esl.go\<close>): the reading goroutine, the goroutine
  that hands events over, and commands with their replies. A step is one turn of a goroutine or one
  choice of a \<open>select\<close>; a step that is not possible leaves the state as it is. The fields after
  \<open>e_next\<close> record what happened, for the properties: the program has no such fields.
\<close>

section \<open>State\<close>

datatype esl_error = WireFailed wire_error | UnexpectedReply string | BadEvent wire_error | DisconnectNotice
  | ErrClosed | WriteFailed | NoReplyTo string

datatype outcome = Replied message | LineBreak | Refused esl_error | SendFailed | ConnectionLost esl_error | TimedOut

datatype reader_at = Reading | Notifying | ReaderDone

datatype pump_at = PumpTop | PumpDeliver | PumpWait | PumpEnded

record esl =
  e_replies :: "message list"
  e_queue :: "message list"
  e_local :: "message list"
  e_ready :: bool
  e_err :: "esl_error option"
  e_reader :: reader_at
  e_pump :: pump_at
  e_cmd :: "(nat \<times> string) option"
  e_next :: nat
  e_owed :: "nat list"
  e_answers :: "(nat \<times> message) list"
  e_results :: "(nat \<times> outcome) list"
  e_arrived :: "message list"
  e_delivered :: "message list"

definition esl_start :: esl where
  "esl_start = \<lparr>e_replies = [], e_queue = [], e_local = [], e_ready = False, e_err = None, e_reader = Reading,
     e_pump = PumpTop, e_cmd = None, e_next = 0, e_owed = [], e_answers = [], e_results = [], e_arrived = [], e_delivered = []\<rparr>"

text \<open>\<open>fail\<close>: only the first error counts.\<close>

definition fail :: "esl_error \<Rightarrow> esl \<Rightarrow> esl" where
  "fail e s = (if e_err s = None then s\<lparr>e_err := Some e\<rparr> else s)"

section \<open>Reading\<close>

definition content_type :: "message \<Rightarrow> string" where
  "content_type m = header_get (m_Header m) ''Content-Type''"

definition is_reply :: "message \<Rightarrow> bool" where
  "is_reply m \<longleftrightarrow> content_type m = ''command/reply'' \<or> content_type m = ''api/response''"

text \<open>The body of \<open>readLoop\<close> for a message.\<close>

definition on_message :: "message \<Rightarrow> esl \<Rightarrow> esl" where
  "on_message m s =
     (if is_reply m then
        (case try_send 1 m (e_replies s) of
           (q, True) \<Rightarrow> s\<lparr>e_replies := q\<rparr>
         | (q, False) \<Rightarrow> (fail (UnexpectedReply (content_type m)) s)\<lparr>e_reader := ReaderDone\<rparr>)
      else if content_type m = ''text/event-plain'' then
        (case readMessage (m_Body m) of
           Inl e \<Rightarrow> (fail (BadEvent e) s)\<lparr>e_reader := ReaderDone\<rparr>
         | Inr (ev, rest) \<Rightarrow> s\<lparr>e_queue := e_queue s @ [ev], e_arrived := e_arrived s @ [ev], e_reader := Notifying\<rparr>)
      else if content_type m = ''text/disconnect-notice'' then (fail DisconnectNotice s)\<lparr>e_reader := ReaderDone\<rparr>
      else s)"

text \<open>The switch answers commands in the order it got them; this records which command a reply answers.\<close>

definition answered :: "message \<Rightarrow> esl \<Rightarrow> esl" where
  "answered m s = (if is_reply m then
     (case e_owed s of [] \<Rightarrow> s | n # owed \<Rightarrow> s\<lparr>e_owed := owed, e_answers := e_answers s @ [(n, m)]\<rparr>) else s)"

definition on_unreadable :: "wire_error \<Rightarrow> esl \<Rightarrow> esl" where
  "on_unreadable e s = (fail (WireFailed e) s)\<lparr>e_reader := ReaderDone\<rparr>"

definition notify :: "esl \<Rightarrow> esl" where
  "notify s = s\<lparr>e_ready := True, e_reader := Reading\<rparr>"

section \<open>Handing events over\<close>

definition pump_take :: "esl \<Rightarrow> esl" where
  "pump_take s = s\<lparr>e_local := e_queue s, e_queue := [], e_pump := PumpDeliver\<rparr>"

definition pump_deliver :: "esl \<Rightarrow> esl" where
  "pump_deliver s = (case e_local s of [] \<Rightarrow> s\<lparr>e_pump := PumpWait\<rparr>
     | ev # q \<Rightarrow> s\<lparr>e_local := q, e_delivered := e_delivered s @ [ev]\<rparr>)"

definition pump_wake :: "esl \<Rightarrow> esl" where
  "pump_wake s = (if e_ready s then s\<lparr>e_ready := False, e_pump := PumpTop\<rparr> else s)"

definition pump_done :: "esl \<Rightarrow> esl" where
  "pump_done s = (if e_err s \<noteq> None \<and> (e_pump s = PumpWait \<or> e_pump s = PumpDeliver \<and> e_local s \<noteq> [])
     then s\<lparr>e_pump := PumpEnded\<rparr> else s)"

section \<open>Commands\<close>

definition result :: "nat \<Rightarrow> outcome \<Rightarrow> esl \<Rightarrow> esl" where
  "result n r s = s\<lparr>e_results := e_results s @ [(n, r)]\<rparr>"

text \<open>\<open>Send\<close> up to its \<open>select\<close>. A command whose write fails may have reached the switch or not.\<close>

datatype write_outcome = Written | NotWritten bool

definition send_begin :: "string \<Rightarrow> write_outcome \<Rightarrow> esl \<Rightarrow> esl" where
  "send_begin cmd w s =
     (let n = e_next s; s = s\<lparr>e_next := n + 1\<rparr> in
      if \<not> checkLine cmd then result n LineBreak s
      else case e_err s of
          Some e \<Rightarrow> result n (Refused e) s
        | None \<Rightarrow> (case w of
            NotWritten reached \<Rightarrow> result n SendFailed (fail WriteFailed (if reached then s\<lparr>e_owed := e_owed s @ [n]\<rparr> else s))
          | Written \<Rightarrow> s\<lparr>e_cmd := Some (n, cmd), e_owed := e_owed s @ [n]\<rparr>))"

definition send_reply :: "nat \<Rightarrow> esl \<Rightarrow> esl" where
  "send_reply n s = (case try_recv (e_replies s) of None \<Rightarrow> s | Some (m, q) \<Rightarrow> result n (Replied m) (s\<lparr>e_replies := q, e_cmd := None\<rparr>))"

definition send_lost :: "nat \<Rightarrow> esl \<Rightarrow> esl" where
  "send_lost n s = (case e_err s of None \<Rightarrow> s | Some e \<Rightarrow> result n (ConnectionLost e) (s\<lparr>e_cmd := None\<rparr>))"

definition send_timeout :: "nat \<Rightarrow> string \<Rightarrow> esl \<Rightarrow> esl" where
  "send_timeout n cmd s = result n TimedOut (fail (NoReplyTo (verb cmd)) (s\<lparr>e_cmd := None\<rparr>))"

section \<open>Steps\<close>

datatype estep = Wire message | Unreadable wire_error | Notify | Take | Deliver | Wake | PumpDone
  | SendBegin string write_outcome | SendReply | SendLost | SendTimeout | CloseEsl

fun esl_step :: "estep \<Rightarrow> esl \<Rightarrow> esl" where
  "esl_step (Wire m) s = (if e_reader s = Reading then answered m (on_message m s) else s)"
| "esl_step (Unreadable e) s = (if e_reader s = Reading then on_unreadable e s else s)"
| "esl_step Notify s = (if e_reader s = Notifying then notify s else s)"
| "esl_step Take s = (if e_pump s = PumpTop then pump_take s else s)"
| "esl_step Deliver s = (if e_pump s = PumpDeliver then pump_deliver s else s)"
| "esl_step Wake s = (if e_pump s = PumpWait then pump_wake s else s)"
| "esl_step PumpDone s = pump_done s"
| "esl_step (SendBegin cmd w) s = (if e_cmd s = None then send_begin cmd w s else s)"
| "esl_step SendReply s = (case e_cmd s of None \<Rightarrow> s | Some (n, cmd) \<Rightarrow> send_reply n s)"
| "esl_step SendLost s = (case e_cmd s of None \<Rightarrow> s | Some (n, cmd) \<Rightarrow> send_lost n s)"
| "esl_step SendTimeout s = (case e_cmd s of None \<Rightarrow> s | Some (n, cmd) \<Rightarrow> send_timeout n cmd s)"
| "esl_step CloseEsl s = fail ErrClosed s"

definition esl_run :: "estep list \<Rightarrow> esl \<Rightarrow> esl" where
  "esl_run tr s = fold esl_step tr s"

text \<open>The protocol: the switch sends a reply only for a command it got and has not answered.\<close>

fun solicited :: "estep list \<Rightarrow> esl \<Rightarrow> bool" where
  "solicited [] s = True"
| "solicited (st # tr) s =
     ((case st of Wire m \<Rightarrow> is_reply m \<and> e_reader s = Reading \<longrightarrow> e_owed s \<noteq> [] | _ \<Rightarrow> True) \<and> solicited tr (esl_step st s))"

section \<open>What callers make of a reply\<close>

text \<open>\<open>strings.TrimSpace\<close>, for ASCII.\<close>

definition ascii_space :: "char \<Rightarrow> bool" where
  "ascii_space c \<longleftrightarrow> c \<in> {CHR 0x09, CHR 0x0A, CHR 0x0B, CHR 0x0C, CHR 0x0D, CHR '' ''}"

definition TrimSpace :: "string \<Rightarrow> string" where
  "TrimSpace s = rev (dropWhile ascii_space (rev (dropWhile ascii_space s)))"

datatype call_error = NotSent outcome | ReplyError string string

definition API_line :: "string \<Rightarrow> string" where
  "API_line cmd = ''api '' @ cmd"

definition API :: "string \<Rightarrow> outcome \<Rightarrow> call_error + string" where
  "API cmd r = (case r of
      Replied m \<Rightarrow> let out = TrimSpace (m_Body m) in if take 1 out = ''-'' then Inl (ReplyError (verb cmd) out) else Inr out
    | _ \<Rightarrow> Inl (NotSent r))"

definition command :: "string \<Rightarrow> outcome \<Rightarrow> call_error + message" where
  "command cmd r = (case r of
      Replied m \<Rightarrow> let reply = Get m ''Reply-Text'' in if take 3 reply \<noteq> ''+OK'' then Inl (ReplyError (verb cmd) reply) else Inr m
    | _ \<Rightarrow> Inl (NotSent r))"

definition BgAPI_line :: "string \<Rightarrow> string" where
  "BgAPI_line cmd = ''bgapi '' @ cmd"

definition BgAPI :: "string \<Rightarrow> outcome \<Rightarrow> call_error + string" where
  "BgAPI cmd r = (case command (BgAPI_line cmd) r of Inl e \<Rightarrow> Inl e | Inr m \<Rightarrow> Inr (Get m ''Job-UUID''))"

fun spaced :: "string list \<Rightarrow> string" where
  "spaced [] = []"
| "spaced [w] = w"
| "spaced (w # ws) = w @ '' '' @ spaced ws"

definition Subscribe_line :: "string list \<Rightarrow> string" where
  "Subscribe_line events = ''event plain '' @ spaced events"

text \<open>\<open>auth\<close> over the bytes the switch sends, with what is written; \<open>None\<close> is success.\<close>

datatype auth_error = NoRequest wire_error | NotARequest string | PasswordBreak | AuthUnread wire_error | AuthRejected string

definition auth :: "string \<Rightarrow> string \<Rightarrow> string \<times> (auth_error + string)" where
  "auth password s = (case readMessage s of
      Inl e \<Rightarrow> ([], Inl (NoRequest e))
    | Inr (m, r) \<Rightarrow>
        let ct = content_type m in
        if ct \<noteq> ''auth/request'' then ([], Inl (NotARequest ct))
        else if \<not> checkLine password then ([], Inl PasswordBreak)
        else
          let out = ''auth '' @ password @ [nl, nl]
          in (case readMessage r of
                Inl e \<Rightarrow> (out, Inl (AuthUnread e))
              | Inr (m, r) \<Rightarrow>
                  let reply = Get m ''Reply-Text''
                  in if take 3 reply \<noteq> ''+OK'' then (out, Inl (AuthRejected reply)) else (out, Inr r)))"

end
