(* ===== verification/Esl_Claims.thy ===== *)
theory Esl_Claims
  imports Esl_Client
begin

text \<open>
  What the event socket client promises: events are handed over in order and none is lost while the
  connection is open, and a command gets its own reply. The invariants are preserved by every step;
  the one on replies needs the protocol's rule that the switch answers each command once.
\<close>

section \<open>Events\<close>

definition events_ok :: "esl \<Rightarrow> bool" where
  "events_ok s \<longleftrightarrow> e_arrived s = e_delivered s @ e_local s @ e_queue s
     \<and> (e_pump s = PumpTop \<or> e_pump s = PumpWait \<longrightarrow> e_local s = [])
     \<and> (e_pump s = PumpDeliver \<or> e_pump s = PumpWait \<longrightarrow> e_queue s \<noteq> [] \<longrightarrow> e_ready s \<or> e_reader s = Notifying)
     \<and> (e_pump s = PumpEnded \<or> e_reader s = ReaderDone \<longrightarrow> e_err s \<noteq> None)"

lemma events_fail: "events_ok s \<Longrightarrow> events_ok (fail e s)"
  by (simp add: events_ok_def fail_def)

lemma events_done: "events_ok s \<Longrightarrow> events_ok ((fail e s)\<lparr>e_reader := ReaderDone\<rparr>) \<or> e_reader s = Notifying"
  by (auto simp: events_ok_def fail_def)

lemma events_on_message: "events_ok s \<Longrightarrow> e_reader s = Reading \<Longrightarrow> events_ok (on_message m s)"
  using events_done [of s] by (cases "readMessage (m_Body m)")
    (auto simp: on_message_def try_send_def, auto simp: events_ok_def)

lemma events_answered: "events_ok (answered m s) = events_ok s"
  by (simp add: answered_def events_ok_def split: list.split)

lemma events_pump:
  "events_ok s \<Longrightarrow> e_pump s = PumpTop \<Longrightarrow> events_ok (pump_take s)"
  "events_ok s \<Longrightarrow> e_pump s = PumpDeliver \<Longrightarrow> events_ok (pump_deliver s)"
  "events_ok s \<Longrightarrow> e_pump s = PumpWait \<Longrightarrow> events_ok (pump_wake s)"
  "events_ok s \<Longrightarrow> events_ok (pump_done s)"
  "events_ok s \<Longrightarrow> e_reader s = Notifying \<Longrightarrow> events_ok (notify s)"
  by (auto simp: events_ok_def pump_take_def pump_deliver_def pump_wake_def pump_done_def notify_def split: list.split)

lemma events_send:
  "events_ok s \<Longrightarrow> events_ok (send_begin cmd w s)"
  "events_ok s \<Longrightarrow> events_ok (send_reply n s)"
  "events_ok s \<Longrightarrow> events_ok (send_lost n s)"
  "events_ok s \<Longrightarrow> events_ok (send_timeout n cmd s)"
  by (auto simp: send_begin_def send_reply_def send_lost_def send_timeout_def result_def events_ok_def fail_def Let_def
      split: option.split prod.split write_outcome.split)

lemma events_ok_step: "events_ok s \<Longrightarrow> events_ok (esl_step st s)"
  using events_done [of s]
  by (cases st) (auto simp: events_on_message events_answered events_pump events_send events_fail on_unreadable_def split: option.split)

lemma events_ok_run: "events_ok s \<Longrightarrow> events_ok (esl_run tr s)"
  by (induction tr arbitrary: s) (auto simp: esl_run_def events_ok_step)

lemma events_ok_start: "events_ok esl_start"
  by (simp add: events_ok_def esl_start_def)

text \<open>The turns of the two goroutines that hand one event over.\<close>

definition hand_over :: "estep list" where
  "hand_over = [Notify, Take, Deliver, Wake, Take, Deliver]"

section \<open>Replies\<close>

definition replies_ok :: "esl \<Rightarrow> bool" where
  "replies_ok s \<longleftrightarrow>
     (\<forall>n m. (n, Replied m) \<in> set (e_results s) \<longrightarrow> (n, m) \<in> set (e_answers s))
     \<and> (\<forall>n \<in> fst ` set (e_results s). n < e_next s \<and> (\<forall>cmd. e_cmd s \<noteq> Some (n, cmd)))
     \<and> (\<forall>n \<in> fst ` set (e_answers s). n < e_next s \<and> n \<notin> set (e_owed s))
     \<and> (\<forall>n \<in> set (e_owed s). n < e_next s)
     \<and> distinct (map fst (e_results s)) \<and> distinct (map fst (e_answers s)) \<and> distinct (e_owed s)
     \<and> length (e_replies s) + length (e_owed s) \<le> 1
     \<and> (case e_cmd s of
          None \<Rightarrow> e_err s = None \<longrightarrow> e_replies s = [] \<and> e_owed s = []
        | Some (n, cmd) \<Rightarrow> n < e_next s \<and> (e_replies s = [] \<and> e_owed s = [n] \<or> (\<exists>m. e_replies s = [m] \<and> e_owed s = [] \<and> (n, m) \<in> set (e_answers s))))
     \<and> (\<forall>ct. e_err s \<noteq> Some (UnexpectedReply ct))"

lemma replies_ok_start: "replies_ok esl_start"
  by (simp add: replies_ok_def esl_start_def)

text \<open>The rule of the protocol for one step.\<close>

definition allowed :: "estep \<Rightarrow> esl \<Rightarrow> bool" where
  "allowed st s \<longleftrightarrow> (\<forall>m. st = Wire m \<longrightarrow> is_reply m \<longrightarrow> e_reader s = Reading \<longrightarrow> e_owed s \<noteq> [])"

lemma replies_cong:
  "e_results s' = e_results s \<Longrightarrow> e_answers s' = e_answers s \<Longrightarrow> e_owed s' = e_owed s \<Longrightarrow> e_replies s' = e_replies s \<Longrightarrow>
   e_cmd s' = e_cmd s \<Longrightarrow> e_next s' = e_next s \<Longrightarrow> e_err s' = e_err s \<or> e_err s' \<noteq> None \<and> (\<forall>ct. e_err s' \<noteq> Some (UnexpectedReply ct))
     \<Longrightarrow> replies_ok s \<Longrightarrow> replies_ok s'"
  unfolding replies_ok_def by (elim conjE, intro conjI) (auto split: option.splits)

lemma replies_fail: "(\<And>ct. e \<noteq> UnexpectedReply ct) \<Longrightarrow> replies_ok s \<Longrightarrow> replies_ok ((fail e s)\<lparr>e_reader := r\<rparr>)"
  by (rule replies_cong [of _ s]) (auto simp: fail_def)

lemma replies_fail1: "(\<And>ct. e \<noteq> UnexpectedReply ct) \<Longrightarrow> replies_ok s \<Longrightarrow> replies_ok (fail e s)"
  by (rule replies_cong [of _ s]) (auto simp: fail_def)

lemma replies_wire:
  assumes "replies_ok s" "is_reply m \<longrightarrow> e_owed s \<noteq> []"
  shows "replies_ok (answered m (on_message m s))"
proof (cases "is_reply m")
  case False
  have "replies_ok (on_message m s)"
    using replies_fail [OF _ assms(1)] assms(1) False
    by (auto simp: on_message_def split: sum.split intro: replies_cong [of _ s])
  then show ?thesis using False by (simp add: answered_def)
next
  case True
  obtain n where n: "e_owed s = [n]" "e_replies s = []"
    using assms True by (cases "e_owed s") (auto simp: replies_ok_def)
  then have "answered m (on_message m s) = s\<lparr>e_replies := [m], e_owed := [], e_answers := e_answers s @ [(n, m)]\<rparr>"
    using True by (simp add: answered_def on_message_def try_send_def)
  then show ?thesis using assms(1) n by (auto simp: replies_ok_def split: option.splits)
qed

lemma replies_send_begin:
  assumes "replies_ok s" "e_cmd s = None"
  shows "replies_ok (send_begin cmd w s)"
proof -
  have new: "e_next s \<notin> fst ` set (e_results s)" "e_next s \<notin> fst ` set (e_answers s)" "e_next s \<notin> set (e_owed s)"
    using assms(1) by (auto simp: replies_ok_def)
  have open_: "e_err s = None \<Longrightarrow> e_owed s = [] \<and> e_replies s = []" using assms by (simp add: replies_ok_def)
  show ?thesis
  proof (cases "e_err s = None \<and> checkLine cmd")
    case True
    then show ?thesis using assms new open_
      by (cases w) (force simp: replies_ok_def send_begin_def result_def fail_def Let_def)+
  next
    case False
    then obtain r where "send_begin cmd w s = result (e_next s) r (s\<lparr>e_next := e_next s + 1\<rparr>)" "\<And>m. r \<noteq> Replied m"
      by (cases "checkLine cmd") (auto simp: send_begin_def Let_def)
    then show ?thesis using assms new by (force simp: replies_ok_def result_def)
  qed
qed

lemma replies_send:
  assumes "replies_ok s" "e_cmd s = Some (n, cmd)"
  shows "replies_ok (send_reply n s)" "replies_ok (send_lost n s)" "replies_ok (send_timeout n cmd s)"
proof -
  have n: "n < e_next s" "n \<notin> fst ` set (e_results s)" using assms by (auto simp: replies_ok_def)
  show "replies_ok (send_reply n s)"
  proof (cases "try_recv (e_replies s)")
    case (Some mq)
    then obtain m where "mq = (m, [])" "(n, m) \<in> set (e_answers s)" "e_replies s = [m]" "e_owed s = []"
      using assms by (cases mq) (auto simp: replies_ok_def chan_simps)
    then show ?thesis using assms n Some by (auto simp: send_reply_def replies_ok_def result_def)
  qed (simp add: send_reply_def assms(1))
  show "replies_ok (send_lost n s)"
    using assms n by (cases "e_err s") (force simp: send_lost_def replies_ok_def result_def)+
  show "replies_ok (send_timeout n cmd s)"
    using assms n by (cases "e_err s") (force simp: send_timeout_def replies_ok_def result_def fail_def)+
qed

lemma replies_ok_step:
  assumes "replies_ok s" "allowed st s"
  shows "replies_ok (esl_step st s)"
proof (cases st)
  case (Wire m)
  then show ?thesis using assms replies_wire [of s m] by (simp add: allowed_def)
next
  case (Unreadable e)
  then show ?thesis using replies_fail [OF _ assms(1)] assms(1) by (simp add: on_unreadable_def)
next
  case CloseEsl
  then show ?thesis using replies_fail1 [OF _ assms(1)] by simp
next
  case (SendBegin cmd w)
  then show ?thesis using replies_send_begin assms(1) by simp
qed (use assms replies_send in \<open>auto split: option.split
  intro: replies_cong [of _ s] simp: notify_def pump_take_def pump_deliver_def pump_wake_def pump_done_def split: list.split\<close>)

lemma replies_ok_run: "replies_ok s \<Longrightarrow> solicited tr s \<Longrightarrow> replies_ok (esl_run tr s)"
proof (induction tr arbitrary: s)
  case (Cons st tr)
  then have "allowed st s" by (auto simp: allowed_def)
  then show ?case using Cons replies_ok_step by (simp add: esl_run_def)
qed (simp add: esl_run_def)

section \<open>The properties\<close>

lemma handed_over:
  assumes "events_ok s" "e_err s = None" "e_arrived s = e_delivered s @ ev # rest"
  shows "\<exists>more. e_delivered (esl_run hand_over s) = e_delivered s @ ev # more"
proof -
  have "e_local s @ e_queue s = ev # rest" using assms by (simp add: events_ok_def)
  then show ?thesis using assms by (cases "e_pump s"; cases "e_local s"; cases "e_reader s")
    (auto simp: events_ok_def hand_over_def esl_run_def pump_take_def pump_deliver_def pump_wake_def notify_def split: list.split)
qed

text \<open>C31: In every interleaving of the goroutines, the events handed over and those still queued are exactly the
  events that arrived, in FreeSWITCH's order, none twice and none missing; and while the connection is
  open no event stays behind: one round of the two goroutines hands over the next one, whatever was
  going on (no wake-up is lost between the queue and the goroutine that empties it).\<close>

theorem events_in_order:
  "e_arrived (esl_run tr esl_start) =
     e_delivered (esl_run tr esl_start) @ e_local (esl_run tr esl_start) @ e_queue (esl_run tr esl_start)
   \<and> (\<forall>ev rest. e_err (esl_run tr esl_start) = None
        \<and> e_arrived (esl_run tr esl_start) = e_delivered (esl_run tr esl_start) @ ev # rest \<longrightarrow>
        (\<exists>more. e_delivered (esl_run hand_over (esl_run tr esl_start)) = e_delivered (esl_run tr esl_start) @ ev # more))"
  using events_ok_run [OF events_ok_start, of tr] handed_over by (auto simp: events_ok_def)

text \<open>C30: When the switch replies only to commands it got, a command that returns a reply returns the one the switch gave
  to that very command, and no two commands share one - also after replies that came too late, failed
  writes and timeouts, in any interleaving. The connection is never given up for a reply nobody asked for.\<close>

theorem own_reply:
  assumes "solicited tr esl_start"
  shows "(\<forall>n m. (n, Replied m) \<in> set (e_results (esl_run tr esl_start)) \<longrightarrow> (n, m) \<in> set (e_answers (esl_run tr esl_start)))
    \<and> distinct (map fst (e_results (esl_run tr esl_start))) \<and> distinct (map fst (e_answers (esl_run tr esl_start)))
    \<and> (\<forall>ct. e_err (esl_run tr esl_start) \<noteq> Some (UnexpectedReply ct))"
  using replies_ok_run [OF replies_ok_start assms] by (simp add: replies_ok_def)

definition ok_reply :: "string \<Rightarrow> message" where
  "ok_reply out = \<lparr>m_Header = [(''Content-Type'', ''api/response'')], m_Body = out\<rparr>"

definition hangup_event :: message where
  "hangup_event = \<lparr>m_Header = [(''Content-Type'', ''text/event-plain'')],
     m_Body = frame_message [(''Event-Name'', ''CHANNEL_HANGUP'')] None\<rparr>"

lemma type_name: "canonical_key ''Content-Type'' = Some ''Content-Type''"
  by (simp add: canonical_key_def token_byte_def Let_def)

lemma reply_types: "is_reply (ok_reply out)" "content_type (ok_reply out) = ''api/response''"
  by (simp_all add: is_reply_def content_type_def header_get_def type_name ok_reply_def)

text \<open>A command times out; its reply arrives late, and the next command is refused instead of taking it.\<close>

definition late_run :: "estep list" where
  "late_run = [SendBegin ''api status'' Written, SendTimeout, Wire (ok_reply ''UP''), SendBegin ''api uuid_kill x'' Written, SendReply]"

lemma late_solicited: "solicited late_run esl_start"
  by (simp add: late_run_def esl_start_def send_begin_def checkLine_def send_timeout_def fail_def result_def)

theorem own_reply_witness:
  "e_results (esl_run late_run esl_start) = [(0, TimedOut), (1, Refused (NoReplyTo ''status''))]
    \<and> distinct (map fst (e_answers (esl_run late_run esl_start))) \<and> e_answers (esl_run late_run esl_start) = [(0, ok_reply ''UP'')]"
proof -
  have "e_results (esl_run late_run esl_start) = [(0, TimedOut), (1, Refused (NoReplyTo ''status''))]
    \<and> e_answers (esl_run late_run esl_start) = [(0, ok_reply ''UP'')]"
    by (simp add: late_run_def esl_run_def esl_start_def send_begin_def checkLine_def send_timeout_def fail_def result_def
        on_message_def answered_def reply_types try_send_def verb_def TrimPrefix_def)
  then show ?thesis using own_reply [OF late_solicited] by simp
qed

text \<open>An event is handed over although it arrives just as the goroutine has found the queue empty.\<close>

definition event_run :: "estep list" where
  "event_run = [Take, Wire hangup_event, Deliver]"

lemma event_name: "good_name ''Event-Name''" "canon_case True ''Event-Name'' = ''Event-Name''"
    "canonical_key ''Event-Name'' = Some ''Event-Name''"
  by (simp_all add: good_name_def token_byte_def canonical_key_def Let_def)

lemma hangup_read: "readMessage (m_Body hangup_event) = Inr (\<lparr>m_Header = [(''Event-Name'', ''CHANNEL_HANGUP'')], m_Body = []\<rparr>, [])"
proof -
  have "plain_bytes (set ''ACEGHLNPU_'')" by (simp add: plain_bytes_def value_byte_def blank_def)
  then show ?thesis
    using framed_read [of "set ''ACEGHLNPU_''" "[(''Event-Name'', ''CHANNEL_HANGUP'')]" None "[]"] event_name
    by (simp add: event_headers_def percent_encode_def length_header_def body_bytes_def hangup_event_def)
qed

lemma hangup_type: "content_type hangup_event = ''text/event-plain''"
  by (simp add: content_type_def header_get_def type_name hangup_event_def)

lemma event_arrived:
  "e_arrived (esl_run event_run esl_start) = [\<lparr>m_Header = [(''Event-Name'', ''CHANNEL_HANGUP'')], m_Body = []\<rparr>]"
  "e_delivered (esl_run event_run esl_start) = []" "e_err (esl_run event_run esl_start) = None"
  by (simp_all add: event_run_def esl_run_def esl_start_def pump_take_def on_message_def is_reply_def hangup_type hangup_read
      answered_def pump_deliver_def)

theorem events_in_order_witness:
  "\<exists>more. e_delivered (esl_run hand_over (esl_run event_run esl_start)) = \<lparr>m_Header = [(''Event-Name'', ''CHANNEL_HANGUP'')], m_Body = []\<rparr> # more"
  using events_in_order [of event_run] event_arrived by simp

text \<open>A reply nobody asked for is not noticed: with room for it in the buffer it is kept, and taken for the
  reply to the next command.\<close>

lemma unasked_reply_taken:
  "e_results (esl_run [Wire (ok_reply ''stray''), SendBegin ''api uuid_kill x'' Written, SendReply] esl_start)
    = [(0, Replied (ok_reply ''stray''))]"
  by (simp add: esl_run_def esl_start_def send_begin_def checkLine_def send_reply_def result_def
      on_message_def answered_def reply_types try_send_def)

end
