(* ===== verification/Freeswitch.thy ===== *)
theory Freeswitch
  imports Esl_Client
begin

text \<open>
  The manager of FreeSWITCH calls (\<open>internal/freeswitch/manager.go\<close>): connections from earshot are checked and
  registered, a call runs until its context is cancelled, and what is left of the channel is ended. A
  step is one turn of one of its goroutines: the HTTP handler of a call, the call's watcher, the event
  loop, a spawned hang-up, shutdown. The media and the agent of a call are their own components; here
  they are the moments at which they report. Logging, tracing and the status poll are left out.
\<close>

section \<open>What a connection may look like\<close>

definition hex_byte :: "char \<Rightarrow> bool" where
  "hex_byte c \<longleftrightarrow> hex_value c \<noteq> None"

text \<open>The regular expression \<open>channelUUID\<close>.\<close>

definition channelUUID :: "string \<Rightarrow> bool" where
  "channelUUID s \<longleftrightarrow> length s = 36
     \<and> list_all (\<lambda>i. if i \<in> {8, 13, 18, 23} then s ! i = CHR ''-'' else hex_byte (s ! i)) [0..<36]"

text \<open>\<open>phoneNumberRE\<close> and \<open>phoneNumber\<close>.\<close>

definition phone_like :: "string \<Rightarrow> bool" where
  "phone_like n \<longleftrightarrow> (let d = TrimPrefix n ''+'' in
     1 \<le> length d \<and> length d \<le> 32 \<and> list_all (\<lambda>c. is_digit c \<or> c = CHR ''*'' \<or> c = CHR ''#'') d)"

definition phoneNumber :: "string \<Rightarrow> string" where
  "phoneNumber n = (if phone_like n then n else [])"

section \<open>State\<close>

text \<open>Why a call's context was cancelled. \<open>Canceled\<close> is \<open>cancel(nil)\<close>.\<close>

datatype end_cause = Hangup string | WSClosed | MediaDead | MaxDuration | Shutdown | Canceled

text \<open>Where the handler of a call is, and where its watcher.\<close>

datatype fs_phase = Upgrading | CallRuns | MediaEnded | Leaving | CallGone

datatype watch_at = NoWatch | Watching | Grace | WatchOver

record fs_call =
  fc_id :: string
  fc_cause :: "end_cause option"
  fc_phase :: fs_phase
  fc_watch :: watch_at
  fc_ran :: bool

datatype killer = ByEnd nat | ByAgent nat | ByEarshotError

record fs =
  f_calls :: "string \<rightharpoonup> nat"
  f_objs :: "fs_call list"
  f_closing :: bool
  f_wg :: int
  f_esl :: bool
  f_hangups :: "string list"
  f_killed :: "(killer \<times> string \<times> bool) list"
  f_active :: int

definition fs_start :: fs where
  "fs_start = \<lparr>f_calls = (\<lambda>_. None), f_objs = [], f_closing = False, f_wg = 0, f_esl = False, f_hangups = [],
     f_killed = [], f_active = 0\<rparr>"

definition on_call :: "nat \<Rightarrow> (fs_call \<Rightarrow> fs_call) \<Rightarrow> fs \<Rightarrow> fs" where
  "on_call n f s = s\<lparr>f_objs := (f_objs s)[n := f (f_objs s ! n)]\<rparr>"

text \<open>\<open>context.CancelCauseFunc\<close>: only the first cause counts.\<close>

definition cancel :: "end_cause \<Rightarrow> fs_call \<Rightarrow> fs_call" where
  "cancel e c = (if fc_cause c = None then c\<lparr>fc_cause := Some e\<rparr> else c)"

section \<open>Operations\<close>

text \<open>\<open>hangup\<close> and \<open>api\<close>: the command goes out only while the event socket is connected.\<close>

definition fs_hangup :: "killer \<Rightarrow> string \<Rightarrow> fs \<Rightarrow> fs" where
  "fs_hangup k i s = s\<lparr>f_killed := f_killed s @ [(k, i, f_esl s)]\<rparr>"

datatype rejection = NotFound | Unauthorized | BadRequest | ConflictClosing | ConflictDuplicate

definition register :: "string \<Rightarrow> fs \<Rightarrow> rejection + fs" where
  "register i s =
     (if f_closing s then Inl ConflictClosing
      else if f_calls s i \<noteq> None then Inl ConflictDuplicate
      else Inr (s\<lparr>f_calls := (f_calls s)(i \<mapsto> length (f_objs s)),
             f_objs := f_objs s @ [\<lparr>fc_id = i, fc_cause = None, fc_phase = Upgrading, fc_watch = NoWatch, fc_ran = False\<rparr>],
             f_wg := f_wg s + 1\<rparr>))"

definition unregister :: "nat \<Rightarrow> fs \<Rightarrow> fs" where
  "unregister n s = (let s = on_call n (cancel Canceled) s
     in (on_call n (\<lambda>c. c\<lparr>fc_phase := CallGone\<rparr>) s)\<lparr>f_calls := (f_calls s)(fc_id (f_objs s ! n) := None), f_wg := f_wg s - 1\<rparr>)"

text \<open>\<open>ServeHTTP\<close> up to the upgrade of the connection.\<close>

definition ServeHTTP :: "string \<Rightarrow> string \<Rightarrow> string \<Rightarrow> string \<Rightarrow> fs \<Rightarrow> rejection + fs" where
  "ServeHTTP token path authorization uuid s =
     (if path \<noteq> ''/call'' then Inl NotFound
      else if token \<noteq> [] \<and> authorization \<noteq> token then Inl Unauthorized
      else if \<not> channelUUID uuid then Inl BadRequest
      else register uuid s)"

text \<open>\<open>onEvent\<close>.\<close>

definition onEvent :: "message \<Rightarrow> fs \<Rightarrow> fs" where
  "onEvent ev s =
     (let i = Get ev ''Unique-ID''; c = f_calls s i in
      if Name ev = ''CHANNEL_HANGUP'' then
        (case c of None \<Rightarrow> s | Some n \<Rightarrow> on_call n (cancel (Hangup (Get ev ''Hangup-Cause''))) s)
      else if Name ev = ''earshot::error'' then
        (if c \<noteq> None \<or> \<not> channelUUID i then s else s\<lparr>f_hangups := f_hangups s @ [i]\<rparr>)
      else s)"

text \<open>\<open>runCall\<close>: its start, and its end after the media has returned. The media returns only once the
  context is cancelled.\<close>

definition call_starts :: "nat \<Rightarrow> fs \<Rightarrow> fs" where
  "call_starts n s = (on_call n (\<lambda>c. c\<lparr>fc_phase := CallRuns, fc_watch := Watching, fc_ran := True\<rparr>) s)\<lparr>f_active := f_active s + 1\<rparr>"

definition call_ends :: "nat \<Rightarrow> fs \<Rightarrow> fs" where
  "call_ends n s =
     (let s = (case fc_cause (f_objs s ! n) of Some (Hangup why) \<Rightarrow> s | _ \<Rightarrow> fs_hangup (ByEnd n) (fc_id (f_objs s ! n)) s)
      in (on_call n (\<lambda>c. c\<lparr>fc_phase := Leaving\<rparr>) s)\<lparr>f_active := f_active s - 1\<rparr>)"

text \<open>\<open>Run\<close> when its context ends.\<close>

definition shut_down :: "fs \<Rightarrow> fs" where
  "shut_down s = s\<lparr>f_closing := True,
     f_objs := map (\<lambda>n. if n \<in> ran (f_calls s) then cancel Shutdown (f_objs s ! n) else f_objs s ! n) [0..<length (f_objs s)]\<rparr>"

section \<open>Steps\<close>

datatype fs_step = Http string string string | Upgraded nat bool | FsEvent message | WatchRead nat | WatchDead nat
  | WatchCtx nat | GraceOver nat | Duration nat | AgentHangs nat | MediaReturns nat | EndsCall nat | Unregisters nat
  | ErrorHangup nat | ShutsDown | EslUp | EslDown

definition phase_at :: "nat \<Rightarrow> fs_phase \<Rightarrow> fs \<Rightarrow> bool" where
  "phase_at n p s \<longleftrightarrow> n < length (f_objs s) \<and> fc_phase (f_objs s ! n) = p"

definition watch_is :: "nat \<Rightarrow> watch_at \<Rightarrow> fs \<Rightarrow> bool" where
  "watch_is n w s \<longleftrightarrow> n < length (f_objs s) \<and> fc_watch (f_objs s ! n) = w"

text \<open>With the settings \<open>EarshotAuthToken\<close> and \<open>MaxCallDuration > 0\<close>.\<close>

fun fs_do :: "string \<Rightarrow> bool \<Rightarrow> fs_step \<Rightarrow> fs \<Rightarrow> fs" where
  "fs_do token limited (Http path authorization uuid) s =
     (case ServeHTTP token path authorization uuid s of Inl r \<Rightarrow> s | Inr s' \<Rightarrow> s')"
| "fs_do token limited (Upgraded n ok) s =
     (if \<not> phase_at n Upgrading s then s else if ok then call_starts n s else on_call n (\<lambda>c. c\<lparr>fc_phase := Leaving\<rparr>) s)"
| "fs_do token limited (FsEvent ev) s = onEvent ev s"
| "fs_do token limited (WatchRead n) s = (if watch_is n Watching s then on_call n (\<lambda>c. c\<lparr>fc_watch := Grace\<rparr>) s else s)"
| "fs_do token limited (WatchDead n) s =
     (if watch_is n Watching s then on_call n (\<lambda>c. (cancel MediaDead c)\<lparr>fc_watch := WatchOver\<rparr>) s else s)"
| "fs_do token limited (WatchCtx n) s =
     (if (watch_is n Watching s \<or> watch_is n Grace s) \<and> fc_cause (f_objs s ! n) \<noteq> None
      then on_call n (\<lambda>c. c\<lparr>fc_watch := WatchOver\<rparr>) s else s)"
| "fs_do token limited (GraceOver n) s =
     (if watch_is n Grace s then on_call n (\<lambda>c. (cancel WSClosed c)\<lparr>fc_watch := WatchOver\<rparr>) s else s)"
| "fs_do token limited (Duration n) s =
     (if limited \<and> n < length (f_objs s) then on_call n (cancel MaxDuration) s else s)"
| "fs_do token limited (AgentHangs n) s = (if phase_at n CallRuns s then fs_hangup (ByAgent n) (fc_id (f_objs s ! n)) s else s)"
| "fs_do token limited (MediaReturns n) s =
     (if phase_at n CallRuns s \<and> fc_cause (f_objs s ! n) \<noteq> None then on_call n (\<lambda>c. c\<lparr>fc_phase := MediaEnded\<rparr>) s else s)"
| "fs_do token limited (EndsCall n) s = (if phase_at n MediaEnded s then call_ends n s else s)"
| "fs_do token limited (Unregisters n) s = (if phase_at n Leaving s then unregister n s else s)"
| "fs_do token limited (ErrorHangup k) s = (if k < length (f_hangups s)
     then fs_hangup ByEarshotError (f_hangups s ! k) (s\<lparr>f_hangups := take k (f_hangups s) @ drop (k + 1) (f_hangups s)\<rparr>) else s)"
| "fs_do token limited ShutsDown s = shut_down s"
| "fs_do token limited EslUp s = s\<lparr>f_esl := True\<rparr>"
| "fs_do token limited EslDown s = s\<lparr>f_esl := False\<rparr>"

definition fs_run :: "string \<Rightarrow> bool \<Rightarrow> fs_step list \<Rightarrow> fs \<Rightarrow> fs" where
  "fs_run token limited tr s = fold (fs_do token limited) tr s"

section \<open>Reconnecting the event socket\<close>

text \<open>\<open>eslLoop\<close>: the waits, in seconds, between attempts with the given outcomes; \<open>eslMaxBackoff\<close> is 30.\<close>

fun esl_waits :: "int \<Rightarrow> bool list \<Rightarrow> int list" where
  "esl_waits backoff [] = []"
| "esl_waits backoff (True # os) = esl_waits 1 os"
| "esl_waits backoff (False # os) = backoff # esl_waits (min (backoff * 2) 30) os"

end
