(* ===== verification/Freeswitch_Claims.thy ===== *)
theory Freeswitch_Claims
  imports Freeswitch
begin

text \<open>
  What the FreeSWITCH manager promises, over any interleaving of its goroutines: at most one live call
  per channel, counters that count them, a channel that is ended exactly once unless it hung up
  itself, and a shutdown that reaches every call.
\<close>

section \<open>The invariant\<close>

definition live :: "fs_call \<Rightarrow> bool" where
  "live c \<longleftrightarrow> fc_phase c \<noteq> CallGone"

definition in_media :: "fs_call \<Rightarrow> bool" where
  "in_media c \<longleftrightarrow> fc_phase c = CallRuns \<or> fc_phase c = MediaEnded"

definition hung_up :: "fs_call \<Rightarrow> bool" where
  "hung_up c \<longleftrightarrow> (case fc_cause c of Some (Hangup why) \<Rightarrow> True | _ \<Rightarrow> False)"

text \<open>The call ran and its handler is past \<open>runCall\<close>.\<close>

definition run_over :: "fs_call \<Rightarrow> bool" where
  "run_over c \<longleftrightarrow> fc_ran c \<and> (fc_phase c = Leaving \<or> fc_phase c = CallGone)"

definition call_ok :: "fs_call \<Rightarrow> bool" where
  "call_ok c \<longleftrightarrow> channelUUID (fc_id c)
     \<and> (fc_phase c = MediaEnded \<or> fc_phase c = CallGone \<or> run_over c \<longrightarrow> fc_cause c \<noteq> None)
     \<and> (in_media c \<longrightarrow> fc_ran c) \<and> (fc_phase c = Upgrading \<longrightarrow> \<not> fc_ran c)"

definition ends_of :: "nat \<Rightarrow> fs \<Rightarrow> (killer \<times> string \<times> bool) list" where
  "ends_of n s = filter (\<lambda>k. fst k = ByEnd n) (f_killed s)"

definition ended_ids :: "fs \<Rightarrow> nat \<Rightarrow> string list" where
  "ended_ids s n = map (fst \<circ> snd) (ends_of n s)"

definition fs_ok :: "fs \<Rightarrow> bool" where
  "fs_ok s \<longleftrightarrow>
     (\<forall>i n. f_calls s i = Some n \<longleftrightarrow> n < length (f_objs s) \<and> fc_id (f_objs s ! n) = i \<and> live (f_objs s ! n))
     \<and> (\<forall>n < length (f_objs s). call_ok (f_objs s ! n))
     \<and> f_wg s = int (length (filter live (f_objs s)))
     \<and> f_active s = int (length (filter in_media (f_objs s)))
     \<and> (f_closing s \<longrightarrow> (\<forall>n < length (f_objs s). fc_cause (f_objs s ! n) \<noteq> None))
     \<and> (\<forall>n. ended_ids s n = (if n < length (f_objs s) \<and> run_over (f_objs s ! n) \<and> \<not> hung_up (f_objs s ! n) then [fc_id (f_objs s ! n)] else []))
     \<and> (\<forall>k \<in> set (f_killed s). channelUUID (fst (snd k))) \<and> (\<forall>i \<in> set (f_hangups s). channelUUID i)"

lemma fs_ok_start: "fs_ok fs_start"
  by (simp add: fs_ok_def fs_start_def ended_ids_def ends_of_def)

lemma count_alike:
  assumes "length xs = length ys" "\<And>j. j < length ys \<Longrightarrow> P (xs ! j) = P (ys ! j)"
  shows "length (filter P xs) = length (filter P ys)"
  using assms
proof (induction xs ys rule: list_induct2)
  case (Cons x xs y ys)
  have "P x = P y" using Cons.prems [of 0] by simp
  moreover have "P (xs ! j) = P (ys ! j)" if "j < length ys" for j using Cons.prems [of "Suc j"] that by simp
  ultimately show ?case using Cons.IH by simp
qed simp

lemma count_update:
  "n < length xs \<Longrightarrow> int (length (filter P (xs[n := y]))) = int (length (filter P xs)) - of_bool (P (xs ! n)) + of_bool (P y)"
proof (induction xs arbitrary: n)
  case (Cons x xs)
  then show ?case by (cases n) auto
qed simp

text \<open>A change to one call that leaves its identity, its counts and its end alone.\<close>

definition tame :: "(fs_call \<Rightarrow> fs_call) \<Rightarrow> fs_call \<Rightarrow> bool" where
  "tame f c \<longleftrightarrow> fc_id (f c) = fc_id c \<and> live (f c) = live c \<and> in_media (f c) = in_media c
     \<and> run_over (f c) = run_over c \<and> (run_over c \<longrightarrow> hung_up (f c) = hung_up c) \<and> (call_ok c \<longrightarrow> call_ok (f c))
     \<and> (fc_cause c \<noteq> None \<longrightarrow> fc_cause (f c) \<noteq> None)"

text \<open>Two states that agree on what the invariant reads of every call.\<close>

lemma fs_ok_alike:
  assumes "fs_ok s" "length (f_objs s') = length (f_objs s)"
    "\<And>j. j < length (f_objs s) \<Longrightarrow> fc_id (f_objs s' ! j) = fc_id (f_objs s ! j)"
    "\<And>j. j < length (f_objs s) \<Longrightarrow> live (f_objs s' ! j) = live (f_objs s ! j)"
    "\<And>j. j < length (f_objs s) \<Longrightarrow> call_ok (f_objs s ! j) \<Longrightarrow> call_ok (f_objs s' ! j)"
    "\<And>j. j < length (f_objs s) \<Longrightarrow> f_closing s' \<Longrightarrow> fc_cause (f_objs s' ! j) \<noteq> None"
    "\<And>j. j < length (f_objs s) \<Longrightarrow> run_over (f_objs s' ! j) = run_over (f_objs s ! j)"
    "\<And>j. j < length (f_objs s) \<Longrightarrow> run_over (f_objs s ! j) \<Longrightarrow> hung_up (f_objs s' ! j) = hung_up (f_objs s ! j)"
    "f_calls s' = f_calls s" "ended_ids s' = ended_ids s"
    "f_wg s' = int (length (filter live (f_objs s')))" "f_active s' = int (length (filter in_media (f_objs s')))"
    "\<forall>k \<in> set (f_killed s'). channelUUID (fst (snd k))" "\<forall>i \<in> set (f_hangups s'). channelUUID i"
  shows "fs_ok s'"
  unfolding fs_ok_def
proof (intro conjI)
  show "\<forall>i n. (f_calls s' i = Some n) \<longleftrightarrow> n < length (f_objs s') \<and> fc_id (f_objs s' ! n) = i \<and> live (f_objs s' ! n)"
    using assms(1-4,9) by (simp add: fs_ok_def cong: conj_cong)
  show "\<forall>n<length (f_objs s'). call_ok (f_objs s' ! n)" using assms(1,2,5) by (simp add: fs_ok_def)
  show "f_closing s' \<longrightarrow> (\<forall>n<length (f_objs s'). fc_cause (f_objs s' ! n) \<noteq> None)" using assms(2,6) by simp
  show "\<forall>n. ended_ids s' n = (if n < length (f_objs s') \<and> run_over (f_objs s' ! n) \<and> \<not> hung_up (f_objs s' ! n)
      then [fc_id (f_objs s' ! n)] else [])"
    using assms(1-3,7,8,10) by (simp add: fs_ok_def cong: conj_cong)
qed (use assms in blast)+

lemma fs_ok_tame:
  assumes "fs_ok s" "n < length (f_objs s)" "tame f (f_objs s ! n)"
  shows "fs_ok (on_call n f s)"
proof -
  have nth: "f_objs (on_call n f s) ! j = (if j = n then f (f_objs s ! j) else f_objs s ! j)" if "j < length (f_objs s)" for j
    using that assms(2) by (simp add: on_call_def)
  have counts: "int (length (filter live (f_objs (on_call n f s)))) = int (length (filter live (f_objs s)))"
    "int (length (filter in_media (f_objs (on_call n f s)))) = int (length (filter in_media (f_objs s)))"
    using count_update [OF assms(2)] assms(3) by (simp_all add: on_call_def tame_def)
  have e: "ended_ids (on_call n f s) = ended_ids s" by (simp add: on_call_def ended_ids_def ends_of_def fun_eq_iff)
  note ok = assms(1) [unfolded fs_ok_def] and t = assms(3) [unfolded tame_def]
  show ?thesis
  proof (rule fs_ok_alike [OF assms(1)])
    fix j assume j: "j < length (f_objs s)"
    show "fc_id (f_objs (on_call n f s) ! j) = fc_id (f_objs s ! j)"
      "live (f_objs (on_call n f s) ! j) = live (f_objs s ! j)"
      "run_over (f_objs (on_call n f s) ! j) = run_over (f_objs s ! j)"
      using nth [OF j] t by simp_all
    show "call_ok (f_objs s ! j) \<Longrightarrow> call_ok (f_objs (on_call n f s) ! j)"
      "run_over (f_objs s ! j) \<Longrightarrow> hung_up (f_objs (on_call n f s) ! j) = hung_up (f_objs s ! j)"
      using nth [OF j] t by (cases "j = n", simp_all)+
    assume "f_closing (on_call n f s)"
    then have "fc_cause (f_objs s ! j) \<noteq> None" using ok j by (simp add: on_call_def)
    then show "fc_cause (f_objs (on_call n f s) ! j) \<noteq> None" using nth [OF j] t by (cases "j = n") simp_all
  qed (use ok counts e in \<open>simp_all add: on_call_def\<close>)
qed

lemma tame_cancel:
  assumes "call_ok c"
  shows "tame (cancel e) c" "tame (\<lambda>c. (cancel e c)\<lparr>fc_watch := w\<rparr>) c"
  using assms by (auto simp: tame_def cancel_def live_def in_media_def run_over_def hung_up_def call_ok_def)

lemma tame_watch: "tame (\<lambda>c. c\<lparr>fc_watch := w\<rparr>) c"
  by (auto simp: tame_def live_def in_media_def run_over_def hung_up_def call_ok_def)

section \<open>Every step keeps it\<close>

lemma okD:
  assumes "fs_ok s" "n < length (f_objs s)"
  shows "call_ok (f_objs s ! n)" "f_closing s \<Longrightarrow> fc_cause (f_objs s ! n) \<noteq> None"
    "live (f_objs s ! n) \<Longrightarrow> f_calls s (fc_id (f_objs s ! n)) = Some n"
  using assms by (simp_all add: fs_ok_def)

lemma fs_ok_kill:
  assumes "fs_ok s" "channelUUID i" "\<And>n. k \<noteq> ByEnd n"
  shows "fs_ok (fs_hangup k i s)"
proof -
  have "ended_ids (fs_hangup k i s) = ended_ids s"
    using assms(3) by (simp add: fs_hangup_def ended_ids_def ends_of_def fun_eq_iff)
  then show ?thesis using assms(1,2) unfolding fs_ok_def
    by (elim conjE, intro conjI) (simp_all add: fs_hangup_def)
qed

lemma fs_ok_hangups:
  assumes "fs_ok s" "\<forall>i \<in> set is. channelUUID i"
  shows "fs_ok (s\<lparr>f_hangups := is\<rparr>)"
proof -
  have "ended_ids (s\<lparr>f_hangups := is\<rparr>) = ended_ids s" by (simp add: ended_ids_def ends_of_def fun_eq_iff)
  then show ?thesis using assms unfolding fs_ok_def by (elim conjE, intro conjI) simp_all
qed

lemma fs_ok_esl: "fs_ok s \<Longrightarrow> fs_ok (s\<lparr>f_esl := b\<rparr>)"
proof -
  assume "fs_ok s"
  moreover have "ended_ids (s\<lparr>f_esl := b\<rparr>) = ended_ids s" by (simp add: ended_ids_def ends_of_def fun_eq_iff)
  ultimately show ?thesis unfolding fs_ok_def by (elim conjE, intro conjI) simp_all
qed

lemma fs_ok_register:
  assumes "fs_ok s" "channelUUID i" "register i s = Inr s'"
  shows "fs_ok s'"
proof -
  let ?c = "\<lparr>fc_id = i, fc_cause = None, fc_phase = Upgrading, fc_watch = NoWatch, fc_ran = False\<rparr>"
  have s': "s' = s\<lparr>f_calls := (f_calls s)(i \<mapsto> length (f_objs s)), f_objs := f_objs s @ [?c], f_wg := f_wg s + 1\<rparr>"
    and open_: "\<not> f_closing s" and new: "f_calls s i = None"
    using assms(3) by (auto simp: register_def split: if_splits)
  have e: "ended_ids s' = ended_ids s" by (simp add: s' ended_ids_def ends_of_def fun_eq_iff)
  have c: "live ?c" "\<not> in_media ?c" "\<not> run_over ?c" "call_ok ?c"
    using assms(2) by (simp_all add: live_def in_media_def run_over_def call_ok_def)
  note ok = assms(1) [unfolded fs_ok_def]
  show ?thesis unfolding fs_ok_def e
  proof (intro conjI)
    show "\<forall>j n. (f_calls s' j = Some n) \<longleftrightarrow> n < length (f_objs s') \<and> fc_id (f_objs s' ! n) = j \<and> live (f_objs s' ! n)"
    proof (intro allI)
      fix j n
      have "\<not> (n < length (f_objs s) \<and> fc_id (f_objs s ! n) = i \<and> live (f_objs s ! n))"
        using ok new by (metis option.distinct(1))
      then show "(f_calls s' j = Some n) \<longleftrightarrow> n < length (f_objs s') \<and> fc_id (f_objs s' ! n) = j \<and> live (f_objs s' ! n)"
        using ok c(1) by (auto simp: s' nth_append less_Suc_eq)
    qed
    show "\<forall>n<length (f_objs s'). call_ok (f_objs s' ! n)" using ok c(4) by (simp add: s' nth_append less_Suc_eq)
    show "\<forall>n. ended_ids s n = (if n < length (f_objs s') \<and> run_over (f_objs s' ! n) \<and> \<not> hung_up (f_objs s' ! n)
        then [fc_id (f_objs s' ! n)] else [])" using ok c(3) by (simp add: s' nth_append less_Suc_eq)
  qed (use ok open_ c in \<open>simp_all add: s'\<close>)
qed

lemma phase_ok:
  assumes "fs_ok s" "phase_at n p s"
  shows "n < length (f_objs s)" "call_ok (f_objs s ! n)" "fc_phase (f_objs s ! n) = p"
  using assms okD by (auto simp: phase_at_def)

text \<open>A call enters or leaves its media: the count of those running changes with it.\<close>

lemma fs_ok_media:
  assumes "fs_ok s" "n < length (f_objs s)" "fc_id (f (f_objs s ! n)) = fc_id (f_objs s ! n)"
    "live (f (f_objs s ! n)) = live (f_objs s ! n)" "call_ok (f (f_objs s ! n))"
    "fc_cause (f (f_objs s ! n)) = fc_cause (f_objs s ! n)" "\<not> run_over (f_objs s ! n)"
    "new = (if run_over (f (f_objs s ! n)) \<and> \<not> hung_up (f_objs s ! n) then [(ByEnd n, fc_id (f_objs s ! n), b)] else [])"
    "d = of_bool (in_media (f (f_objs s ! n))) - of_bool (in_media (f_objs s ! n))"
  shows "fs_ok ((on_call n f s)\<lparr>f_active := f_active s + d, f_killed := f_killed s @ new\<rparr>)" (is "fs_ok ?s")
proof -
  have nth: "f_objs ?s ! j = (if j = n then f (f_objs s ! j) else f_objs s ! j)" if "j < length (f_objs s)" for j
    using that assms(2) by (simp add: on_call_def)
  note ok = assms(1) [unfolded fs_ok_def]
  have len: "length (f_objs ?s) = length (f_objs s)" by (simp add: on_call_def)
  have hung: "hung_up (f (f_objs s ! n)) = hung_up (f_objs s ! n)" using assms(6) by (simp add: hung_up_def)
  have e: "ended_ids ?s j = ended_ids s j @ (if j = n \<and> run_over (f (f_objs s ! n)) \<and> \<not> hung_up (f_objs s ! n) then [fc_id (f_objs s ! n)] else [])" for j
    by (simp add: on_call_def ended_ids_def ends_of_def assms(8))
  have counts: "int (length (filter live (f_objs ?s))) = int (length (filter live (f_objs s)))"
    "int (length (filter in_media (f_objs ?s))) = int (length (filter in_media (f_objs s))) + d"
    using count_update [OF assms(2)] assms(4,9) by (simp_all add: on_call_def)
  show ?thesis unfolding fs_ok_def len
  proof (intro conjI)
    show "\<forall>i j. (f_calls ?s i = Some j) \<longleftrightarrow> j < length (f_objs s) \<and> fc_id (f_objs ?s ! j) = i \<and> live (f_objs ?s ! j)"
    proof (intro allI)
      fix i j
      have "f_calls ?s i = f_calls s i" by (simp add: on_call_def)
      moreover have "(f_calls s i = Some j) \<longleftrightarrow> j < length (f_objs s) \<and> fc_id (f_objs s ! j) = i \<and> live (f_objs s ! j)" using ok by blast
      ultimately show "(f_calls ?s i = Some j) \<longleftrightarrow> j < length (f_objs s) \<and> fc_id (f_objs ?s ! j) = i \<and> live (f_objs ?s ! j)"
        using nth [of j] assms(3,4) by (cases "j = n") auto
    qed
    show "\<forall>j<length (f_objs s). call_ok (f_objs ?s ! j)" using ok assms(2,5) by (auto simp: on_call_def nth_list_update)
    show "f_closing ?s \<longrightarrow> (\<forall>j<length (f_objs s). fc_cause (f_objs ?s ! j) \<noteq> None)"
      using ok assms(2,6) by (auto simp: on_call_def nth_list_update)
    show "\<forall>j. ended_ids ?s j = (if j < length (f_objs s) \<and> run_over (f_objs ?s ! j) \<and> \<not> hung_up (f_objs ?s ! j)
        then [fc_id (f_objs ?s ! j)] else [])"
    proof
      fix j
      have "ended_ids s j = (if j < length (f_objs s) \<and> run_over (f_objs s ! j) \<and> \<not> hung_up (f_objs s ! j)
        then [fc_id (f_objs s ! j)] else [])" using ok by blast
      then show "ended_ids ?s j = (if j < length (f_objs s) \<and> run_over (f_objs ?s ! j) \<and> \<not> hung_up (f_objs ?s ! j)
        then [fc_id (f_objs ?s ! j)] else [])"
        unfolding e using nth [of j] assms(2,3,7) hung by (cases "j < length (f_objs s)"; cases "j = n") simp_all
    qed
    show "\<forall>k \<in> set (f_killed ?s). channelUUID (fst (snd k))"
      using ok assms(2,8) by (auto simp: on_call_def call_ok_def)
  qed (use ok counts in \<open>simp_all add: on_call_def\<close>)
qed

lemma fs_ok_starts:
  assumes "fs_ok s" "phase_at n Upgrading s"
  shows "fs_ok (call_starts n s)"
proof -
  note c = phase_ok [OF assms]
  have "fs_ok ((on_call n (\<lambda>c. c\<lparr>fc_phase := CallRuns, fc_watch := Watching, fc_ran := True\<rparr>) s)
      \<lparr>f_active := f_active s + 1, f_killed := f_killed s @ []\<rparr>)"
    by (rule fs_ok_media [OF assms(1) c(1)])
      (use c in \<open>auto simp: live_def in_media_def run_over_def call_ok_def\<close>)
  then show ?thesis by (simp add: call_starts_def on_call_def)
qed

lemma fs_ok_ends:
  assumes "fs_ok s" "phase_at n MediaEnded s"
  shows "fs_ok (call_ends n s)"
proof -
  note c = phase_ok [OF assms]
  let ?f = "\<lambda>c. c\<lparr>fc_phase := Leaving\<rparr>"
  let ?new = "if hung_up (f_objs s ! n) then [] else [(ByEnd n, fc_id (f_objs s ! n), f_esl s)]"
  have "fs_ok ((on_call n ?f s)\<lparr>f_active := f_active s + - 1, f_killed := f_killed s @ ?new\<rparr>)"
    by (rule fs_ok_media [OF assms(1) c(1), where b = "f_esl s"])
      (use c in \<open>auto simp: live_def in_media_def run_over_def call_ok_def\<close>)
  moreover have "call_ends n s = (on_call n ?f s)\<lparr>f_active := f_active s + - 1, f_killed := f_killed s @ ?new\<rparr>"
    by (simp add: call_ends_def on_call_def fs_hangup_def hung_up_def Let_def split: option.split end_cause.split)
  ultimately show ?thesis by simp
qed

lemma fs_ok_unregister:
  assumes "fs_ok s" "phase_at n Leaving s"
  shows "fs_ok (unregister n s)"
proof -
  note c = phase_ok [OF assms]
  let ?c = "(cancel Canceled (f_objs s ! n))\<lparr>fc_phase := CallGone\<rparr>"
  have s': "unregister n s = s\<lparr>f_calls := (f_calls s)(fc_id (f_objs s ! n) := None), f_objs := (f_objs s)[n := ?c], f_wg := f_wg s - 1\<rparr>"
    using c(1) by (simp add: unregister_def on_call_def cancel_def Let_def)
  have nth: "(f_objs s)[n := ?c] ! j = (if j = n then ?c else f_objs s ! j)" if "j < length (f_objs s)" for j
    using that by simp
  have cc: "fc_id ?c = fc_id (f_objs s ! n)" "\<not> live ?c" "live (f_objs s ! n)" "\<not> in_media ?c" "\<not> in_media (f_objs s ! n)"
    "run_over ?c = run_over (f_objs s ! n)" "run_over ?c \<Longrightarrow> hung_up ?c = hung_up (f_objs s ! n)" "call_ok ?c" "fc_cause ?c \<noteq> None"
    using c by (auto simp: cancel_def live_def in_media_def run_over_def hung_up_def call_ok_def)
  have e: "ended_ids (unregister n s) = ended_ids s" by (simp add: s' ended_ids_def ends_of_def fun_eq_iff)
  note ok = assms(1) [unfolded fs_ok_def]
  have objs: "f_objs (unregister n s) = (f_objs s)[n := ?c]" "length (f_objs (unregister n s)) = length (f_objs s)" by (simp_all add: s')
  show ?thesis unfolding fs_ok_def e
  proof (intro conjI)
    show "\<forall>i j. (f_calls (unregister n s) i = Some j) \<longleftrightarrow>
        j < length (f_objs (unregister n s)) \<and> fc_id (f_objs (unregister n s) ! j) = i \<and> live (f_objs (unregister n s) ! j)"
    proof (intro allI)
      fix i j
      have "(f_calls s i = Some j) \<longleftrightarrow> j < length (f_objs s) \<and> fc_id (f_objs s ! j) = i \<and> live (f_objs s ! j)"
        "f_calls s (fc_id (f_objs s ! n)) = Some n" using ok c(1) cc(3) by blast+
      then show "(f_calls (unregister n s) i = Some j) \<longleftrightarrow>
          j < length (f_objs (unregister n s)) \<and> fc_id (f_objs (unregister n s) ! j) = i \<and> live (f_objs (unregister n s) ! j)"
        unfolding objs using nth [of j] cc(2) by (cases "j = n") (auto simp: s')
    qed
    show "\<forall>j<length (f_objs (unregister n s)). call_ok (f_objs (unregister n s) ! j)"
      unfolding objs using ok c(1) cc(8) by (auto simp: nth_list_update)
    show "f_closing (unregister n s) \<longrightarrow> (\<forall>j<length (f_objs (unregister n s)). fc_cause (f_objs (unregister n s) ! j) \<noteq> None)"
      unfolding objs using ok c(1) cc(9) by (auto simp: s' nth_list_update)
    show "\<forall>j. ended_ids s j = (if j < length (f_objs (unregister n s)) \<and> run_over (f_objs (unregister n s) ! j)
        \<and> \<not> hung_up (f_objs (unregister n s) ! j) then [fc_id (f_objs (unregister n s) ! j)] else [])"
    proof
      fix j
      have "ended_ids s j = (if j < length (f_objs s) \<and> run_over (f_objs s ! j) \<and> \<not> hung_up (f_objs s ! j)
        then [fc_id (f_objs s ! j)] else [])" using ok by blast
      then show "ended_ids s j = (if j < length (f_objs (unregister n s)) \<and> run_over (f_objs (unregister n s) ! j)
        \<and> \<not> hung_up (f_objs (unregister n s) ! j) then [fc_id (f_objs (unregister n s) ! j)] else [])"
        unfolding objs using nth [of j] cc(1,6,7) by (cases "j = n") auto
    qed
  qed (use ok count_update [OF c(1)] cc(2-5) in \<open>simp_all add: s'\<close>)
qed

lemma fs_ok_shut_down:
  assumes "fs_ok s"
  shows "fs_ok (shut_down s)"
proof -
  note ok = assms [unfolded fs_ok_def]
  have nth: "f_objs (shut_down s) ! j = (if j \<in> ran (f_calls s) then cancel Shutdown (f_objs s ! j) else f_objs s ! j)"
    if "j < length (f_objs s)" for j
    using that by (simp add: shut_down_def)
  have tame: "tame (cancel Shutdown) (f_objs s ! j)" if "j < length (f_objs s)" for j
    using tame_cancel(1) okD(1) [OF assms that] by blast
  have cause: "fc_cause (f_objs (shut_down s) ! j) \<noteq> None" if "j < length (f_objs s)" for j
  proof (cases "live (f_objs s ! j)")
    case True
    then have "j \<in> ran (f_calls s)" using okD(3) [OF assms that] by (auto simp: ran_def)
    then show ?thesis using nth [OF that] by (simp add: cancel_def)
  next
    case False
    then show ?thesis using nth [OF that] okD(1) [OF assms that]
      by (auto simp: call_ok_def live_def cancel_def)
  qed
  have alike: "fc_id (f_objs (shut_down s) ! j) = fc_id (f_objs s ! j)" "live (f_objs (shut_down s) ! j) = live (f_objs s ! j)"
    "in_media (f_objs (shut_down s) ! j) = in_media (f_objs s ! j)" "run_over (f_objs (shut_down s) ! j) = run_over (f_objs s ! j)"
    "call_ok (f_objs s ! j) \<Longrightarrow> call_ok (f_objs (shut_down s) ! j)"
    "run_over (f_objs s ! j) \<Longrightarrow> hung_up (f_objs (shut_down s) ! j) = hung_up (f_objs s ! j)"
    if "j < length (f_objs s)" for j
    using nth [OF that] tame [OF that] by (auto simp: tame_def)
  have len: "length (f_objs (shut_down s)) = length (f_objs s)" by (simp add: shut_down_def)
  have e: "ended_ids (shut_down s) = ended_ids s" by (simp add: shut_down_def ended_ids_def ends_of_def fun_eq_iff)
  have "length (filter live (f_objs (shut_down s))) = length (filter live (f_objs s))"
    "length (filter in_media (f_objs (shut_down s))) = length (filter in_media (f_objs s))"
    using count_alike [OF len] alike(2,3) by blast+
  then show ?thesis
    by (intro fs_ok_alike [OF assms len alike(1,2,5) cause alike(4,6) _ e])
      (use ok in \<open>simp_all add: shut_down_def\<close>)
qed

lemma fs_ok_event: "fs_ok s \<Longrightarrow> fs_ok (onEvent ev s)"
proof -
  assume s: "fs_ok s"
  have "fs_ok (on_call n (cancel e) s)" if "f_calls s i = Some n" for n i e
  proof -
    have n: "n < length (f_objs s)" using s that by (simp add: fs_ok_def)
    show ?thesis by (rule fs_ok_tame [OF s n tame_cancel(1) [OF okD(1) [OF s n]]])
  qed
  moreover have "channelUUID i \<Longrightarrow> fs_ok (s\<lparr>f_hangups := f_hangups s @ [i]\<rparr>)" for i
    by (rule fs_ok_hangups [OF s]) (use s in \<open>auto simp: fs_ok_def\<close>)
  ultimately show ?thesis using s by (simp add: onEvent_def Let_def split: option.split)
qed

lemma fs_ok_http: "fs_ok s \<Longrightarrow> ServeHTTP token path given uuid s = Inr s' \<Longrightarrow> fs_ok s'"
  using fs_ok_register by (auto simp: ServeHTTP_def split: if_splits)

lemma fs_ok_refused:
  assumes "fs_ok s" "phase_at n Upgrading s"
  shows "fs_ok (on_call n (\<lambda>c. c\<lparr>fc_phase := Leaving\<rparr>) s)"
proof -
  note c = phase_ok [OF assms]
  show ?thesis by (rule fs_ok_tame [OF assms(1) c(1)])
    (use c in \<open>auto simp: tame_def live_def in_media_def run_over_def call_ok_def\<close>)
qed

lemma fs_ok_returns:
  assumes "fs_ok s" "phase_at n CallRuns s" "fc_cause (f_objs s ! n) \<noteq> None"
  shows "fs_ok (on_call n (\<lambda>c. c\<lparr>fc_phase := MediaEnded\<rparr>) s)"
proof -
  note c = phase_ok [OF assms(1,2)]
  show ?thesis by (rule fs_ok_tame [OF assms(1) c(1)])
    (use c assms(3) in \<open>auto simp: tame_def live_def in_media_def run_over_def call_ok_def\<close>)
qed

lemma fs_ok_errors: "fs_ok s \<Longrightarrow> k < length (f_hangups s) \<Longrightarrow>
    fs_ok (fs_hangup ByEarshotError (f_hangups s ! k) (s\<lparr>f_hangups := take k (f_hangups s) @ drop (Suc k) (f_hangups s)\<rparr>))"
  by (intro fs_ok_kill fs_ok_hangups) (auto simp: fs_ok_def dest: in_set_takeD in_set_dropD)

lemma fs_ok_do:
  assumes "fs_ok s"
  shows "fs_ok (fs_do token limited st s)"
proof (cases st)
  case (Http path given uuid)
  then show ?thesis using assms fs_ok_http by (simp split: sum.split)
next
  case (Upgraded n ok)
  then show ?thesis using assms fs_ok_starts fs_ok_refused by simp
next
  case (AgentHangs n)
  then show ?thesis using assms phase_ok(2) [OF assms] by (auto simp: call_ok_def intro: fs_ok_kill)
qed (use assms okD(1) [OF assms] fs_ok_tame [OF assms] tame_cancel tame_watch in
  \<open>auto simp: fs_ok_event fs_ok_returns fs_ok_ends fs_ok_unregister fs_ok_errors fs_ok_shut_down fs_ok_esl watch_is_def\<close>)

lemma fs_ok_run: "fs_ok s \<Longrightarrow> fs_ok (fs_run token limited tr s)"
  by (induction tr arbitrary: s) (auto simp: fs_run_def fs_ok_do)

section \<open>Shutting down\<close>

text \<open>A connection arriving after the shutdown is refused, and what a call still has to do is bounded: these
  turns of its handler, whatever the others do.\<close>

definition finish :: "nat \<Rightarrow> fs_step list" where
  "finish n = [Upgraded n False, MediaReturns n, EndsCall n, Unregisters n]"

definition finish_all :: "nat \<Rightarrow> fs_step list" where
  "finish_all k = concat (map finish [0..<k])"

lemma run_append: "fs_run token limited (tr @ tr') s = fs_run token limited tr' (fs_run token limited tr s)"
  by (simp add: fs_run_def)

definition only_call :: "nat \<Rightarrow> fs \<Rightarrow> fs \<Rightarrow> bool" where
  "only_call n s s' \<longleftrightarrow> length (f_objs s') = length (f_objs s) \<and> f_closing s' = f_closing s
     \<and> (\<forall>j. j \<noteq> n \<longrightarrow> f_objs s' ! j = f_objs s ! j)"

lemma only_call_trans: "only_call n s s' \<Longrightarrow> only_call n s' s'' \<Longrightarrow> only_call n s s''"
  by (simp add: only_call_def)

lemma only_call_steps:
  "only_call n s (fs_do token limited (Upgraded n False) s)"
  "only_call n s (fs_do token limited (MediaReturns n) s)"
  "only_call n s (fs_do token limited (EndsCall n) s)"
  "only_call n s (fs_do token limited (Unregisters n) s)"
proof -
  show "only_call n s (fs_do token limited (EndsCall n) s)"
    by (cases "fc_cause (f_objs s ! n)")
      (auto simp: only_call_def on_call_def call_ends_def fs_hangup_def Let_def split: end_cause.split)
qed (simp_all add: only_call_def on_call_def unregister_def Let_def)

lemma finish_only: "only_call n s (fs_run token limited (finish n) s)"
  unfolding finish_def fs_run_def fold.simps comp_def id_def
  by (rule only_call_trans [OF only_call_trans [OF only_call_trans [OF only_call_steps(1) only_call_steps(2)] only_call_steps(3)]
        only_call_steps(4)])

lemma finish_others:
  "j \<noteq> n \<Longrightarrow> f_objs (fs_run token limited (finish n) s) ! j = f_objs s ! j"
  "length (f_objs (fs_run token limited (finish n) s)) = length (f_objs s)"
  "f_closing (fs_run token limited (finish n) s) = f_closing s"
  using finish_only [of n s token limited] by (simp_all add: only_call_def)

lemma finish_gone:
  assumes "n < length (f_objs s)" "fc_cause (f_objs s ! n) \<noteq> None"
  shows "fc_phase (f_objs (fs_run token limited (finish n) s) ! n) = CallGone"
  using assms by (cases "fc_phase (f_objs s ! n)")
    (auto simp: finish_def fs_run_def phase_at_def on_call_def call_ends_def unregister_def fs_hangup_def cancel_def Let_def
      split: option.split end_cause.split)

lemma finish_all_gone:
  assumes "fs_ok s" "f_closing s" "k \<le> length (f_objs s)"
  shows "\<forall>n < k. fc_phase (f_objs (fs_run token limited (finish_all k) s) ! n) = CallGone"
    "length (f_objs (fs_run token limited (finish_all k) s)) = length (f_objs s)"
    "f_closing (fs_run token limited (finish_all k) s)"
  using assms(3)
proof (induction k)
  case (Suc k)
  let ?s = "fs_run token limited (finish_all k) s"
  have step: "fs_run token limited (finish_all (Suc k)) s = fs_run token limited (finish k) ?s"
    by (simp add: finish_all_def run_append)
  {
    case 1
    have "fc_cause (f_objs ?s ! k) \<noteq> None"
      using okD(2) [OF fs_ok_run [OF assms(1)], of k token limited "finish_all k"] Suc.IH 1 by simp
    then have "fc_phase (f_objs (fs_run token limited (finish k) ?s) ! k) = CallGone"
      using finish_gone Suc.IH(2) 1 by simp
    then show ?case unfolding step using finish_others(1) Suc.IH(1) 1 by (simp add: less_Suc_eq)
  next
    case 2
    then show ?case unfolding step using finish_others(2) Suc.IH(2) by simp
  next
    case 3
    then show ?case unfolding step using finish_others(3) Suc.IH(3) by simp
  }
qed (simp_all add: finish_all_def fs_run_def assms)

section \<open>The properties\<close>

text \<open>C33: Whatever connections, events, hang-ups and timers do, and in any order: a channel has at most one live call, found
  under its id; the wait group counts exactly the live calls and the gauge exactly those in their media; and
  every id that ever goes into a kill command has the form of a channel id.\<close>

theorem fs_calls_exact:
  "let s = fs_run token limited tr fs_start in
     (\<forall>i n. f_calls s i = Some n \<longleftrightarrow> n < length (f_objs s) \<and> fc_id (f_objs s ! n) = i \<and> live (f_objs s ! n))
   \<and> f_wg s = int (length (filter live (f_objs s)))
   \<and> f_active s = int (length (filter in_media (f_objs s)))
   \<and> (\<forall>k \<in> set (f_killed s). channelUUID (fst (snd k)))"
  using fs_ok_run [OF fs_ok_start, of token limited tr] by (simp add: fs_ok_def Let_def)


text \<open>C34: After a shutdown every call ends, whatever happened before or since: four turns of each handler end them all and
  the wait for them is over, with no call registered, and no new call is accepted.\<close>

theorem shutdown_drains:
  assumes "f_closing (fs_run token limited tr fs_start)"
  shows "let s = fs_run token limited tr fs_start; s' = fs_run token limited (finish_all (length (f_objs s))) s in
     f_wg s' = 0 \<and> f_active s' = 0 \<and> f_calls s' = (\<lambda>_. None)
   \<and> (\<forall>path given uuid. fs_do token limited (Http path given uuid) s' = s')"
proof -
  let ?s = "fs_run token limited tr fs_start"
  let ?s' = "fs_run token limited (finish_all (length (f_objs ?s))) ?s"
  have ok: "fs_ok ?s'" using fs_ok_run [OF fs_ok_run [OF fs_ok_start]] .
  note gone = finish_all_gone [OF fs_ok_run [OF fs_ok_start] assms order.refl]
  have "\<forall>c \<in> set (f_objs ?s'). fc_phase c = CallGone" using gone(1,2) by (metis in_set_conv_nth)
  then have none: "filter live (f_objs ?s') = []" "filter in_media (f_objs ?s') = []"
    by (auto simp: filter_empty_conv live_def in_media_def)
  have "f_calls ?s' i = None" for i
  proof (rule ccontr)
    assume "f_calls ?s' i \<noteq> None"
    then obtain n where "n < length (f_objs ?s')" "live (f_objs ?s' ! n)" using ok by (auto simp: fs_ok_def)
    then show False using none(1) by (auto simp: filter_empty_conv)
  qed
  then have "f_calls ?s' = (\<lambda>_. None)" by blast
  moreover have "f_wg ?s' = 0" "f_active ?s' = 0" using ok none by (simp_all add: fs_ok_def)
  moreover have "fs_do token limited (Http path given uuid) ?s' = ?s'" for path given uuid
    using gone(3) by (simp add: ServeHTTP_def register_def)
  ultimately show ?thesis by (simp add: Let_def)
qed

lemma backoff_bounded: "1 \<le> b \<Longrightarrow> b \<le> 30 \<Longrightarrow> w \<in> set (esl_waits b os) \<Longrightarrow> 1 \<le> w \<and> w \<le> 30"
  by (induction b os rule: esl_waits.induct) auto

text \<open>A call whose socket closes without a hangup event: its channel is told to end. And one that is running when
  Vaani shuts down.\<close>

definition demo_uuid :: string where
  "demo_uuid = ''0a1b2c3d-0a1b-0a1b-0a1b-0a1b2c3d4e5f''"

lemma demo_uuid_ok: "channelUUID demo_uuid"
  by code_simp

definition dropped_call :: "fs_step list" where
  "dropped_call = [EslUp, Http ''/call'' [] demo_uuid, Upgraded 0 True, WatchRead 0, GraceOver 0, MediaReturns 0, EndsCall 0]"

definition closing_call :: "fs_step list" where
  "closing_call = [Http ''/call'' [] demo_uuid, Upgraded 0 True, ShutsDown]"

lemmas fs_run_defs = fs_run_def fs_start_def ServeHTTP_def register_def demo_uuid_ok phase_at_def watch_is_def on_call_def
  call_starts_def call_ends_def fs_hangup_def cancel_def Let_def

lemma dropped_killed: "f_killed (fs_run [] True dropped_call fs_start) = [(ByEnd 0, demo_uuid, True)]"
  by (simp add: dropped_call_def fs_run_defs)

theorem fs_calls_exact_witness:
  "channelUUID (fst (snd (hd (f_killed (fs_run [] True dropped_call fs_start))))) \<and> f_killed (fs_run [] True dropped_call fs_start) \<noteq> []"
  using fs_calls_exact [of "[]" True dropped_call] by (simp add: Let_def dropped_killed)

lemma closing_run: "f_closing (fs_run [] True closing_call fs_start)" "f_wg (fs_run [] True closing_call fs_start) = 1"
  by (simp_all add: closing_call_def shut_down_def fs_run_defs)

theorem shutdown_drains_witness:
  "f_wg (fs_run [] True closing_call fs_start) = 1
   \<and> (let s = fs_run [] True closing_call fs_start in f_wg (fs_run [] True (finish_all (length (f_objs s))) s) = 0)"
  using shutdown_drains [OF closing_run(1)] closing_run(2) by (simp add: Let_def)

end
