(* ===== verification/Workflow_Template.thy ===== *)
theory Workflow_Template
  imports Agent_Text
begin

text \<open>
  Templates of Dograh's prompts (\<open>internal/dograh/template.go\<close>): \<open>{{path}}\<close>, \<open>{{path | default}}\<close> and the
  built-in dates. Text is a list of code points. The two regular expressions are lists of items for a
  matcher that tries alternatives in the order of the \<open>regexp\<close> package; Unicode tables, the encoding of
  objects and the clock are parameters.
\<close>

section \<open>Values decoded from JSON\<close>

text \<open>A number is its shortest decimal text (\<open>strconv.FormatFloat(v, 'f', -1, 64)\<close>); \<open>JNull\<close> is Go's \<open>nil\<close>.\<close>

datatype json = JNull | JBool bool | JNum runes | JStr runes | JArr "json list" | JObj "(runes \<times> json) list"

record tpl_env =
  te_unicode :: unicode
  te_upper :: "rune \<Rightarrow> rune"
  te_encode :: "json \<Rightarrow> runes"
  te_clock :: "runes \<Rightarrow> (runes \<times> runes) option"

definition runes_of :: "string \<Rightarrow> runes" where
  "runes_of s = map of_char s"

definition trim_space :: "unicode \<Rightarrow> runes \<Rightarrow> runes" where
  "trim_space u s = rev (dropWhile (u_space u) (rev (dropWhile (u_space u) s)))"

fun split_dots :: "runes \<Rightarrow> runes list" where
  "split_dots [] = [[]]"
| "split_dots (c # cs) = (if c = 46 then [] # split_dots cs
     else case split_dots cs of [] \<Rightarrow> [[c]] | k # ks \<Rightarrow> (c # k) # ks)"

text \<open>A key of a decoded object has the value written last.\<close>

definition json_member :: "json \<Rightarrow> runes \<Rightarrow> json" where
  "json_member j k = (case j of JObj fs \<Rightarrow> (case map_of (rev fs) k of Some v \<Rightarrow> v | None \<Rightarrow> JNull) | _ \<Rightarrow> JNull)"

fun lookup_keys :: "json \<Rightarrow> runes list \<Rightarrow> json" where
  "lookup_keys j [] = j"
| "lookup_keys j (k # ks) = (if json_member j k = JNull then JNull else lookup_keys (json_member j k) ks)"

definition lookupPath :: "json \<Rightarrow> runes \<Rightarrow> json" where
  "lookupPath vars path = lookup_keys vars (split_dots path)"

definition formatValue :: "tpl_env \<Rightarrow> json \<Rightarrow> runes" where
  "formatValue e v = (case v of
      JNull \<Rightarrow> []
    | JStr s \<Rightarrow> s
    | JBool b \<Rightarrow> runes_of (if b then ''True'' else ''False'')
    | JNum n \<Rightarrow> n
    | _ \<Rightarrow> te_encode e v)"

fun title_loop :: "tpl_env \<Rightarrow> bool \<Rightarrow> runes \<Rightarrow> runes" where
  "title_loop e prev [] = []"
| "title_loop e prev (r # rs) =
     (if u_letter (te_unicode e) r
      then (if prev then u_lower (te_unicode e) r else te_upper e r) # title_loop e True rs
      else r # title_loop e False rs)"

definition pyTitle :: "tpl_env \<Rightarrow> runes \<Rightarrow> runes" where
  "pyTitle e s = title_loop e False s"

section \<open>Regular expressions\<close>

text \<open>\<open>Many n P\<close> is a greedy repetition of a class, at least \<open>n\<close> times; \<open>Open\<close> and \<open>Close\<close> are the ends of a group.\<close>

datatype rx = Ch rune | Many nat "rune \<Rightarrow> bool" | Open nat | Close nat | Opt "rx list"

fun rx_size :: "rx \<Rightarrow> nat" and rxs_size :: "rx list \<Rightarrow> nat" where
  "rx_size (Opt rs) = Suc (rxs_size rs)"
| "rx_size _ = Suc 0"
| "rxs_size [] = 0"
| "rxs_size (r # rs) = rx_size r + rxs_size rs"

lemma rxs_size_append [simp]: "rxs_size (rs @ rs') = rxs_size rs + rxs_size rs'"
  by (induction rs) auto

text \<open>What is left after the match, and its groups; \<open>opens\<close> has the text at which each group began.\<close>

function rx_match :: "rx list \<Rightarrow> runes \<Rightarrow> (nat \<Rightarrow> runes) \<Rightarrow> (nat \<Rightarrow> runes) \<Rightarrow> (runes \<times> (nat \<Rightarrow> runes)) option" where
  "rx_match [] s opens groups = Some (s, groups)"
| "rx_match (Ch x # rs) s opens groups =
     (case s of [] \<Rightarrow> None | y # ys \<Rightarrow> if y = x then rx_match rs ys opens groups else None)"
| "rx_match (Many n P # rs) s opens groups =
     (case s of
        [] \<Rightarrow> if n = 0 then rx_match rs s opens groups else None
      | y # ys \<Rightarrow>
          if P y then
            (case rx_match (Many (n - 1) P # rs) ys opens groups of
               Some r \<Rightarrow> Some r
             | None \<Rightarrow> if n = 0 then rx_match rs s opens groups else None)
          else if n = 0 then rx_match rs s opens groups else None)"
| "rx_match (Open g # rs) s opens groups = rx_match rs s (opens(g := s)) groups"
| "rx_match (Close g # rs) s opens groups =
     rx_match rs s opens (groups(g := take (length (opens g) - length s) (opens g)))"
| "rx_match (Opt as # rs) s opens groups =
     (case rx_match (as @ rs) s opens groups of Some r \<Rightarrow> Some r | None \<Rightarrow> rx_match rs s opens groups)"
  by pat_completeness auto

termination
  by (relation "measures [\<lambda>(rs, s, _, _). length s, \<lambda>(rs, s, _, _). rxs_size rs]") auto

definition rx_at :: "rx list \<Rightarrow> runes \<Rightarrow> (runes \<times> (nat \<Rightarrow> runes)) option" where
  "rx_at rs s = rx_match rs s (\<lambda>_. []) (\<lambda>_. [])"

definition rx_space :: "rune \<Rightarrow> bool" where
  "rx_space r \<longleftrightarrow> r \<in> {9, 10, 12, 13, 32}"

definition path_rune :: "rune \<Rightarrow> bool" where
  "path_rune r \<longleftrightarrow> r \<noteq> 124 \<and> \<not> rx_space r \<and> r \<noteq> 125"

text \<open>\<open>templateVar\<close>; \<open>{\<close> is 123, \<open>|\<close> 124, \<open>}\<close> 125 and \<open>:\<close> 58.\<close>

definition templateVar :: "rx list" where
  "templateVar = [Ch 123, Ch 123, Many 0 rx_space, Open 1, Many 1 path_rune, Close 1,
     Opt [Many 0 rx_space, Ch 124, Many 0 rx_space, Open 2, Many 1 (\<lambda>r. r \<noteq> 58 \<and> r \<noteq> 125), Close 2,
       Opt [Ch 58, Open 3, Many 1 (\<lambda>r. r \<noteq> 125), Close 3]],
     Many 0 rx_space, Ch 125, Ch 125]"

text \<open>\<open>builtinTZ\<close>, with its two alternatives.\<close>

definition builtin_prefix :: "string \<Rightarrow> rx list" where
  "builtin_prefix name = [Ch 123, Ch 123, Many 0 rx_space] @ map Ch (runes_of name) @ [Ch 95, Open 1, Many 1 path_rune, Close 1]"

fun builtinTZ :: "runes \<Rightarrow> runes option" where
  "builtinTZ s = (case rx_at (builtin_prefix ''current_time'') s of
      Some (rest, g) \<Rightarrow> Some (g 1)
    | None \<Rightarrow> (case rx_at (builtin_prefix ''current_weekday'') s of
        Some (rest, g) \<Rightarrow> Some (g 1)
      | None \<Rightarrow> (case s of [] \<Rightarrow> None | c # cs \<Rightarrow> builtinTZ cs)))"

declare builtinTZ.simps [simp del]

section \<open>Rendering\<close>

definition in_zone :: "tpl_env \<Rightarrow> runes \<Rightarrow> (runes \<times> runes) option" where
  "in_zone e zone = te_clock e (if zone = [] then runes_of ''UTC'' else zone)"

definition starts_with :: "runes \<Rightarrow> runes \<Rightarrow> bool" where
  "starts_with p s \<longleftrightarrow> take (length p) s = p"

definition builtinValue :: "tpl_env \<Rightarrow> runes \<Rightarrow> runes \<Rightarrow> runes option" where
  "builtinValue e path defaultTZ =
     (let ct = runes_of ''current_time''; cw = runes_of ''current_weekday'' in
      if path = ct then map_option fst (in_zone e defaultTZ)
      else if starts_with (ct @ [95]) path then map_option fst (in_zone e (drop (length ct + 1) path))
      else if path = cw then map_option snd (in_zone e defaultTZ)
      else if starts_with (cw @ [95]) path then map_option snd (in_zone e (drop (length cw + 1) path))
      else None)"

text \<open>The function that replaces one match, given its groups.\<close>

definition replace_var :: "tpl_env \<Rightarrow> json \<Rightarrow> runes \<Rightarrow> (nat \<Rightarrow> runes) \<Rightarrow> runes" where
  "replace_var e vars defaultTZ g =
     (let path = trim_space (te_unicode e) (g 1) in
      case builtinValue e path defaultTZ of
        Some v \<Rightarrow> v
      | None \<Rightarrow>
          let value = lookupPath vars path;
              value =
                (if g 2 \<noteq> [] \<and> (value = JNull \<or> value = JStr []) then
                   let flt = trim_space (te_unicode e) (g 2) in
                   if flt = runes_of ''fallback''
                   then JStr (if g 3 \<noteq> [] then trim_space (te_unicode e) (g 3) else pyTitle e path)
                   else JStr flt
                 else value)
          in formatValue e value)"

text \<open>\<open>ReplaceAllStringFunc\<close>: leftmost matches, one after the other. What replaces a match is not looked at again.\<close>

function replace_all :: "rx list \<Rightarrow> ((nat \<Rightarrow> runes) \<Rightarrow> runes) \<Rightarrow> runes \<Rightarrow> runes" where
  "replace_all rs f [] = []"
| "replace_all rs f (c # cs) =
     (case rx_at rs (c # cs) of
        Some (rest, g) \<Rightarrow> if length rest < length (c # cs) then f g @ replace_all rs f rest else c # replace_all rs f cs
      | None \<Rightarrow> c # replace_all rs f cs)"
  by pat_completeness auto

termination
  by (relation "measure (\<lambda>(rs, f, s). length s)") auto

text \<open>\<open>strings.ReplaceAll(out, `\n`, "\n")\<close>.\<close>

fun newlines :: "runes \<Rightarrow> runes" where
  "newlines (c # d # s) = (if c = 92 \<and> d = 110 then 10 # newlines s else c # newlines (d # s))"
| "newlines s = s"

definition defaultTZ_of :: "tpl_env \<Rightarrow> runes \<Rightarrow> runes" where
  "defaultTZ_of e s = (case builtinTZ s of None \<Rightarrow> [] | Some z \<Rightarrow> trim_space (te_unicode e) z)"

definition renderTemplate :: "tpl_env \<Rightarrow> json \<Rightarrow> runes \<Rightarrow> runes" where
  "renderTemplate e vars s =
     (if s = [] then s else newlines (replace_all templateVar (replace_var e vars (defaultTZ_of e s)) s))"

end
