(* ===== verification/Workflow_Build.thy ===== *)
theory Workflow_Build
  imports Workflow_Template Turn_State
begin

text \<open>
  From Dograh's workflow to the agent's nodes (\<open>internal/dograh/workflow.go\<close>, \<open>tools.go\<close>, the choice of recordings
  in \<open>recordings.go\<close> and credentials in \<open>httptool.go\<close>). What \<open>encoding/json\<close> decodes is given as records; a
  definition that does not decode is \<open>None\<close>. Nodes are numbered in the order of the workflow; a
  recorded clip is its transcript, as in \<open>Turn_State\<close>. Durations are nanoseconds.
\<close>

section \<open>Tools\<close>

record tool_config =
  tg_MessageType :: string
  tg_CustomMessage :: runes
  tg_AudioRecordingID :: int
  tg_Destination :: string
  tg_Timeout :: "int option"
  tg_CustomMessageType :: string
  tg_CustomMessageRecordingID :: int
  tg_Method :: string
  tg_URL :: string
  tg_Headers :: "string \<rightharpoonup> string"
  tg_CredentialUUID :: string
  tg_TimeoutMS :: "int option"

text \<open>\<open>cr_Data\<close> is the decoded credential data; \<open>None\<close> when it does not decode.\<close>

record credential =
  cr_Type :: string
  cr_Data :: "(string \<rightharpoonup> string) option"

record tool_row =
  tr_UUID :: string
  tr_Name :: runes
  tr_Category :: string
  tr_Config :: "tool_config option"
  tr_Credential :: "credential option"

datatype tool_error = BadDefinition | NoDestination | NoURL | Unsupported

datatype tool_warning = MessageUnavailable | CredentialMissing | CredentialBad

definition lower_letter :: "rune \<Rightarrow> bool" where
  "lower_letter r \<longleftrightarrow> 97 \<le> r \<and> r \<le> 122 \<or> 48 \<le> r \<and> r \<le> 57"

text \<open>\<open>underscores.ReplaceAllString(s, "_")\<close>.\<close>

fun collapse :: "string \<Rightarrow> string" where
  "collapse (a # b # s) = (if a = CHR ''_'' \<and> b = CHR ''_'' then collapse (b # s) else a # collapse (b # s))"
| "collapse s = s"

definition trim_char :: "char \<Rightarrow> string \<Rightarrow> string" where
  "trim_char c s = rev (dropWhile (\<lambda>x. x = c) (rev (dropWhile (\<lambda>x. x = c) s)))"

definition FunctionName :: "unicode \<Rightarrow> runes \<Rightarrow> string" where
  "FunctionName u name = trim_char (CHR ''_'') (collapse (map (\<lambda>r. let l = u_lower u r in
     if lower_letter l \<or> l = 95 then char_of l else CHR ''_'') name))"

definition EdgeFunctionName :: "unicode \<Rightarrow> runes \<Rightarrow> string" where
  "EdgeFunctionName u label = map (\<lambda>r. let l = u_lower u r in if lower_letter l then char_of l else CHR ''_'') label"

definition blank_string :: "string \<Rightarrow> bool" where
  "blank_string s \<longleftrightarrow> list_all (\<lambda>c. of_char c \<in> {9, 10, 11, 12, 13, 32 :: nat}) s"

text \<open>\<open>authHeader\<close>: the header of a credential; base64 is a parameter. \<open>None\<close> on the left is unreadable data.\<close>

definition dict_get :: "(string \<rightharpoonup> string) \<Rightarrow> string \<Rightarrow> string \<Rightarrow> string" where
  "dict_get d k dflt = (case d k of Some v \<Rightarrow> v | None \<Rightarrow> dflt)"

definition authHeader :: "(string \<Rightarrow> string) \<Rightarrow> credential \<Rightarrow> (string \<times> string) option option" where
  "authHeader base64 c = (case cr_Data c of
      None \<Rightarrow> None
    | Some d \<Rightarrow> Some (
        if cr_Type c = ''bearer_token'' then Some (''Authorization'', ''Bearer '' @ dict_get d ''token'' [])
        else if cr_Type c = ''api_key'' then Some (dict_get d ''header_name'' ''X-API-Key'', dict_get d ''api_key'' [])
        else if cr_Type c = ''basic_auth'' then
          Some (''Authorization'', ''Basic '' @ base64 (dict_get d ''username'' [] @ '':'' @ dict_get d ''password'' []))
        else if cr_Type c = ''custom_header'' then Some (dict_get d ''header_name'' ''X-Custom'', dict_get d ''header_value'' [])
        else None))"

record http_tool =
  ht_method :: string
  ht_url :: string
  ht_headers :: "string \<rightharpoonup> string"
  ht_timeout :: int

text \<open>\<open>clipSet\<close>.\<close>

record clip_set =
  cs_byPK :: "int \<rightharpoonup> runes"
  cs_byID :: "runes \<rightharpoonup> runes"
  cs_HasAny :: bool

definition ascii_upper :: "string \<Rightarrow> string" where
  "ascii_upper s = map (\<lambda>c. let n = of_char c :: nat in if 97 \<le> n \<and> n \<le> 122 then char_of (n - 32) else c) s"

text \<open>\<open>buildHTTPTool\<close>: the tool, its request and the warnings.\<close>

definition http_request :: "(string \<Rightarrow> string) \<Rightarrow> tool_row \<Rightarrow> tool_config \<Rightarrow> http_tool" where
  "http_request base64 r cfg =
     \<lparr>ht_method = (if tg_Method cfg = [] then ''POST'' else ascii_upper (tg_Method cfg)), ht_url = tg_URL cfg,
      ht_headers = (if tg_CredentialUUID cfg = [] then tg_Headers cfg
        else case Option.bind (tr_Credential r) (authHeader base64) of
            Some (Some (name, v)) \<Rightarrow> (tg_Headers cfg)(name \<mapsto> v)
          | _ \<Rightarrow> tg_Headers cfg),
      ht_timeout = (case tg_TimeoutMS cfg of Some t \<Rightarrow> if t > 0 then t else 5000000000 | None \<Rightarrow> 5000000000)\<rparr>"

definition buildHTTPTool :: "(string \<Rightarrow> string) \<Rightarrow> tool_row \<Rightarrow> tool_config \<Rightarrow> tool \<Rightarrow> clip_set \<Rightarrow> tool_error + tool \<times> tool_warning list" where
  "buildHTTPTool base64 r cfg t clips =
     (if blank_string (tg_URL cfg) then Inl NoURL
      else
        let w = (if tg_CredentialUUID cfg = [] then []
                 else case tr_Credential r of
                     None \<Rightarrow> [CredentialMissing]
                   | Some c \<Rightarrow> (case authHeader base64 c of None \<Rightarrow> [CredentialBad] | Some h \<Rightarrow> []));
            audio = (tg_CustomMessageType cfg = ''audio'');
            clip = (if audio then cs_byPK clips (tg_CustomMessageRecordingID cfg) else None)
        in Inr (t\<lparr>tl_message := if audio then [] else tg_CustomMessage cfg, tl_messageClip := clip,
                  tl_kind := ToolFunction, tl_hasRun := True\<rparr>,
                w @ (if audio \<and> clip = None then [MessageUnavailable] else [])))"

definition buildTool :: "unicode \<Rightarrow> (string \<Rightarrow> string) \<Rightarrow> tool_row \<Rightarrow> clip_set \<Rightarrow> tool_error + tool \<times> tool_warning list" where
  "buildTool u base64 r clips = (case tr_Config r of
      None \<Rightarrow> Inl BadDefinition
    | Some cfg \<Rightarrow>
        let clip = (if tg_MessageType cfg = ''audio'' then cs_byPK clips (tg_AudioRecordingID cfg) else None);
            t = \<lparr>tl_name = FunctionName u (tr_Name r), tl_kind = ToolFunction,
                 tl_message = if tg_MessageType cfg = ''custom'' then tg_CustomMessage cfg else [],
                 tl_messageClip = clip, tl_hasRun = False, tl_destination = [], tl_timeout = 0\<rparr>;
            w = (if tg_MessageType cfg = ''audio'' \<and> clip = None \<and> tr_Category r \<noteq> ''http_api'' then [MessageUnavailable] else [])
        in if tr_Category r = ''end_call'' then Inr (t\<lparr>tl_kind := ToolEndCall\<rparr>, w)
           else if tr_Category r = ''transfer_call'' then
             (if blank_string (tg_Destination cfg) then Inl NoDestination
              else Inr (t\<lparr>tl_kind := ToolTransfer, tl_destination := tg_Destination cfg,
                     tl_timeout := case tg_Timeout cfg of Some d \<Rightarrow> if d > 0 then d else 0 | None \<Rightarrow> 0\<rparr>, w))
           else if tr_Category r = ''http_api'' then buildHTTPTool base64 r cfg t clips
           else Inl Unsupported)"

text \<open>\<open>toolClipRef\<close>; 0 is none.\<close>

definition toolClipRef :: "tool_row \<Rightarrow> int" where
  "toolClipRef r = (case tr_Config r of
      None \<Rightarrow> 0
    | Some cfg \<Rightarrow>
        if tr_Category r = ''http_api'' then
          (if tg_CustomMessageType cfg = ''audio'' then tg_CustomMessageRecordingID cfg else 0)
        else if tg_MessageType cfg = ''audio'' then tg_AudioRecordingID cfg else 0)"

section \<open>The workflow\<close>

record node_json =
  nj_ID :: string
  nj_Type :: string
  nj_Name :: runes
  nj_Prompt :: runes
  nj_IsStart :: bool
  nj_IsEnd :: bool
  nj_AllowInterrupt :: bool
  nj_AddGlobalPrompt :: "bool option"
  nj_Greeting :: runes
  nj_GreetingType :: string
  nj_ToolUUIDs :: "string list"
  nj_GreetingRecordingID :: int
  nj_ExtractionEnabled :: bool
  nj_ExtractionPrompt :: runes
  nj_ExtractionVariables :: "(runes \<times> string \<times> runes option) list"

record edge_json =
  ej_Source :: string
  ej_Target :: string
  ej_Label :: runes
  ej_Speech :: runes
  ej_SpeechType :: string
  ej_SpeechRecordingID :: int

record workflow_json =
  wj_Nodes :: "node_json list"
  wj_Edges :: "edge_json list"

definition toolUUIDs :: "workflow_json \<Rightarrow> string list" where
  "toolUUIDs flow = rev (remdups (rev (concat (map nj_ToolUUIDs (wj_Nodes flow)))))"

text \<open>\<open>strings.Contains\<close> and \<open>promptRecordingRef\<close>.\<close>

fun contains :: "runes \<Rightarrow> runes \<Rightarrow> bool" where
  "contains sub [] = (sub = [])"
| "contains sub (c # s) = (starts_with sub (c # s) \<or> contains sub s)"

definition promptRecordingRef :: runes where
  "promptRecordingRef = runes_of ''RECORDING_ID:''"

definition recordingInstructions :: runes where
  "recordingInstructions =
     runes_of ''RESPONSE MODE INSTRUCTIONS - MANDATORY FORMAT:'' @
     [10] @ runes_of ''Every response you generate MUST begin with excatcly one response mode indicator.'' @
     [10] @ runes_of ''You have two modes for responding:'' @
     [10] @
     [10] @ runes_of ''1. DYNAMIC SPEECH ('' @ [0x25B8] @ runes_of ''): Generate text that will be converted to speech by TTS.'' @
     [10] @ runes_of ''   Format: '' @ [0x25B8] @ runes_of '' followed by a space and your full spoken response. Nothing else.'' @
     [10] @ runes_of ''   Example: '' @ [0x25B8] @ runes_of '' Hello! How can I help you today?'' @
     [10] @
     [10] @ runes_of ''2. PRE-RECORDED AUDIO ('' @ [0x25CF] @ runes_of ''): Play a pre-recorded audio message.'' @
     [10] @ runes_of ''   Format: '' @ [0x25CF] @ runes_of '' followed by a space followed by recording_id followed by provided transcript. Nothing else.'' @
     [10] @ runes_of ''   Example: '' @ [0x25CF] @ runes_of '' rec_greeting_01 [ Provided Transcript ]'' @
     [10] @
     [10] @ runes_of ''RULES:'' @
     [10] @ runes_of ''- Your response MUST start with either '' @ [0x25B8] @ runes_of '' or '' @ [0x25CF] @ runes_of '' as the very first character.'' @
     [10] @ runes_of ''- For '' @ [0x25B8] @ runes_of '' (dynamic speech): Follow with a space and your response to be generated using TTS engine. Dont mix with '' @ [0x25CF] @
     [10] @ runes_of ''- For '' @ [0x25CF] @ runes_of '' (pre-recorded audio): Follow with a space and recording_id of the audio clip with its transcript. Dont mix with '' @ [0x25B8] @
     [10] @ runes_of ''- Use '' @ [0x25CF] @ runes_of '' when a pre-recorded message matches the situation well.'' @
     [10] @ runes_of ''- Use '' @ [0x25B8] @ runes_of '' when you need to generate a dynamic, contextual response.'' @
     [10] @ runes_of ''- *NEVER* mix modes in a single response, since we rely on the markers to decide whether to play using TTS or Pre-recorded audio.''"

definition recordingNeeds :: "workflow_json \<Rightarrow> tool_row list \<Rightarrow> int set \<times> bool" where
  "recordingNeeds flow tools =
     (set (filter (\<lambda>pk. pk > 0)
        (map nj_GreetingRecordingID (filter (\<lambda>n. nj_IsStart n \<and> nj_GreetingType n = ''audio'') (wj_Nodes flow))
         @ map ej_SpeechRecordingID (filter (\<lambda>e. ej_SpeechType e = ''audio'') (wj_Edges flow))
         @ map toolClipRef tools)),
      list_ex (\<lambda>n. contains promptRecordingRef (nj_Prompt n)) (wj_Nodes flow))"

record recording_row =
  rr_ID :: int
  rr_RecordingID :: runes
  rr_Transcript :: runes

text \<open>\<open>loadClips\<close>: \<open>rows\<close> is the answer of the database, \<open>get\<close> says which recordings could be loaded, \<open>cache\<close> that there
  is a storage. Recordings that are not needed are left out.\<close>

fun add_clips :: "(recording_row \<Rightarrow> bool) \<Rightarrow> (int \<Rightarrow> bool) \<Rightarrow> recording_row list \<Rightarrow> clip_set \<Rightarrow> clip_set" where
  "add_clips get needed [] cs = cs"
| "add_clips get needed (r # rs) cs =
     add_clips get needed rs
       (if needed (rr_ID r) \<and> get r
        then cs\<lparr>cs_byPK := (cs_byPK cs)(rr_ID r \<mapsto> rr_Transcript r), cs_byID := (cs_byID cs)(rr_RecordingID r \<mapsto> rr_Transcript r)\<rparr>
        else cs)"

definition no_clips :: clip_set where
  "no_clips = \<lparr>cs_byPK = Map.empty, cs_byID = Map.empty, cs_HasAny = False\<rparr>"

definition loadClips :: "bool \<Rightarrow> recording_row list option \<Rightarrow> bool \<Rightarrow> (recording_row \<Rightarrow> bool) \<Rightarrow> int set \<Rightarrow> bool \<Rightarrow> clip_set" where
  "loadClips org rows cache get pks allByID =
     (if \<not> org \<or> (pks = {} \<and> \<not> allByID) then no_clips
      else case rows of
          None \<Rightarrow> no_clips
        | Some rs \<Rightarrow>
            let cs = no_clips\<lparr>cs_HasAny := rs \<noteq> []\<rparr>
            in if \<not> cache then cs else add_clips get (\<lambda>pk. pk \<in> pks \<or> allByID) rs cs)"

section \<open>Building the nodes\<close>

datatype build_warning = ToolSkipped string tool_error | ToolWarns string "tool_warning list" | ToolMissing runes string
  | GreetingUnavailable | EdgeShadowsTool runes runes string | TransitionUnavailable runes

datatype build_error = TwoStarts | NoStart | UnknownNode runes

record built_node = node +
  bn_ID :: string
  bn_Name :: runes
  bn_Extraction :: "(runes \<times> (runes \<times> string \<times> runes option) list) option"

fun build_tools :: "unicode \<Rightarrow> (string \<Rightarrow> string) \<Rightarrow> clip_set \<Rightarrow> tool_row list \<Rightarrow> (string \<rightharpoonup> tool) \<Rightarrow> (string \<rightharpoonup> tool) \<times> build_warning list" where
  "build_tools u base64 clips [] m = (m, [])"
| "build_tools u base64 clips (r # rs) m = (case buildTool u base64 r clips of
      Inl e \<Rightarrow> (let (m, ws) = build_tools u base64 clips rs m in (m, ToolSkipped (tr_UUID r) e # ws))
    | Inr (t, w) \<Rightarrow>
        (let (m, ws) = build_tools u base64 clips rs (m(tr_UUID r \<mapsto> t))
         in (m, (if w = [] then [] else [ToolWarns (tr_UUID r) w]) @ ws)))"

definition hasRow :: "tool_row list \<Rightarrow> string \<Rightarrow> bool" where
  "hasRow rows uuid \<longleftrightarrow> list_ex (\<lambda>r. tr_UUID r = uuid) rows"

fun joined :: "runes list \<Rightarrow> runes" where
  "joined [] = []"
| "joined [p] = p"
| "joined (p # ps) = p @ [10, 10] @ joined ps"

definition globalPrompt :: "(runes \<Rightarrow> runes) \<Rightarrow> node_json list \<Rightarrow> runes" where
  "globalPrompt render ns = fold (\<lambda>n p. if nj_Type n = ''globalNode'' then render (nj_Prompt n) else p) ns []"

text \<open>The node without its edges.\<close>

definition build_node :: "(runes \<Rightarrow> runes) \<Rightarrow> (string \<rightharpoonup> tool) \<Rightarrow> clip_set \<Rightarrow> runes \<Rightarrow> node_json \<Rightarrow> built_node" where
  "build_node render byUUID clips global n =
     (let p = render (nj_Prompt n);
          recorded = (cs_HasAny clips \<and> contains promptRecordingRef p);
          parts = (if global \<noteq> [] \<and> nj_AddGlobalPrompt n \<noteq> Some False then [global] else [])
            @ (if p \<noteq> [] then [p] else []) @ (if recorded then [recordingInstructions] else []);
          x = (if nj_ExtractionEnabled n \<and> nj_ExtractionVariables n \<noteq> []
               then Some (render (nj_ExtractionPrompt n),
                 map (\<lambda>(name, ty, q). (name, ty, map_option (\<lambda>q. if q = [] then q else render q) q)) (nj_ExtractionVariables n))
               else None)
      in \<lparr>nd_prompt = joined parts,
          nd_greeting = if nj_IsStart n \<and> nj_GreetingType n \<noteq> ''audio'' \<and> nj_Greeting n \<noteq> [] then render (nj_Greeting n) else [],
          nd_greetingClip = if nj_IsStart n \<and> nj_GreetingType n = ''audio'' then cs_byPK clips (nj_GreetingRecordingID n) else None,
          nd_clips = if recorded then Some (cs_byID clips) else None,
          nd_end = nj_IsEnd n, nd_allowInterrupt = nj_AllowInterrupt n, nd_extracts = x \<noteq> None,
          nd_tools = somes (map byUUID (nj_ToolUUIDs n)), nd_edges = [],
          bn_ID = nj_ID n, bn_Name = nj_Name n, bn_Extraction = x\<rparr>)"

definition node_warnings :: "(string \<rightharpoonup> tool) \<Rightarrow> tool_row list \<Rightarrow> clip_set \<Rightarrow> node_json \<Rightarrow> build_warning list" where
  "node_warnings byUUID tools clips n =
     concat (map (\<lambda>u. if byUUID u = None \<and> \<not> hasRow tools u then [ToolMissing (nj_Name n) u] else []) (nj_ToolUUIDs n))
     @ (if nj_IsStart n \<and> nj_GreetingType n = ''audio'' \<and> cs_byPK clips (nj_GreetingRecordingID n) = None then [GreetingUnavailable] else [])"

text \<open>The loop over the nodes: the nodes, the number each id stands for, the start, the warnings.\<close>

record build_state =
  bs_nodes :: "built_node list"
  bs_ids :: "string \<rightharpoonup> nat"
  bs_start :: "nat option"
  bs_warnings :: "build_warning list"

fun build_nodes :: "(node_json \<Rightarrow> built_node) \<Rightarrow> (node_json \<Rightarrow> build_warning list) \<Rightarrow> node_json list \<Rightarrow> build_state \<Rightarrow> build_error + build_state" where
  "build_nodes mk warn [] s = Inr s"
| "build_nodes mk warn (n # ns) s =
     (if nj_Type n = ''globalNode'' then build_nodes mk warn ns s
      else if nj_IsStart n \<and> bs_start s \<noteq> None then Inl TwoStarts
      else build_nodes mk warn ns
        \<lparr>bs_nodes = bs_nodes s @ [mk n], bs_ids = (bs_ids s)(nj_ID n \<mapsto> length (bs_nodes s)),
         bs_start = if nj_IsStart n then Some (length (bs_nodes s)) else bs_start s, bs_warnings = bs_warnings s @ warn n\<rparr>)"

definition build_edge :: "unicode \<Rightarrow> (runes \<Rightarrow> runes) \<Rightarrow> clip_set \<Rightarrow> nat \<Rightarrow> edge_json \<Rightarrow> edge" where
  "build_edge u render clips dest e =
     \<lparr>eg_name = EdgeFunctionName u (ej_Label e),
      eg_speech = if ej_SpeechType e = ''audio'' then [] else render (ej_Speech e),
      eg_speechClip = if ej_SpeechType e = ''audio'' then cs_byPK clips (ej_SpeechRecordingID e) else None,
      eg_to = dest\<rparr>"

definition edge_warnings :: "unicode \<Rightarrow> clip_set \<Rightarrow> built_node \<Rightarrow> edge_json \<Rightarrow> build_warning list" where
  "edge_warnings u clips src e =
     (let name = EdgeFunctionName u (ej_Label e) in
      map (\<lambda>t. EdgeShadowsTool (bn_Name src) (ej_Label e) name) (filter (\<lambda>t. tl_name t = name) (nd_tools src))
      @ (if ej_SpeechType e = ''audio'' \<and> cs_byPK clips (ej_SpeechRecordingID e) = None then [TransitionUnavailable (ej_Label e)] else []))"

fun build_edges :: "unicode \<Rightarrow> (runes \<Rightarrow> runes) \<Rightarrow> clip_set \<Rightarrow> edge_json list \<Rightarrow> build_state \<Rightarrow> build_error + build_state" where
  "build_edges u render clips [] s = Inr s"
| "build_edges u render clips (e # es) s = (case (bs_ids s (ej_Source e), bs_ids s (ej_Target e)) of
      (Some i, Some j) \<Rightarrow>
        let src = bs_nodes s ! i
        in build_edges u render clips es
             (s\<lparr>bs_nodes := (bs_nodes s)[i := src\<lparr>nd_edges := nd_edges src @ [build_edge u render clips j e]\<rparr>],
                bs_warnings := bs_warnings s @ edge_warnings u clips src e\<rparr>)
    | _ \<Rightarrow> Inl (UnknownNode (ej_Label e)))"

definition buildWorkflow :: "unicode \<Rightarrow> (string \<Rightarrow> string) \<Rightarrow> (runes \<Rightarrow> runes) \<Rightarrow> workflow_json \<Rightarrow> tool_row list \<Rightarrow> clip_set
    \<Rightarrow> build_error + nat \<times> built_node list \<times> build_warning list" where
  "buildWorkflow u base64 render flow tools clips =
     (let (byUUID, ws) = build_tools u base64 clips tools Map.empty;
          global = globalPrompt render (wj_Nodes flow)
      in case build_nodes (build_node render byUUID clips global) (node_warnings byUUID tools clips) (wj_Nodes flow)
           \<lparr>bs_nodes = [], bs_ids = Map.empty, bs_start = None, bs_warnings = ws\<rparr> of
           Inl e \<Rightarrow> Inl e
         | Inr s \<Rightarrow> (case bs_start s of
             None \<Rightarrow> Inl NoStart
           | Some i \<Rightarrow> (case build_edges u render clips (wj_Edges flow) s of
               Inl e \<Rightarrow> Inl e
             | Inr s \<Rightarrow> Inr (i, bs_nodes s, bs_warnings s))))"

text \<open>A call's workflow, from \<open>Store.Workflow\<close>: the recordings it needs are chosen, loaded, and the nodes built.\<close>

definition call_workflow :: "tpl_env \<Rightarrow> (string \<Rightarrow> string) \<Rightarrow> json \<Rightarrow> workflow_json \<Rightarrow> tool_row list \<Rightarrow> bool \<Rightarrow> recording_row list option
    \<Rightarrow> bool \<Rightarrow> (recording_row \<Rightarrow> bool) \<Rightarrow> build_error + nat \<times> built_node list \<times> build_warning list" where
  "call_workflow e base64 vars flow tools org rows cache get =
     (let (pks, byID) = recordingNeeds flow tools
      in buildWorkflow (te_unicode e) base64 (renderTemplate e vars) flow tools (loadClips org rows cache get pks byID))"

end
