(* ===== verification/Template_Claims.thy ===== *)
theory Template_Claims
  imports Workflow_Template
begin

text \<open>
  What rendering does to a template that is written as text and variables: every variable is replaced by
  its value, once, and everything else stays as it is.
\<close>

section \<open>The matcher on a variable\<close>

lemma many_run:
  assumes "\<forall>c \<in> set p. P c" "n \<le> length p" "s = [] \<or> \<not> P (hd s)" "rx_match rs s op gr = Some r"
  shows "rx_match (Many n P # rs) (p @ s) op gr = Some r"
  using assms(1,2)
proof (induction p arbitrary: n)
  case Nil
  then show ?case using assms(3,4) by (cases s) auto
next
  case (Cons c p)
  then show ?case by simp
qed

lemma many_stuck: "s = [] \<or> \<not> P (hd s) \<Longrightarrow> n > 0 \<Longrightarrow> rx_match (Many n P # rs) s op gr = None"
  by (cases s) auto

lemma many_none:
  "s = [] \<or> \<not> P (hd s) \<Longrightarrow> rx_match (Many 0 P # rs) s op gr = rx_match rs s op gr"
  by (cases s) auto

text \<open>Templates as text without an opening brace, \<open>{{path}}\<close> and \<open>{{path | default}}\<close>.\<close>

datatype segment = Plain runes | Var runes | VarOr runes runes

definition good_path :: "runes \<Rightarrow> bool" where
  "good_path p \<longleftrightarrow> p \<noteq> [] \<and> (\<forall>c \<in> set p. path_rune c \<and> c \<noteq> 123)"

definition good_default :: "runes \<Rightarrow> bool" where
  "good_default d \<longleftrightarrow> d \<noteq> [] \<and> \<not> rx_space (hd d) \<and> (\<forall>c \<in> set d. c \<noteq> 58 \<and> c \<noteq> 125)"

fun good_segment :: "segment \<Rightarrow> bool" where
  "good_segment (Plain t) = (123 \<notin> set t)"
| "good_segment (Var p) = good_path p"
| "good_segment (VarOr p d) = (good_path p \<and> good_default d)"

fun write_segment :: "segment \<Rightarrow> runes" where
  "write_segment (Plain t) = t"
| "write_segment (Var p) = [123, 123] @ p @ [125, 125]"
| "write_segment (VarOr p d) = [123, 123] @ p @ [32, 124, 32] @ d @ [125, 125]"

definition path_value :: "tpl_env \<Rightarrow> json \<Rightarrow> runes \<Rightarrow> runes \<Rightarrow> json" where
  "path_value e vars tz p =
     (let path = trim_space (te_unicode e) p
      in case builtinValue e path tz of Some v \<Rightarrow> JStr v | None \<Rightarrow> lookupPath vars path)"

text \<open>What a segment stands for.\<close>

fun segment_value :: "tpl_env \<Rightarrow> json \<Rightarrow> runes \<Rightarrow> segment \<Rightarrow> runes" where
  "segment_value e vars tz (Plain t) = t"
| "segment_value e vars tz (Var p) = formatValue e (path_value e vars tz p)"
| "segment_value e vars tz (VarOr p d) =
     (let path = trim_space (te_unicode e) p; value = path_value e vars tz p; d = trim_space (te_unicode e) d in
      if builtinValue e path tz = None \<and> (value = JNull \<or> value = JStr [])
      then (if d = runes_of ''fallback'' then pyTitle e path else d)
      else formatValue e value)"

lemma path_start: "good_path p \<Longrightarrow> \<exists>c cs. p = c # cs \<and> \<not> rx_space c \<and> path_rune c"
  by (cases p) (auto simp: good_path_def path_rune_def)

lemma brackets: "\<not> path_rune 125" "\<not> rx_space 125" "\<not> path_rune 32" "rx_space 32" "\<not> rx_space 124" "\<not> path_rune 124"
  by (simp_all add: path_rune_def rx_space_def)

lemma match_var:
  assumes "good_path p"
  shows "\<exists>g. rx_at templateVar (write_segment (Var p) @ rest) = Some (rest, g) \<and> g 1 = p \<and> g 2 = [] \<and> g 3 = []"
proof -
  have path: "\<forall>c \<in> set p. path_rune c" "1 \<le> length p" using assms by (auto simp: good_path_def Suc_le_eq)
  obtain c cs where p: "p = c # cs" "\<not> rx_space c" using path_start [OF assms] by blast
  let ?stop = "[125, 125] @ rest"
  let ?rest = "[Close 1,
     Opt [Many 0 rx_space, Ch 124, Many 0 rx_space, Open 2, Many 1 (\<lambda>r. r \<noteq> 58 \<and> r \<noteq> 125), Close 2,
       Opt [Ch 58, Open 3, Many 1 (\<lambda>r. r \<noteq> 125), Close 3]],
     Many 0 rx_space, Ch 125, Ch 125]"
  let ?op = "(\<lambda>_. [])(1 := p @ ?stop)"
  have "rx_match ?rest ?stop ?op (\<lambda>_. []) = Some (rest, (\<lambda>_. [])(1 := p))"
    using brackets by simp
  then have "rx_match (Many 1 path_rune # ?rest) (p @ ?stop) ?op (\<lambda>_. []) = Some (rest, (\<lambda>_. [])(1 := p))"
    using many_run [OF path] brackets(1) by simp
  then have "rx_at templateVar (write_segment (Var p) @ rest) = Some (rest, (\<lambda>_. [])(1 := p))"
    using p by (simp add: rx_at_def templateVar_def)
  then show ?thesis by simp
qed

lemma match_default:
  assumes "good_path p" "good_default d"
  shows "\<exists>g. rx_at templateVar (write_segment (VarOr p d) @ rest) = Some (rest, g) \<and> g 1 = p \<and> g 2 = d \<and> g 3 = []"
proof -
  have path: "\<forall>c \<in> set p. path_rune c" "1 \<le> length p" using assms by (auto simp: good_path_def Suc_le_eq)
  have dflt: "\<forall>c \<in> set d. c \<noteq> 58 \<and> c \<noteq> 125" "1 \<le> length d" using assms by (auto simp: good_default_def Suc_le_eq)
  obtain c cs where p: "p = c # cs" "\<not> rx_space c" using path_start [OF assms(1)] by blast
  obtain a as where d: "d = a # as" "\<not> rx_space a" using assms(2) by (cases d) (auto simp: good_default_def)
  let ?stop = "[125, 125] @ rest"
  let ?mid = "[32, 124, 32] @ d @ ?stop"
  let ?tail = "[Close 2, Opt [Ch 58, Open 3, Many 1 (\<lambda>r. r \<noteq> 125), Close 3], Many 0 rx_space, Ch 125, Ch 125]"
  let ?op1 = "(\<lambda>_. [])(1 := p @ ?mid)" and ?gr1 = "(\<lambda>_. [])(1 := p)"
  let ?op2 = "?op1(2 := d @ ?stop)" and ?gr2 = "?gr1(2 := d)"
  have "rx_match ?tail ?stop ?op2 ?gr1 = Some (rest, ?gr2)" using brackets by simp
  then have two: "rx_match (Many 1 (\<lambda>r. r \<noteq> 58 \<and> r \<noteq> 125) # ?tail) (d @ ?stop) ?op2 ?gr1 = Some (rest, ?gr2)"
    using many_run [OF dflt] by simp
  have "rx_match (Close 1 # Opt ([Many 0 rx_space, Ch 124, Many 0 rx_space, Open 2, Many 1 (\<lambda>r. r \<noteq> 58 \<and> r \<noteq> 125), Close 2,
       Opt [Ch 58, Open 3, Many 1 (\<lambda>r. r \<noteq> 125), Close 3]]) # [Many 0 rx_space, Ch 125, Ch 125]) ?mid ?op1 (\<lambda>_. [])
      = Some (rest, ?gr2)"
    using two d brackets by simp
  then have "rx_match (Many 1 path_rune # Close 1 # Opt ([Many 0 rx_space, Ch 124, Many 0 rx_space, Open 2, Many 1 (\<lambda>r. r \<noteq> 58 \<and> r \<noteq> 125), Close 2,
       Opt [Ch 58, Open 3, Many 1 (\<lambda>r. r \<noteq> 125), Close 3]]) # [Many 0 rx_space, Ch 125, Ch 125]) (p @ ?mid) ?op1 (\<lambda>_. [])
      = Some (rest, ?gr2)"
    using many_run [OF path] brackets(3) by simp
  then have "rx_at templateVar (write_segment (VarOr p d) @ rest) = Some (rest, ?gr2)"
    using p by (simp add: rx_at_def templateVar_def)
  then show ?thesis by simp
qed

lemma no_match: "c \<noteq> 123 \<Longrightarrow> rx_at templateVar (c # cs) = None"
  by (simp add: rx_at_def templateVar_def)

lemma replace_text: "123 \<notin> set t \<Longrightarrow> replace_all templateVar f (t @ s) = t @ replace_all templateVar f s"
  by (induction t) (auto simp: no_match)

lemma replace_one:
  assumes "rx_at templateVar (w @ s) = Some (s, g)" "w \<noteq> []"
  shows "replace_all templateVar f (w @ s) = f g @ replace_all templateVar f s"
  using assms by (cases w) simp_all

lemma value_of_match:
  assumes "g 1 = p" "g 2 = []"
  shows "replace_var e vars tz g = segment_value e vars tz (Var p)"
  using assms by (simp add: replace_var_def path_value_def formatValue_def Let_def split: option.split)

lemma value_of_default:
  assumes "g 1 = p" "g 2 = d" "g 3 = []" "d \<noteq> []"
  shows "replace_var e vars tz g = segment_value e vars tz (VarOr p d)"
  using assms by (simp add: replace_var_def path_value_def formatValue_def Let_def split: option.split)

lemma segments_replaced:
  "\<forall>x \<in> set segs. good_segment x \<Longrightarrow>
     replace_all templateVar (replace_var e vars tz) (concat (map write_segment segs)) = concat (map (segment_value e vars tz) segs)"
proof (induction segs)
  case (Cons x segs)
  let ?rest = "concat (map write_segment segs)"
  have ih: "replace_all templateVar (replace_var e vars tz) ?rest = concat (map (segment_value e vars tz) segs)"
    using Cons by simp
  show ?case
  proof (cases x)
    case (Plain t)
    then show ?thesis using replace_text Cons.prems ih by simp
  next
    case (Var p)
    then obtain g where g: "rx_at templateVar (write_segment (Var p) @ ?rest) = Some (?rest, g)" "g 1 = p" "g 2 = []"
      using match_var Cons.prems by fastforce
    have "replace_all templateVar (replace_var e vars tz) (write_segment (Var p) @ ?rest) = replace_var e vars tz g @ concat (map (segment_value e vars tz) segs)"
      using replace_one [OF g(1)] ih by simp
    then show ?thesis using Var value_of_match [OF g(2,3)] by simp
  next
    case (VarOr p d)
    then obtain g where g: "rx_at templateVar (write_segment (VarOr p d) @ ?rest) = Some (?rest, g)" "g 1 = p" "g 2 = d" "g 3 = []"
      using match_default Cons.prems by fastforce
    have d: "d \<noteq> []" using Cons.prems VarOr by (simp add: good_default_def)
    have "replace_all templateVar (replace_var e vars tz) (write_segment (VarOr p d) @ ?rest) = replace_var e vars tz g @ concat (map (segment_value e vars tz) segs)"
      using replace_one [OF g(1)] ih by simp
    then show ?thesis using VarOr value_of_default [OF g(2-4) d] by simp
  qed
qed simp

section \<open>The property\<close>

text \<open>C15: A prompt is rendered piece by piece: the text between variables is kept, \<open>{{path}}\<close> becomes the built-in date of
  that name or the value found under the dotted path, and \<open>{{path | default}}\<close> the default when that value is
  missing or empty; what a value contains is never expanded again, so a caller's name cannot name another
  variable. Only the two characters backslash and n become a line end, in the values too.\<close>

theorem template_rendered:
  assumes "\<forall>x \<in> set segs. good_segment x"
  shows "renderTemplate e vars (concat (map write_segment segs))
    = newlines (concat (map (segment_value e vars (defaultTZ_of e (concat (map write_segment segs)))) segs))"
proof (cases "concat (map write_segment segs) = []")
  case True
  then have "segment_value e vars tz x = []" if "x \<in> set segs" for x tz
    using that by (cases x) auto
  then have none: "concat (map (segment_value e vars tz) segs) = []" for tz by simp
  show ?thesis unfolding True none by (simp add: renderTemplate_def)
next
  case False
  then show ?thesis unfolding renderTemplate_def segments_replaced [OF assms] by (rule if_not_P)
qed

definition plain_env :: tpl_env where
  "plain_env = \<lparr>te_unicode = ascii, te_upper = (\<lambda>r. if 97 \<le> r \<and> r \<le> 122 then r - 32 else r), te_encode = (\<lambda>_. []), te_clock = (\<lambda>_. None)\<rparr>"

text \<open>A caller whose name looks like a variable.\<close>

theorem template_rendered_witness:
  "renderTemplate plain_env (JObj [(runes_of ''name'', JStr (runes_of ''{{x}}''))]) (runes_of ''Hi {{name}}, {{city | you}}!'') = runes_of ''Hi {{x}}, you!''"
proof -
  have "runes_of ''Hi {{name}}, {{city | you}}!'' =
      concat (map write_segment [Plain (runes_of ''Hi ''), Var (runes_of ''name''), Plain (runes_of '', ''), VarOr (runes_of ''city'') (runes_of ''you''), Plain (runes_of ''!'')])"
    by (simp add: runes_of_def)
  moreover have "\<forall>x \<in> set [Plain (runes_of ''Hi ''), Var (runes_of ''name''), Plain (runes_of '', ''), VarOr (runes_of ''city'') (runes_of ''you''), Plain (runes_of ''!'')]. good_segment x"
    by (simp add: runes_of_def good_path_def good_default_def path_rune_def rx_space_def)
  ultimately show ?thesis using template_rendered [of "[Plain (runes_of ''Hi ''), Var (runes_of ''name''), Plain (runes_of '', ''), VarOr (runes_of ''city'') (runes_of ''you''), Plain (runes_of ''!'')]"
      plain_env "JObj [(runes_of ''name'', JStr (runes_of ''{{x}}''))]"]
    by (simp add: runes_of_def path_value_def plain_env_def trim_space_def ascii_def builtinValue_def starts_with_def lookupPath_def
        json_member_def formatValue_def Let_def)
qed

end
