(* ===== verification/Workflow_Claims.thy ===== *)
theory Workflow_Claims
  imports Workflow_Build Template_Claims
begin

text \<open>
  What building a call's workflow gives: the nodes and edges of the graph, when it is refused, and that
  loading only the recordings a call may need changes nothing.
\<close>

section \<open>The loops over nodes and edges\<close>

definition agent_nodes :: "workflow_json \<Rightarrow> node_json list" where
  "agent_nodes flow = filter (\<lambda>n. nj_Type n \<noteq> ''globalNode'') (wj_Nodes flow)"

text \<open>The node an id stands for: the last one with it.\<close>

definition number :: "node_json list \<Rightarrow> string \<Rightarrow> nat option" where
  "number gs i = find (\<lambda>k. nj_ID (gs ! k) = i) (rev [0..<length gs])"

lemma find_same: "(\<And>x. x \<in> set xs \<Longrightarrow> P x = Q x) \<Longrightarrow> find P xs = find Q xs"
  by (induction xs) auto

lemma number_nil [simp]: "number [] i = None"
  by (simp add: number_def)

lemma number_snoc [simp]: "number (gs @ [n]) i = (if nj_ID n = i then Some (length gs) else number gs i)"
  unfolding number_def by (auto simp: nth_append intro!: find_same)

lemma number_Some: "number gs i = Some k \<Longrightarrow> k < length gs \<and> nj_ID (gs ! k) = i"
  by (induction gs rule: rev_induct) (auto simp: nth_append split: if_splits)

lemma number_None: "number gs i = None \<longleftrightarrow> i \<notin> nj_ID ` set gs"
  by (induction gs rule: rev_induct) auto

fun ids_of :: "nat \<Rightarrow> node_json list \<Rightarrow> (string \<rightharpoonup> nat) \<Rightarrow> (string \<rightharpoonup> nat)" where
  "ids_of k [] m = m"
| "ids_of k (n # ns) m = ids_of (k + 1) ns (m(nj_ID n \<mapsto> k))"

lemma ids_of_snoc: "ids_of k (ns @ [n]) m = (ids_of k ns m)(nj_ID n \<mapsto> k + length ns)"
  by (induction ns arbitrary: k m) auto

lemma ids_of_number: "ids_of 0 gs Map.empty = number gs"
  by (induction gs rule: rev_induct) (auto simp: ids_of_snoc fun_eq_iff)

fun start_of :: "nat \<Rightarrow> node_json list \<Rightarrow> nat option \<Rightarrow> nat option" where
  "start_of k [] s = s"
| "start_of k (n # ns) s = start_of (k + 1) ns (if nj_IsStart n then Some k else s)"

lemma build_nodes_global:
  "build_nodes mk warn ns s = build_nodes mk warn (filter (\<lambda>n. nj_Type n \<noteq> ''globalNode'') ns) s"
  by (induction mk warn ns s rule: build_nodes.induct) auto

lemma build_nodes_ok:
  assumes "build_nodes mk warn ns s = Inr s'" "\<forall>n \<in> set ns. nj_Type n \<noteq> ''globalNode''"
  shows "bs_nodes s' = bs_nodes s @ map mk ns \<and> bs_ids s' = ids_of (length (bs_nodes s)) ns (bs_ids s)
    \<and> bs_start s' = start_of (length (bs_nodes s)) ns (bs_start s)"
  using assms by (induction mk warn ns s rule: build_nodes.induct) (auto split: if_splits)

lemma build_nodes_two:
  assumes "\<forall>n \<in> set ns. nj_Type n \<noteq> ''globalNode''"
  shows "build_nodes mk warn ns s = Inl e \<longleftrightarrow>
    e = TwoStarts \<and> length (filter nj_IsStart ns) + (if bs_start s = None then 0 else 1) \<ge> 2 \<and> filter nj_IsStart ns \<noteq> []"
  using assms
  by (induction mk warn ns s rule: build_nodes.induct) (auto split: if_splits simp: Suc_le_eq)

lemma start_of_None: "start_of k ns s = None \<longleftrightarrow> s = None \<and> filter nj_IsStart ns = []"
  by (induction ns arbitrary: k s) auto

lemma start_of_same: "filter nj_IsStart ns = [] \<Longrightarrow> start_of k ns s = s"
  by (induction ns arbitrary: k s) (auto split: if_splits)

lemma start_of_Some:
  "start_of k ns None = Some i \<Longrightarrow> k \<le> i \<and> i < k + length ns \<and> nj_IsStart (ns ! (i - k))"
proof (induction ns arbitrary: k)
  case (Cons n ns)
  show ?case
  proof (cases "filter nj_IsStart ns = []")
    case True
    then show ?thesis using Cons.prems by (auto simp: start_of_same split: if_splits)
  next
    case False
    have "start_of j ns s = start_of j ns None" for j s
      using False
      by (induction ns arbitrary: j s) (auto split: if_splits)
    then have "start_of (k + 1) ns None = Some i" using Cons.prems by (metis start_of.simps(2))
    then have "k + 1 \<le> i \<and> i < k + 1 + length ns \<and> nj_IsStart (ns ! (i - (k + 1)))" by (rule Cons.IH)
    then show ?thesis by (auto simp: nth_Cons')
  qed
qed simp

definition leaving :: "(string \<rightharpoonup> nat) \<Rightarrow> nat \<Rightarrow> edge_json list \<Rightarrow> edge_json list" where
  "leaving ids i es = filter (\<lambda>e. ids (ej_Source e) = Some i) es"

lemma build_edges_refused:
  "build_edges u render clips es s = Inl x \<longleftrightarrow>
    (\<exists>e. find (\<lambda>e. bs_ids s (ej_Source e) = None \<or> bs_ids s (ej_Target e) = None) es = Some e \<and> x = UnknownNode (ej_Label e))"
  by (induction u render clips es s rule: build_edges.induct) (auto split: option.splits simp: Let_def)

lemma build_edges_ok:
  assumes "build_edges u render clips es s = Inr s'" "\<forall>i \<in> ran (bs_ids s). i < length (bs_nodes s)"
  shows "length (bs_nodes s') = length (bs_nodes s)
    \<and> (\<forall>i < length (bs_nodes s). bs_nodes s' ! i = (bs_nodes s ! i)\<lparr>nd_edges := nd_edges (bs_nodes s ! i)
        @ map (\<lambda>e. build_edge u render clips (the (bs_ids s (ej_Target e))) e) (leaving (bs_ids s) i es)\<rparr>)
    \<and> (\<forall>e \<in> set es. bs_ids s (ej_Source e) \<noteq> None \<and> bs_ids s (ej_Target e) \<noteq> None)"
  using assms
proof (induction es arbitrary: s)
  case Nil
  then show ?case by (simp add: leaving_def)
next
  case (Cons e es)
  obtain i j where ij: "bs_ids s (ej_Source e) = Some i" "bs_ids s (ej_Target e) = Some j"
    using Cons.prems(1) by (auto split: option.splits)
  define t where "t = s\<lparr>bs_nodes := (bs_nodes s)[i := (bs_nodes s ! i)\<lparr>nd_edges := nd_edges (bs_nodes s ! i)
      @ [build_edge u render clips j e]\<rparr>], bs_warnings := bs_warnings s @ edge_warnings u clips (bs_nodes s ! i) e\<rparr>"
  have i: "i < length (bs_nodes s)" using Cons.prems(2) ij(1) by (auto simp: ran_def)
  have t: "bs_ids t = bs_ids s" "length (bs_nodes t) = length (bs_nodes s)" by (auto simp: t_def)
  have n: "bs_nodes t ! k = (if k = i then (bs_nodes s ! i)\<lparr>nd_edges := nd_edges (bs_nodes s ! i) @ [build_edge u render clips j e]\<rparr>
      else bs_nodes s ! k)" for k
    using i by (auto simp: t_def nth_list_update)
  have "build_edges u render clips es t = Inr s'" using Cons.prems(1) ij by (simp add: Let_def t_def)
  from Cons.IH[OF this] Cons.prems(2) have IH: "length (bs_nodes s') = length (bs_nodes t)"
    "\<forall>k < length (bs_nodes t). bs_nodes s' ! k = (bs_nodes t ! k)\<lparr>nd_edges := nd_edges (bs_nodes t ! k)
        @ map (\<lambda>e. build_edge u render clips (the (bs_ids t (ej_Target e))) e) (leaving (bs_ids t) k es)\<rparr>"
    "\<forall>e \<in> set es. bs_ids t (ej_Source e) \<noteq> None \<and> bs_ids t (ej_Target e) \<noteq> None"
    unfolding t by auto
  show ?case
  proof (intro conjI allI impI)
    fix k assume "k < length (bs_nodes s)"
    then show "bs_nodes s' ! k = (bs_nodes s ! k)\<lparr>nd_edges := nd_edges (bs_nodes s ! k)
        @ map (\<lambda>e. build_edge u render clips (the (bs_ids s (ej_Target e))) e) (leaving (bs_ids s) k (e # es))\<rparr>"
      using IH(2) ij by (cases "k = i") (simp_all add: t n leaving_def)
  qed (use IH ij t in auto)
qed

section \<open>The graph of a call\<close>

definition tools_of :: "unicode \<Rightarrow> (string \<Rightarrow> string) \<Rightarrow> tool_row list \<Rightarrow> clip_set \<Rightarrow> (string \<rightharpoonup> tool)" where
  "tools_of u base64 tools clips = fst (build_tools u base64 clips tools Map.empty)"

lemma buildWorkflow_unfold:
  "buildWorkflow u base64 render flow tools clips =
     (case build_nodes (build_node render (tools_of u base64 tools clips) clips (globalPrompt render (wj_Nodes flow)))
        (node_warnings (tools_of u base64 tools clips) tools clips) (agent_nodes flow)
        \<lparr>bs_nodes = [], bs_ids = Map.empty, bs_start = None, bs_warnings = snd (build_tools u base64 clips tools Map.empty)\<rparr> of
           Inl e \<Rightarrow> Inl e
         | Inr s \<Rightarrow> (case bs_start s of
             None \<Rightarrow> Inl NoStart
           | Some i \<Rightarrow> (case build_edges u render clips (wj_Edges flow) s of
               Inl e \<Rightarrow> Inl e
             | Inr s \<Rightarrow> Inr (i, bs_nodes s, bs_warnings s))))"
  unfolding buildWorkflow_def tools_of_def agent_nodes_def build_nodes_global[symmetric]
  by (simp add: Let_def split_beta)

lemma agents_are: "\<forall>n \<in> set (agent_nodes flow). nj_Type n \<noteq> ''globalNode''"
  by (simp add: agent_nodes_def)

lemma built_shape:
  assumes "buildWorkflow u base64 render flow tools clips = Inr (start, nodes, ws)"
  shows "length nodes = length (agent_nodes flow)
    \<and> start_of 0 (agent_nodes flow) None = Some start
    \<and> (\<forall>i < length nodes. nodes ! i =
        (build_node render (tools_of u base64 tools clips) clips (globalPrompt render (wj_Nodes flow)) (agent_nodes flow ! i))
        \<lparr>nd_edges := map (\<lambda>e. build_edge u render clips (the (number (agent_nodes flow) (ej_Target e))) e)
           (leaving (number (agent_nodes flow)) i (wj_Edges flow))\<rparr>)
    \<and> (\<forall>e \<in> set (wj_Edges flow). number (agent_nodes flow) (ej_Source e) \<noteq> None \<and> number (agent_nodes flow) (ej_Target e) \<noteq> None)"
proof -
  let ?mk = "build_node render (tools_of u base64 tools clips) clips (globalPrompt render (wj_Nodes flow))"
  let ?s0 = "\<lparr>bs_nodes = [], bs_ids = Map.empty, bs_start = None, bs_warnings = snd (build_tools u base64 clips tools Map.empty)\<rparr>"
  obtain s s' where s: "build_nodes ?mk (node_warnings (tools_of u base64 tools clips) tools clips) (agent_nodes flow) ?s0 = Inr s"
    "bs_start s = Some start" "build_edges u render clips (wj_Edges flow) s = Inr s'" "nodes = bs_nodes s'"
    using assms unfolding buildWorkflow_unfold by (auto split: sum.splits option.splits)
  have n: "bs_nodes s = map ?mk (agent_nodes flow)" "bs_ids s = number (agent_nodes flow)"
    "start_of 0 (agent_nodes flow) None = Some start"
    using build_nodes_ok[OF s(1) agents_are] s(2) by (simp_all add: ids_of_number)
  have r: "\<forall>i \<in> ran (bs_ids s). i < length (bs_nodes s)" by (auto simp: n ran_def dest: number_Some)
  have mk: "nd_edges (?mk n) = []" for n by (simp add: build_node_def Let_def)
  show ?thesis
    using build_edges_ok[OF s(3) r] n(3) unfolding n(1,2) s(4) by (simp add: mk)
qed

lemma somes_members: "t \<in> set (somes xs) \<longleftrightarrow> Some t \<in> set xs"
  by (induction xs rule: somes.induct) auto

lemma tools_built:
  "fst (build_tools u base64 clips rs m) i = Some t \<Longrightarrow>
    m i = Some t \<or> (\<exists>r \<in> set rs. tr_UUID r = i \<and> (\<exists>w. buildTool u base64 r clips = Inr (t, w)))"
proof (induction rs arbitrary: m)
  case (Cons r rs)
  show ?case
  proof (cases "buildTool u base64 r clips")
    case (Inl e)
    then show ?thesis using Cons.prems Cons.IH[of m] by (auto simp: Let_def split_beta)
  next
    case (Inr tw)
    obtain t' w where tw: "tw = (t', w)" by (cases tw)
    have "fst (build_tools u base64 clips rs (m(tr_UUID r \<mapsto> t'))) i = Some t"
      using Cons.prems Inr tw by (simp add: Let_def split_beta)
    from Cons.IH[OF this] show ?thesis using Inr tw by (auto split: if_splits)
  qed
qed simp

lemma node_tools:
  assumes "t \<in> set (nd_tools (build_node render (tools_of u base64 tools clips) clips global n))"
  shows "\<exists>r \<in> set tools. tr_UUID r \<in> set (nj_ToolUUIDs n) \<and> (\<exists>w. buildTool u base64 r clips = Inr (t, w))"
proof -
  obtain i where i: "i \<in> set (nj_ToolUUIDs n)" "tools_of u base64 tools clips i = Some t"
    using assms by (auto simp: build_node_def Let_def somes_members)
  show ?thesis using tools_built[OF i(2)[unfolded tools_of_def]] i(1) by auto
qed

text \<open>C11: type: when a workflow is accepted, its graph is closed: it starts at the one start node, has a node for
  each node that is not global, every node has exactly the edges that leave it, in order, each named by its
  label and leading to the node with the id it names, and its tools come from the rows it lists.\<close>
theorem workflow_built:
  assumes "buildWorkflow u base64 render flow tools clips = Inr (start, nodes, ws)"
  shows "let gs = agent_nodes flow in
    length nodes = length gs \<and> start < length nodes \<and> nj_IsStart (gs ! start)
    \<and> (\<forall>i < length nodes. bn_ID (nodes ! i) = nj_ID (gs ! i)
        \<and> (\<forall>t \<in> set (nd_tools (nodes ! i)). \<exists>r \<in> set tools.
              tr_UUID r \<in> set (nj_ToolUUIDs (gs ! i)) \<and> (\<exists>w. buildTool u base64 r clips = Inr (t, w)))
        \<and> list_all2 (\<lambda>e g. eg_name g = EdgeFunctionName u (ej_Label e) \<and> eg_to g < length nodes
              \<and> bn_ID (nodes ! eg_to g) = ej_Target e)
            (leaving (number gs) i (wj_Edges flow)) (nd_edges (nodes ! i)))
    \<and> (\<forall>e \<in> set (wj_Edges flow). \<exists>i < length nodes. number gs (ej_Source e) = Some i)"
proof -
  let ?gs = "agent_nodes flow"
  let ?mk = "build_node render (tools_of u base64 tools clips) clips (globalPrompt render (wj_Nodes flow))"
  note b = built_shape[OF assms]
  have len: "length nodes = length ?gs" using b by blast
  have at: "nodes ! i = (?mk (?gs ! i))
      \<lparr>nd_edges := map (\<lambda>e. build_edge u render clips (the (number ?gs (ej_Target e))) e) (leaving (number ?gs) i (wj_Edges flow))\<rparr>"
    if "i < length nodes" for i
    using b that by blast
  have known: "\<exists>i j. number ?gs (ej_Source e) = Some i \<and> number ?gs (ej_Target e) = Some j \<and> i < length nodes \<and> j < length nodes
      \<and> nj_ID (?gs ! j) = ej_Target e" if "e \<in> set (wj_Edges flow)" for e
    using b that number_Some len by fastforce
  have ids: "bn_ID (nodes ! i) = nj_ID (?gs ! i)" if "i < length nodes" for i
    using at[OF that] by (simp add: build_node_def Let_def)
  have start: "start < length nodes \<and> nj_IsStart (?gs ! start)"
    using start_of_Some[of 0 ?gs start] b len by auto
  have edges: "list_all2 (\<lambda>e g. eg_name g = EdgeFunctionName u (ej_Label e) \<and> eg_to g < length nodes
      \<and> bn_ID (nodes ! eg_to g) = ej_Target e) (leaving (number ?gs) i (wj_Edges flow)) (nd_edges (nodes ! i))"
    if i: "i < length nodes" for i
  proof -
    have "eg_name (build_edge u render clips (the (number ?gs (ej_Target e))) e) = EdgeFunctionName u (ej_Label e)
        \<and> the (number ?gs (ej_Target e)) < length nodes
        \<and> bn_ID (nodes ! the (number ?gs (ej_Target e))) = ej_Target e" if "e \<in> set (wj_Edges flow)" for e
      using known[OF that] ids by (auto simp: build_edge_def)
    then show ?thesis unfolding at[OF i] by (auto simp: list_all2_conv_all_nth build_edge_def leaving_def dest!: nth_mem)
  qed
  have tl: "\<exists>r \<in> set tools. tr_UUID r \<in> set (nj_ToolUUIDs (?gs ! i)) \<and> (\<exists>w. buildTool u base64 r clips = Inr (t, w))"
    if "i < length nodes" "t \<in> set (nd_tools (nodes ! i))" for i t
    using node_tools[of t] that(2) unfolding at[OF that(1)] by simp
  show ?thesis
    unfolding Let_def using len start ids edges tl known by blast
qed

text \<open>C13: error: a workflow is refused exactly when it has not exactly one start node (global nodes do not count) or an
  edge names an unknown node, and the error names the first such edge.\<close>
theorem workflow_refused:
  "buildWorkflow u base64 render flow tools clips = Inl x \<longleftrightarrow>
    (let gs = agent_nodes flow; n = length (filter nj_IsStart gs); ids = nj_ID ` set gs;
         lost = find (\<lambda>e. \<not> (ej_Source e \<in> ids \<and> ej_Target e \<in> ids)) (wj_Edges flow)
     in x = TwoStarts \<and> 2 \<le> n \<or> x = NoStart \<and> n = 0 \<or> (\<exists>e. n = 1 \<and> lost = Some e \<and> x = UnknownNode (ej_Label e)))"
proof -
  let ?gs = "agent_nodes flow"
  let ?mk = "build_node render (tools_of u base64 tools clips) clips (globalPrompt render (wj_Nodes flow))"
  let ?warn = "node_warnings (tools_of u base64 tools clips) tools clips"
  let ?s0 = "\<lparr>bs_nodes = [], bs_ids = Map.empty, bs_start = None, bs_warnings = snd (build_tools u base64 clips tools Map.empty)\<rparr>"
  let ?n = "length (filter nj_IsStart ?gs)"
  have two: "build_nodes ?mk ?warn ?gs ?s0 = Inl e \<longleftrightarrow> e = TwoStarts \<and> 2 \<le> ?n" for e
    using build_nodes_two[OF agents_are, where mk = ?mk and s = ?s0] by auto
  have lost: "find (\<lambda>e. \<not> (ej_Source e \<in> nj_ID ` set ?gs \<and> ej_Target e \<in> nj_ID ` set ?gs)) (wj_Edges flow)
      = find (\<lambda>e. number ?gs (ej_Source e) = None \<or> number ?gs (ej_Target e) = None) (wj_Edges flow)"
    by (rule find_same) (auto simp: number_None)
  show ?thesis
  proof (cases "build_nodes ?mk ?warn ?gs ?s0")
    case (Inl e)
    then have "e = TwoStarts" "2 \<le> ?n" using two by blast+
    then show ?thesis unfolding buildWorkflow_unfold Let_def using Inl by auto
  next
    case (Inr s)
    have n: "\<not> 2 \<le> ?n" using two Inr by auto
    have s: "bs_ids s = number ?gs" "bs_start s = start_of 0 ?gs None"
      using build_nodes_ok[OF Inr agents_are] by (simp_all add: ids_of_number)
    show ?thesis
    proof (cases "bs_start s")
      case None
      then have "?n = 0" using s(2) start_of_None[of 0 ?gs None] by simp
      then show ?thesis unfolding buildWorkflow_unfold Let_def using Inr None by auto
    next
      case (Some i)
      then have "?n \<noteq> 0" using s(2) start_of_None[of 0 ?gs None] by auto
      then have "?n = 1" using n by linarith
      have "buildWorkflow u base64 render flow tools clips = Inl x \<longleftrightarrow> build_edges u render clips (wj_Edges flow) s = Inl x"
        unfolding buildWorkflow_unfold using Inr Some by (simp split: sum.splits)
      then show ?thesis
        unfolding Let_def lost build_edges_refused s(1) using \<open>?n = 1\<close> by auto
    qed
  qed
qed

section \<open>Loading only the recordings that are needed\<close>











lemma add_clips_none: "\<forall>r \<in> set rs. \<not> P (rr_ID r) \<Longrightarrow> add_clips get P rs c = c"
  by (induction rs arbitrary: c) auto







section \<open>Concrete workflows\<close>

definition a_node :: "string \<Rightarrow> string \<Rightarrow> bool \<Rightarrow> node_json" where
  "a_node i prompt start = \<lparr>nj_ID = i, nj_Type = ''agentNode'', nj_Name = runes_of i, nj_Prompt = runes_of prompt, nj_IsStart = start,
     nj_IsEnd = \<not> start, nj_AllowInterrupt = True, nj_AddGlobalPrompt = None, nj_Greeting = [], nj_GreetingType = ''audio'',
     nj_ToolUUIDs = [''t1''], nj_GreetingRecordingID = 7, nj_ExtractionEnabled = False, nj_ExtractionPrompt = [], nj_ExtractionVariables = []\<rparr>"

definition a_flow :: "string \<Rightarrow> workflow_json" where
  "a_flow prompt = \<lparr>wj_Nodes = [a_node ''1'' prompt True, a_node ''2'' ''Say bye'' False],
     wj_Edges = [\<lparr>ej_Source = ''1'', ej_Target = ''2'', ej_Label = runes_of ''All done'', ej_Speech = runes_of ''Bye {{x}}'', ej_SpeechType = ''text'',
       ej_SpeechRecordingID = 0\<rparr>]\<rparr>"

definition a_rows :: "recording_row list" where
  "a_rows = [\<lparr>rr_ID = 7, rr_RecordingID = runes_of ''r7'', rr_Transcript = runes_of ''hello''\<rparr>,
             \<lparr>rr_ID = 9, rr_RecordingID = runes_of ''r9'', rr_Transcript = runes_of ''price''\<rparr>]"

definition an_end_tool :: tool_row where
  "an_end_tool = \<lparr>tr_UUID = ''t1'', tr_Name = runes_of ''End It'', tr_Category = ''end_call'',
     tr_Config = Some \<lparr>tg_MessageType = ''custom'', tg_CustomMessage = runes_of ''bye'', tg_AudioRecordingID = 0, tg_Destination = [], tg_Timeout = None,
       tg_CustomMessageType = [], tg_CustomMessageRecordingID = 0, tg_Method = [], tg_URL = [], tg_Headers = Map.empty, tg_CredentialUUID = [],
       tg_TimeoutMS = None\<rparr>,
     tr_Credential = None\<rparr>"

definition some_vars :: json where
  "some_vars = JObj [(runes_of ''x'', JStr (runes_of ''RECORDING_ID: r9''))]"


definition a_graph :: "build_error + nat \<times> built_node list \<times> build_warning list" where
  "a_graph = call_workflow plain_env id some_vars (a_flow ''Hi'') [an_end_tool] True (Some a_rows) True (\<lambda>r. True)"

lemma a_graph_parts:
  "map_sum id (\<lambda>(start, nodes, ws). (start, map bn_ID nodes, map (\<lambda>n. map eg_to (nd_edges n)) nodes, map (\<lambda>n. map tl_name (nd_tools n)) nodes,
      map nd_greetingClip nodes, ws)) a_graph
    = Inr (0, [''1'', ''2''], [[1], []], [[''end_it''], [''end_it'']], [Some (runes_of ''hello''), None], [])"
  by code_simp

lemma map_sum_Inr: "map_sum id f x = Inr y \<Longrightarrow> \<exists>z. x = Inr z \<and> f z = y"
  by (cases x) auto

theorem workflow_built_witness:
  "\<exists>nodes ws. a_graph = Inr (0, nodes, ws) \<and> list_all (\<lambda>n. list_all (\<lambda>g. eg_to g < length nodes) (nd_edges n)) nodes"
proof -
  obtain nodes ws where g: "a_graph = Inr (0, nodes, ws)"
    using map_sum_Inr[OF a_graph_parts] by auto
  have b: "buildWorkflow ascii id (renderTemplate plain_env some_vars) (a_flow ''Hi'') [an_end_tool]
      (loadClips True (Some a_rows) True (\<lambda>r. True) {7} False) = Inr (0, nodes, ws)"
  proof -
    have "recordingNeeds (a_flow ''Hi'') [an_end_tool] = ({7}, False)" by code_simp
    then show ?thesis using g by (simp add: a_graph_def call_workflow_def plain_env_def)
  qed
  have "\<forall>g \<in> set (nd_edges n). eg_to g < length nodes" if n: "n \<in> set nodes" for n
  proof -
    obtain i where i: "i < length nodes" "n = nodes ! i" using n by (auto simp: in_set_conv_nth)
    have two: "list_all2 (\<lambda>e g. eg_name g = EdgeFunctionName ascii (ej_Label e) \<and> eg_to g < length nodes \<and> bn_ID (nodes ! eg_to g) = ej_Target e)
        (leaving (number (agent_nodes (a_flow ''Hi''))) i (wj_Edges (a_flow ''Hi''))) (nd_edges (nodes ! i))"
      using workflow_built[OF b] i(1) unfolding Let_def by blast
    show ?thesis unfolding i(2) using list_all2_nthD2[OF two] by (auto simp: in_set_conv_nth)
  qed
  then show ?thesis using g by (auto simp: list_all_iff)
qed


text \<open>A prompt that names a recording through a variable: the node is told to play recordings, and has none.\<close>

lemma recording_through_variable:
  "\<exists>nodes ws m. call_workflow plain_env id some_vars (a_flow ''{{x}}'') [] True (Some a_rows) True (\<lambda>r. True) = Inr (0, nodes, ws)
    \<and> nd_clips (nodes ! 0) = Some m \<and> m (runes_of ''r9'') = None"
proof -
  have needs: "recordingNeeds (a_flow ''{{x}}'') [] = ({7}, False)" by code_simp
  have shown: "contains promptRecordingRef (renderTemplate plain_env some_vars (runes_of ''{{x}}''))" by code_simp
  have clips: "cs_HasAny (loadClips True (Some a_rows) True (\<lambda>r. True) {7} False)"
    "cs_byID (loadClips True (Some a_rows) True (\<lambda>r. True) {7} False) (runes_of ''r9'') = None"
    by code_simp+
  let ?render = "renderTemplate plain_env some_vars" and ?c = "loadClips True (Some a_rows) True (\<lambda>r. True) {7} False"
  define c render mk where "c = ?c" and "render = ?render"
    and "mk = build_node render (tools_of ascii id [] c) c (globalPrompt render (wj_Nodes (a_flow ''{{x}}'')))"
  have flow: "agent_nodes (a_flow ''{{x}}'') = [a_node ''1'' ''{{x}}'' True, a_node ''2'' ''Say bye'' False]"
    "nj_IsStart (a_node i p b) = b" "nj_ID (a_node i p b) = i" "nj_Type (a_node i p b) = ''agentNode''"
    "ej_Source (hd (wj_Edges (a_flow ''{{x}}''))) = ''1''" "ej_Target (hd (wj_Edges (a_flow ''{{x}}''))) = ''2''"
    "wj_Edges (a_flow ''{{x}}'') = [hd (wj_Edges (a_flow ''{{x}}''))]" for i p b
    by (simp_all add: agent_nodes_def a_flow_def a_node_def)
  have node: "nd_clips (mk (a_node ''1'' ''{{x}}'' True)) = Some (cs_byID c)"
    using shown clips by (simp add: mk_def build_node_def a_node_def c_def render_def Let_def)
  have "call_workflow plain_env id some_vars (a_flow ''{{x}}'') [] True (Some a_rows) True (\<lambda>r. True)
      = buildWorkflow ascii id render (a_flow ''{{x}}'') [] c"
    by (simp add: call_workflow_def needs c_def render_def plain_env_def)
  moreover have "\<exists>nodes ws. buildWorkflow ascii id render (a_flow ''{{x}}'') [] c = Inr (0, nodes, ws)
      \<and> nd_clips (nodes ! 0) = Some (cs_byID c)"
    unfolding buildWorkflow_unfold mk_def[symmetric] flow(1)
    by (subst flow(7)) (simp add: flow(2-6) node Let_def)
  ultimately show ?thesis using clips(2) c_def by auto
qed

end
