(* ===== verification/Turn_Graph.thy ===== *)
theory Turn_Graph
  imports Llm_Claims Workflow_Claims
begin

text \<open>
  A turn (\<open>runLLMTurn\<close>) on a graph built by \<open>buildWorkflow\<close>: it moves along edges of the graph only.
\<close>

section \<open>The nodes a turn enters\<close>

fun entered :: "turn_effect list \<Rightarrow> nat list" where
  "entered [] = []"
| "entered (TeEntered n # es) = n # entered es"
| "entered (e # es) = entered es"

fun is_entered :: "turn_effect \<Rightarrow> bool" where
  "is_entered (TeEntered n) = True"
| "is_entered e = False"

text \<open>A path along edges, from a node to a node.\<close>

fun walk :: "(nat \<Rightarrow> node) \<Rightarrow> nat \<Rightarrow> nat list \<Rightarrow> nat \<Rightarrow> bool" where
  "walk nodes n [] m = (m = n)"
| "walk nodes n (k # ks) m = ((\<exists>e \<in> set (nd_edges (nodes n)). eg_to e = k) \<and> walk nodes k ks m)"

lemma entered_append [simp]: "entered (xs @ ys) = entered xs @ entered ys"
  by (induction xs rule: entered.induct) auto

lemma entered_none [simp]: "list_all (\<lambda>e. \<not> is_entered e) es \<Longrightarrow> entered es = []"
  by (induction es rule: entered.induct) auto

lemma walk_append: "walk nodes n (xs @ ys) m \<longleftrightarrow> (\<exists>k. walk nodes n xs k \<and> walk nodes k ys m)"
  by (induction xs arbitrary: n) auto

definition moves :: "turn_env \<Rightarrow> turn \<Rightarrow> turn \<Rightarrow> bool" where
  "moves env t t' \<longleftrightarrow> (\<exists>es. tn_effects t' = tn_effects t @ es \<and> walk (te_nodes env) (tn_node t) (entered es) (tn_node t'))"

lemma moves_same: "tn_effects t' = tn_effects t \<Longrightarrow> tn_node t' = tn_node t \<Longrightarrow> moves env t t'"
  by (simp add: moves_def)

lemma moves_trans [trans]: "moves env a b \<Longrightarrow> moves env b c \<Longrightarrow> moves env a c"
  unfolding moves_def by (elim exE conjE) (auto simp: walk_append)

lemma moves_emit: "moves env t u \<Longrightarrow> \<not> is_entered e \<Longrightarrow> moves env t (emit e u)"
proof -
  assume "moves env t u" "\<not> is_entered e"
  moreover have "moves env u (emit e u)"
    unfolding moves_def using \<open>\<not> is_entered e\<close> by (intro exI [of _ "[e]"]) (simp add: emit_def)
  ultimately show ?thesis using moves_trans by blast
qed

lemma says_moves: "says t t' \<Longrightarrow> moves env t t'"
proof -
  assume s: "says t t'"
  then obtain es where es: "tn_effects t' = tn_effects t @ es" "list_all is_speech es" "tn_node t' = tn_node t"
    by (auto simp: says_def extends_def tview_def)
  have "\<not> is_entered e" if "is_speech e" for e using that by (cases e) auto
  then have "entered es = []" using es(2) by (intro entered_none) (auto simp: list_all_iff)
  then show ?thesis unfolding moves_def using es by (intro exI [of _ es]) simp
qed

lemmas moving = moves_same moves_emit

section \<open>A turn moves along edges\<close>

lemma find_edge_member: "find_edge name es = Some e \<Longrightarrow> e \<in> set es"
  by (induction es) (auto split: if_splits)

lemma say_first_says: "says t (say_first env c s t)"
  by (auto simp: say_first_def intro: send_says split: option.split)

lemma takeEdge_moves:
  assumes "e \<in> set (nd_edges (te_nodes env (tn_node t)))"
  shows "moves env t (fst (takeEdge env e t))"
proof -
  let ?u = "say_first env (eg_speechClip e) (eg_speech e) t"
  let ?v = "emit (TeEntered (eg_to e)) (emit (TeWrite (TurnNode (eg_to e))) (?u\<lparr>tn_node := eg_to e\<rparr>))"
  have u: "moves env t ?u" "tn_node ?u = tn_node t"
    using say_first_says says_moves says_view [OF say_first_says] by (auto simp: tview_def)
  have "moves env ?u ?v"
    unfolding moves_def emit_def using assms u(2)
    by (intro exI [of _ "[TeWrite (TurnNode (eg_to e)), TeEntered (eg_to e)]"]) auto
  then have "moves env t ?v" using u(1) moves_trans by blast
  then show ?thesis by (auto simp: takeEdge_def Let_def intro: moving)
qed

lemma transfer_moves: "moves env t (fst (transfer env k c td t))"
  by (auto simp: transfer_def Let_def intro!: moving split: option.split transfer_answer.split)

lemma run_kind_moves: "moves env t (fst (run_kind env k c td t))"
  by (auto simp: run_kind_def transfer_moves intro!: moving split: tool_kind.split sum.split)

lemma runTool_moves: "moves env t (fst (runTool env k nd c t))"
proof (cases "find_tool (tc_name c) (nd_tools nd)")
  case None
  then show ?thesis by (simp add: runTool_def moves_same)
next
  case (Some td)
  have "moves env t (emit (TeWrite (TurnTool True)) (say_first env (tl_messageClip td) (tl_message td) t))"
    using says_moves [OF say_first_says] by (intro moves_emit) simp_all
  from moves_emit [OF moves_trans [OF this run_kind_moves]] show ?thesis
    using Some by (simp add: runTool_def split_beta)
qed

lemma edge_or_tool_moves: "moves env t (fst (edge_or_tool env k c t))"
proof (cases "find_edge (tc_name c) (nd_edges (te_nodes env (tn_node t)))")
  case None
  then show ?thesis by (simp add: edge_or_tool_def Let_def runTool_moves)
next
  case (Some e)
  let ?u = "if nd_extracts (te_nodes env (tn_node t)) then emit (TeExtract (tn_node t) (tn_history t)) t else t"
  have u: "moves env t ?u" by (simp add: moving)
  have "moves env ?u (fst (takeEdge env e ?u))"
    by (rule takeEdge_moves) (use find_edge_member [OF Some] in \<open>auto simp: emit_def\<close>)
  from moves_trans [OF u this] show ?thesis using Some by (simp add: edge_or_tool_def Let_def split_beta)
qed

lemma do_call_moves: "moves env t (do_call env k c t)"
proof -
  let ?u = "emit (TeStarted (tc_name c) (tc_id c)) t"
  obtain v res act where v: "edge_or_tool env k c ?u = (v, res, act)" by (metis prod_cases3)
  have "moves env t ?u" by (simp add: moving)
  from moves_trans [OF this edge_or_tool_moves [of env ?u k c]] v have "moves env t v" by simp
  then have w: "moves env t (emit (TeEnded (tc_name c) (tc_id c) res) v)" by (simp add: moves_emit)
  show ?thesis
    unfolding do_call_def Let_def v by (simp, rule moves_trans [OF w], rule moves_same) simp_all
qed

lemma do_calls_moves: "moves env t (do_calls env k cs t)"
  by (induction cs arbitrary: t) (auto intro: moves_same moves_trans [OF do_call_moves])

text \<open>The turn a round ends with.\<close>

fun end_turn :: "round_end \<Rightarrow> turn" where
  "end_turn (Cancelled t) = t"
| "end_turn (Break t) = t"
| "end_turn (Again t) = t"

lemma round_calls_moves: "moves env t (end_turn (round_calls env k ans t))"
proof -
  define u where "u = t\<lparr>tn_history := tn_history t @ [AssistantMsg (concat (la_tokens ans)) (la_calls ans)],
    tn_toolMsgs := tn_toolMsgs t @ [AssistantMsg [] (la_calls ans)]\<rparr>"
  define v where "v = do_calls env k (la_calls ans) u"
  obtain d w where w: "ctxErr v = (d, w)" by (cases "ctxErr v")
  have u: "moves env t u" by (simp add: u_def moves_same)
  have v: "moves env u v" unfolding v_def by (rule do_calls_moves)
  have "moves env v w" using says_moves [OF ctxErr_says [OF w]] .
  then have tw: "moves env t w" using moves_trans [OF moves_trans [OF u v]] by blast
  have "round_calls env k ans t = (if la_calls ans = [] then Break t else if k = maxToolRounds - 1 then Break t
      else if d then Cancelled (if tn_endCall w \<and> \<not> te_base env then emit (TePost OpEndCallTool) w else w)
      else if tn_endCall w \<or> tn_transferred w then Break w else Again w)"
    unfolding round_calls_def Let_def u_def [symmetric] v_def [symmetric] w by simp
  then show ?thesis using tw by (auto intro: moving)
qed

lemma turn_round_moves:
  assumes "turn_round env k t = Some r"
  shows "moves env t (end_turn r)"
proof -
  define nd where "nd = te_nodes env (tn_node t)"
  define msgs where "msgs = (if toolDefs nd = [] then plainHistory (te_json env) (requestMessages nd (tn_history t)) else requestMessages nd (tn_history t))"
  define ans where "ans = te_llm env k msgs (toolDefs nd)"
  obtain r1 t1 where on: "on_tokens env nd (la_tokens ans) (if nd_clips nd = None then None else Some new_router)
      (emit (TeRequest msgs (toolDefs nd)) t) = Some (r1, t1)"
    using assms unfolding turn_round_def Let_def nd_def msgs_def ans_def by (auto split: option.splits)
  have "moves env t (emit (TeRequest msgs (toolDefs nd)) t)" by (auto intro: moving)
  from moves_trans [OF this says_moves [OF on_tokens_says [OF on]]] have t1: "moves env t t1" .
  define t2 where "t2 = t1\<lparr>tn_spoke := tn_spoke t1 \<or> concat (la_tokens ans) \<noteq> []\<rparr>"
  obtain d t3 where c: "ctxErr t2 = (d, t3)" by (cases "ctxErr t2")
  have "moves env t1 t2" by (simp add: t2_def moves_same)
  from moves_trans [OF moves_trans [OF t1 this] says_moves [OF ctxErr_says [OF c]]] have t3: "moves env t t3" .
  define t4 where "t4 = flush_chunker env (flush_router env nd r1 (t3\<lparr>tn_err := False\<rparr>))"
  have "moves env (t3\<lparr>tn_err := False\<rparr>) t4"
    unfolding t4_def using moves_trans says_moves flush_says by blast
  moreover have "moves env t3 (t3\<lparr>tn_err := False\<rparr>)" by (simp add: moves_same)
  ultimately have t4: "moves env t t4" using t3 moves_trans by blast
  have e: "moves env t (t3\<lparr>tn_err := True\<rparr>)" by (rule moves_trans [OF t3]) (simp add: moves_same)
  have "r = (if d then Cancelled t3 else if la_err ans then Break (t3\<lparr>tn_err := True\<rparr>) else round_calls env k ans t4)"
    using assms on c unfolding turn_round_def Let_def nd_def [symmetric] msgs_def [symmetric] ans_def [symmetric] t2_def t4_def by simp
  then show ?thesis using t3 e moves_trans [OF t4 round_calls_moves] by (auto split: if_splits)
qed

lemma turn_rounds_moves: "turn_rounds env n t = Some r \<Longrightarrow> moves env t (end_turn r)"
proof (induction n arbitrary: t)
  case 0
  then show ?case by (auto simp: moves_same)
next
  case (Suc n)
  obtain r1 where r1: "turn_round env (maxToolRounds - Suc n) t = Some r1"
    using Suc.prems by (auto split: option.splits)
  have m: "moves env t (end_turn r1)" using turn_round_moves [OF r1] .
  show ?case
  proof (cases r1)
    case (Again t1)
    then have "turn_rounds env n t1 = Some r" using Suc.prems r1 by simp
    from moves_trans [OF _ Suc.IH [OF this], of t] m Again show ?thesis by simp
  qed (use Suc.prems r1 m in auto)
qed

lemma turn_failed_moves: "moves env t (turn_failed env t)"
proof -
  define n where "n = tn_failures t + 1"
  obtain line kind hangup where l: "failure_line (te_failures env) n = (line, kind, hangup)" by (metis prod_cases3)
  have "moves env t (emit (TeFallback kind) (t\<lparr>tn_failures := n\<rparr>))" by (intro moving) (auto simp: moves_same)
  from moves_trans [OF this says_moves [OF send_says(1)]]
  have u: "moves env t (sendToTTS env (line_text line @ [32]) (emit (TeFallback kind) (t\<lparr>tn_failures := n\<rparr>)))" .
  from moves_trans [OF u] have "moves env t ((sendToTTS env (line_text line @ [32]) (emit (TeFallback kind) (t\<lparr>tn_failures := n\<rparr>)))\<lparr>tn_endCall := True\<rparr>)"
    by (simp add: moves_same)
  then show ?thesis using u unfolding turn_failed_def Let_def n_def [symmetric] l by (auto intro: moving)
qed

lemma turn_finish_moves: "moves env t (turn_finish env gen t)"
proof -
  obtain d t1 where c: "ctxErr t = (d, t1)" by (cases "ctxErr t")
  define u where "u = (if tn_err t then (if \<not> d \<and> \<not> tn_spoke t1 then turn_failed env t1 else t1) else t\<lparr>tn_failures := 0\<rparr>)"
  have "moves env t t1" using says_moves [OF ctxErr_says [OF c]] .
  then have u: "moves env t u"
    unfolding u_def using moves_trans turn_failed_moves by (auto simp: moves_same)
  define v where "v = u\<lparr>tn_endCall := tn_endCall u \<or> nd_end (te_nodes env (tn_node u))\<rparr>"
  have v: "moves env t v" unfolding v_def by (rule moves_trans [OF u]) (simp add: moves_same)
  have "turn_finish env gen t = (if te_base env \<and> \<not> te_posted env then v
      else emit TeEndGeneration (emit (TePost (OpLLMDone gen (tn_err v) (tn_toolMsgs v) (tn_endCall v))) v))"
    unfolding turn_finish_def Let_def v_def u_def c by simp
  then show ?thesis using v by (simp add: moves_emit)
qed

lemma runLLMTurn_moves:
  assumes "runLLMTurn env n history gen live failures = Some t"
  shows "walk (te_nodes env) n (entered (tn_effects t)) (tn_node t)"
proof -
  obtain r where r: "turn_rounds env maxToolRounds (start_turn n history live failures) = Some r"
    using assms by (auto simp: runLLMTurn_def split: option.splits)
  have m: "moves env (start_turn n history live failures) (end_turn r)" using turn_rounds_moves [OF r] .
  have "moves env (start_turn n history live failures) t"
    using assms r m moves_trans [OF m turn_finish_moves]
    by (cases r) (auto simp: runLLMTurn_def)
  then show ?thesis by (auto simp: moves_def start_turn_def)
qed

section \<open>On a built graph\<close>

text \<open>The graph as the turn sees it.\<close>

definition graph_nodes :: "built_node list \<Rightarrow> nat \<Rightarrow> node" where
  "graph_nodes nodes i = node.truncate (nodes ! i)"

fun follows :: "edge_json list \<Rightarrow> string list \<Rightarrow> bool" where
  "follows es (a # b # is) = (list_ex (\<lambda>e. ej_Source e = a \<and> ej_Target e = b) es \<and> follows es (b # is))"
| "follows es is = True"

lemma built_edge:
  assumes "buildWorkflow u base64 render flow tools clips = Inr (start, nodes, ws)" "i < length nodes" "g \<in> set (nd_edges (nodes ! i))"
  shows "eg_to g < length nodes \<and> list_ex (\<lambda>e. ej_Source e = bn_ID (nodes ! i) \<and> ej_Target e = bn_ID (nodes ! eg_to g)) (wj_Edges flow)"
proof -
  let ?gs = "agent_nodes flow"
  note b = built_shape [OF assms(1)]
  have at: "nodes ! i = (build_node render (tools_of u base64 tools clips) clips (globalPrompt render (wj_Nodes flow)) (?gs ! i))
      \<lparr>nd_edges := map (\<lambda>e. build_edge u render clips (the (number ?gs (ej_Target e))) e) (leaving (number ?gs) i (wj_Edges flow))\<rparr>"
    if "i < length nodes" for i
    using b that by blast
  have ids: "bn_ID (nodes ! i) = nj_ID (?gs ! i)" if "i < length nodes" for i
    using at [OF that] by (simp add: build_node_def Let_def)
  obtain e where e: "e \<in> set (wj_Edges flow)" "number ?gs (ej_Source e) = Some i" "eg_to g = the (number ?gs (ej_Target e))"
    using assms(3) unfolding at [OF assms(2)] by (auto simp: leaving_def build_edge_def)
  obtain j where j: "number ?gs (ej_Target e) = Some j" using b e(1) by blast
  have "j < length nodes" "nj_ID (?gs ! j) = ej_Target e" "nj_ID (?gs ! i) = ej_Source e"
    using number_Some [OF j] number_Some [OF e(2)] b by auto
  then show ?thesis using e j ids assms(2) by (auto simp: list_ex_iff)
qed

lemma walk_built:
  assumes "buildWorkflow u base64 render flow tools clips = Inr (start, nodes, ws)"
  shows "walk (graph_nodes nodes) n ks m \<Longrightarrow> n < length nodes \<Longrightarrow>
    list_all (\<lambda>k. k < length nodes) ks \<and> m = last (n # ks) \<and> follows (wj_Edges flow) (map (\<lambda>k. bn_ID (nodes ! k)) (n # ks))"
proof (induction ks arbitrary: n)
  case (Cons k ks)
  then obtain g where g: "g \<in> set (nd_edges (nodes ! n))" "eg_to g = k"
    by (auto simp: graph_nodes_def node.truncate_def)
  show ?case using built_edge [OF assms Cons.prems(2) g(1)] g(2) Cons.IH [of k] Cons.prems(1) by simp
qed simp

text \<open>C12: safety: a turn at a node of a built workflow stays in its graph: the nodes it enters exist, each is reached
  from the one before by an edge of the workflow, and the last one is where the turn ends.\<close>
theorem turn_stays_in_graph:
  assumes "buildWorkflow u base64 render flow tools clips = Inr (start, nodes, ws)"
    and "te_nodes env = graph_nodes nodes" and "n < length nodes"
    and "runLLMTurn env n history gen live failures = Some t"
  shows "(\<forall>k \<in> set (entered (tn_effects t)). k < length nodes) \<and> tn_node t = last (n # entered (tn_effects t))
    \<and> follows (wj_Edges flow) (map (\<lambda>k. bn_ID (nodes ! k)) (n # entered (tn_effects t)))"
  using walk_built [OF assms(1) _ assms(3)] runLLMTurn_moves [OF assms(4)] assms(2)
  by (simp add: list_all_iff)

definition graph_env :: "built_node list \<Rightarrow> turn_env" where
  "graph_env nodes = (demo_env False)\<lparr>te_nodes := graph_nodes nodes,
     te_llm := (\<lambda>k ms tools. if k = 0 then \<lparr>la_tokens = [], la_calls = [\<lparr>tc_id = ''a'', tc_name = ''all_done''\<rparr>], la_err = False\<rparr>
        else \<lparr>la_tokens = [], la_calls = [], la_err = False\<rparr>)\<rparr>"

lemma graph_values:
  "map_sum id (\<lambda>(start, nodes, ws). (start, map (\<lambda>n. (Option.is_none (nd_clips n), nd_extracts n, nd_end n, nd_edges n, map tl_name (nd_tools n))) nodes)) a_graph = Inr (0,
     [(True, False, False, [\<lparr>eg_name = ''all_done'', eg_speech = runes_of ''Bye RECORDING_ID: r9'', eg_speechClip = None, eg_to = 1\<rparr>], [''end_it'']),
      (True, False, True, [], [''end_it''])])"
  by code_simp

text \<open>A round without words.\<close>

lemma wordless_round:
  assumes "\<And>ms tl. te_llm env k ms tl = \<lparr>la_tokens = [], la_calls = calls, la_err = False\<rparr>" "nd_clips (te_nodes env (tn_node t)) = None"
    "tn_live t = None" "tn_buf t = []"
  shows "\<exists>ms tl. turn_round env k t = Some (round_calls env k \<lparr>la_tokens = [], la_calls = calls, la_err = False\<rparr>
    ((emit (TeRequest ms tl) t)\<lparr>tn_err := False, tn_buf := []\<rparr>))"
  unfolding turn_round_def Let_def assms(1)
  by (auto simp: assms(2-) ctxErr_def emit_def flush_router_def flush_chunker_def Flush_def)

theorem turn_stays_in_graph_witness:
  "\<exists>nodes ws t. a_graph = Inr (0, nodes, ws) \<and> runLLMTurn (graph_env nodes) 0 [UserMsg [97]] 1 None 0 = Some t
     \<and> entered (tn_effects t) = [1] \<and> tn_node t = 1"
proof -
  obtain nodes ws where g: "a_graph = Inr (0, nodes, ws)"
    "map (\<lambda>n. (Option.is_none (nd_clips n), nd_extracts n, nd_end n, nd_edges n, map tl_name (nd_tools n))) nodes =
     [(True, False, False, [\<lparr>eg_name = ''all_done'', eg_speech = runes_of ''Bye RECORDING_ID: r9'', eg_speechClip = None, eg_to = 1\<rparr>], [''end_it'']),
      (True, False, True, [], [''end_it''])]"
    using map_sum_Inr [OF graph_values] by auto
  then obtain a b where ab: "nodes = [a, b]" by (auto simp: map_eq_Cons_conv)
  define A B where "A = graph_nodes nodes 0" and "B = graph_nodes nodes (Suc 0)"
  define m where "m = runes_of ''Bye RECORDING_ID: r9''"
  have AB: "nd_clips A = None" "nd_clips B = None" "\<not> nd_extracts A" "nd_end B"
    "nd_edges A = [\<lparr>eg_name = ''all_done'', eg_speech = m, eg_speechClip = None, eg_to = 1\<rparr>]" "nd_edges B = []" "m \<noteq> []"
    using g(2) by (auto simp: A_def B_def ab graph_nodes_def node.truncate_def Option.is_none_def m_def runes_of_def)
  have needs: "recordingNeeds (a_flow ''Hi'') [an_end_tool] = ({7}, False)" by code_simp
  have built: "buildWorkflow ascii id (renderTemplate plain_env some_vars) (a_flow ''Hi'') [an_end_tool]
      (loadClips True (Some a_rows) True (\<lambda>r. True) {7} False) = Inr (0, nodes, ws)"
    using g(1) by (simp add: a_graph_def call_workflow_def plain_env_def needs)
  define env where "env = graph_env nodes"
  define s0 where "s0 = start_turn 0 [UserMsg [97]] None 0"
  have e: "te_llm env 0 ms tl = \<lparr>la_tokens = [], la_calls = [\<lparr>tc_id = ''a'', tc_name = ''all_done''\<rparr>], la_err = False\<rparr>"
    "te_llm env (Suc 0) ms tl = \<lparr>la_tokens = [], la_calls = [], la_err = False\<rparr>" "te_nodes env = graph_nodes nodes" "te_base env = False" "te_ttsOK env k" "turn_env.te_unicode env = ascii" for ms tl k
    by (simp_all add: env_def graph_env_def demo_env_def)
  have nd: "graph_nodes nodes 0 = A" "graph_nodes nodes (Suc 0) = B" by (simp_all add: A_def B_def)
  obtain ms tl where "turn_round env 0 s0 = Some (round_calls env 0
      \<lparr>la_tokens = [], la_calls = [\<lparr>tc_id = ''a'', tc_name = ''all_done''\<rparr>], la_err = False\<rparr> ((emit (TeRequest ms tl) s0)\<lparr>tn_err := False, tn_buf := []\<rparr>))"
    using wordless_round [of env 0 "[\<lparr>tc_id = ''a'', tc_name = ''all_done''\<rparr>]" s0] by (auto simp: e s0_def start_turn_def nd AB)
  then obtain t1 where t1: "turn_round env 0 s0 = Some (Again t1)" "tn_node t1 = 1" "entered (tn_effects t1) = [1]" "tn_live t1 = None"
      "tn_buf t1 = []" "\<not> tn_endCall t1"
    by (simp add: round_calls_def maxToolRounds_def do_call_def edge_or_tool_def takeEdge_def say_first_def sendToTTS_def ctxErr_def emit_def
        s0_def start_turn_def e nd AB Let_def)
  obtain ms tl where t2: "turn_round env 1 t1 = Some (Break ((emit (TeRequest ms tl) t1)\<lparr>tn_err := False, tn_buf := []\<rparr>))"
    using wordless_round [of env 1 "[]" t1] by (auto simp: e t1 nd AB round_calls_def)
  have "turn_rounds env maxToolRounds s0 = Some (Break ((emit (TeRequest ms tl) t1)\<lparr>tn_err := False, tn_buf := []\<rparr>))"
    using t2 by (simp add: maxToolRounds_def eval_nat_numeral t1(1))
  then have "\<exists>t. runLLMTurn (graph_env nodes) 0 [UserMsg [97]] 1 None 0 = Some t \<and> entered (tn_effects t) = [1]"
    unfolding runLLMTurn_def env_def [symmetric] s0_def [symmetric]
    by (simp add: turn_finish_def Let_def emit_def t1)
  then obtain t where t: "runLLMTurn (graph_env nodes) 0 [UserMsg [97]] 1 None 0 = Some t" "entered (tn_effects t) = [1]" by blast
  have "te_nodes (graph_env nodes) = graph_nodes nodes" by (simp add: graph_env_def)
  from turn_stays_in_graph [OF built this _ t(1)] have "tn_node t = 1" using t(2) by (simp add: ab)
  then show ?thesis using g(1) t by blast
qed

end
