(* ===== verification/Call_Log.thy ===== *)
theory Call_Log
  imports Llm_Client
begin

text \<open>
  The record of a call (\<open>internal/ai/agent/calllog.go\<close>): the conversation, node transitions and function
  calls as events, the nodes visited, why the call ended, what was extracted, and the counts of its
  summary. The mutex makes an operation atomic, so the log is the operations in the order they got it.
  A formatted timestamp is the time it denotes, cut to its precision; times are nanoseconds, 0 is the
  zero time.
\<close>

section \<open>State\<close>

record log_node =
  ln_ID :: string
  ln_Name :: string
  ln_AllowInterrupt :: bool

datatype payload =
    NodeTransition string string "(string \<times> string) option" bool
  | UserTranscription string int
  | BotText string int
  | FunctionCallStart string string
  | FunctionCallEnd string string "string option"
  | LatencyMeasured int
  | TTFBMetric string int

definition event_type :: "payload \<Rightarrow> string" where
  "event_type p = (case p of
      NodeTransition i n prev a \<Rightarrow> ''rtf-node-transition''
    | UserTranscription t at \<Rightarrow> ''rtf-user-transcription''
    | BotText t at \<Rightarrow> ''rtf-bot-text''
    | FunctionCallStart n i \<Rightarrow> ''rtf-function-call-start''
    | FunctionCallEnd n i r \<Rightarrow> ''rtf-function-call-end''
    | LatencyMeasured d \<Rightarrow> ''rtf-latency-measured''
    | TTFBMetric s d \<Rightarrow> ''rtf-ttfb-metric'')"

record log_event =
  le_Payload :: payload
  le_Timestamp :: int
  le_Turn :: nat
  le_Node :: "(string \<times> string) option"

record call_log =
  cl_events :: "log_event list"
  cl_turn :: nat
  cl_node :: "log_node option"
  cl_visited :: "string list"
  cl_reason :: string
  cl_userSpoke :: bool
  cl_extracted :: "(string \<rightharpoonup> string) option"
  cl_keys :: "string list"
  cl_replies :: nat
  cl_bargeIns :: nat
  cl_pauses :: nat
  cl_falseInterruptions :: nat
  cl_heldSpeech :: nat
  cl_heldDelivered :: nat
  cl_errors :: "string \<rightharpoonup> nat"
  cl_replyLatencies :: "int list"
  cl_llmUsage :: "string \<rightharpoonup> usage"
  cl_ttsChars :: int
  cl_sttSeconds :: int
  cl_sttGated :: bool

definition log_start :: call_log where
  "log_start = \<lparr>cl_events = [], cl_turn = 0, cl_node = None, cl_visited = [], cl_reason = [], cl_userSpoke = False,
     cl_extracted = None, cl_keys = [], cl_replies = 0, cl_bargeIns = 0, cl_pauses = 0, cl_falseInterruptions = 0,
     cl_heldSpeech = 0, cl_heldDelivered = 0, cl_errors = Map.empty, cl_replyLatencies = [], cl_llmUsage = Map.empty,
     cl_ttsChars = 0, cl_sttSeconds = 0, cl_sttGated = False\<rparr>"

section \<open>Operations\<close>

text \<open>The precision of \<open>eventTimeFormat\<close> and \<open>payloadTimeFormat\<close>.\<close>

definition micros :: "int \<Rightarrow> int" where
  "micros t = t div 1000 * 1000"

definition millis :: "int \<Rightarrow> int" where
  "millis t = t div 1000000 * 1000000"

definition log_add :: "int \<Rightarrow> payload \<Rightarrow> call_log \<Rightarrow> call_log" where
  "log_add now p l = l\<lparr>cl_events := cl_events l @ [\<lparr>le_Payload = p, le_Timestamp = micros now, le_Turn = cl_turn l,
     le_Node = map_option (\<lambda>n. (ln_ID n, ln_Name n)) (cl_node l)\<rparr>]\<rparr>"

definition turnTime :: "int \<Rightarrow> int \<Rightarrow> int" where
  "turnTime now started = millis (if started = 0 then now else started)"

definition NodeEntered :: "int \<Rightarrow> log_node \<Rightarrow> call_log \<Rightarrow> call_log" where
  "NodeEntered now n l =
     (let prev = map_option (\<lambda>n. (ln_ID n, ln_Name n)) (cl_node l);
          l = log_add now (NodeTransition (ln_ID n) (ln_Name n) prev (ln_AllowInterrupt n)) (l\<lparr>cl_node := Some n\<rparr>)
      in if ln_Name n \<in> set (cl_visited l) then l else l\<lparr>cl_visited := cl_visited l @ [ln_Name n]\<rparr>)"

definition UserSaid :: "int \<Rightarrow> string \<Rightarrow> int \<Rightarrow> call_log \<Rightarrow> call_log" where
  "UserSaid now t started l =
     (let l = l\<lparr>cl_turn := cl_turn l + 1, cl_userSpoke := cl_userSpoke l \<or> t \<noteq> []\<rparr>
      in log_add now (UserTranscription t (turnTime now started)) l)"

definition AgentSaid :: "int \<Rightarrow> string \<Rightarrow> int \<Rightarrow> call_log \<Rightarrow> call_log" where
  "AgentSaid now t started l = log_add now (BotText t (turnTime now started)) l"

definition FunctionStarted :: "int \<Rightarrow> string \<Rightarrow> string \<Rightarrow> call_log \<Rightarrow> call_log" where
  "FunctionStarted now name callID l = log_add now (FunctionCallStart name callID) l"

definition FunctionEnded :: "int \<Rightarrow> string \<Rightarrow> string \<Rightarrow> string \<Rightarrow> call_log \<Rightarrow> call_log" where
  "FunctionEnded now name callID res l =
     log_add now (FunctionCallEnd name callID (if res = [] then None else Some res)) l"

definition Ending :: "string \<Rightarrow> call_log \<Rightarrow> call_log" where
  "Ending reason l = (if cl_reason l = [] then l\<lparr>cl_reason := reason\<rparr> else l)"

fun extract_keys :: "(string \<Rightarrow> string) \<Rightarrow> string list \<Rightarrow> (string \<rightharpoonup> string) \<times> string list \<Rightarrow> (string \<rightharpoonup> string) \<times> string list" where
  "extract_keys vars [] r = r"
| "extract_keys vars (k # ks) (m, keys) =
     extract_keys vars ks (m(k \<mapsto> vars k), if m k = None then keys @ [k] else keys)"

definition Extracted :: "(string \<Rightarrow> string) \<Rightarrow> string list \<Rightarrow> call_log \<Rightarrow> call_log" where
  "Extracted vars keys l =
     (let m = (case cl_extracted l of None \<Rightarrow> Map.empty | Some m \<Rightarrow> m);
          (m, ks) = extract_keys vars keys (m, cl_keys l)
      in l\<lparr>cl_extracted := Some m, cl_keys := ks\<rparr>)"

definition ReplyLatency :: "int \<Rightarrow> int \<Rightarrow> call_log \<Rightarrow> call_log" where
  "ReplyLatency now d l = log_add now (LatencyMeasured d) (l\<lparr>cl_replyLatencies := cl_replyLatencies l @ [sgn d * (\<bar>d\<bar> div 1000000)]\<rparr>)"

definition TTFBMeasured :: "int \<Rightarrow> string \<Rightarrow> int \<Rightarrow> call_log \<Rightarrow> call_log" where
  "TTFBMeasured now service d l = log_add now (TTFBMetric service d) l"

definition log_LLMUsage :: "string \<Rightarrow> usage \<Rightarrow> call_log \<Rightarrow> call_log" where
  "log_LLMUsage key u l = l\<lparr>cl_llmUsage := (cl_llmUsage l)(key \<mapsto>
     usage_Add (case cl_llmUsage l key of None \<Rightarrow> \<lparr>us_Prompt = 0, us_Completion = 0, us_Total = 0, us_Cached = 0\<rparr> | Some v \<Rightarrow> v) u)\<rparr>"

definition log_Error :: "string \<Rightarrow> call_log \<Rightarrow> call_log" where
  "log_Error stage l = l\<lparr>cl_errors := (cl_errors l)(stage \<mapsto> (case cl_errors l stage of None \<Rightarrow> 0 | Some n \<Rightarrow> n) + 1)\<rparr>"

definition TTSChars :: "int \<Rightarrow> call_log \<Rightarrow> call_log" where
  "TTSChars n l = l\<lparr>cl_ttsChars := cl_ttsChars l + n\<rparr>"

definition STTAudio :: "int \<Rightarrow> bool \<Rightarrow> call_log \<Rightarrow> call_log" where
  "STTAudio seconds gated l = l\<lparr>cl_sttSeconds := seconds, cl_sttGated := gated\<rparr>"

text \<open>The events of a \<open>Sink\<close>; the log counts some and ignores the others.\<close>

datatype sink_event = SkBargeIn | SkPaused | SkFalseInterruption | SkTurnStarted | SkSpeechHeld | SkSpeechDelivered
  | SkError string | SkTTFB string int | SkToolCall string bool int | SkLLMFallback string

definition log_sink :: "sink_event \<Rightarrow> call_log \<Rightarrow> call_log" where
  "log_sink e l = (case e of
      SkBargeIn \<Rightarrow> l\<lparr>cl_bargeIns := cl_bargeIns l + 1\<rparr>
    | SkPaused \<Rightarrow> l\<lparr>cl_pauses := cl_pauses l + 1\<rparr>
    | SkFalseInterruption \<Rightarrow> l\<lparr>cl_falseInterruptions := cl_falseInterruptions l + 1\<rparr>
    | SkTurnStarted \<Rightarrow> l\<lparr>cl_replies := cl_replies l + 1\<rparr>
    | SkSpeechHeld \<Rightarrow> l\<lparr>cl_heldSpeech := cl_heldSpeech l + 1\<rparr>
    | SkSpeechDelivered \<Rightarrow> l\<lparr>cl_heldDelivered := cl_heldDelivered l + 1\<rparr>
    | SkError stage \<Rightarrow> log_Error stage l
    | SkTTFB s d \<Rightarrow> l | SkToolCall t ok d \<Rightarrow> l | SkLLMFallback k \<Rightarrow> l)"

section \<open>The summary\<close>

definition EventTime :: "log_event \<Rightarrow> int" where
  "EventTime e = millis (case le_Payload e of UserTranscription t at \<Rightarrow> at | BotText t at \<Rightarrow> at | _ \<Rightarrow> le_Timestamp e)"

text \<open>\<open>sort.SliceStable\<close> is the library's stable sort.\<close>

definition sortedEvents :: "log_event list \<Rightarrow> log_event list" where
  "sortedEvents es = sort_key EventTime es"

record summary =
  sm_Events :: "log_event list"
  sm_NodesVisited :: "string list"
  sm_EndReason :: string
  sm_UserSpoke :: bool
  sm_Extracted :: "(string \<rightharpoonup> string) option"
  sm_ExtractedKeys :: "string list"
  sm_UserTurns :: nat
  sm_AgentReplies :: nat
  sm_BargeIns :: nat
  sm_Pauses :: nat
  sm_FalseInterruptions :: nat
  sm_HeldSpeech :: nat
  sm_HeldDelivered :: nat
  sm_Errors :: "string \<rightharpoonup> nat"
  sm_ReplyLatenciesMS :: "int list"
  sm_LLMUsage :: "string \<rightharpoonup> usage"
  sm_TTSChars :: int
  sm_STTAudioSeconds :: int
  sm_STTGated :: bool

definition Summary :: "call_log \<Rightarrow> summary" where
  "Summary l = \<lparr>sm_Events = sortedEvents (cl_events l), sm_NodesVisited = cl_visited l, sm_EndReason = cl_reason l,
     sm_UserSpoke = cl_userSpoke l, sm_Extracted = cl_extracted l, sm_ExtractedKeys = cl_keys l, sm_UserTurns = cl_turn l,
     sm_AgentReplies = cl_replies l, sm_BargeIns = cl_bargeIns l, sm_Pauses = cl_pauses l,
     sm_FalseInterruptions = cl_falseInterruptions l, sm_HeldSpeech = cl_heldSpeech l, sm_HeldDelivered = cl_heldDelivered l,
     sm_Errors = cl_errors l, sm_ReplyLatenciesMS = cl_replyLatencies l, sm_LLMUsage = cl_llmUsage l, sm_TTSChars = cl_ttsChars l,
     sm_STTAudioSeconds = cl_sttSeconds l, sm_STTGated = cl_sttGated l\<rparr>"

section \<open>Any sequence of operations\<close>

datatype log_op = OpNode int log_node | OpUser int string int | OpAgent int string int | OpStart int string string
  | OpEnd int string string string | OpEnding string | OpExtracted "string \<Rightarrow> string" "string list" | OpLatency int int
  | OpTTFB int string int | OpUsage string usage | OpTTS int | OpSTT int bool | OpSink sink_event

fun log_do :: "log_op \<Rightarrow> call_log \<Rightarrow> call_log" where
  "log_do (OpNode now n) l = NodeEntered now n l"
| "log_do (OpUser now t started) l = UserSaid now t started l"
| "log_do (OpAgent now t started) l = AgentSaid now t started l"
| "log_do (OpStart now name i) l = FunctionStarted now name i l"
| "log_do (OpEnd now name i res) l = FunctionEnded now name i res l"
| "log_do (OpEnding r) l = Ending r l"
| "log_do (OpExtracted vars keys) l = Extracted vars keys l"
| "log_do (OpLatency now d) l = ReplyLatency now d l"
| "log_do (OpTTFB now s d) l = TTFBMeasured now s d l"
| "log_do (OpUsage key u) l = log_LLMUsage key u l"
| "log_do (OpTTS n) l = TTSChars n l"
| "log_do (OpSTT s g) l = STTAudio s g l"
| "log_do (OpSink e) l = log_sink e l"

definition log_run :: "log_op list \<Rightarrow> call_log" where
  "log_run ops = fold log_do ops log_start"

section \<open>What the record says of them\<close>

definition said_by_user :: "log_op \<Rightarrow> bool" where
  "said_by_user op \<longleftrightarrow> (case op of OpUser now t s \<Rightarrow> True | _ \<Rightarrow> False)"

text \<open>The event an operation logs, given the operations before it.\<close>

definition last_node :: "log_op list \<Rightarrow> (string \<times> string) option" where
  "last_node ops = fold (\<lambda>op r. case op of OpNode now n \<Rightarrow> Some (ln_ID n, ln_Name n) | _ \<Rightarrow> r) ops None"

definition logged_payload :: "log_op list \<Rightarrow> log_op \<Rightarrow> (int \<times> payload) option" where
  "logged_payload before op = (case op of
      OpNode now n \<Rightarrow> Some (now, NodeTransition (ln_ID n) (ln_Name n) (last_node before) (ln_AllowInterrupt n))
    | OpUser now t s \<Rightarrow> Some (now, UserTranscription t (turnTime now s))
    | OpAgent now t s \<Rightarrow> Some (now, BotText t (turnTime now s))
    | OpStart now n i \<Rightarrow> Some (now, FunctionCallStart n i)
    | OpEnd now n i r \<Rightarrow> Some (now, FunctionCallEnd n i (if r = [] then None else Some r))
    | OpLatency now d \<Rightarrow> Some (now, LatencyMeasured d)
    | OpTTFB now s d \<Rightarrow> Some (now, TTFBMetric s d)
    | _ \<Rightarrow> None)"

definition logged_event :: "log_op list \<Rightarrow> log_op \<Rightarrow> log_event list" where
  "logged_event before op = (case logged_payload before op of
      None \<Rightarrow> []
    | Some (now, p) \<Rightarrow> [\<lparr>le_Payload = p, le_Timestamp = micros now,
        le_Turn = length (filter said_by_user (before @ [op])), le_Node = last_node (before @ [op])\<rparr>])"

definition logged_events :: "log_op list \<Rightarrow> log_event list" where
  "logged_events ops = concat (map (\<lambda>i. logged_event (take i ops) (ops ! i)) [0..<length ops])"

definition first_reason :: "log_op list \<Rightarrow> string" where
  "first_reason ops = (case filter (\<lambda>r. r \<noteq> []) (map (\<lambda>op. case op of OpEnding r \<Rightarrow> r | _ \<Rightarrow> []) ops) of [] \<Rightarrow> [] | r # rs \<Rightarrow> r)"

text \<open>In order of first appearance.\<close>

definition firsts :: "string list \<Rightarrow> string list" where
  "firsts xs = rev (remdups (rev xs))"

definition entered_names :: "log_op list \<Rightarrow> string list" where
  "entered_names ops = concat (map (\<lambda>op. case op of OpNode now n \<Rightarrow> [ln_Name n] | _ \<Rightarrow> []) ops)"

definition extracted_pairs :: "log_op list \<Rightarrow> (string \<times> string) list" where
  "extracted_pairs ops = concat (map (\<lambda>op. case op of OpExtracted vars keys \<Rightarrow> map (\<lambda>k. (k, vars k)) keys | _ \<Rightarrow> []) ops)"


lemma firsts_snoc [simp]: "firsts [] = []" "firsts (xs @ [x]) = (if x \<in> set xs then firsts xs else firsts xs @ [x])"
  by (simp_all add: firsts_def)

lemma set_firsts [simp]: "set (firsts xs) = set xs" "distinct (firsts xs)"
  by (simp_all add: firsts_def)

lemma logged_snoc: "logged_events (ops @ [op]) = logged_events ops @ logged_event ops op"
proof -
  have "map (\<lambda>i. logged_event (take i (ops @ [op])) ((ops @ [op]) ! i)) [0..<length (ops @ [op])]
      = map (\<lambda>i. logged_event (take i ops) (ops ! i)) [0..<length ops] @ [logged_event ops op]"
    by (simp add: nth_append)
  then show ?thesis unfolding logged_events_def by (metis concat_append concat.simps append_Nil2)
qed

lemma last_node_snoc: "last_node [] = None"
  "last_node (ops @ [op]) = (case op of OpNode now n \<Rightarrow> Some (ln_ID n, ln_Name n) | _ \<Rightarrow> last_node ops)"
  by (simp_all add: last_node_def split: log_op.split)

lemma run_snoc: "log_run [] = log_start" "log_run (ops @ [op]) = log_do op (log_run ops)"
  by (simp_all add: log_run_def)

lemma extract_keys_run:
  "set ks = dom m \<Longrightarrow> ks = firsts xs \<Longrightarrow> m = map_of (rev ps) \<Longrightarrow> xs = map fst ps \<Longrightarrow>
     extract_keys vars keys (m, ks) = (map_of (rev (ps @ map (\<lambda>k. (k, vars k)) keys)), firsts (xs @ keys))"
proof (induction keys arbitrary: m ks xs ps)
  case (Cons k keys)
  have d: "m k = None \<longleftrightarrow> k \<notin> set xs" using Cons.prems by (auto simp: domIff)
  have "extract_keys vars keys (m(k \<mapsto> vars k), firsts (xs @ [k]))
      = (map_of (rev ((ps @ [(k, vars k)]) @ map (\<lambda>k. (k, vars k)) keys)), firsts ((xs @ [k]) @ keys))"
  proof (rule Cons.IH)
    show "set (firsts (xs @ [k])) = dom (m(k \<mapsto> vars k))" using Cons.prems(1,2) by (auto simp: insert_absorb)
    show "m(k \<mapsto> vars k) = map_of (rev (ps @ [(k, vars k)]))" using Cons.prems(3) by simp
    show "xs @ [k] = map fst (ps @ [(k, vars k)])" using Cons.prems(4) by simp
  qed (rule refl)
  moreover have "(if m k = None then ks @ [k] else ks) = firsts (xs @ [k])"
    using d Cons.prems(2) by simp
  ultimately show ?case by simp
qed simp

definition log_says :: "log_op list \<Rightarrow> call_log \<Rightarrow> bool" where
  "log_says ops l \<longleftrightarrow> cl_events l = logged_events ops
     \<and> cl_turn l = length (filter said_by_user ops)
     \<and> map_option (\<lambda>n. (ln_ID n, ln_Name n)) (cl_node l) = last_node ops
     \<and> cl_visited l = firsts (entered_names ops)
     \<and> cl_reason l = first_reason ops
     \<and> cl_extracted l = (if \<exists>op \<in> set ops. \<exists>v k. op = OpExtracted v k then Some (map_of (rev (extracted_pairs ops))) else None)
     \<and> cl_keys l = firsts (map fst (extracted_pairs ops))"

lemma reason_snoc: "first_reason (ops @ [op]) =
    (if first_reason ops = [] then (case op of OpEnding r \<Rightarrow> r | _ \<Rightarrow> []) else first_reason ops)"
  by (auto simp: first_reason_def split: list.splits log_op.splits)
    (metis (mono_tags, lifting) filter_empty_conv list.set_intros(1) mem_Collect_eq set_filter)+

lemma log_says_step:
  assumes "log_says ops l"
  shows "log_says (ops @ [op]) (log_do op l)"
proof (cases op)
  case (OpExtracted vars keys)
  let ?m = "case cl_extracted l of None \<Rightarrow> Map.empty | Some m \<Rightarrow> m"
  have none: "extracted_pairs ops = []" if "\<not> (\<exists>op \<in> set ops. \<exists>v k. op = OpExtracted v k)"
    using that by (auto simp: extracted_pairs_def split: log_op.splits)
  have m: "?m = map_of (rev (extracted_pairs ops))" using assms none by (auto simp: log_says_def)
  have "extract_keys vars keys (?m, cl_keys l) = (map_of (rev (extracted_pairs ops @ map (\<lambda>k. (k, vars k)) keys)),
      firsts (map fst (extracted_pairs ops) @ keys))"
    by (rule extract_keys_run) (use assms m in \<open>auto simp: log_says_def dom_map_of_conv_image_fst\<close>)
  then show ?thesis using assms OpExtracted
    by (simp add: log_says_def Extracted_def logged_snoc logged_event_def logged_payload_def last_node_snoc said_by_user_def
        entered_names_def reason_snoc extracted_pairs_def comp_def)
next
  case (OpNode now n)
  then show ?thesis using assms
    by (simp add: log_says_def NodeEntered_def log_add_def logged_snoc logged_event_def logged_payload_def last_node_snoc
        said_by_user_def entered_names_def reason_snoc extracted_pairs_def Let_def)
next
  case (OpSink e)
  then show ?thesis using assms
    by (cases e) (simp_all add: log_says_def log_sink_def log_Error_def logged_snoc logged_event_def logged_payload_def last_node_snoc
        said_by_user_def entered_names_def reason_snoc extracted_pairs_def)
qed (use assms in \<open>simp_all add: log_says_def UserSaid_def AgentSaid_def FunctionStarted_def FunctionEnded_def Ending_def
  ReplyLatency_def TTFBMeasured_def log_LLMUsage_def TTSChars_def STTAudio_def log_add_def logged_snoc logged_event_def
  logged_payload_def last_node_snoc said_by_user_def entered_names_def reason_snoc extracted_pairs_def Let_def\<close>)

lemma log_says_run: "log_says ops (log_run ops)"
proof (induction ops rule: rev_induct)
  case Nil
  then show ?case by (simp add: log_says_def run_snoc log_start_def logged_events_def last_node_snoc entered_names_def
        first_reason_def extracted_pairs_def)
qed (simp add: run_snoc log_says_step)

section \<open>The property\<close>

text \<open>C16: Whatever is reported of a call and in whatever order, its record has every event once, in the order of the times
  at which they happened and, at one millisecond, in the order they were logged; each event carries the turn and
  the node it happened in; the caller's turns are counted; each node visited is listed once, in order of the
  first visit; the reason for the end is the first one given; and each extracted variable has the
  value extracted last, the variables in the order they first came.\<close>

theorem call_recorded:
  "let s = Summary (log_run ops) in
     mset (sm_Events s) = mset (logged_events ops) \<and> sorted (map EventTime (sm_Events s))
   \<and> (\<forall>t. filter (\<lambda>e. EventTime e = t) (sm_Events s) = filter (\<lambda>e. EventTime e = t) (logged_events ops))
   \<and> sm_UserTurns s = length (filter said_by_user ops)
   \<and> sm_NodesVisited s = firsts (entered_names ops)
   \<and> sm_EndReason s = first_reason ops
   \<and> sm_Extracted s = (if \<exists>op \<in> set ops. \<exists>v k. op = OpExtracted v k then Some (map_of (rev (extracted_pairs ops))) else None)
   \<and> sm_ExtractedKeys s = firsts (map fst (extracted_pairs ops))"
proof -
  have "log_says ops (log_run ops)" by (rule log_says_run)
  then show ?thesis by (simp add: Summary_def log_says_def sortedEvents_def Let_def sort_key_stable)
qed

text \<open>A caller who cuts in: the interrupted reply is logged after the caller's words but began before them.\<close>

theorem call_recorded_witness:
  "map le_Payload (sm_Events (Summary (log_run [OpUser 9000000 ''stop'' 7000000, OpAgent 9000000 ''I will'' 2000000, OpEnding ''end_call_tool'', OpEnding ''user_hangup'']))) =
     [BotText ''I will'' 2000000, UserTranscription ''stop'' 7000000]
   \<and> sm_EndReason (Summary (log_run [OpUser 9000000 ''stop'' 7000000, OpAgent 9000000 ''I will'' 2000000, OpEnding ''end_call_tool'', OpEnding ''user_hangup''])) = ''end_call_tool''"
  using call_recorded [of "[OpUser 9000000 ''stop'' 7000000, OpAgent 9000000 ''I will'' 2000000, OpEnding ''end_call_tool'', OpEnding ''user_hangup'']"]
  by (simp add: Let_def Summary_def log_run_def UserSaid_def AgentSaid_def Ending_def log_add_def log_start_def sortedEvents_def
      turnTime_def millis_def micros_def EventTime_def first_reason_def)

end
