(* ===== verification/Configuration.thy ===== *)
theory Configuration
  imports Complex_Main Workflow_Template Pcm
begin

text \<open>
  The configuration (\<open>internal/config/config.go\<close>): the \<open>.env\<close> file, reading variables, and \<open>Load\<close> with its checks, one
  definition per group of settings, in the order of the code. Text is a list of code points. An \<open>int\<close> has 64 bits;
  a duration is a number of nanoseconds in one. \<open>strconv.ParseFloat\<close> and the Unicode tables are parameters.
\<close>

section \<open>Values\<close>

definition wrap64 :: "int \<Rightarrow> int" where
  "wrap64 n = (n + 2 ^ 63) mod 2 ^ 64 - 2 ^ 63"

text \<open>\<open>time.Duration(n) * time.Second\<close> and \<open>* time.Millisecond\<close>.\<close>

definition seconds :: "int \<Rightarrow> int" where
  "seconds n = wrap64 (n * 1000000000)"

definition milliseconds :: "int \<Rightarrow> int" where
  "milliseconds n = wrap64 (n * 1000000)"

datatype float64 = NaN | NegInf | Fin rat | PosInf

text \<open>\<open><\<close> on \<open>float64\<close>.\<close>

fun fl_less :: "float64 \<Rightarrow> float64 \<Rightarrow> bool" where
  "fl_less NaN y = False"
| "fl_less x NaN = False"
| "fl_less (Fin a) (Fin b) = (a < b)"
| "fl_less NegInf y = (y \<noteq> NegInf)"
| "fl_less x PosInf = (x \<noteq> PosInf)"
| "fl_less x y = False"

text \<open>\<open>strconv.Atoi\<close>.\<close>

fun dec_value :: "int \<Rightarrow> runes \<Rightarrow> int" where
  "dec_value acc [] = acc"
| "dec_value acc (r # rs) = dec_value (10 * acc + (int r - 48)) rs"

definition parse_int :: "runes \<Rightarrow> int option" where
  "parse_int s =
     (let neg = (take 1 s = [45]);
          ds = (if take 1 s = [45] \<or> take 1 s = [43] then drop 1 s else s);
          n = (if neg then - dec_value 0 ds else dec_value 0 ds)
      in if ds = [] \<or> \<not> list_all (\<lambda>r. 48 \<le> r \<and> r \<le> 57) ds \<or> n < - (2 ^ 63) \<or> 2 ^ 63 \<le> n then None else Some n)"

section \<open>The environment\<close>

type_synonym environment = "runes \<rightharpoonup> runes"

definition unquote :: "runes \<Rightarrow> runes" where
  "unquote v = (if 2 \<le> length v \<and> (hd v = 34 \<and> last v = 34 \<or> hd v = 39 \<and> last v = 39) then butlast (tl v) else v)"

text \<open>\<open>os.Setenv\<close> refuses an empty key and a zero byte.\<close>

definition Setenv :: "runes \<Rightarrow> runes \<Rightarrow> environment \<Rightarrow> environment" where
  "Setenv k v env = (if k = [] \<or> 0 \<in> set k \<or> 0 \<in> set v then env else env(k \<mapsto> v))"

text \<open>A line of the file.\<close>

definition dotenv_line :: "unicode \<Rightarrow> runes \<Rightarrow> environment \<Rightarrow> environment" where
  "dotenv_line u line env =
     (let line = trim_space u line;
          line = (if starts_with (runes_of ''export '') line then drop 7 line else line)
      in if line = [] \<or> hd line = 35 \<or> 61 \<notin> set line then env
         else
           let key = trim_space u (takeWhile (\<lambda>r. r \<noteq> 61) line);
               value = unquote (trim_space u (drop 1 (dropWhile (\<lambda>r. r \<noteq> 61) line)))
           in if env key = None then Setenv key value env else env)"

text \<open>\<open>strings.Split(data, "\n")\<close>.\<close>

fun split_lines :: "runes \<Rightarrow> runes list" where
  "split_lines [] = [[]]"
| "split_lines (c # cs) = (if c = 10 then [] # split_lines cs
     else case split_lines cs of [] \<Rightarrow> [[c]] | l # ls \<Rightarrow> (c # l) # ls)"

definition applyDotenv :: "unicode \<Rightarrow> runes \<Rightarrow> environment \<Rightarrow> environment" where
  "applyDotenv u data env = fold (dotenv_line u) (split_lines data) env"

text \<open>The \<open>.env\<close> files from the working directory up to the root, where they can be read.\<close>

fun loadDotenv :: "unicode \<Rightarrow> runes option list \<Rightarrow> environment \<Rightarrow> environment" where
  "loadDotenv u [] env = env"
| "loadDotenv u (Some data # dirs) env = applyDotenv u data env"
| "loadDotenv u (None # dirs) env = loadDotenv u dirs env"

datatype config_error = NotANumber string | Refused string

definition getEnv :: "environment \<Rightarrow> string \<Rightarrow> string \<Rightarrow> runes" where
  "getEnv env key def = (case env (runes_of key) of Some v \<Rightarrow> if v \<noteq> [] then v else runes_of def | None \<Rightarrow> runes_of def)"

definition getEnvInt :: "environment \<Rightarrow> string \<Rightarrow> int \<Rightarrow> config_error + int" where
  "getEnvInt env key def = (case env (runes_of key) of
      None \<Rightarrow> Inr def
    | Some v \<Rightarrow> if v = [] then Inr def else (case parse_int v of None \<Rightarrow> Inl (NotANumber key) | Some n \<Rightarrow> Inr n))"

definition getEnvFloat :: "(runes \<Rightarrow> float64 option) \<Rightarrow> environment \<Rightarrow> string \<Rightarrow> rat \<Rightarrow> config_error + float64" where
  "getEnvFloat pf env key def = (case env (runes_of key) of
      None \<Rightarrow> Inr (Fin def)
    | Some v \<Rightarrow> if v = [] then Inr (Fin def) else (case pf v of None \<Rightarrow> Inl (NotANumber key) | Some x \<Rightarrow> Inr x))"

section \<open>Settings\<close>

record settings =
  cg_AriURL :: runes
  cg_AriUser :: runes
  cg_AriPass :: runes
  cg_AriApp :: runes
  cg_MediaIP :: runes
  cg_MediaPortBase :: int
  cg_MediaPortCount :: int
  cg_MetricsAddr :: runes
  cg_AudioL16Endianness :: runes
  cg_JitterBufferPackets :: int
  cg_RecordDir :: runes
  cg_AppMode :: runes
  cg_TestSilentHandler :: bool
  cg_MediaEncapsulation :: runes
  cg_DebugAudio :: bool
  cg_MaxCallDuration :: int
  cg_LLMRetries :: int
  cg_LLMRetryMaxWait :: int
  cg_LLMMaxFailedTurns :: int
  cg_LLMFallbackText :: runes
  cg_MediaDeadTimeout :: int
  cg_OutboundRingTimeout :: int
  cg_OutboundTestCall :: runes
  cg_CampaignsEnabled :: bool
  cg_RedisURL :: runes
  cg_OutboundMaxCalls :: int
  cg_OutboundDefaultOrgLimit :: int
  cg_CampaignPoll :: int
  cg_DograhDBURL :: runes
  cg_DograhWorkflowID :: int
  cg_DograhDBMaxConns :: int
  cg_MinioEndpoint :: runes
  cg_MinioAccessKey :: runes
  cg_MinioSecretKey :: runes
  cg_MinioBucket :: runes
  cg_MinioSecure :: bool
  cg_BargeInEnabled :: bool
  cg_BargeInRMSFloor :: float64
  cg_BargeInGuard :: int
  cg_BargeInMinSpeech :: int
  cg_STTFlushAfter :: int
  cg_STTSpeechOnly :: bool
  cg_STTPreroll :: int
  cg_STTHangover :: int
  cg_STTGateRMSFloor :: float64
  cg_PostCutSilence :: int
  cg_BargeInAckFilter :: bool
  cg_AckEndMargin :: int
  cg_VadMode :: runes
  cg_TenVadThreshold :: float64
  cg_Telephony :: runes
  cg_EslAddr :: runes
  cg_EslPassword :: runes
  cg_EarshotListenAddr :: runes
  cg_EarshotAuthToken :: runes

text \<open>\<open>strings.EqualFold\<close> with an ASCII text none of whose letters has another folding.\<close>

definition fold_equal :: "runes \<Rightarrow> string \<Rightarrow> bool" where
  "fold_equal s t \<longleftrightarrow> map (\<lambda>r. if 65 \<le> r \<and> r \<le> 90 then r + 32 else r) s = runes_of t"

definition read_strings :: "environment \<Rightarrow> settings" where
  "read_strings env = \<lparr>
     cg_AriURL = getEnv env ''ARI_URL'' ''http://localhost:8088/ari'', cg_AriUser = getEnv env ''ARI_USER'' ''vaani'',
     cg_AriPass = getEnv env ''ARI_PASS'' ''vaani'', cg_AriApp = getEnv env ''ARI_APP'' ''vaani'', cg_MediaIP = getEnv env ''MEDIA_IP'' ''127.0.0.1'',
     cg_MediaPortBase = 20000, cg_MediaPortCount = 256, cg_MetricsAddr = getEnv env ''METRICS_ADDR'' '':9091'',
     cg_AudioL16Endianness = getEnv env ''AUDIO_L16_ENDIANNESS'' ''le'', cg_JitterBufferPackets = 3, cg_RecordDir = getEnv env ''RECORD_DIR'' [],
     cg_AppMode = getEnv env ''APP_MODE'' ''loopback'', cg_TestSilentHandler = (getEnv env ''TEST_SILENT_HANDLER'' [] = [49]),
     cg_MediaEncapsulation = getEnv env ''MEDIA_ENCAPSULATION'' ''rtp'', cg_DebugAudio = (getEnv env ''DEBUG_AUDIO'' [] = [49]),
     cg_MaxCallDuration = 0, cg_LLMRetries = 0, cg_LLMRetryMaxWait = 0, cg_LLMMaxFailedTurns = 0, cg_LLMFallbackText = [], cg_MediaDeadTimeout = 0,
     cg_OutboundRingTimeout = 0, cg_OutboundTestCall = [], cg_CampaignsEnabled = False, cg_RedisURL = [], cg_OutboundMaxCalls = 0,
     cg_OutboundDefaultOrgLimit = 0, cg_CampaignPoll = 0, cg_DograhDBURL = getEnv env ''DOGRAH_DB_URL'' [], cg_DograhWorkflowID = 0, cg_DograhDBMaxConns = 0,
     cg_MinioEndpoint = getEnv env ''MINIO_ENDPOINT'' [], cg_MinioAccessKey = getEnv env ''MINIO_ACCESS_KEY'' [],
     cg_MinioSecretKey = getEnv env ''MINIO_SECRET_KEY'' [], cg_MinioBucket = getEnv env ''MINIO_BUCKET'' ''voice-audio'',
     cg_MinioSecure = fold_equal (getEnv env ''MINIO_SECURE'' ''false'') ''true'', cg_BargeInEnabled = (getEnv env ''BARGE_IN_ENABLED'' ''1'' = [49]),
     cg_BargeInRMSFloor = Fin 0, cg_BargeInGuard = 0, cg_BargeInMinSpeech = 0, cg_STTFlushAfter = 0, cg_STTSpeechOnly = False, cg_STTPreroll = 0,
     cg_STTHangover = 0, cg_STTGateRMSFloor = Fin 0, cg_PostCutSilence = 0, cg_BargeInAckFilter = (getEnv env ''BARGE_IN_ACK_FILTER'' ''1'' = [49]),
     cg_AckEndMargin = 0, cg_VadMode = getEnv env ''VAD_MODE'' ''energy'', cg_TenVadThreshold = Fin 0,
     cg_Telephony = getEnv env ''TELEPHONY'' ''asterisk'', cg_EslAddr = getEnv env ''ESL_ADDR'' ''127.0.0.1:8021'',
     cg_EslPassword = getEnv env ''ESL_PASSWORD'' [], cg_EarshotListenAddr = getEnv env ''EARSHOT_LISTEN_ADDR'' '':9095'',
     cg_EarshotAuthToken = getEnv env ''EARSHOT_AUTH_TOKEN'' []\<rparr>"

section \<open>Loading\<close>

text \<open>An early return of an error, and a check.\<close>

definition chain :: "'e + 'a \<Rightarrow> ('a \<Rightarrow> 'e + 'b) \<Rightarrow> 'e + 'b" where
  "chain m f = (case m of Inl e \<Rightarrow> Inl e | Inr x \<Rightarrow> f x)"

definition check :: "bool \<Rightarrow> string \<Rightarrow> config_error + 'a \<Rightarrow> config_error + 'a" where
  "check b name m = (if b then m else Inl (Refused name))"

datatype config_warning = NoEarshotToken | NoMinio | EndpointNormalized | DevPassword | DevMediaIP

definition load_ports :: "environment \<Rightarrow> settings \<Rightarrow> config_error + settings" where
  "load_ports env c =
     chain (getEnvInt env ''MEDIA_PORT_BASE'' (cg_MediaPortBase c)) (\<lambda>base.
     chain (getEnvInt env ''MEDIA_PORT_COUNT'' (cg_MediaPortCount c)) (\<lambda>count.
     chain (getEnvInt env ''DOGRAH_WORKFLOW_ID'' 0) (\<lambda>workflow.
     chain (getEnvInt env ''DOGRAH_DB_MAX_CONNS'' 50) (\<lambda>conns.
     check (1 \<le> conns) ''DOGRAH_DB_MAX_CONNS'' (
     check (0 < count) ''MEDIA_PORT_COUNT'' (
     check (1024 \<le> base) ''MEDIA_PORT_BASE'' (
     check (wrap64 (base + count) \<le> 65535) ''MEDIA_PORT_BASE + MEDIA_PORT_COUNT'' (
     Inr (c\<lparr>cg_MediaPortBase := base, cg_MediaPortCount := count, cg_DograhWorkflowID := workflow, cg_DograhDBMaxConns := conns\<rparr>)))))))))"

definition load_calls :: "environment \<Rightarrow> settings \<Rightarrow> config_error + settings" where
  "load_calls env c =
     chain (getEnvInt env ''JITTER_BUFFER_PACKETS'' (cg_JitterBufferPackets c)) (\<lambda>packets.
     check (1 \<le> packets \<and> packets \<le> 10) ''JITTER_BUFFER_PACKETS'' (
     chain (getEnvInt env ''MAX_CALL_DURATION_SECONDS'' 0) (\<lambda>max_call.
     check (0 \<le> max_call) ''MAX_CALL_DURATION_SECONDS'' (
     chain (getEnvInt env ''LLM_RETRIES'' 2) (\<lambda>retries.
     chain (getEnvInt env ''LLM_RETRY_MAX_WAIT_MS'' 2000) (\<lambda>wait.
     check (0 \<le> retries \<and> 0 \<le> wait) ''LLM_RETRIES and LLM_RETRY_MAX_WAIT_MS'' (
     chain (getEnvInt env ''LLM_MAX_FAILED_TURNS'' 3) (\<lambda>turns.
     check (0 \<le> turns) ''LLM_MAX_FAILED_TURNS'' (
     chain (getEnvInt env ''MEDIA_DEAD_TIMEOUT_SECONDS'' 30) (\<lambda>dead.
     check (0 \<le> dead) ''MEDIA_DEAD_TIMEOUT_SECONDS'' (
     chain (getEnvInt env ''OUTBOUND_RING_TIMEOUT_SECONDS'' 30) (\<lambda>ring.
     check (5 \<le> ring \<and> ring \<le> 300) ''OUTBOUND_RING_TIMEOUT_SECONDS'' (
     Inr (c\<lparr>cg_JitterBufferPackets := packets, cg_MaxCallDuration := seconds max_call, cg_LLMRetries := retries,
       cg_LLMRetryMaxWait := milliseconds wait, cg_LLMMaxFailedTurns := turns, cg_LLMFallbackText := getEnv env ''LLM_FALLBACK_TEXT'' [],
       cg_MediaDeadTimeout := seconds dead, cg_OutboundRingTimeout := seconds ring,
       cg_OutboundTestCall := getEnv env ''OUTBOUND_TEST_CALL'' []\<rparr>))))))))))))))"

definition load_campaigns :: "environment \<Rightarrow> settings \<Rightarrow> config_error + settings" where
  "load_campaigns env c =
     (let enabled = (getEnv env ''CAMPAIGNS_ENABLED'' ''0'' = [49]); redis = getEnv env ''REDIS_URL'' [] in
     chain (getEnvInt env ''OUTBOUND_MAX_CALLS'' 20) (\<lambda>calls.
     chain (getEnvInt env ''OUTBOUND_DEFAULT_ORG_CONCURRENCY'' 2) (\<lambda>limit.
     chain (getEnvInt env ''CAMPAIGN_POLL_SECONDS'' 5) (\<lambda>poll.
     check (0 \<le> calls \<and> 1 \<le> limit \<and> 1 \<le> poll) ''OUTBOUND_MAX_CALLS, OUTBOUND_DEFAULT_ORG_CONCURRENCY and CAMPAIGN_POLL_SECONDS'' (
     check (\<not> (enabled \<and> (redis = [] \<or> cg_DograhDBURL c = []))) ''CAMPAIGNS_ENABLED'' (
     Inr (c\<lparr>cg_CampaignsEnabled := enabled, cg_RedisURL := redis, cg_OutboundMaxCalls := calls, cg_OutboundDefaultOrgLimit := limit,
       cg_CampaignPoll := seconds poll\<rparr>)))))))"

definition ParseEndianness :: "unicode \<Rightarrow> runes \<Rightarrow> endianness option" where
  "ParseEndianness u s =
     (let t = map (u_lower u) (trim_space u s)
      in if t = runes_of ''le'' \<or> t = [] then Some LittleEndian else if t = runes_of ''be'' then Some BigEndian else None)"

definition blanks :: runes where
  "blanks = [32, 9, 13, 10]"

definition load_modes :: "unicode \<Rightarrow> settings \<Rightarrow> config_error + config_warning list" where
  "load_modes u c =
     check (ParseEndianness u (cg_AudioL16Endianness c) \<noteq> None) ''AUDIO_L16_ENDIANNESS'' (
     check (cg_AppMode c = runes_of ''loopback'' \<or> cg_AppMode c = runes_of ''agent'') ''APP_MODE'' (
     chain (if cg_Telephony c = runes_of ''asterisk'' then Inr []
            else if cg_Telephony c = runes_of ''freeswitch'' then
              check (cg_EslPassword c \<noteq> []) ''ESL_PASSWORD'' (Inr (if cg_EarshotAuthToken c = [] then [NoEarshotToken] else []))
            else Inl (Refused ''TELEPHONY'')) (\<lambda>ws.
     check (\<not> list_ex (\<lambda>r. r \<in> set blanks) (cg_EarshotAuthToken c)) ''EARSHOT_AUTH_TOKEN'' (
     check (cg_MediaEncapsulation c = runes_of ''rtp'' \<or> cg_MediaEncapsulation c = runes_of ''audiosocket'') ''MEDIA_ENCAPSULATION'' (
     Inr ws)))))"

text \<open>The default of \<open>TEN_VAD_THRESHOLD\<close> is the \<open>float64\<close> nearest to 0.7.\<close>

definition load_bargein :: "(runes \<Rightarrow> float64 option) \<Rightarrow> environment \<Rightarrow> settings \<Rightarrow> config_error + settings" where
  "load_bargein pf env c =
     chain (getEnvFloat pf env ''BARGE_IN_RMS_FLOOR'' 500) (\<lambda>rms_floor.
     check (\<not> fl_less rms_floor (Fin 0)) ''BARGE_IN_RMS_FLOOR'' (
     check (cg_VadMode c = runes_of ''energy'' \<or> cg_VadMode c = runes_of ''ten'') ''VAD_MODE'' (
     chain (getEnvFloat pf env ''TEN_VAD_THRESHOLD'' (3152519739159347 / 2 ^ 52)) (\<lambda>threshold.
     check (\<not> (fl_less threshold (Fin 0) \<or> fl_less (Fin 1) threshold)) ''TEN_VAD_THRESHOLD'' (
     chain (getEnvInt env ''BARGE_IN_GUARD_MS'' 300) (\<lambda>guard.
     check (0 \<le> guard) ''BARGE_IN_GUARD_MS'' (
     chain (getEnvInt env ''BARGE_IN_MIN_SPEECH_MS'' 200) (\<lambda>speech.
     check (0 \<le> speech) ''BARGE_IN_MIN_SPEECH_MS'' (
     Inr (c\<lparr>cg_BargeInRMSFloor := rms_floor, cg_TenVadThreshold := threshold, cg_BargeInGuard := milliseconds guard,
       cg_BargeInMinSpeech := milliseconds speech\<rparr>))))))))))"

definition load_stt :: "(runes \<Rightarrow> float64 option) \<Rightarrow> environment \<Rightarrow> settings \<Rightarrow> config_error + settings" where
  "load_stt pf env c =
     (let only = (getEnv env ''STT_SPEECH_ONLY'' ''0'' = [49]) in
     chain (getEnvInt env ''STT_FLUSH_AFTER_MS'' 400) (\<lambda>flush.
     check (0 \<le> flush) ''STT_FLUSH_AFTER_MS'' (
     chain (getEnvInt env ''STT_PREROLL_MS'' 1000) (\<lambda>preroll.
     chain (getEnvInt env ''STT_HANGOVER_MS'' 700) (\<lambda>hangover.
     check (0 \<le> preroll \<and> 0 \<le> hangover) ''STT_PREROLL_MS and STT_HANGOVER_MS'' (
     chain (getEnvFloat pf env ''STT_GATE_RMS_FLOOR'' 400) (\<lambda>rms_floor.
     check (\<not> fl_less rms_floor (Fin 0)) ''STT_GATE_RMS_FLOOR'' (
     check (only \<longrightarrow> cg_VadMode c = runes_of ''ten'') ''STT_SPEECH_ONLY'' (
     check (\<not> (only \<and> 0 < milliseconds flush \<and> milliseconds hangover \<le> milliseconds flush)) ''STT_HANGOVER_MS'' (
     Inr (c\<lparr>cg_STTFlushAfter := milliseconds flush, cg_STTSpeechOnly := only, cg_STTPreroll := milliseconds preroll,
       cg_STTHangover := milliseconds hangover, cg_STTGateRMSFloor := rms_floor\<rparr>)))))))))))"

definition load_margins :: "environment \<Rightarrow> settings \<Rightarrow> config_error + settings" where
  "load_margins env c =
     chain (getEnvInt env ''POST_CUT_SILENCE_MS'' 300) (\<lambda>silence.
     check (0 \<le> silence) ''POST_CUT_SILENCE_MS'' (
     chain (getEnvInt env ''ACK_END_MARGIN_MS'' 300) (\<lambda>margin.
     check (0 \<le> margin) ''ACK_END_MARGIN_MS'' (
     Inr (c\<lparr>cg_PostCutSilence := milliseconds silence, cg_AckEndMargin := milliseconds margin\<rparr>)))))"

definition load_agent :: "settings \<Rightarrow> config_error + config_warning list" where
  "load_agent c =
     (if cg_AppMode c = runes_of ''agent'' then
        check (cg_DograhDBURL c \<noteq> []) ''DOGRAH_DB_URL'' (
        check (0 < cg_DograhWorkflowID c) ''DOGRAH_WORKFLOW_ID'' (
        Inr (if cg_MinioEndpoint c = [] then [NoMinio] else [])))
      else Inr [])"

text \<open>\<open>net.SplitHostPort\<close>, as far as its error is concerned.\<close>

datatype host_port = HostPort | MissingPort | BadAddress

definition last_colon :: "runes \<Rightarrow> nat option" where
  "last_colon v = find (\<lambda>i. v ! i = 58) (rev [0..<length v])"

definition SplitHostPort :: "runes \<Rightarrow> host_port" where
  "SplitHostPort v = (case last_colon v of
      None \<Rightarrow> MissingPort
    | Some i \<Rightarrow>
        if hd v = 91 then
          (if 93 \<notin> set v then BadAddress
           else let e = length (takeWhile (\<lambda>r. r \<noteq> 93) v)
             in if e + 1 = length v then MissingPort
                else if e + 1 = i then (if 91 \<in> set (drop 1 v) \<or> 93 \<in> set (drop (e + 1) v) then BadAddress else HostPort)
                else if v ! (e + 1) = 58 then BadAddress else MissingPort)
        else if 58 \<in> set (take i v) \<or> 91 \<in> set v \<or> 93 \<in> set v then BadAddress else HostPort)"

fun strip_scheme :: "string list \<Rightarrow> runes \<Rightarrow> runes \<times> bool" where
  "strip_scheme [] v = (v, False)"
| "strip_scheme (p # ps) v = (if fold_equal (take (length p) v) p then (drop (length p) v, True) else strip_scheme ps v)"

definition normalizeMinioEndpoint :: "unicode \<Rightarrow> runes \<Rightarrow> (runes \<times> bool) option" where
  "normalizeMinioEndpoint u raw =
     (let (v, changed) = strip_scheme [''http://'', ''https://'', ''http:'', ''https:''] (trim_space u raw);
          changed = (changed \<or> 47 \<in> set v);
          v = trim_space u (takeWhile (\<lambda>r. r \<noteq> 47) v)
      in if v = [] \<or> 32 \<in> set v \<or> 9 \<in> set v \<or> SplitHostPort v = BadAddress then None else Some (v, changed))"

definition load_minio :: "unicode \<Rightarrow> settings \<Rightarrow> config_error + settings \<times> config_warning list" where
  "load_minio u c =
     (if cg_MinioEndpoint c = [] then Inr (c, [])
      else case normalizeMinioEndpoint u (cg_MinioEndpoint c) of
          None \<Rightarrow> Inl (Refused ''MINIO_ENDPOINT'')
        | Some (v, changed) \<Rightarrow>
            check (cg_MinioAccessKey c \<noteq> [] \<and> cg_MinioSecretKey c \<noteq> []) ''MINIO_ACCESS_KEY and MINIO_SECRET_KEY'' (
            Inr (c\<lparr>cg_MinioEndpoint := v\<rparr>, if changed then [EndpointNormalized] else [])))"

definition default_warnings :: "environment \<Rightarrow> settings \<Rightarrow> config_warning list" where
  "default_warnings env c =
     (if cg_Telephony c \<noteq> runes_of ''asterisk'' then []
      else (if env (runes_of ''ARI_PASS'') = None then [DevPassword] else [])
        @ (if env (runes_of ''MEDIA_IP'') = None then [DevMediaIP] else []))"

definition load_env :: "unicode \<Rightarrow> (runes \<Rightarrow> float64 option) \<Rightarrow> environment \<Rightarrow> config_error + settings \<times> config_warning list" where
  "load_env u pf env =
     chain (load_ports env (read_strings env)) (\<lambda>c.
     chain (load_calls env c) (\<lambda>c.
     chain (load_campaigns env c) (\<lambda>c.
     chain (load_modes u c) (\<lambda>w1.
     chain (load_bargein pf env c) (\<lambda>c.
     chain (load_stt pf env c) (\<lambda>c.
     chain (load_margins env c) (\<lambda>c.
     chain (load_agent c) (\<lambda>w2.
     chain (load_minio u c) (\<lambda>(c, w3).
     Inr (c, w1 @ w2 @ w3 @ default_warnings env c))))))))))"

definition Load :: "unicode \<Rightarrow> (runes \<Rightarrow> float64 option) \<Rightarrow> runes option list \<Rightarrow> environment \<Rightarrow> config_error + settings \<times> config_warning list" where
  "Load u pf dirs env = load_env u pf (loadDotenv u dirs env)"

end
