(* ===== verification/Config_Claims.thy ===== *)
theory Config_Claims
  imports Configuration Port_Alloc
begin

text \<open>
  What \<open>Load\<close> promises of the settings it returns, and what a \<open>.env\<close> file does.
\<close>

section \<open>Checks\<close>








section \<open>What is promised\<close>





section \<open>One group after another\<close>












section \<open>Loaded settings\<close>



section \<open>The \<open>.env\<close> file\<close>

datatype file_line = Entry runes runes | Note runes

fun write_line :: "file_line \<Rightarrow> runes" where
  "write_line (Entry k v) = k @ [61, 34] @ v @ [34]"
| "write_line (Note t) = 35 # t"

fun good_line :: "unicode \<Rightarrow> file_line \<Rightarrow> bool" where
  "good_line u (Entry k v) = (k \<noteq> [] \<and> hd k \<noteq> 35 \<and> (\<forall>r \<in> set k. \<not> u_space u r \<and> r \<notin> {0, 10, 32, 61}) \<and> (\<forall>r \<in> set v. r \<notin> {0, 10}))"
| "good_line u (Note t) = (10 \<notin> set t)"

fun entries :: "file_line list \<Rightarrow> (runes \<times> runes) list" where
  "entries [] = []"
| "entries (Entry k v # ls) = (k, v) # entries ls"
| "entries (Note t # ls) = entries ls"

lemma trim_id: "s \<noteq> [] \<Longrightarrow> \<not> u_space u (hd s) \<Longrightarrow> \<not> u_space u (last s) \<Longrightarrow> trim_space u s = s"
proof -
  assume s: "s \<noteq> []" "\<not> u_space u (hd s)" "\<not> u_space u (last s)"
  have "dropWhile (u_space u) s = s" using s by (cases s) auto
  moreover have "dropWhile (u_space u) (rev s) = rev s" using s by (cases s rule: rev_cases) auto
  ultimately show ?thesis by (simp add: trim_space_def)
qed

lemma split_line: "10 \<notin> set l \<Longrightarrow> split_lines (l @ 10 # s) = l # split_lines s"
  by (induction l) auto

lemma split_file: "\<forall>l \<in> set ls. 10 \<notin> set l \<Longrightarrow> split_lines (concat (map (\<lambda>l. l @ [10]) ls)) = ls @ [[]]"
  by (induction ls) (simp_all add: split_line)

lemma written_no_newline: "good_line u l \<Longrightarrow> 10 \<notin> set (write_line l)"
  by (cases l) auto

lemma not_export:
  assumes "\<forall>r \<in> set k. r \<noteq> 32"
  shows "\<not> starts_with (runes_of ''export '') (k @ 61 # s)"
proof
  assume st: "starts_with (runes_of ''export '') (k @ 61 # s)"
  then have t: "take 7 (k @ 61 # s) = runes_of ''export ''" by (simp add: starts_with_def runes_of_def numeral_eq_Suc)
  have p: "32 \<in> set (runes_of ''export '')" "61 \<notin> set (runes_of ''export '')" by (simp_all add: runes_of_def)
  show False
  proof (cases "7 \<le> length k")
    case True
    then have "take 7 (k @ 61 # s) = take 7 k" by simp
    then show False using t p(1) assms by (metis in_set_takeD)
  next
    case False
    then have "61 \<in> set (take 7 (k @ 61 # s))" by (cases "7 - length k") auto
    then show False using t p(2) by metis
  qed
qed

lemma line_applied:
  assumes "good_line u l" "\<not> u_space u 35" "\<not> u_space u 34"
  shows "dotenv_line u (write_line l) env = (case l of Entry k v \<Rightarrow> if env k = None then env(k \<mapsto> v) else env | Note t \<Rightarrow> env)"
proof (cases l)
  case (Note t)
  have "hd (trim_space u (35 # t)) = 35 \<and> trim_space u (35 # t) \<noteq> [] \<and> \<not> starts_with (runes_of ''export '') (trim_space u (35 # t))"
  proof -
    have "\<exists>t'. trim_space u (35 # t) = 35 # t'"
    proof -
      have "dropWhile (u_space u) (35 # t) = 35 # t" using assms(2) by simp
      moreover have "\<exists>t'. rev (dropWhile (u_space u) (rev t @ [35])) = 35 # t'"
        using assms(2) by (cases "dropWhile (u_space u) (rev t) = []") (auto simp: dropWhile_append dropWhile_append3, metis rev_rev_ident)
      ultimately show ?thesis by (simp add: trim_space_def)
    qed
    then show ?thesis by (auto simp: starts_with_def runes_of_def)
  qed
  then show ?thesis using Note by (simp add: dotenv_line_def Let_def)
next
  case (Entry k v)
  let ?line = "k @ 61 # 34 # v @ [34]"
  have k: "k \<noteq> []" "hd k \<noteq> 35" "\<forall>r \<in> set k. \<not> u_space u r \<and> r \<noteq> 0 \<and> r \<noteq> 32 \<and> r \<noteq> 61" "0 \<notin> set v"
    using assms(1) Entry by auto
  have t: "trim_space u ?line = ?line" using k assms(3) by (intro trim_id) auto
  have x: "\<not> starts_with (runes_of ''export '') ?line" using not_export [of k "34 # v @ [34]"] k by blast
  have key: "takeWhile (\<lambda>r. r \<noteq> 61) ?line = k" "dropWhile (\<lambda>r. r \<noteq> 61) ?line = 61 # 34 # v @ [34]"
    using k(3) by (simp_all add: takeWhile_append2 dropWhile_append2)
  have tk: "trim_space u k = k" using k by (intro trim_id) auto
  have tv: "trim_space u (34 # v @ [34]) = 34 # v @ [34]" using assms(3) by (intro trim_id) auto
  have q: "unquote (34 # v @ [34]) = v" by (simp add: unquote_def)
  have z: "0 \<notin> set k" using k(3) by blast
  show ?thesis
    using Entry k(1,2,4) z t x by (simp add: dotenv_line_def Let_def key tk tv q Setenv_def)
qed

lemma file_applied:
  assumes "\<forall>l \<in> set ls. good_line u l" "\<not> u_space u 35" "\<not> u_space u 34"
  shows "fold (dotenv_line u) (map write_line ls) env = map_of (entries ls) ++ env"
  using assms(1)
proof (induction ls arbitrary: env)
  case (Cons l ls)
  have "map_of (entries ls) ++ (case l of Entry k v \<Rightarrow> if env k = None then env(k \<mapsto> v) else env | Note t \<Rightarrow> env)
      = map_of (entries (l # ls)) ++ env"
    by (cases l) (auto simp: fun_eq_iff map_add_def split: option.splits)
  then show ?case using Cons line_applied [OF _ assms(2,3)] by simp
qed simp

text \<open>C40: roundtrip: a \<open>.env\<close> file written with quoted values and comments is read back: the nearest readable file is the one
  used, a variable already set keeps its value, and of two entries for a key the first counts.\<close>
theorem dotenv_read_back:
  assumes "\<forall>l \<in> set ls. good_line u l" "\<not> u_space u 35" "\<not> u_space u 34"
  shows "loadDotenv u (replicate n None @ Some (concat (map (\<lambda>l. write_line l @ [10]) ls)) # dirs) env = map_of (entries ls) ++ env"
proof -
  have "loadDotenv u (replicate n None @ Some d # dirs) env = applyDotenv u d env" for d by (induction n) auto
  moreover have "split_lines (concat (map (\<lambda>l. write_line l @ [10]) ls)) = map write_line ls @ [[]]"
    using split_file [of "map write_line ls"] assms(1) written_no_newline by (simp add: comp_def) blast
  moreover have "dotenv_line u [] env = env" for env by (simp add: dotenv_line_def trim_space_def starts_with_def runes_of_def)
  ultimately show ?thesis using file_applied [OF assms] by (simp add: applyDotenv_def)
qed

section \<open>Concrete environments\<close>

definition no_floats :: "runes \<Rightarrow> float64 option" where
  "no_floats s = (if s = runes_of ''nan'' then Some NaN else None)"

definition env_of :: "(string \<times> string) list \<Rightarrow> environment" where
  "env_of kvs = map_of (map (\<lambda>(k, v). (runes_of k, runes_of v)) kvs)"

definition shown :: "config_error + settings \<times> config_warning list \<Rightarrow> config_error + (int list \<times> runes list \<times> config_warning list)" where
  "shown = map_sum id (\<lambda>(c, ws). ([cg_MediaPortBase c, cg_JitterBufferPackets c, cg_MaxCallDuration c, cg_STTHangover c],
     [cg_AriPass c, cg_MinioEndpoint c, cg_VadMode c], ws))"




theorem dotenv_read_back_witness:
  "loadDotenv ascii [None, Some (runes_of ''#x'' @ [10] @ runes_of ''A='' @ [34] @ runes_of ''1 2'' @ [34, 10])] Map.empty (runes_of ''A'') = Some (runes_of ''1 2'')"
  using dotenv_read_back [of "[Note (runes_of ''x''), Entry (runes_of ''A'') (runes_of ''1 2'')]" ascii 1 "[]" Map.empty]
  by (simp add: ascii_def runes_of_def)

text \<open>An empty \<open>ARI_PASS\<close> counts as unset, so the default password is used, but nothing is said.\<close>

lemma empty_password_silent:
  "shown (Load ascii no_floats [] (env_of [(''ARI_PASS'', []), (''MEDIA_IP'', [])]))
    = Inr ([20000, 3, 0, 700000000], [runes_of ''vaani'', [], runes_of ''energy''], [])"
  by code_simp

text \<open>Not a number passes the checks of a threshold.\<close>

lemma nan_accepted:
  "map_sum id (\<lambda>(c, ws). cg_TenVadThreshold c) (Load ascii no_floats [] (env_of [(''TEN_VAD_THRESHOLD'', ''nan'')])) = Inr NaN"
  by code_simp

text \<open>Large numbers wrap around after they were checked.\<close>

lemma large_numbers_wrap:
  "map_sum id (\<lambda>(c, ws). (cg_MaxCallDuration c, cg_MediaPortBase c))
     (Load ascii no_floats [] (env_of [(''MAX_CALL_DURATION_SECONDS'', ''9223372037''), (''MEDIA_PORT_BASE'', ''9223372036854775800'')]))
    = Inr (-9223372036709551616, 9223372036854775800)"
  by code_simp

text \<open>An endpoint with its scheme twice is reduced to one that names no host.\<close>

lemma double_scheme_accepted:
  "normalizeMinioEndpoint ascii (runes_of ''http://http://minio:9000'') = Some (runes_of ''http:'', True)"
  by code_simp

end
