(* ===== verification/Tts_Client.thy ===== *)
theory Tts_Client
  imports Agent_Text
begin

text \<open>
  The speech synthesis client (\<open>internal/ai/tts/sarvam.go\<close>): one connection for all turns of a call. Requests
  wait in \<open>pending\<close> in the order they are made, and what the provider sends is attributed to the oldest of them;
  recorded clips wait in the same queue. Each mutex makes a function's critical section atomic. \<open>Speak\<close> is
  two steps: it puts its request into the queue under one lock and writes it under another.
  Decoding JSON and base64 are parameters: a message of the provider is given decoded.
\<close>

section \<open>State\<close>

record pending_req =
  pr_gen :: nat
  pr_req :: nat
  pr_text :: runes
  pr_pcm :: "nat list option"

record chunk =
  ck_PCM :: "nat list"
  ck_Gen :: nat
  ck_Req :: nat
  ck_Text :: runes

record tts =
  tc_pending :: "pending_req list"
  tc_endedGens :: "nat set"
  tc_last :: pending_req
  tc_nextReq :: nat
  tc_chansClosed :: bool
  tc_closed :: bool
  tc_audio :: "chunk list"
  tc_done :: "nat list"

datatype tts_event = EvChunk chunk | EvDropped chunk | EvDone nat | EvDoneDropped nat | EvText nat runes | EvFlush | EvPing

definition audioBufferChunks :: nat where "audioBufferChunks = 256"
definition doneBufferSlots :: nat where "doneBufferSlots = 16"

definition tts_start :: tts where
  "tts_start = \<lparr>tc_pending = [], tc_endedGens = {}, tc_last = \<lparr>pr_gen = 0, pr_req = 0, pr_text = [], pr_pcm = None\<rparr>, tc_nextReq = 0,
     tc_chansClosed = False, tc_closed = False, tc_audio = [], tc_done = []\<rparr>"

text \<open>\<open>sendConfig\<close>: whether \<open>enable_preprocessing\<close> is in the message.\<close>

definition sends_preprocessing :: "string \<Rightarrow> bool" where
  "sends_preprocessing model \<longleftrightarrow> take 9 model \<noteq> ''bulbul:v4''"

section \<open>Operations\<close>

text \<open>The non-blocking sends.\<close>

definition send_audio :: "chunk \<Rightarrow> tts \<Rightarrow> tts \<times> tts_event list" where
  "send_audio ch c = (if length (tc_audio c) < audioBufferChunks then (c\<lparr>tc_audio := tc_audio c @ [ch]\<rparr>, [EvChunk ch])
     else (c, [EvDropped ch]))"

definition emitDoneLocked :: "nat \<Rightarrow> tts \<Rightarrow> tts \<times> tts_event list" where
  "emitDoneLocked g c = (if tc_chansClosed c then (c, [])
     else if length (tc_done c) < doneBufferSlots then (c\<lparr>tc_done := tc_done c @ [g]\<rparr>, [EvDone g]) else (c, [EvDoneDropped g]))"

definition genHasPendingLocked :: "nat \<Rightarrow> pending_req list \<Rightarrow> bool" where
  "genHasPendingLocked g ps \<longleftrightarrow> list_ex (\<lambda>p. pr_gen p = g) ps"

definition done_if_over :: "nat \<Rightarrow> tts \<Rightarrow> tts \<times> tts_event list" where
  "done_if_over g c = (if g \<in> tc_endedGens c \<and> \<not> genHasPendingLocked g (tc_pending c) then emitDoneLocked g c else (c, []))"

definition chunk_of :: "nat list \<Rightarrow> pending_req \<Rightarrow> chunk" where
  "chunk_of pcm p = \<lparr>ck_PCM = pcm, ck_Gen = pr_gen p, ck_Req = pr_req p, ck_Text = pr_text p\<rparr>"

text \<open>\<open>drainClipsLocked\<close>, on the queue \<open>ps\<close>.\<close>

fun drain_clips :: "pending_req list \<Rightarrow> tts \<Rightarrow> tts \<times> tts_event list" where
  "drain_clips [] c = (c\<lparr>tc_pending := []\<rparr>, [])"
| "drain_clips (p # ps) c = (case pr_pcm p of
      None \<Rightarrow> (c\<lparr>tc_pending := p # ps\<rparr>, [])
    | Some pcm \<Rightarrow>
        let c = c\<lparr>tc_pending := ps\<rparr>
        in if tc_chansClosed c then drain_clips ps c
           else let (c, e1) = send_audio (chunk_of pcm p) c; (c, e2) = done_if_over (pr_gen p) c; (c, e3) = drain_clips ps c
             in (c, e1 @ e2 @ e3))"

definition drainClipsLocked :: "tts \<Rightarrow> tts \<times> tts_event list" where
  "drainClipsLocked c = drain_clips (tc_pending c) c"

datatype tts_error = ClientClosed | SendText | SendFlush

text \<open>The first half of \<open>Speak\<close>: \<open>Inr None\<close> when there is nothing to say, else the request to write.\<close>

definition Speak_queue :: "unicode \<Rightarrow> runes \<Rightarrow> nat \<Rightarrow> tts \<Rightarrow> tts_error + (tts \<times> nat option)" where
  "Speak_queue u s gen c =
     (if list_all (u_space u) s then Inr (c, None)
      else if tc_closed c then Inl ClientClosed
      else let n = tc_nextReq c + 1; p = \<lparr>pr_gen = gen, pr_req = n, pr_text = s, pr_pcm = None\<rparr>
        in Inr (c\<lparr>tc_nextReq := n, tc_last := p, tc_pending := tc_pending c @ [p]\<rparr>, Some n))"

text \<open>The second half: \<open>ok1\<close> and \<open>ok2\<close> say whether the text and the flush could be written.\<close>

definition Speak_write :: "bool \<Rightarrow> bool \<Rightarrow> nat \<Rightarrow> runes \<Rightarrow> tts_error option \<times> tts_event list" where
  "Speak_write ok1 ok2 n s =
     (if \<not> ok1 then (Some SendText, []) else if \<not> ok2 then (Some SendFlush, [EvText n s]) else (None, [EvText n s, EvFlush]))"

definition Play :: "nat list \<Rightarrow> runes \<Rightarrow> nat \<Rightarrow> tts \<Rightarrow> tts_error + (tts \<times> tts_event list)" where
  "Play pcm s gen c =
     (if pcm = [] then Inr (c, [])
      else if tc_closed c then Inl ClientClosed
      else let n = tc_nextReq c + 1
        in Inr (drainClipsLocked (c\<lparr>tc_nextReq := n,
             tc_pending := tc_pending c @ [\<lparr>pr_gen = gen, pr_req = n, pr_text = s, pr_pcm = Some pcm\<rparr>]\<rparr>)))"

definition EndGeneration :: "nat \<Rightarrow> tts \<Rightarrow> tts \<times> tts_event list" where
  "EndGeneration g c =
     (let c = c\<lparr>tc_endedGens := insert g (tc_endedGens c)\<rparr>
      in if \<not> genHasPendingLocked g (tc_pending c) then emitDoneLocked g c else (c, []))"

text \<open>\<open>Cancel\<close> and \<open>Close\<close>.\<close>

definition forceClose :: "tts \<Rightarrow> tts" where
  "forceClose c = c\<lparr>tc_closed := True\<rparr>"

definition onFinal :: "tts \<Rightarrow> tts \<times> tts_event list" where
  "onFinal c = (case tc_pending c of
      [] \<Rightarrow> (c, [])
    | p # ps \<Rightarrow>
        let (c, e1) = done_if_over (pr_gen p) (c\<lparr>tc_pending := ps\<rparr>); (c, e2) = drainClipsLocked c
        in (c, e1 @ e2))"

definition peekReq :: "tts \<Rightarrow> pending_req" where
  "peekReq c = (case tc_pending c of [] \<Rightarrow> tc_last c | p # ps \<Rightarrow> p)"

text \<open>A message of the provider; \<open>InAudio None\<close> is audio that is not base64, \<open>InOther\<close> anything else.\<close>

datatype inbound = InError | InFinal | InAudio "nat list option" | InOther

definition receive :: "inbound \<Rightarrow> tts \<Rightarrow> tts \<times> tts_event list" where
  "receive m c = (case m of
      InError \<Rightarrow> onFinal c
    | InFinal \<Rightarrow> onFinal c
    | InAudio None \<Rightarrow> (c, [])
    | InAudio (Some raw) \<Rightarrow> send_audio (chunk_of raw (peekReq c)) c
    | InOther \<Rightarrow> (c, []))"

text \<open>\<open>ReadMessage\<close> failed: the loop returns and closes the channels.\<close>

definition receive_ends :: "tts \<Rightarrow> tts" where
  "receive_ends c = c\<lparr>tc_chansClosed := True\<rparr>"

section \<open>With the provider\<close>

text \<open>
  The calls of \<open>Speak\<close> that have queued their request and not yet written it, the requests the provider has and
  has not answered, in the order they were written, and those that could not be written. A connection that failed
  to write once never writes again (\<open>gorilla/websocket\<close>).
\<close>

record tts_world =
  tw_client :: tts
  tw_unwritten :: "(nat \<times> runes) list"
  tw_provider :: "nat list"
  tw_lost :: "nat list"
  tw_broken :: bool

definition world_start :: tts_world where
  "world_start = \<lparr>tw_client = tts_start, tw_unwritten = [], tw_provider = [], tw_lost = [], tw_broken = False\<rparr>"

text \<open>\<open>TWrite i\<close>: the \<open>i\<close>-th \<open>Speak\<close> between its halves writes. The provider sends audio for the oldest request it has, and
  then a final event or an error for it.\<close>

datatype tts_op = TSpeak runes nat | TWrite nat bool bool | TPlay "nat list" runes nat | TEndGeneration nat | TClose
  | TAudio "nat list" | TFinal | TError | TJunk | TReadFails | TPing bool | TTakeAudio | TTakeDone

definition with_client :: "tts_world \<Rightarrow> tts \<times> tts_event list \<Rightarrow> tts_world \<times> tts_event list" where
  "with_client w r = (w\<lparr>tw_client := fst r\<rparr>, snd r)"

definition tts_do :: "unicode \<Rightarrow> tts_op \<Rightarrow> tts_world \<Rightarrow> tts_world \<times> tts_event list" where
  "tts_do u op w = (let c = tw_client w in case op of
      TSpeak s gen \<Rightarrow> (case Speak_queue u s gen c of
          Inl e \<Rightarrow> (w, [])
        | Inr (c, None) \<Rightarrow> (w, [])
        | Inr (c, Some n) \<Rightarrow> (w\<lparr>tw_client := c, tw_unwritten := tw_unwritten w @ [(n, s)]\<rparr>, []))
    | TWrite i ok1 ok2 \<Rightarrow>
        if i < length (tw_unwritten w) then
          let (n, s) = tw_unwritten w ! i; ok1 = (ok1 \<and> \<not> tw_broken w); (e, ev) = Speak_write ok1 ok2 n s;
              w = w\<lparr>tw_unwritten := take i (tw_unwritten w) @ drop (i + 1) (tw_unwritten w), tw_broken := tw_broken w \<or> e \<noteq> None\<rparr>
          in (if ok1 then w\<lparr>tw_provider := tw_provider w @ [n]\<rparr> else w\<lparr>tw_lost := tw_lost w @ [n]\<rparr>, ev)
        else (w, [])
    | TPlay pcm s gen \<Rightarrow> (case Play pcm s gen c of Inl e \<Rightarrow> (w, []) | Inr r \<Rightarrow> with_client w r)
    | TEndGeneration g \<Rightarrow> with_client w (EndGeneration g c)
    | TClose \<Rightarrow> with_client w (forceClose c, [])
    | TAudio pcm \<Rightarrow> if tc_chansClosed c \<or> tw_provider w = [] then (w, []) else with_client w (receive (InAudio (Some pcm)) c)
    | TFinal \<Rightarrow> if tc_chansClosed c \<or> tw_provider w = [] then (w, [])
        else with_client (w\<lparr>tw_provider := tl (tw_provider w)\<rparr>) (receive InFinal c)
    | TError \<Rightarrow> if tc_chansClosed c \<or> tw_provider w = [] then (w, [])
        else with_client (w\<lparr>tw_provider := tl (tw_provider w)\<rparr>) (receive InError c)
    | TJunk \<Rightarrow> if tc_chansClosed c then (w, []) else with_client w (receive InOther c)
    | TReadFails \<Rightarrow> with_client w (receive_ends c, [])
    | TPing ok \<Rightarrow> if tc_closed c \<or> tw_broken w then (w, []) else (w\<lparr>tw_broken := \<not> ok\<rparr>, if ok then [EvPing] else [])
    | TTakeAudio \<Rightarrow> with_client w (c\<lparr>tc_audio := drop 1 (tc_audio c)\<rparr>, [])
    | TTakeDone \<Rightarrow> with_client w (c\<lparr>tc_done := drop 1 (tc_done c)\<rparr>, []))"

fun tts_run :: "unicode \<Rightarrow> tts_op list \<Rightarrow> tts_world \<Rightarrow> tts_world \<times> tts_event list" where
  "tts_run u [] w = (w, [])"
| "tts_run u (op # ops) w = (let (w, e1) = tts_do u op w; (w, e2) = tts_run u ops w in (w, e1 @ e2))"

end
