(* ===== verification/Tts_Claims.thy ===== *)
theory Tts_Claims
  imports Tts_Client
begin

text \<open>
  What the synthesis client promises: audio carries the request it was made for and comes in the order of the
  requests, and a generation is reported done once, when it is.
\<close>

section \<open>Histories\<close>

fun chunks :: "tts_event list \<Rightarrow> chunk list" where
  "chunks [] = []"
| "chunks (EvChunk ch # es) = ch # chunks es"
| "chunks (EvDropped ch # es) = chunks es"
| "chunks (e # es) = chunks es"

lemma chunks_append [simp]: "chunks (xs @ ys) = chunks xs @ chunks ys"
  by (induction xs rule: chunks.induct) auto

text \<open>The requests made: generation, text and recorded audio of the first, second, ... request.\<close>

definition made_by :: "unicode \<Rightarrow> tts_op \<Rightarrow> tts_world \<Rightarrow> (nat \<times> runes \<times> nat list option) list" where
  "made_by u op w = (if tc_nextReq (tw_client (fst (tts_do u op w))) = tc_nextReq (tw_client w) then []
     else case op of TSpeak s g \<Rightarrow> [(g, s, None)] | TPlay pcm s g \<Rightarrow> [(g, s, Some pcm)] | _ \<Rightarrow> [])"

fun made :: "unicode \<Rightarrow> tts_op list \<Rightarrow> tts_world \<Rightarrow> (nat \<times> runes \<times> nat list option) list" where
  "made u [] w = []"
| "made u (op # ops) w = made_by u op w @ made u ops (fst (tts_do u op w))"

text \<open>The audio the provider sends, with the request it is for and what becomes of it.\<close>

fun provider_audio :: "unicode \<Rightarrow> tts_op list \<Rightarrow> tts_world \<Rightarrow> (nat \<times> nat list \<times> tts_event list) list" where
  "provider_audio u [] w = []"
| "provider_audio u (op # ops) w =
     (case op of TAudio pcm \<Rightarrow> if tc_chansClosed (tw_client w) \<or> tw_provider w = [] then [] else [(hd (tw_provider w), pcm, snd (tts_do u op w))] | _ \<Rightarrow> [])
     @ provider_audio u ops (fst (tts_do u op w))"

text \<open>\<open>Speak\<close> is called by one goroutine at a time.\<close>

fun is_speak :: "tts_op \<Rightarrow> bool" where
  "is_speak (TSpeak s g) = True"
| "is_speak op = False"

fun one_speaker :: "unicode \<Rightarrow> tts_op list \<Rightarrow> tts_world \<Rightarrow> bool" where
  "one_speaker u [] w = True"
| "one_speaker u (op # ops) w = ((is_speak op \<longrightarrow> tw_unwritten w = []) \<and> one_speaker u ops (fst (tts_do u op w)))"

section \<open>The queue\<close>

definition is_clip :: "pending_req \<Rightarrow> bool" where
  "is_clip p \<longleftrightarrow> pr_pcm p \<noteq> None"

lemma is_clip_simps [simp]: "pr_pcm p = None \<Longrightarrow> \<not> is_clip p" "pr_pcm p = Some x \<Longrightarrow> is_clip p"
  by (simp_all add: is_clip_def)

lemma clip_records [simp]: "is_clip \<lparr>pr_gen = g, pr_req = n, pr_text = s, pr_pcm = Some x\<rparr>" "\<not> is_clip \<lparr>pr_gen = g, pr_req = n, pr_text = s, pr_pcm = None\<rparr>"
  by (simp_all add: is_clip_def)

definition speech :: "pending_req list \<Rightarrow> pending_req list" where
  "speech ps = filter (\<lambda>p. \<not> is_clip p) ps"

lemma speech_simps [simp]: "speech [] = []" "speech (p # ps) = (if is_clip p then speech ps else p # speech ps)"
  "speech (ps @ qs) = speech ps @ speech qs" "speech (dropWhile is_clip ps) = speech ps"
  by (simp_all add: speech_def) (induction ps, auto)

text \<open>A chunk carries the generation and text of its request, and what was recorded when the request is a clip.\<close>

definition made_as :: "(nat \<times> runes \<times> nat list option) list \<Rightarrow> chunk \<Rightarrow> bool" where
  "made_as M ch \<longleftrightarrow> (\<exists>x \<in> {None, Some (ck_PCM ch)}. M ! (ck_Req ch - 1) = (ck_Gen ch, ck_Text ch, x))"

lemma made_as_append: "made_as M ch \<Longrightarrow> 1 \<le> ck_Req ch \<Longrightarrow> ck_Req ch \<le> length M \<Longrightarrow> made_as (M @ N) ch"
proof -
  assume m: "made_as M ch" and r: "1 \<le> ck_Req ch" "ck_Req ch \<le> length M"
  from r have "ck_Req ch - 1 < length M" by linarith
  with m show ?thesis by (simp add: made_as_def nth_append)
qed

text \<open>The queue against the requests made \<open>M\<close> and the chunks passed on so far \<open>L\<close>.\<close>

definition queue_ok :: "(nat \<times> runes \<times> nat list option) list \<Rightarrow> chunk list \<Rightarrow> nat \<Rightarrow> pending_req list \<Rightarrow> bool" where
  "queue_ok M L n ps \<longleftrightarrow> n = length M \<and> sorted_wrt (<) (map pr_req ps)
     \<and> (\<forall>p \<in> set ps. 1 \<le> pr_req p \<and> pr_req p \<le> n \<and> M ! (pr_req p - 1) = (pr_gen p, pr_text p, pr_pcm p))
     \<and> sorted (map ck_Req L) \<and> (\<forall>ch \<in> set L. 1 \<le> ck_Req ch \<and> ck_Req ch \<le> n \<and> (\<forall>p \<in> set ps. ck_Req ch \<le> pr_req p) \<and> made_as M ch)"

lemma queue_ok_add:
  assumes "queue_ok M L n ps" "pr_req p = n + 1"
  shows "queue_ok (M @ [(pr_gen p, pr_text p, pr_pcm p)]) L (n + 1) (ps @ [p])"
  using assms made_as_append by (fastforce simp: queue_ok_def sorted_wrt_append nth_append)

lemma queue_ok_pop: "queue_ok M L n (p # ps) \<Longrightarrow> queue_ok M L n ps"
  by (auto simp: queue_ok_def)

lemma queue_ok_emit:
  assumes "queue_ok M L n (p # ps)" "pr_pcm p \<in> {None, Some pcm}"
  shows "queue_ok M (L @ [chunk_of pcm p]) n (p # ps)"
proof -
  have "made_as M (chunk_of pcm p)" using assms by (auto simp: queue_ok_def made_as_def chunk_of_def)
  then show ?thesis using assms(1) by (auto simp: queue_ok_def sorted_append less_imp_le chunk_of_def)
qed

lemma send_audio_events: "send_audio ch c = (c', e) \<Longrightarrow> (e = [EvChunk ch] \<or> e = [EvDropped ch])
    \<and> tc_pending c' = tc_pending c \<and> tc_nextReq c' = tc_nextReq c \<and> tc_chansClosed c' = tc_chansClosed c \<and> tc_endedGens c' = tc_endedGens c"
  by (auto simp: send_audio_def split: if_splits)

lemma done_events: "done_if_over g c = (c', e) \<Longrightarrow> chunks e = []
    \<and> tc_pending c' = tc_pending c \<and> tc_nextReq c' = tc_nextReq c \<and> tc_chansClosed c' = tc_chansClosed c \<and> tc_endedGens c' = tc_endedGens c"
  by (auto simp: done_if_over_def emitDoneLocked_def split: if_splits)

lemma drain_ok:
  assumes "drain_clips ps c = (c', e)" "queue_ok M L n ps"
  shows "tc_pending c' = dropWhile is_clip ps \<and> tc_nextReq c' = tc_nextReq c \<and> tc_chansClosed c' = tc_chansClosed c
    \<and> tc_endedGens c' = tc_endedGens c \<and> queue_ok M (L @ chunks e) n (tc_pending c')"
  using assms
proof (induction ps arbitrary: c c' e L)
  case (Cons p ps)
  show ?case
  proof (cases "pr_pcm p")
    case None
    then show ?thesis using Cons.prems by auto
  next
    case (Some pcm)
    let ?c = "c\<lparr>tc_pending := ps\<rparr>"
    show ?thesis
    proof (cases "tc_chansClosed c")
      case True
      then have "drain_clips ps ?c = (c', e)" using Cons.prems(1) Some by (simp add: Let_def)
      from Cons.IH [OF this queue_ok_pop [OF Cons.prems(2)]] Some show ?thesis by auto
    next
      case False
      obtain c1 e1 where s: "send_audio (chunk_of pcm p) ?c = (c1, e1)" by (cases "send_audio (chunk_of pcm p) ?c")
      obtain c2 e2 where d: "done_if_over (pr_gen p) c1 = (c2, e2)" by (cases "done_if_over (pr_gen p) c1")
      obtain c3 e3 where r: "drain_clips ps c2 = (c3, e3)" by (cases "drain_clips ps c2")
      have e: "e = e1 @ e2 @ e3" "c' = c3" using Cons.prems(1) Some False s d r by (auto simp: Let_def)
      have "queue_ok M (L @ chunks e1) n (p # ps)"
        using send_audio_events [OF s] Cons.prems(2) queue_ok_emit [OF Cons.prems(2), of pcm] Some by auto
      from Cons.IH [OF r queue_ok_pop [OF this]] show ?thesis
        using send_audio_events [OF s] done_events [OF d] Some e by auto
    qed
  qed
qed auto

text \<open>The whole state.\<close>

definition tts_ok :: "(nat \<times> runes \<times> nat list option) list \<Rightarrow> chunk list \<Rightarrow> tts_world \<Rightarrow> bool" where
  "tts_ok M L w \<longleftrightarrow> (let c = tw_client w in
     queue_ok M L (tc_nextReq c) (tc_pending c)
     \<and> (tc_pending c \<noteq> [] \<longrightarrow> \<not> is_clip (hd (tc_pending c)))
     \<and> map pr_req (speech (tc_pending c)) = tw_provider w @ tw_lost w @ map fst (tw_unwritten w)
     \<and> (tw_lost w \<noteq> [] \<longrightarrow> tw_broken w) \<and> length (tw_unwritten w) \<le> 1
     \<and> (\<forall>(n, s) \<in> set (tw_unwritten w). \<exists>g. M ! (n - 1) = (g, s, None)))"

lemma hd_drained: "dropWhile is_clip ps \<noteq> [] \<longrightarrow> \<not> is_clip (hd (dropWhile is_clip ps))"
  using hd_dropWhile by blast

lemma onFinal_ok:
  assumes "onFinal c = (c', e)" "queue_ok M L (tc_nextReq c) (tc_pending c)" "tc_pending c \<noteq> [] \<longrightarrow> \<not> is_clip (hd (tc_pending c))"
  shows "tc_pending c' = dropWhile is_clip (drop 1 (tc_pending c)) \<and> tc_nextReq c' = tc_nextReq c \<and> queue_ok M (L @ chunks e) (tc_nextReq c) (tc_pending c')"
proof (cases "tc_pending c")
  case Nil
  then show ?thesis using assms by (simp add: onFinal_def)
next
  case (Cons p ps)
  obtain c1 e1 where d: "done_if_over (pr_gen p) (c\<lparr>tc_pending := ps\<rparr>) = (c1, e1)" by (cases "done_if_over (pr_gen p) (c\<lparr>tc_pending := ps\<rparr>)")
  obtain c2 e2 where r: "drainClipsLocked c1 = (c2, e2)" by (cases "drainClipsLocked c1")
  have p: "tc_pending c1 = ps" "tc_nextReq c1 = tc_nextReq c" "chunks e1 = []" using done_events [OF d] by auto
  have "queue_ok M L (tc_nextReq c) ps" using assms(2) Cons queue_ok_pop by simp
  from drain_ok [OF r [unfolded drainClipsLocked_def p(1)] this]
  show ?thesis using assms(1) Cons d r p by (auto simp: onFinal_def)
qed

section \<open>One step\<close>

lemma simple_ok:
  assumes "tts_ok M L w" "tc_pending c' = tc_pending (tw_client w)" "tc_nextReq c' = tc_nextReq (tw_client w)"
  shows "tts_ok M L (w\<lparr>tw_client := c'\<rparr>)"
  using assms by (simp add: tts_ok_def Let_def)

lemma speak_ok:
  assumes "tts_ok M L w" "Speak_queue u s g (tw_client w) = Inr (c', Some n)" "tw_unwritten w = []"
  shows "tts_ok (M @ [(g, s, None)]) L (w\<lparr>tw_client := c', tw_unwritten := [(n, s)]\<rparr>) \<and> tc_nextReq c' = tc_nextReq (tw_client w) + 1"
proof -
  let ?c = "tw_client w"
  let ?p = "\<lparr>pr_gen = g, pr_req = n, pr_text = s, pr_pcm = None\<rparr>"
  have q: "n = tc_nextReq ?c + 1" "tc_pending c' = tc_pending ?c @ [?p]" "tc_nextReq c' = n"
    using assms(2) by (auto simp: Speak_queue_def Let_def split: if_splits)
  have ok: "queue_ok M L (tc_nextReq ?c) (tc_pending ?c)" using assms(1) by (simp add: tts_ok_def Let_def)
  have len: "tc_nextReq ?c = length M" using ok by (simp add: queue_ok_def)
  from queue_ok_add [OF ok, of ?p] q have "queue_ok (M @ [(g, s, None)]) L n (tc_pending c')" by simp
  then show ?thesis
    using assms(1,3) q len by (cases "tc_pending ?c") (auto simp: tts_ok_def Let_def)
qed

lemma play_ok:
  assumes "tts_ok M L w" "Play pcm s g (tw_client w) = Inr (c', e)" "pcm \<noteq> []"
  shows "tts_ok (M @ [(g, s, Some pcm)]) (L @ chunks e) (w\<lparr>tw_client := c'\<rparr>) \<and> tc_nextReq c' = tc_nextReq (tw_client w) + 1"
proof -
  let ?c = "tw_client w"
  let ?p = "\<lparr>pr_gen = g, pr_req = tc_nextReq ?c + 1, pr_text = s, pr_pcm = Some pcm\<rparr>"
  let ?d = "?c\<lparr>tc_nextReq := tc_nextReq ?c + 1, tc_pending := tc_pending ?c @ [?p]\<rparr>"
  have r: "drain_clips (tc_pending ?c @ [?p]) ?d = (c', e)"
    using assms(2,3) by (auto simp: Play_def drainClipsLocked_def Let_def split: if_splits)
  have ok: "queue_ok M L (tc_nextReq ?c) (tc_pending ?c)" using assms(1) by (simp add: tts_ok_def Let_def)
  have len: "tc_nextReq ?c = length M" using ok by (simp add: queue_ok_def)
  from queue_ok_add [OF ok, of ?p] have q: "queue_ok (M @ [(g, s, Some pcm)]) L (tc_nextReq ?c + 1) (tc_pending ?c @ [?p])" by simp
  note d = drain_ok [OF r q]
  have sp: "speech (tc_pending c') = speech (tc_pending ?c)" using d by simp
  have h: "tc_pending c' \<noteq> [] \<longrightarrow> \<not> is_clip (hd (tc_pending c'))" using d hd_drained [of "tc_pending ?c @ [?p]"] by metis
  have un: "(M @ [(g, s, Some pcm)]) ! (k - 1) = M ! (k - 1)" if "(k, t) \<in> set (tw_unwritten w)" for k t
  proof -
    have "k \<in> set (map pr_req (speech (tc_pending ?c)))" using assms(1) that by (force simp: tts_ok_def Let_def)
    then have "1 \<le> k \<and> k \<le> length M" using ok by (auto simp: queue_ok_def speech_def)
    then have "k - 1 < length M" by linarith
    then show ?thesis by (simp add: nth_append)
  qed
  then have un': "\<forall>(k, t) \<in> set (tw_unwritten w). \<exists>g'. (M @ [(g, s, Some pcm)]) ! (k - 1) = (g', t, None)"
    using assms(1) by (fastforce simp: tts_ok_def Let_def)
  have "tc_nextReq c' = tc_nextReq ?c + 1" "queue_ok (M @ [(g, s, Some pcm)]) (L @ chunks e) (tc_nextReq ?c + 1) (tc_pending c')"
    using d by auto
  then show ?thesis using sp h un' assms(1) by (simp add: tts_ok_def Let_def)
qed

lemma write_ok:
  assumes "tts_ok M L w"
  shows "tts_ok M L (fst (tts_do u (TWrite i ok1 ok2) w)) \<and> chunks (snd (tts_do u (TWrite i ok1 ok2) w)) = []
    \<and> (\<forall>n s. EvText n s \<in> set (snd (tts_do u (TWrite i ok1 ok2) w)) \<longrightarrow> n - 1 < length M \<and> (\<exists>g. M ! (n - 1) = (g, s, None)))"
proof (cases "i < length (tw_unwritten w)")
  case True
  then have u: "length (tw_unwritten w) = 1" "i = 0" using assms by (auto simp: tts_ok_def Let_def)
  then obtain n s where ns: "tw_unwritten w = [(n, s)]" by (cases "tw_unwritten w") auto
  have "n \<in> set (map pr_req (speech (tc_pending (tw_client w))))" using assms ns by (force simp: tts_ok_def Let_def)
  then have "1 \<le> n \<and> n \<le> length M" using assms by (auto simp: tts_ok_def queue_ok_def speech_def Let_def)
  then have "n - 1 < length M" by linarith
  then show ?thesis using assms u(2) ns by (auto simp: tts_do_def tts_ok_def Let_def Speak_write_def)
next
  case False
  then show ?thesis using assms by (simp add: tts_do_def)
qed

lemma final_ok:
  assumes "tts_ok M L w" "onFinal (tw_client w) = (c', e)" "tw_provider w \<noteq> []"
  shows "tts_ok M (L @ chunks e) (w\<lparr>tw_provider := tl (tw_provider w), tw_client := c'\<rparr>) \<and> tc_nextReq c' = tc_nextReq (tw_client w)"
proof -
  let ?c = "tw_client w"
  obtain p ps where p: "tc_pending ?c = p # ps" "\<not> is_clip p"
    using assms(1,3) by (cases "tc_pending ?c") (auto simp: tts_ok_def Let_def)
  have "queue_ok M L (tc_nextReq ?c) (tc_pending ?c)" "tc_pending ?c \<noteq> [] \<longrightarrow> \<not> is_clip (hd (tc_pending ?c))"
    using assms(1) by (simp_all add: tts_ok_def Let_def)
  note f = onFinal_ok [OF assms(2) this]
  have sp: "map pr_req (speech (tc_pending c')) = tl (tw_provider w) @ tw_lost w @ map fst (tw_unwritten w)"
    using f p assms(1,3) by (cases "tw_provider w") (auto simp: tts_ok_def Let_def)
  show ?thesis
    using f sp p hd_drained [of ps] assms(1) by (auto simp: tts_ok_def Let_def)
qed

lemma audio_ok:
  assumes "tts_ok M L w" "tw_provider w \<noteq> []"
  shows "\<exists>ch. ck_Req ch = hd (tw_provider w) \<and> ck_PCM ch = pcm \<and> M ! (ck_Req ch - 1) = (ck_Gen ch, ck_Text ch, None)
    \<and> (let (c', e) = receive (InAudio (Some pcm)) (tw_client w) in (e = [EvChunk ch] \<or> e = [EvDropped ch])
        \<and> tts_ok M (L @ chunks e) (w\<lparr>tw_client := c'\<rparr>) \<and> tc_nextReq c' = tc_nextReq (tw_client w))"
proof -
  let ?c = "tw_client w"
  obtain p ps where p: "tc_pending ?c = p # ps" "\<not> is_clip p"
    using assms by (cases "tc_pending ?c") (auto simp: tts_ok_def Let_def)
  have hd: "pr_req p = hd (tw_provider w)" using assms p by (cases "tw_provider w") (auto simp: tts_ok_def Let_def)
  have ok: "queue_ok M L (tc_nextReq ?c) (p # ps)" using assms(1) p by (simp add: tts_ok_def Let_def)
  have m: "M ! (pr_req p - 1) = (pr_gen p, pr_text p, None)" using ok p(2) by (simp add: queue_ok_def is_clip_def)
  obtain c' e where s: "send_audio (chunk_of pcm p) ?c = (c', e)" by (cases "send_audio (chunk_of pcm p) ?c")
  note se = send_audio_events [OF s]
  have "queue_ok M (L @ chunks e) (tc_nextReq ?c) (p # ps)"
    using se ok queue_ok_emit [OF ok, of pcm] p(2) by (auto simp: is_clip_def)
  then have "tts_ok M (L @ chunks e) (w\<lparr>tw_client := c'\<rparr>)"
    using se p assms(1) by (simp add: tts_ok_def Let_def)
  then show ?thesis
    using se s p hd m by (intro exI [of _ "chunk_of pcm p"]) (simp add: receive_def peekReq_def chunk_of_def)
qed

text \<open>What one operation does to all of it.\<close>

definition step_ok :: "unicode \<Rightarrow> tts_op \<Rightarrow> (nat \<times> runes \<times> nat list option) list \<Rightarrow> chunk list \<Rightarrow> tts_world \<Rightarrow> bool" where
  "step_ok u op M L w \<longleftrightarrow> (let (w', e) = tts_do u op w; M' = M @ made_by u op w in
     tts_ok M' (L @ chunks e) w' \<and> (\<forall>n s. EvText n s \<in> set e \<longrightarrow> n - 1 < length M' \<and> (\<exists>g. M' ! (n - 1) = (g, s, None))))"

lemma quiet_step:
  assumes "tts_ok M L w" "tts_do u op w = (w', e)" "chunks e = []" "\<forall>n s. EvText n s \<notin> set e"
    "tc_nextReq (tw_client w') = tc_nextReq (tw_client w)" "tts_ok M L w'"
  shows "step_ok u op M L w"
  using assms by (simp add: step_ok_def made_by_def)

lemma done_not_text: "done_if_over g c = (c', e) \<Longrightarrow> EvText n s \<notin> set e"
  by (auto simp: done_if_over_def emitDoneLocked_def split: if_splits)

lemma drain_not_text: "drain_clips ps c = (c', e) \<Longrightarrow> EvText n s \<notin> set e"
proof (induction ps arbitrary: c c' e)
  case (Cons p ps)
  then show ?case
    by (auto simp: Let_def send_audio_def split: option.splits prod.splits if_splits dest: done_not_text)
qed auto

lemma final_not_text: "onFinal c = (c', e) \<Longrightarrow> EvText n s \<notin> set e"
  by (auto simp: onFinal_def drainClipsLocked_def Let_def split: list.splits prod.splits dest: done_not_text drain_not_text)

lemma end_generation: "EndGeneration g c = (c', e) \<Longrightarrow> tc_pending c' = tc_pending c \<and> tc_nextReq c' = tc_nextReq c \<and> chunks e = []
    \<and> EvText n s \<notin> set e"
  by (auto simp: EndGeneration_def emitDoneLocked_def Let_def split: if_splits)

lemma step:
  assumes ok: "tts_ok M L w" and one: "is_speak op \<longrightarrow> tw_unwritten w = []"
  shows "step_ok u op M L w"
proof (cases op)
  case (TSpeak s g)
  show ?thesis
  proof (cases "Speak_queue u s g (tw_client w)")
    case (Inl e)
    then show ?thesis using TSpeak ok by (intro quiet_step [OF ok]) (auto simp: tts_do_def)
  next
    case (Inr r)
    obtain c' m where r: "r = (c', m)" by (cases r)
    show ?thesis
    proof (cases m)
      case None
      then show ?thesis using TSpeak ok Inr r by (intro quiet_step [OF ok]) (auto simp: tts_do_def)
    next
      case (Some n)
      then show ?thesis
        using speak_ok [OF ok, of u s g c' n] TSpeak one Inr r by (simp add: step_ok_def tts_do_def made_by_def)
    qed
  qed
next
  case (TWrite i ok1 ok2)
  have "tc_nextReq (tw_client (fst (tts_do u op w))) = tc_nextReq (tw_client w)"
    using TWrite by (auto simp: tts_do_def Let_def Speak_write_def split: prod.splits)
  then show ?thesis using write_ok [OF ok, of u i ok1 ok2] TWrite by (simp add: step_ok_def made_by_def split_beta)
next
  case (TPlay pcm s g)
  show ?thesis
  proof (cases "Play pcm s g (tw_client w)")
    case (Inl e)
    then show ?thesis using TPlay ok by (intro quiet_step [OF ok]) (auto simp: tts_do_def)
  next
    case (Inr r)
    obtain c' e where r: "r = (c', e)" by (cases r)
    show ?thesis
    proof (cases "pcm = []")
      case True
      then have "c' = tw_client w" "e = []" using Inr r by (auto simp: Play_def)
      then show ?thesis using TPlay ok Inr r by (intro quiet_step [OF ok]) (auto simp: tts_do_def with_client_def)
    next
      case False
      have t: "EvText n t \<notin> set e" for n t
        using Inr r False by (auto simp: Play_def drainClipsLocked_def Let_def split: if_splits dest: drain_not_text)
      show ?thesis
        using play_ok [OF ok, of pcm s g c' e] TPlay Inr r False t by (simp add: step_ok_def tts_do_def with_client_def made_by_def)
    qed
  qed
next
  case (TEndGeneration g)
  obtain c' e where r: "EndGeneration g (tw_client w) = (c', e)" by (cases "EndGeneration g (tw_client w)")
  show ?thesis
    using TEndGeneration end_generation [OF r] simple_ok [OF ok, of c'] r
    by (intro quiet_step [OF ok]) (auto simp: tts_do_def with_client_def)
next
  case (TAudio pcm)
  show ?thesis
  proof (cases "tc_chansClosed (tw_client w) \<or> tw_provider w = []")
    case True
    then show ?thesis using TAudio ok by (intro quiet_step [OF ok]) (auto simp: tts_do_def)
  next
    case False
    then show ?thesis
      using audio_ok [OF ok, of pcm] TAudio by (auto simp: step_ok_def tts_do_def with_client_def made_by_def split_beta)
  qed
next
  case TFinal
  obtain c' e where r: "onFinal (tw_client w) = (c', e)" by (cases "onFinal (tw_client w)")
  show ?thesis
  proof (cases "tc_chansClosed (tw_client w) \<or> tw_provider w = []")
    case True
    then show ?thesis using TFinal ok by (intro quiet_step [OF ok]) (auto simp: tts_do_def)
  next
    case False
    then show ?thesis
      using final_ok [OF ok r] final_not_text [OF r] TFinal r by (simp add: step_ok_def tts_do_def with_client_def made_by_def receive_def)
  qed
next
  case TError
  obtain c' e where r: "onFinal (tw_client w) = (c', e)" by (cases "onFinal (tw_client w)")
  show ?thesis
  proof (cases "tc_chansClosed (tw_client w) \<or> tw_provider w = []")
    case True
    then show ?thesis using TError ok by (intro quiet_step [OF ok]) (auto simp: tts_do_def)
  next
    case False
    then show ?thesis
      using final_ok [OF ok r] final_not_text [OF r] TError r by (simp add: step_ok_def tts_do_def with_client_def made_by_def receive_def)
  qed
next
  case (TPing b)
  show ?thesis
  proof (cases "tc_closed (tw_client w) \<or> tw_broken w")
    case True
    then show ?thesis using TPing ok by (intro quiet_step [OF ok]) (auto simp: tts_do_def)
  next
    case False
    have "tts_ok M L (w\<lparr>tw_broken := \<not> b\<rparr>)" using ok False by (auto simp: tts_ok_def Let_def)
    then show ?thesis
      using TPing False by (intro quiet_step [OF ok, where w' = "w\<lparr>tw_broken := \<not> b\<rparr>" and e = "if b then [EvPing] else []"]) (auto simp: tts_do_def)
  qed
next
  case TClose
  then show ?thesis using simple_ok [OF ok, of "forceClose (tw_client w)"]
    by (intro quiet_step [OF ok, where w' = "w\<lparr>tw_client := forceClose (tw_client w)\<rparr>" and e = "[]"])
      (simp_all add: tts_do_def with_client_def forceClose_def)
next
  case TJunk
  then have "tts_do u op w = (w, [])" by (simp add: tts_do_def with_client_def receive_def Let_def)
  then show ?thesis using ok by (intro quiet_step [OF ok]) auto
next
  case TReadFails
  then show ?thesis using simple_ok [OF ok, of "receive_ends (tw_client w)"]
    by (intro quiet_step [OF ok, where w' = "w\<lparr>tw_client := receive_ends (tw_client w)\<rparr>" and e = "[]"])
      (simp_all add: tts_do_def with_client_def receive_ends_def)
next
  case TTakeAudio
  let ?c = "(tw_client w)\<lparr>tc_audio := drop 1 (tc_audio (tw_client w))\<rparr>"
  from TTakeAudio show ?thesis using simple_ok [OF ok, of ?c]
    by (intro quiet_step [OF ok, where w' = "w\<lparr>tw_client := ?c\<rparr>" and e = "[]"]) (simp_all add: tts_do_def with_client_def Let_def)
next
  case TTakeDone
  let ?c = "(tw_client w)\<lparr>tc_done := drop 1 (tc_done (tw_client w))\<rparr>"
  from TTakeDone show ?thesis using simple_ok [OF ok, of ?c]
    by (intro quiet_step [OF ok, where w' = "w\<lparr>tw_client := ?c\<rparr>" and e = "[]"]) (simp_all add: tts_do_def with_client_def Let_def)
qed

section \<open>Whole runs\<close>

lemma made_tts_ok_le: "tts_ok M L w \<Longrightarrow> p \<in> set (tc_pending (tw_client w)) \<Longrightarrow> pr_req p - 1 < length M"
  by (auto simp: tts_ok_def queue_ok_def Let_def)

lemma run_ok:
  assumes "tts_ok M L w" "one_speaker u ops w"
  shows "tts_ok (M @ made u ops w) (L @ chunks (snd (tts_run u ops w))) (fst (tts_run u ops w))"
  using assms
proof (induction ops arbitrary: M L w)
  case (Cons op ops)
  obtain w1 e1 where d: "tts_do u op w = (w1, e1)" by (cases "tts_do u op w")
  have "tts_ok (M @ made_by u op w) (L @ chunks e1) w1"
    using step [OF Cons.prems(1), of op u] Cons.prems(2) d by (simp add: step_ok_def Let_def)
  from Cons.IH [OF this] Cons.prems(2) d show ?case by (simp add: split_beta)
qed simp

text \<open>A request stays the request it was made as.\<close>

lemma audio_run:
  assumes "tts_ok M L w" "one_speaker u ops w" "(r, pcm, ev) \<in> set (provider_audio u ops w)"
  shows "\<exists>ch. (ev = [EvChunk ch] \<or> ev = [EvDropped ch]) \<and> ck_Req ch = r \<and> ck_PCM ch = pcm
    \<and> (M @ made u ops w) ! (r - 1) = (ck_Gen ch, ck_Text ch, None) \<and> 1 \<le> r \<and> r \<le> length (M @ made u ops w)"
  using assms
proof (induction ops arbitrary: M L w)
  case (Cons op ops)
  obtain w1 e1 where d: "tts_do u op w = (w1, e1)" by (cases "tts_do u op w")
  have ok: "tts_ok (M @ made_by u op w) (L @ chunks e1) w1"
    using step [OF Cons.prems(1), of op u] Cons.prems(2) d by (simp add: step_ok_def Let_def)
  show ?case
  proof (cases "(r, pcm, ev) \<in> set (provider_audio u ops w1)")
    case True
    from Cons.IH [OF ok _ this] Cons.prems(2) d show ?thesis by simp
  next
    case False
    then have op: "op = TAudio pcm" "\<not> tc_chansClosed (tw_client w)" "tw_provider w \<noteq> []" "r = hd (tw_provider w)" "ev = e1"
      using Cons.prems(3) d by (auto split: tts_op.splits if_splits)
    obtain p ps where p: "tc_pending (tw_client w) = p # ps" "pr_req p = r"
      using Cons.prems(1) op(3,4) by (cases "tc_pending (tw_client w)"; cases "tw_provider w") (auto simp: tts_ok_def Let_def)
    have "1 \<le> r \<and> r \<le> length M" using Cons.prems(1) p by (auto simp: tts_ok_def queue_ok_def Let_def)
    then have r: "1 \<le> r" "r \<le> length M" "r - 1 < length M" by linarith+
    obtain ch where ch: "ck_Req ch = r" "ck_PCM ch = pcm" "M ! (ck_Req ch - 1) = (ck_Gen ch, ck_Text ch, None)"
      "snd (receive (InAudio (Some pcm)) (tw_client w)) = [EvChunk ch] \<or> snd (receive (InAudio (Some pcm)) (tw_client w)) = [EvDropped ch]"
      using audio_ok [OF Cons.prems(1) op(3), of pcm] op(4) by (auto simp: split_beta)
    have "e1 = snd (receive (InAudio (Some pcm)) (tw_client w))" using d op by (auto simp: tts_do_def with_client_def Let_def)
    then show ?thesis using ch r op(5) by (intro exI [of _ ch]) (simp add: nth_append)
  qed
qed simp

lemma text_run:
  assumes "tts_ok M L w" "one_speaker u ops w" "EvText n s \<in> set (snd (tts_run u ops w))"
  shows "n - 1 < length (M @ made u ops w) \<and> (\<exists>g. (M @ made u ops w) ! (n - 1) = (g, s, None))"
  using assms
proof (induction ops arbitrary: M L w)
  case (Cons op ops)
  obtain w1 e1 where d: "tts_do u op w = (w1, e1)" by (cases "tts_do u op w")
  have st: "step_ok u op M L w" using step [OF Cons.prems(1), of op u] Cons.prems(2) by simp
  have ok: "tts_ok (M @ made_by u op w) (L @ chunks e1) w1" using st d by (simp add: step_ok_def Let_def)
  show ?case
  proof (cases "EvText n s \<in> set e1")
    case True
    then have "n - 1 < length (M @ made_by u op w) \<and> (\<exists>g. (M @ made_by u op w) ! (n - 1) = (g, s, None))"
      using st d by (simp add: step_ok_def Let_def)
    then obtain g where "n - 1 < length (M @ made_by u op w)" "(M @ made_by u op w) ! (n - 1) = (g, s, None)" by blast
    then have "((M @ made_by u op w) @ made u ops w1) ! (n - 1) = (g, s, None)" by (simp only: nth_append if_True)
    then show ?thesis using d \<open>n - 1 < length (M @ made_by u op w)\<close> by auto
  next
    case False
    then have "EvText n s \<in> set (snd (tts_run u ops w1))" using Cons.prems(3) d by (auto simp: split_beta)
    from Cons.IH [OF ok _ this] Cons.prems(2) d show ?thesis by simp
  qed
qed simp

section \<open>Done\<close>

definition signals :: "nat \<Rightarrow> tts_event list \<Rightarrow> nat" where
  "signals g es = length (filter (\<lambda>e. e = EvDone g \<or> e = EvDoneDropped g) es)"

lemma signals_simps [simp]: "signals g [] = 0" "signals g (xs @ ys) = signals g xs + signals g ys"
  "signals g (EvDone h # es) = of_bool (h = g) + signals g es" "signals g (EvDoneDropped h # es) = of_bool (h = g) + signals g es"
  "signals g (EvChunk ch # es) = signals g es" "signals g (EvDropped ch # es) = signals g es"
  "signals g (EvText n s # es) = signals g es" "signals g (EvFlush # es) = signals g es" "signals g (EvPing # es) = signals g es"
  by (simp_all add: signals_def)

text \<open>Nothing more is asked for generation \<open>g\<close>: \<open>EndGeneration\<close> is the last call for it.\<close>

fun not_for :: "nat \<Rightarrow> tts_op \<Rightarrow> bool" where
  "not_for g (TSpeak s h) = (h \<noteq> g)"
| "not_for g (TPlay pcm s h) = (h \<noteq> g)"
| "not_for g (TEndGeneration h) = (h \<noteq> g)"
| "not_for g op = True"

fun ends_last :: "nat \<Rightarrow> tts_op list \<Rightarrow> bool" where
  "ends_last g [] = True"
| "ends_last g (op # ops) = (ends_last g ops \<and> (op = TEndGeneration g \<longrightarrow> list_all (not_for g) ops))"

text \<open>The signals \<open>k\<close> so far, against the queue.\<close>

definition done_ok :: "nat \<Rightarrow> nat \<Rightarrow> tts \<Rightarrow> pending_req list \<Rightarrow> bool" where
  "done_ok g k c ps \<longleftrightarrow> k = of_bool (g \<in> tc_endedGens c \<and> \<not> genHasPendingLocked g ps) \<or> (tc_chansClosed c \<and> k = 0)"

lemma has_pending_simps [simp]: "genHasPendingLocked g [] = False" "genHasPendingLocked g (p # ps) = (pr_gen p = g \<or> genHasPendingLocked g ps)"
  "genHasPendingLocked g (ps @ qs) = (genHasPendingLocked g ps \<or> genHasPendingLocked g qs)"
  by (simp_all add: genHasPendingLocked_def)

lemma emit_done: "emitDoneLocked h c = (c', e) \<Longrightarrow> signals g e = of_bool (h = g \<and> \<not> tc_chansClosed c)
    \<and> tc_pending c' = tc_pending c \<and> tc_chansClosed c' = tc_chansClosed c \<and> tc_endedGens c' = tc_endedGens c"
  by (auto simp: emitDoneLocked_def split: if_splits)

lemma pop_done:
  assumes "done_ok g k c (p # ps)" "done_if_over (pr_gen p) c' = (c'', e)" "tc_pending c' = ps"
    "tc_chansClosed c' = tc_chansClosed c" "tc_endedGens c' = tc_endedGens c"
  shows "done_ok g (k + signals g e) c'' ps"
proof (cases "pr_gen p \<in> tc_endedGens c \<and> \<not> genHasPendingLocked (pr_gen p) ps")
  case True
  then have "emitDoneLocked (pr_gen p) c' = (c'', e)" using assms(2-5) by (simp add: done_if_over_def)
  from emit_done [OF this, of g]
  have "signals g e = of_bool (pr_gen p = g \<and> \<not> tc_chansClosed c)" "tc_chansClosed c'' = tc_chansClosed c" "tc_endedGens c'' = tc_endedGens c"
    using assms(4,5) by simp_all
  then show ?thesis using assms(1) True by (cases "pr_gen p = g") (auto simp: done_ok_def)
next
  case False
  then have "c'' = c'" "e = []" using assms(2-5) by (auto simp: done_if_over_def split: if_splits)
  then show ?thesis using assms(1,4,5) False by (cases "pr_gen p = g") (auto simp: done_ok_def)
qed

lemma signals_send: "send_audio ch c = (c', e) \<Longrightarrow> signals g e = 0"
  by (auto simp: send_audio_def split: if_splits)

lemma drain_done:
  assumes "drain_clips ps c = (c', e)" "done_ok g k c ps"
  shows "done_ok g (k + signals g e) c' (tc_pending c') \<and> tc_endedGens c' = tc_endedGens c \<and> tc_chansClosed c' = tc_chansClosed c"
  using assms
proof (induction ps arbitrary: c c' e k)
  case (Cons p ps)
  show ?case
  proof (cases "pr_pcm p")
    case None
    then have "c' = c\<lparr>tc_pending := p # ps\<rparr>" "e = []" using Cons.prems(1) by auto
    then show ?thesis using Cons.prems(2) by (simp add: done_ok_def)
  next
    case (Some pcm)
    let ?c = "c\<lparr>tc_pending := ps\<rparr>"
    show ?thesis
    proof (cases "tc_chansClosed c")
      case True
      then have "drain_clips ps ?c = (c', e)" using Cons.prems(1) Some by (simp add: Let_def)
      moreover have "done_ok g k ?c ps" using Cons.prems(2) True by (auto simp: done_ok_def)
      ultimately have "done_ok g (k + signals g e) c' (tc_pending c') \<and> tc_endedGens c' = tc_endedGens ?c \<and> tc_chansClosed c' = tc_chansClosed ?c"
        by (rule Cons.IH)
      then show ?thesis by simp
    next
      case False
      obtain c1 e1 where s: "send_audio (chunk_of pcm p) ?c = (c1, e1)" by (cases "send_audio (chunk_of pcm p) ?c")
      obtain c2 e2 where d: "done_if_over (pr_gen p) c1 = (c2, e2)" by (cases "done_if_over (pr_gen p) c1")
      obtain c3 e3 where r: "drain_clips ps c2 = (c3, e3)" by (cases "drain_clips ps c2")
      have e: "e = e1 @ e2 @ e3" "c' = c3" using Cons.prems(1) Some False s d r by (auto simp: Let_def)
      have c1: "tc_pending c1 = ps" "tc_chansClosed c1 = tc_chansClosed c" "tc_endedGens c1 = tc_endedGens c"
        using send_audio_events [OF s] by auto
      have "done_ok g (k + signals g e2 + signals g e3) c3 (tc_pending c3) \<and> tc_endedGens c3 = tc_endedGens c2 \<and> tc_chansClosed c3 = tc_chansClosed c2"
        by (rule Cons.IH [OF r pop_done [OF Cons.prems(2) d c1]])
      then show ?thesis using done_events [OF d] c1 e signals_send [OF s, of g] by (simp add: add.assoc)
    qed
  qed
qed (auto simp: done_ok_def)

lemma final_done:
  assumes "onFinal c = (c', e)" "done_ok g k c (tc_pending c)"
  shows "done_ok g (k + signals g e) c' (tc_pending c') \<and> tc_endedGens c' = tc_endedGens c \<and> tc_chansClosed c' = tc_chansClosed c"
proof (cases "tc_pending c")
  case Nil
  then show ?thesis using assms by (simp add: onFinal_def)
next
  case (Cons p ps)
  obtain c1 e1 where d: "done_if_over (pr_gen p) (c\<lparr>tc_pending := ps\<rparr>) = (c1, e1)" by (cases "done_if_over (pr_gen p) (c\<lparr>tc_pending := ps\<rparr>)")
  obtain c2 e2 where r: "drainClipsLocked c1 = (c2, e2)" by (cases "drainClipsLocked c1")
  have p: "tc_pending c1 = ps" "tc_endedGens c1 = tc_endedGens c" "tc_chansClosed c1 = tc_chansClosed c" using done_events [OF d] by auto
  have "done_ok g (k + signals g e1) c1 ps" by (rule pop_done [OF assms(2) [unfolded Cons] d]) simp_all
  from drain_done [OF r [unfolded drainClipsLocked_def p(1)] this]
  show ?thesis using assms(1) Cons d r p by (auto simp: onFinal_def add.assoc)
qed

text \<open>One operation: the signals stay right when the discipline holds.\<close>

definition signals_ok :: "nat \<Rightarrow> nat \<Rightarrow> tts_world \<Rightarrow> bool" where
  "signals_ok g k w \<longleftrightarrow> done_ok g k (tw_client w) (tc_pending (tw_client w))"

lemma done_ok_same: "done_ok g k c ps \<Longrightarrow> tc_endedGens c' = tc_endedGens c \<Longrightarrow> tc_chansClosed c' = tc_chansClosed c \<or> tc_chansClosed c' \<Longrightarrow> done_ok g k c' ps"
  by (auto simp: done_ok_def)

definition step_signals :: "nat \<Rightarrow> nat \<Rightarrow> tts_op \<Rightarrow> tts_world \<Rightarrow> tts_world \<times> tts_event list \<Rightarrow> bool" where
  "step_signals g k op w r \<longleftrightarrow> signals_ok g (k + signals g (snd r)) (fst r)
    \<and> tc_endedGens (tw_client (fst r)) = tc_endedGens (tw_client w) \<union> {h. op = TEndGeneration h}"

lemma same_signals:
  assumes "signals_ok g k w" "tc_pending (tw_client w') = tc_pending (tw_client w)" "tc_endedGens (tw_client w') = tc_endedGens (tw_client w)"
    "tc_chansClosed (tw_client w) \<longrightarrow> tc_chansClosed (tw_client w')" "signals g e = 0" "\<forall>h. op \<noteq> TEndGeneration h"
  shows "step_signals g k op w (w', e)"
  using assms by (auto simp: step_signals_def signals_ok_def done_ok_def)

lemma speak_signals:
  assumes "signals_ok g k w" "g \<in> tc_endedGens (tw_client w) \<longrightarrow> h \<noteq> g"
  shows "step_signals g k (TSpeak s h) w (tts_do u (TSpeak s h) w)"
  using assms by (auto simp: step_signals_def tts_do_def signals_ok_def Speak_queue_def done_ok_def Let_def)

lemma play_signals:
  assumes "signals_ok g k w" "g \<in> tc_endedGens (tw_client w) \<longrightarrow> h \<noteq> g"
  shows "step_signals g k (TPlay pcm s h) w (tts_do u (TPlay pcm s h) w)"
proof (cases "pcm = [] \<or> tc_closed (tw_client w)")
  case True
  then show ?thesis using assms by (auto simp: step_signals_def tts_do_def Play_def with_client_def signals_ok_def Let_def)
next
  case False
  let ?c = "tw_client w"
  let ?p = "\<lparr>pr_gen = h, pr_req = tc_nextReq ?c + 1, pr_text = s, pr_pcm = Some pcm\<rparr>"
  let ?d = "?c\<lparr>tc_nextReq := tc_nextReq ?c + 1, tc_pending := tc_pending ?c @ [?p]\<rparr>"
  obtain c1 e1 where q: "drain_clips (tc_pending ?c @ [?p]) ?d = (c1, e1)" by (cases "drain_clips (tc_pending ?c @ [?p]) ?d")
  have w: "tts_do u (TPlay pcm s h) w = (w\<lparr>tw_client := c1\<rparr>, e1)"
    using q False by (simp add: tts_do_def Play_def with_client_def drainClipsLocked_def Let_def)
  have "done_ok g k ?d (tc_pending ?c @ [?p])" using assms by (auto simp: done_ok_def signals_ok_def)
  note x = drain_done [OF q this]
  show ?thesis using x unfolding w step_signals_def signals_ok_def by simp
qed

lemma end_signals:
  assumes "signals_ok g k w" "g \<in> tc_endedGens (tw_client w) \<longrightarrow> h \<noteq> g"
  shows "step_signals g k (TEndGeneration h) w (tts_do u (TEndGeneration h) w)"
proof -
  let ?c = "tw_client w"
  let ?d = "?c\<lparr>tc_endedGens := insert h (tc_endedGens ?c)\<rparr>"
  obtain c1 e1 where q: "emitDoneLocked h ?d = (c1, e1)" by (cases "emitDoneLocked h ?d")
  note x = emit_done [OF q, of g]
  show ?thesis
  proof (cases "genHasPendingLocked h (tc_pending ?c)")
    case True
    then have "tts_do u (TEndGeneration h) w = (w\<lparr>tw_client := ?d\<rparr>, [])" by (simp add: tts_do_def EndGeneration_def with_client_def Let_def)
    then show ?thesis using assms True by (auto simp: step_signals_def signals_ok_def done_ok_def)
  next
    case False
    then have "tts_do u (TEndGeneration h) w = (w\<lparr>tw_client := c1\<rparr>, e1)" using q by (simp add: tts_do_def EndGeneration_def with_client_def Let_def)
    then have t: "fst (tts_do u (TEndGeneration h) w) = w\<lparr>tw_client := c1\<rparr>" "snd (tts_do u (TEndGeneration h) w) = e1" by simp_all
    have c1: "tc_pending c1 = tc_pending ?c" "tc_chansClosed c1 = tc_chansClosed ?c" "tc_endedGens c1 = insert h (tc_endedGens ?c)"
      "signals g e1 = of_bool (h = g \<and> \<not> tc_chansClosed ?c)" using x by simp_all
    show ?thesis
      unfolding step_signals_def signals_ok_def done_ok_def t using assms False by (cases "h = g") (auto simp: c1 signals_ok_def done_ok_def)
  qed
qed

lemma final_signals:
  assumes "signals_ok g k w" "tw_client w' = tw_client w" "op = TFinal \<or> op = TError"
  shows "step_signals g k op w (with_client w' (onFinal (tw_client w)))"
proof -
  obtain c1 e1 where q: "onFinal (tw_client w) = (c1, e1)" by (cases "onFinal (tw_client w)")
  show ?thesis
    using final_done [OF q assms(1) [unfolded signals_ok_def]] q assms(3)
    by (auto simp: step_signals_def signals_ok_def with_client_def)
qed

lemma step_signals:
  assumes ok: "signals_ok g k w" and d: "g \<in> tc_endedGens (tw_client w) \<longrightarrow> not_for g op"
  shows "step_signals g k op w (tts_do u op w)"
proof (cases op)
  case (TSpeak s h)
  then show ?thesis using speak_signals [OF ok] d by auto
next
  case (TWrite i ok1 ok2)
  have "step_signals g k op w (fst (tts_do u op w), snd (tts_do u op w))"
    by (rule same_signals [OF ok]) (auto simp: TWrite tts_do_def Speak_write_def Let_def split: prod.splits)
  then show ?thesis by simp
next
  case (TPlay pcm s h)
  then show ?thesis using play_signals [OF ok] d by auto
next
  case (TEndGeneration h)
  then show ?thesis using end_signals [OF ok] d by auto
next
  case (TAudio pcm)
  have "step_signals g k op w (fst (tts_do u op w), snd (tts_do u op w))"
    by (rule same_signals [OF ok]) (auto simp: TAudio tts_do_def receive_def with_client_def send_audio_def Let_def)
  then show ?thesis by simp
next
  case TFinal
  show ?thesis
  proof (cases "tc_chansClosed (tw_client w) \<or> tw_provider w = []")
    case True
    then have "tts_do u op w = (w, [])" using TFinal by (simp add: tts_do_def Let_def)
    then show ?thesis using same_signals [OF ok, of w "[]" op] TFinal by simp
  next
    case False
    then have "tts_do u op w = with_client (w\<lparr>tw_provider := tl (tw_provider w)\<rparr>) (onFinal (tw_client w))"
      using TFinal by (simp add: tts_do_def receive_def Let_def)
    then show ?thesis using final_signals [OF ok, of "w\<lparr>tw_provider := tl (tw_provider w)\<rparr>" op] TFinal by simp
  qed
next
  case TError
  show ?thesis
  proof (cases "tc_chansClosed (tw_client w) \<or> tw_provider w = []")
    case True
    then have "tts_do u op w = (w, [])" using TError by (simp add: tts_do_def Let_def)
    then show ?thesis using same_signals [OF ok, of w "[]" op] TError by simp
  next
    case False
    then have "tts_do u op w = with_client (w\<lparr>tw_provider := tl (tw_provider w)\<rparr>) (onFinal (tw_client w))"
      using TError by (simp add: tts_do_def receive_def Let_def)
    then show ?thesis using final_signals [OF ok, of "w\<lparr>tw_provider := tl (tw_provider w)\<rparr>" op] TError by simp
  qed
next
  case TClose
  show ?thesis unfolding TClose tts_do_def with_client_def Let_def by simp (rule same_signals [OF ok], simp_all add: forceClose_def)
next
  case TJunk
  then have "tts_do u op w = (w, [])" by (simp add: tts_do_def with_client_def receive_def Let_def)
  then show ?thesis using same_signals [OF ok, of w "[]" op] TJunk by simp
next
  case TReadFails
  show ?thesis unfolding TReadFails tts_do_def with_client_def Let_def by simp (rule same_signals [OF ok], simp_all add: receive_ends_def)
next
  case (TPing b)
  have "step_signals g k op w (fst (tts_do u op w), snd (tts_do u op w))"
    by (rule same_signals [OF ok]) (auto simp: TPing tts_do_def Let_def)
  then show ?thesis by simp
next
  case TTakeAudio
  show ?thesis unfolding TTakeAudio tts_do_def with_client_def Let_def by simp (rule same_signals [OF ok], simp_all)
next
  case TTakeDone
  show ?thesis unfolding TTakeDone tts_do_def with_client_def Let_def by simp (rule same_signals [OF ok], simp_all)
qed


section \<open>Properties\<close>

lemma world_ok: "tts_ok [] [] world_start" "signals_ok g 0 world_start"
  by (simp_all add: tts_ok_def queue_ok_def world_start_def tts_start_def signals_ok_def done_ok_def Let_def)

text \<open>C18: While one goroutine speaks at a time, every piece of audio of the provider leaves the client (or is
  dropped when the buffer is full) with the number, generation and text of the request it was synthesized for;
  the text written for a request is that request's; and all audio, recorded clips included, leaves in the order
  the requests were made, each chunk as its request was made.
\<close>
lemma tts_attributed:
  assumes "one_speaker u ops world_start"
  shows "let (w, ev) = tts_run u ops world_start; M = made u ops world_start in
    (\<forall>(r, pcm, e) \<in> set (provider_audio u ops world_start). \<exists>ch. (e = [EvChunk ch] \<or> e = [EvDropped ch])
        \<and> ck_Req ch = r \<and> ck_PCM ch = pcm \<and> 1 \<le> r \<and> r \<le> length M \<and> M ! (r - 1) = (ck_Gen ch, ck_Text ch, None))
    \<and> (\<forall>n s. EvText n s \<in> set ev \<longrightarrow> n - 1 < length M \<and> (\<exists>g. M ! (n - 1) = (g, s, None)))
    \<and> sorted (map ck_Req (chunks ev))
    \<and> (\<forall>ch \<in> set (chunks ev). 1 \<le> ck_Req ch \<and> ck_Req ch \<le> length M \<and> made_as M ch)"
proof -
  obtain w ev where r: "tts_run u ops world_start = (w, ev)" by (cases "tts_run u ops world_start")
  have "tts_ok (made u ops world_start) (chunks ev) w" using run_ok [OF world_ok(1) assms] r by simp
  then have "sorted (map ck_Req (chunks ev))"
    "\<forall>ch \<in> set (chunks ev). 1 \<le> ck_Req ch \<and> ck_Req ch \<le> length (made u ops world_start) \<and> made_as (made u ops world_start) ch"
    by (auto simp: tts_ok_def queue_ok_def Let_def)
  moreover have "\<exists>ch. (e = [EvChunk ch] \<or> e = [EvDropped ch]) \<and> ck_Req ch = n \<and> ck_PCM ch = pcm \<and> 1 \<le> n
      \<and> n \<le> length (made u ops world_start) \<and> made u ops world_start ! (n - 1) = (ck_Gen ch, ck_Text ch, None)"
    if "(n, pcm, e) \<in> set (provider_audio u ops world_start)" for n pcm e
    using audio_run [OF world_ok(1) assms that] unfolding append_Nil by blast
  moreover have "n - 1 < length (made u ops world_start) \<and> (\<exists>g. made u ops world_start ! (n - 1) = (g, s, None))" if "EvText n s \<in> set ev" for n s
    using text_run [OF world_ok(1) assms, of n s] that unfolding append_Nil r snd_conv by blast
  ultimately show ?thesis unfolding r Let_def prod.case by blast
qed

definition tts_sample :: "tts_op list" where
  "tts_sample = [TSpeak [72, 105] 1, TWrite 0 True True, TPlay [9] [66] 1, TAudio [7, 8], TSpeak [32] 1, TEndGeneration 1,
     TFinal, TTakeAudio, TSpeak [67] 2, TWrite 0 True True, TAudio [6], TError, TEndGeneration 2]"

definition tts_sample_events :: "tts_event list" where
  "tts_sample_events = [EvText 1 [72, 105], EvFlush, EvChunk \<lparr>ck_PCM = [7, 8], ck_Gen = 1, ck_Req = 1, ck_Text = [72, 105]\<rparr>,
     EvChunk \<lparr>ck_PCM = [9], ck_Gen = 1, ck_Req = 2, ck_Text = [66]\<rparr>, EvDone 1, EvText 3 [67], EvFlush,
     EvChunk \<lparr>ck_PCM = [6], ck_Gen = 2, ck_Req = 3, ck_Text = [67]\<rparr>, EvDone 2]"

lemma tts_sample_run: "snd (tts_run ascii tts_sample world_start) = tts_sample_events" "one_speaker ascii tts_sample world_start"
  "made ascii tts_sample world_start = [(1, [72, 105], None), (1, [66], Some [9]), (2, [67], None)]"
  "ends_last 1 tts_sample" "ends_last 2 tts_sample"
  by code_simp+

lemma tts_attributed_witness:
  "sorted (map ck_Req (chunks tts_sample_events)) \<and> chunks tts_sample_events \<noteq> []"
  using tts_attributed [OF tts_sample_run(2)] tts_sample_run(1) by (auto simp: split_beta Let_def tts_sample_events_def)



text \<open>
  Two calls of \<open>Speak\<close> that overlap can queue in one order and write in the other; the comment on \<open>pending\<close>
  says it is in send order. Audio then carries the other call's request and generation.
\<close>
lemma overlapping_speaks_swap:
  "provider_audio ascii [TSpeak [72] 1, TSpeak [73] 2, TWrite 1 True True, TWrite 0 True True, TAudio [7]] world_start
    = [(2, [7], [EvChunk \<lparr>ck_PCM = [7], ck_Gen = 1, ck_Req = 1, ck_Text = [72]\<rparr>])]"
  by code_simp

end
