(* ===== verification/Stt_Client.thy ===== *)
theory Stt_Client
  imports Agent_Text
begin

text \<open>
  The speech recognition client (\<open>internal/ai/stt/sarvam.go\<close>): one connection at a time, redialed in the background when
  it died and audio is there to send. Connections are numbered in the order they are opened. A call of \<open>Feed\<close> or
  \<open>Flush\<close>, the redial and each receive loop are processes; a step is what one of them does between two points where
  another can run. Encoding and decoding JSON are parameters: messages are given decoded.
\<close>

section \<open>Results\<close>

datatype signal = NoSignal | SpeechStarted | SpeechEnded

record stt_result =
  re_Text :: runes
  re_Final :: bool
  re_Signal :: signal

text \<open>What the provider sends (\<open>sttInboundMessage\<close>); its error texts are only logged.\<close>

record stt_message =
  sm_Type :: string
  sm_Transcript :: runes
  sm_SignalType :: string

definition to_result :: "stt_message \<Rightarrow> stt_result option" where
  "to_result m =
     (if sm_Type m = ''events'' \<and> sm_SignalType m = ''START_SPEECH'' then Some \<lparr>re_Text = [], re_Final = False, re_Signal = SpeechStarted\<rparr>
      else if sm_Type m = ''events'' \<and> sm_SignalType m = ''END_SPEECH'' then Some \<lparr>re_Text = [], re_Final = False, re_Signal = SpeechEnded\<rparr>
      else if sm_Type m = ''data'' \<and> sm_Transcript m \<noteq> [] then Some \<lparr>re_Text = sm_Transcript m, re_Final = True, re_Signal = NoSignal\<rparr>
      else None)"

text \<open>The request to open a connection.\<close>

definition stt_query :: "string \<Rightarrow> string \<Rightarrow> bool \<Rightarrow> (string \<times> string) list" where
  "stt_query model language flush = [(''model'', model), (''language-code'', if language = [] then ''unknown'' else language),
     (''mode'', ''transcribe''), (''sample_rate'', ''16000''), (''vad_signals'', ''true'')] @ (if flush then [(''flush_signal'', ''true'')] else [])"

text \<open>The header with a request's id, \<open>reqid/reqid.go\<close>; \<open>get\<close> is \<open>http.Header.Get\<close>.\<close>

definition FromHeader :: "(string \<Rightarrow> string) \<Rightarrow> string" where
  "FromHeader get = (case filter (\<lambda>v. v \<noteq> []) (map get [''X-Request-Id'', ''Request-Id'', ''X-Correlation-Id'', ''Cf-Ray'']) of
      [] \<Rightarrow> [] | v # _ \<Rightarrow> v)"

section \<open>State\<close>

datatype stt_out = AudioOut "nat list" | FlushOut

text \<open>A call that has read \<open>conn\<close>, and one that found no reason to wait and may redial.\<close>

datatype stt_call = Saw stt_out "nat option" | MayDial

text \<open>The redial: begun, dialing, connected but not yet stored, and about to let the next one start.\<close>

datatype redial = NoRedial | Begun | Dialing | Connected nat | Stored

record stt =
  sc_conn :: "nat option"
  sc_closed :: bool
  sc_nextDialAt :: "int option"
  sc_failures :: nat
  sc_reconnecting :: bool
  sc_results :: "stt_result list"
  sc_ctxDone :: bool
  sc_calls :: "stt_call list"
  sc_redial :: redial
  sc_loops :: "(nat \<times> stt_result option) list"
  sc_open :: "nat set"
  sc_opened :: nat

datatype stt_event = Wrote nat stt_out | Delivered nat stt_result

definition reconnectBackoffMin :: int where "reconnectBackoffMin = 200000000"
definition reconnectBackoffMax :: int where "reconnectBackoffMax = 5000000000"

fun backoff_loop :: "nat \<Rightarrow> int \<Rightarrow> int" where
  "backoff_loop 0 d = d"
| "backoff_loop (Suc k) d = (if d < reconnectBackoffMax then backoff_loop k (d * 2) else d)"

definition reconnectBackoff :: "nat \<Rightarrow> int" where
  "reconnectBackoff n = min (backoff_loop (n - 1) reconnectBackoffMin) reconnectBackoffMax"

text \<open>\<open>NewSarvamClient\<close>, with its first connection.\<close>

definition stt_start :: stt where
  "stt_start = \<lparr>sc_conn = Some 0, sc_closed = False, sc_nextDialAt = None, sc_failures = 0, sc_reconnecting = False, sc_results = [],
     sc_ctxDone = False, sc_calls = [], sc_redial = NoRedial, sc_loops = [(0, None)], sc_open = {0}, sc_opened = 1\<rparr>"

section \<open>Operations\<close>

definition stt_invalidate :: "nat \<Rightarrow> stt \<Rightarrow> stt" where
  "stt_invalidate k s = s\<lparr>sc_conn := (if sc_conn s = Some k then None else sc_conn s), sc_open := sc_open s - {k}\<rparr>"

definition stt_close :: "stt \<Rightarrow> stt" where
  "stt_close s = s\<lparr>sc_conn := None, sc_closed := True,
     sc_open := (case sc_conn s of None \<Rightarrow> sc_open s | Some k \<Rightarrow> sc_open s - {k})\<rparr>"

definition must_wait :: "int \<Rightarrow> stt \<Rightarrow> bool" where
  "must_wait now s \<longleftrightarrow> sc_closed s \<or> (case sc_nextDialAt s of None \<Rightarrow> False | Some t \<Rightarrow> now < t)"

definition drop_at :: "nat \<Rightarrow> 'a list \<Rightarrow> 'a list" where
  "drop_at i xs = take i xs @ drop (i + 1) xs"

text \<open>The next step of the \<open>i\<close>-th call; \<open>ok\<close> says whether its message can be written.\<close>

definition call_step :: "nat \<Rightarrow> bool \<Rightarrow> int \<Rightarrow> stt \<Rightarrow> stt \<times> stt_event list" where
  "call_step i ok now s =
     (if i \<ge> length (sc_calls s) then (s, [])
      else let s' = s\<lparr>sc_calls := drop_at i (sc_calls s)\<rparr> in case sc_calls s ! i of
          Saw m None \<Rightarrow> if must_wait now s then (s', []) else (s\<lparr>sc_calls := (sc_calls s)[i := MayDial]\<rparr>, [])
        | MayDial \<Rightarrow> if sc_reconnecting s then (s', []) else (s'\<lparr>sc_reconnecting := True, sc_redial := Begun\<rparr>, [])
        | Saw m (Some k) \<Rightarrow> if ok \<and> k \<in> sc_open s then (s', [Wrote k m]) else (stt_invalidate k s', []))"

text \<open>The next step of the redial; \<open>ok\<close> says whether the dial succeeds.\<close>

definition redial_step :: "bool \<Rightarrow> int \<Rightarrow> stt \<Rightarrow> stt" where
  "redial_step ok now s = (case sc_redial s of
      NoRedial \<Rightarrow> s
    | Begun \<Rightarrow> if sc_ctxDone s then s\<lparr>sc_redial := Stored\<rparr> else s\<lparr>sc_redial := Dialing\<rparr>
    | Dialing \<Rightarrow>
        if ok then s\<lparr>sc_redial := Connected (sc_opened s), sc_open := insert (sc_opened s) (sc_open s), sc_opened := sc_opened s + 1\<rparr>
        else s\<lparr>sc_failures := sc_failures s + 1, sc_nextDialAt := Some (now + reconnectBackoff (sc_failures s + 1)), sc_redial := Stored\<rparr>
    | Connected k \<Rightarrow>
        if sc_closed s then s\<lparr>sc_open := sc_open s - {k}, sc_redial := Stored\<rparr>
        else s\<lparr>sc_conn := Some k, sc_failures := 0, sc_nextDialAt := None, sc_loops := sc_loops s @ [(k, None)], sc_redial := Stored\<rparr>
    | Stored \<Rightarrow> s\<lparr>sc_reconnecting := False, sc_redial := NoRedial\<rparr>)"

definition resultsCapacity :: nat where "resultsCapacity = 16"

text \<open>A receive loop reads \<open>m\<close> (\<open>None\<close>: the read fails).\<close>

definition loop_reads :: "nat \<Rightarrow> stt_message option \<Rightarrow> stt \<Rightarrow> stt" where
  "loop_reads i m s =
     (if i < length (sc_loops s) \<and> snd (sc_loops s ! i) = None then
        let k = fst (sc_loops s ! i) in case m of
          None \<Rightarrow> stt_invalidate k (s\<lparr>sc_loops := drop_at i (sc_loops s)\<rparr>)
        | Some m \<Rightarrow> s\<lparr>sc_loops := (sc_loops s)[i := (k, to_result m)]\<rparr>
      else s)"

definition loop_sends :: "nat \<Rightarrow> stt \<Rightarrow> stt \<times> stt_event list" where
  "loop_sends i s =
     (if i < length (sc_loops s) \<and> length (sc_results s) < resultsCapacity then
        let (k, r) = sc_loops s ! i in case r of
          None \<Rightarrow> (s, [])
        | Some r \<Rightarrow> (s\<lparr>sc_results := sc_results s @ [r], sc_loops := (sc_loops s)[i := (k, None)]\<rparr>, [Delivered k r])
      else (s, []))"

text \<open>A receive loop returns because \<open>ctx\<close> has ended, with or without a result in hand.\<close>

definition loop_ends :: "nat \<Rightarrow> stt \<Rightarrow> stt" where
  "loop_ends i s = (if sc_ctxDone s then s\<lparr>sc_loops := drop_at i (sc_loops s)\<rparr> else s)"

datatype stt_op = SCall stt_out | SCallStep nat bool int | SRedial bool int | SCtxEnds | SClose | SRead nat "stt_message option" | SSend nat
  | SLoopEnds nat | STake

definition stt_do :: "stt_op \<Rightarrow> stt \<Rightarrow> stt \<times> stt_event list" where
  "stt_do op s = (case op of
      SCall m \<Rightarrow> (s\<lparr>sc_calls := sc_calls s @ [Saw m (sc_conn s)]\<rparr>, [])
    | SCallStep i ok now \<Rightarrow> call_step i ok now s
    | SRedial ok now \<Rightarrow> (redial_step ok now s, [])
    | SCtxEnds \<Rightarrow> (s\<lparr>sc_ctxDone := True\<rparr>, [])
    | SClose \<Rightarrow> (stt_close s, [])
    | SRead i m \<Rightarrow> (loop_reads i m s, [])
    | SSend i \<Rightarrow> loop_sends i s
    | SLoopEnds i \<Rightarrow> (loop_ends i s, [])
    | STake \<Rightarrow> (s\<lparr>sc_results := drop 1 (sc_results s)\<rparr>, []))"

fun stt_run :: "stt_op list \<Rightarrow> stt \<Rightarrow> stt \<times> stt_event list" where
  "stt_run [] s = (s, [])"
| "stt_run (op # ops) s = (let (s, e1) = stt_do op s; (s, e2) = stt_run ops s in (s, e1 @ e2))"

end
