(* ===== verification/Stt_Claims.thy ===== *)
theory Stt_Claims
  imports Stt_Client
begin

text \<open>
  What the recognition client promises: which connections are open, and that results come in the order the provider
  sent them. Runs show where the redial does not do what its comments say.
\<close>

section \<open>Connections\<close>

definition known :: "stt \<Rightarrow> nat set" where
  "known s = set_option (sc_conn s) \<union> {k. \<exists>m. Saw m (Some k) \<in> set (sc_calls s)} \<union> fst ` set (sc_loops s)"

definition dialed :: "stt \<Rightarrow> nat set" where
  "dialed s = (case sc_redial s of Connected k \<Rightarrow> {k} | _ \<Rightarrow> {})"

text \<open>A redial that finds a connection already there replaces it, and nothing closes the old one.\<close>

definition overwritten_by :: "stt_op \<Rightarrow> stt \<Rightarrow> nat set" where
  "overwritten_by op s = (case op of SRedial ok now \<Rightarrow> if dialed s = {} \<or> sc_closed s then {} else set_option (sc_conn s) | _ \<Rightarrow> {})"

fun overwritten :: "stt_op list \<Rightarrow> stt \<Rightarrow> nat set" where
  "overwritten [] s = {}"
| "overwritten (op # ops) s = overwritten_by op s \<union> overwritten ops (fst (stt_do op s))"

text \<open>A redial begins while there is no connection.\<close>

definition begins_fresh :: "stt_op \<Rightarrow> stt \<Rightarrow> bool" where
  "begins_fresh op s = (case op of SCallStep i ok now \<Rightarrow>
      i < length (sc_calls s) \<and> sc_calls s ! i = MayDial \<and> \<not> sc_reconnecting s \<longrightarrow> sc_conn s = None | _ \<Rightarrow> True)"

fun all_fresh :: "stt_op list \<Rightarrow> stt \<Rightarrow> bool" where
  "all_fresh [] s = True"
| "all_fresh (op # ops) s = (begins_fresh op s \<and> all_fresh ops (fst (stt_do op s)))"

definition ids_ok :: "stt \<Rightarrow> bool" where
  "ids_ok s \<longleftrightarrow> (\<forall>k \<in> known s. k < sc_opened s \<and> sc_redial s \<noteq> Connected k)
     \<and> (\<forall>k. sc_redial s = Connected k \<longrightarrow> k < sc_opened s) \<and> distinct (map fst (sc_loops s))"

definition open_ok :: "nat set \<Rightarrow> stt \<Rightarrow> bool" where
  "open_ok L s \<longleftrightarrow> set_option (sc_conn s) \<union> dialed s \<subseteq> sc_open s \<and> sc_open s \<subseteq> set_option (sc_conn s) \<union> dialed s \<union> L
     \<and> (sc_closed s \<longrightarrow> sc_conn s = None) \<and> (sc_reconnecting s \<longleftrightarrow> sc_redial s \<noteq> NoRedial)"

lemma set_drop_at: "set (drop_at i xs) \<subseteq> set xs"
  unfolding drop_at_def using set_take_subset set_drop_subset by fastforce

lemma in_drop_at: "x \<in> set (drop_at i xs) \<Longrightarrow> x \<in> set xs"
  using set_drop_at by fast

lemma map_drop_at: "map f (drop_at i xs) = drop_at i (map f xs)"
  by (simp add: drop_at_def take_map drop_map)

lemma distinct_drop_at: "distinct xs \<Longrightarrow> distinct (drop_at i xs)"
  by (simp add: drop_at_def set_take_disj_set_drop_if_distinct)

lemma in_list_update: "x \<in> set (xs[i := y]) \<Longrightarrow> x \<in> set xs \<or> x = y"
  using set_update_subset_insert by fast

lemma known_calls: "known (s\<lparr>sc_calls := drop_at i (sc_calls s)\<rparr>) \<subseteq> known s"
  "known (s\<lparr>sc_calls := (sc_calls s)[i := MayDial]\<rparr>) \<subseteq> known s"
  by (auto simp: known_def dest: in_drop_at in_list_update)

lemma ids_known:
  assumes "ids_ok s" "known s' \<subseteq> known s" "sc_redial s' = sc_redial s" "sc_opened s' = sc_opened s" "distinct (map fst (sc_loops s'))"
  shows "ids_ok s'"
  using assms by (auto simp: ids_ok_def)

lemma invalidate_ids: "ids_ok s \<Longrightarrow> ids_ok (stt_invalidate k s)"
  by (rule ids_known) (auto simp: stt_invalidate_def known_def ids_ok_def)

lemma invalidate_open:
  assumes "open_ok L s" "sc_redial s \<noteq> Connected k"
  shows "open_ok L (stt_invalidate k s)"
  using assms by (auto simp: open_ok_def stt_invalidate_def dialed_def split: redial.splits)

lemma open_same:
  assumes "open_ok L s" "sc_conn s' = sc_conn s" "sc_redial s' = sc_redial s" "sc_open s' = sc_open s" "sc_closed s' = sc_closed s"
    "sc_reconnecting s' = sc_reconnecting s"
  shows "open_ok L s'"
  using assms by (simp add: open_ok_def dialed_def)

lemma call_ids:
  assumes "ids_ok s" shows "ids_ok (fst (call_step i ok now s))"
proof (cases "i < length (sc_calls s)")
  case True
  let ?s = "s\<lparr>sc_calls := drop_at i (sc_calls s)\<rparr>"
  have d: "distinct (map fst (sc_loops s))" using assms by (simp add: ids_ok_def)
  have s1: "ids_ok ?s" by (rule ids_known [OF assms known_calls(1)]) (simp_all add: d)
  have s2: "ids_ok (s\<lparr>sc_calls := (sc_calls s)[i := MayDial]\<rparr>)" by (rule ids_known [OF assms known_calls(2)]) (simp_all add: d)
  have s3: "ids_ok (?s\<lparr>sc_reconnecting := True, sc_redial := Begun\<rparr>)" using s1 by (auto simp: ids_ok_def known_def)
  show ?thesis using True s1 s2 s3 invalidate_ids [OF s1] by (auto simp: call_step_def Let_def split: stt_call.splits option.splits)
qed (simp add: call_step_def assms)

lemma call_open:
  assumes "open_ok L s" "ids_ok s" shows "open_ok L (fst (call_step i ok now s))"
proof (cases "i < length (sc_calls s)")
  case True
  let ?s = "s\<lparr>sc_calls := drop_at i (sc_calls s)\<rparr>"
  have s1: "open_ok L ?s" by (rule open_same [OF assms(1)]) simp_all
  have s2: "open_ok L (s\<lparr>sc_calls := (sc_calls s)[i := MayDial]\<rparr>)" by (rule open_same [OF assms(1)]) simp_all
  have s3: "open_ok L (?s\<lparr>sc_reconnecting := True, sc_redial := Begun\<rparr>)" if "\<not> sc_reconnecting s"
    using s1 that by (auto simp: open_ok_def dialed_def)
  have s4: "open_ok L (stt_invalidate k ?s)" if "sc_calls s ! i = Saw m (Some k)" for m k
  proof (rule invalidate_open [OF s1])
    have "k \<in> known s" using that True by (force simp: known_def dest: nth_mem [of i "sc_calls s"])
    then show "sc_redial ?s \<noteq> Connected k" using assms(2) by (auto simp: ids_ok_def)
  qed
  show ?thesis using True s1 s2 s3 s4 by (auto simp: call_step_def Let_def split: stt_call.splits option.splits)
qed (simp add: call_step_def assms)

lemma redial_ids: "ids_ok s \<Longrightarrow> ids_ok (redial_step ok now s)"
  by (cases "sc_redial s") (auto simp: redial_step_def ids_ok_def known_def less_Suc_eq)

lemma redial_open:
  assumes "open_ok L s" "ids_ok s" shows "open_ok (L \<union> overwritten_by (SRedial ok now) s) (redial_step ok now s)"
  using assms by (cases "sc_redial s") (auto simp: redial_step_def open_ok_def dialed_def ids_ok_def known_def overwritten_by_def)

lemma loop_conn: "i < length (sc_loops s) \<Longrightarrow> ids_ok s \<Longrightarrow> sc_redial s \<noteq> Connected (fst (sc_loops s ! i))"
  by (auto simp: ids_ok_def known_def)

lemma loop_drop_ids:
  assumes "ids_ok s" shows "ids_ok (s\<lparr>sc_loops := drop_at i (sc_loops s)\<rparr>)"
proof (rule ids_known [OF assms])
  have "fst ` set (drop_at i (sc_loops s)) \<subseteq> fst ` set (sc_loops s)" using set_drop_at by (intro image_mono)
  then show "known (s\<lparr>sc_loops := drop_at i (sc_loops s)\<rparr>) \<subseteq> known s" by (auto simp: known_def)
  show "distinct (map fst (sc_loops (s\<lparr>sc_loops := drop_at i (sc_loops s)\<rparr>)))"
    using assms distinct_drop_at [of "map fst (sc_loops s)" i] by (simp add: ids_ok_def map_drop_at)
qed simp_all

lemma loop_update_ids:
  assumes "ids_ok s" "i < length (sc_loops s)" shows "ids_ok (s\<lparr>sc_loops := (sc_loops s)[i := (fst (sc_loops s ! i), r)]\<rparr>)"
proof (rule ids_known [OF assms(1)])
  have m: "map fst ((sc_loops s)[i := (fst (sc_loops s ! i), r)]) = map fst (sc_loops s)"
    using assms(2) by (simp add: map_update list_update_same_conv)
  then show "distinct (map fst (sc_loops (s\<lparr>sc_loops := (sc_loops s)[i := (fst (sc_loops s ! i), r)]\<rparr>)))" using assms(1) by (simp add: ids_ok_def)
  have "fst ` set ((sc_loops s)[i := (fst (sc_loops s ! i), r)]) = fst ` set (sc_loops s)" using m by (metis list.set_map)
  then show "known (s\<lparr>sc_loops := (sc_loops s)[i := (fst (sc_loops s ! i), r)]\<rparr>) \<subseteq> known s" by (simp add: known_def)
qed simp_all

lemma close_ok: "ids_ok s \<Longrightarrow> ids_ok (stt_close s)" "open_ok L s \<Longrightarrow> ids_ok s \<Longrightarrow> open_ok L (stt_close s)"
   apply (auto simp: stt_close_def ids_ok_def known_def) []
  by (auto simp: stt_close_def open_ok_def ids_ok_def known_def dialed_def split: option.splits redial.splits)

lemma stt_step:
  assumes "open_ok L s" "ids_ok s"
  shows "open_ok (L \<union> overwritten_by op s) (fst (stt_do op s)) \<and> ids_ok (fst (stt_do op s))"
proof (cases op)
  case (SCall m)
  let ?s = "s\<lparr>sc_calls := sc_calls s @ [Saw m (sc_conn s)]\<rparr>"
  have "open_ok L ?s" by (rule open_same [OF assms(1)]) simp_all
  moreover have "ids_ok ?s" using assms(2) by (intro ids_known [OF assms(2)]) (auto simp: known_def ids_ok_def)
  ultimately show ?thesis using SCall by (simp add: stt_do_def overwritten_by_def)
next
  case (SCallStep i ok now)
  then show ?thesis using call_open [OF assms] call_ids [OF assms(2)] by (simp add: stt_do_def overwritten_by_def)
next
  case (SRedial ok now)
  then show ?thesis using redial_open [OF assms] redial_ids [OF assms(2)] by (simp add: stt_do_def)
next
  case SClose
  then show ?thesis using close_ok assms by (simp add: stt_do_def overwritten_by_def)
next
  case (SRead i m)
  let ?s = "s\<lparr>sc_loops := drop_at i (sc_loops s)\<rparr>"
  show ?thesis
  proof (cases "i < length (sc_loops s) \<and> snd (sc_loops s ! i) = None")
    case True
    have "open_ok L ?s" by (rule open_same [OF assms(1)]) simp_all
    then have "open_ok L (stt_invalidate (fst (sc_loops s ! i)) ?s)" using loop_conn True assms(2) by (intro invalidate_open) simp_all
    moreover have "open_ok L (s\<lparr>sc_loops := (sc_loops s)[i := x]\<rparr>)" for x by (rule open_same [OF assms(1)]) simp_all
    ultimately show ?thesis
      using SRead True loop_update_ids [OF assms(2)] invalidate_ids [OF loop_drop_ids [OF assms(2)]]
      by (cases m) (simp_all add: stt_do_def loop_reads_def overwritten_by_def Let_def)
  qed (use SRead assms in \<open>auto simp: stt_do_def loop_reads_def overwritten_by_def\<close>)
next
  case (SSend i)
  show ?thesis
  proof (cases "i < length (sc_loops s) \<and> length (sc_results s) < resultsCapacity")
    case True
    have o: "open_ok L (s\<lparr>sc_results := y, sc_loops := (sc_loops s)[i := x]\<rparr>)" for x y by (rule open_same [OF assms(1)]) simp_all
    have "ids_ok (s\<lparr>sc_loops := (sc_loops s)[i := (fst (sc_loops s ! i), x)]\<rparr>)" for x using loop_update_ids [OF assms(2)] True by simp
    then have "ids_ok (s\<lparr>sc_results := y, sc_loops := (sc_loops s)[i := (fst (sc_loops s ! i), x)]\<rparr>)" for x y by (simp add: ids_ok_def known_def)
    then show ?thesis using SSend True o assms
      by (cases "sc_loops s ! i") (auto simp: stt_do_def loop_sends_def overwritten_by_def Let_def split: option.splits)
  qed (use SSend assms in \<open>auto simp: stt_do_def loop_sends_def overwritten_by_def\<close>)
next
  case (SLoopEnds i)
  have "open_ok L (s\<lparr>sc_loops := drop_at i (sc_loops s)\<rparr>)" by (rule open_same [OF assms(1)]) simp_all
  then show ?thesis using SLoopEnds assms loop_drop_ids [OF assms(2)] by (simp add: stt_do_def loop_ends_def overwritten_by_def)
qed (use assms in \<open>auto simp: stt_do_def open_ok_def ids_ok_def known_def dialed_def overwritten_by_def\<close>)

lemma stt_run_ok:
  assumes "open_ok L s" "ids_ok s"
  shows "open_ok (L \<union> overwritten ops s) (fst (stt_run ops s)) \<and> ids_ok (fst (stt_run ops s))"
  using assms
proof (induction ops arbitrary: L s)
  case (Cons op ops)
  from Cons.IH [of "L \<union> overwritten_by op s" "fst (stt_do op s)"] stt_step [OF Cons.prems, of op]
  show ?case by (simp add: split_beta Un_assoc)
qed simp

text \<open>A redial that begins with no connection ends with none.\<close>

definition redial_alone :: "stt \<Rightarrow> bool" where
  "redial_alone s \<longleftrightarrow> (sc_redial s \<noteq> NoRedial \<and> sc_redial s \<noteq> Stored \<longrightarrow> sc_conn s = None)"

lemma alone_step:
  assumes "redial_alone s" "begins_fresh op s" "sc_reconnecting s \<longleftrightarrow> sc_redial s \<noteq> NoRedial"
  shows "redial_alone (fst (stt_do op s)) \<and> overwritten_by op s = {}"
proof (cases op)
  case (SCallStep i ok now)
  then show ?thesis
    using assms by (cases "sc_calls s ! i")
      (auto simp: stt_do_def call_step_def redial_alone_def begins_fresh_def overwritten_by_def stt_invalidate_def Let_def split: option.splits if_splits)
next
  case (SRedial ok now)
  then show ?thesis
    using assms by (cases "sc_redial s") (auto simp: stt_do_def redial_step_def redial_alone_def overwritten_by_def dialed_def)
next
  case (SRead i m)
  then show ?thesis
    using assms by (cases m) (auto simp: stt_do_def loop_reads_def redial_alone_def overwritten_by_def stt_invalidate_def Let_def)
next
  case (SSend i)
  then show ?thesis
    using assms by (auto simp: stt_do_def loop_sends_def redial_alone_def overwritten_by_def Let_def split: option.splits prod.splits)
next
  case (SLoopEnds i)
  then show ?thesis using assms by (auto simp: stt_do_def loop_ends_def redial_alone_def overwritten_by_def)
qed (use assms in \<open>auto simp: stt_do_def stt_close_def redial_alone_def overwritten_by_def\<close>)

lemma alone_run:
  assumes "redial_alone s" "open_ok L s" "ids_ok s" "all_fresh ops s"
  shows "overwritten ops s = {} \<and> redial_alone (fst (stt_run ops s))"
  using assms
proof (induction ops arbitrary: L s)
  case (Cons op ops)
  have r: "sc_reconnecting s \<longleftrightarrow> sc_redial s \<noteq> NoRedial" using Cons.prems(2) by (simp add: open_ok_def)
  have b: "begins_fresh op s" "all_fresh ops (fst (stt_do op s))" using Cons.prems(4) by simp_all
  note a = alone_step [OF Cons.prems(1) b(1) r] and t = stt_step [OF Cons.prems(2,3), of op]
  from Cons.IH [OF conjunct1 [OF a] conjunct1 [OF t] conjunct2 [OF t] b(2)] a show ?case by (simp add: split_beta)
qed simp

section \<open>Results\<close>

fun delivered :: "nat \<Rightarrow> stt_event list \<Rightarrow> stt_result list" where
  "delivered k [] = []"
| "delivered k (Delivered j r # es) = (if j = k then r # delivered k es else delivered k es)"
| "delivered k (Wrote j m # es) = delivered k es"

lemma delivered_append [simp]: "delivered k (xs @ ys) = delivered k xs @ delivered k ys"
  by (induction xs rule: delivered.induct) auto

text \<open>The messages read from connection \<open>k\<close>.\<close>

definition heard_by :: "nat \<Rightarrow> stt_op \<Rightarrow> stt \<Rightarrow> stt_message list" where
  "heard_by k op s = (case op of SRead i (Some m) \<Rightarrow> if i < length (sc_loops s) \<and> sc_loops s ! i = (k, None) then [m] else [] | _ \<Rightarrow> [])"

fun heard :: "nat \<Rightarrow> stt_op list \<Rightarrow> stt \<Rightarrow> stt_message list" where
  "heard k [] s = []"
| "heard k (op # ops) s = heard_by k op s @ heard k ops (fst (stt_do op s))"

definition results_of :: "stt_message list \<Rightarrow> stt_result list" where
  "results_of ms = concat (map (\<lambda>m. case to_result m of None \<Rightarrow> [] | Some r \<Rightarrow> [r]) ms)"

lemma results_of_simps [simp]: "results_of [] = []" "results_of (xs @ ys) = results_of xs @ results_of ys"
  "results_of [m] = (case to_result m of None \<Rightarrow> [] | Some r \<Rightarrow> [r])"
  by (simp_all add: results_of_def)

definition in_hand :: "nat \<Rightarrow> (nat \<times> stt_result option) list \<Rightarrow> stt_result list" where
  "in_hand k ls = (case map_of ls k of Some (Some r) \<Rightarrow> [r] | _ \<Rightarrow> [])"

definition order_ok :: "nat \<Rightarrow> stt_result list \<Rightarrow> stt_result list \<Rightarrow> stt \<Rightarrow> bool" where
  "order_ok k H D s \<longleftrightarrow> (\<exists>rest. H = D @ rest
     \<and> (case map_of (sc_loops s) k of Some x \<Rightarrow> rest = in_hand k (sc_loops s) | None \<Rightarrow> length rest \<le> 1 \<and> (\<not> sc_ctxDone s \<longrightarrow> rest = []))
     \<and> (k \<ge> sc_opened s \<or> sc_redial s = Connected k \<longrightarrow> H = []))"

lemma map_of_update_at: "distinct (map fst xs) \<Longrightarrow> i < length xs \<Longrightarrow> map_of (xs[i := (fst (xs ! i), y)]) = (map_of xs)(fst (xs ! i) \<mapsto> y)"
proof (induction xs arbitrary: i)
  case (Cons x xs)
  show ?case
  proof (cases i)
    case (Suc j)
    have "fst x \<noteq> fst (xs ! j)" using Cons.prems Suc by force
    then show ?thesis using Cons Suc by (cases x) (auto simp: fun_eq_iff)
  qed (cases x, simp add: fun_eq_iff)
qed simp

lemma map_of_drop_at: "distinct (map fst xs) \<Longrightarrow> i < length xs \<Longrightarrow> map_of (drop_at i xs) = (map_of xs)(fst (xs ! i) := None)"
proof (induction xs arbitrary: i)
  case (Cons x xs)
  show ?case
  proof (cases i)
    case 0
    have "map_of xs (fst x) = None" using Cons.prems by (simp add: map_of_eq_None_iff)
    then show ?thesis using 0 by (cases x) (auto simp: drop_at_def)
  next
    case (Suc j)
    have "fst x \<noteq> fst (xs ! j)" using Cons.prems Suc by force
    moreover have "map_of (drop_at j xs) = (map_of xs)(fst (xs ! j) := None)" by (rule Cons.IH) (use Cons.prems Suc in auto)
    moreover have "drop_at i (x # xs) = x # drop_at j xs" "(x # xs) ! i = xs ! j" using Suc by (simp_all add: drop_at_def)
    ultimately show ?thesis by (cases x) (auto simp: fun_eq_iff)
  qed
qed simp

lemma map_of_at: "distinct (map fst xs) \<Longrightarrow> i < length xs \<Longrightarrow> map_of xs (fst (xs ! i)) = Some (snd (xs ! i))"
  by (metis map_of_eq_Some_iff nth_mem prod.collapse)

lemma order_same:
  assumes "order_ok k H D s" "sc_loops s' = sc_loops s" "sc_ctxDone s \<longrightarrow> sc_ctxDone s'"
    "k \<ge> sc_opened s' \<or> sc_redial s' = Connected k \<Longrightarrow> k \<ge> sc_opened s \<or> sc_redial s = Connected k"
  shows "order_ok k H D s'"
  using assms by (fastforce simp: order_ok_def split: option.splits)

text \<open>The slot of one loop changes: for its own connection and for every other one.\<close>

lemma order_other:
  assumes "order_ok k H D s" "map_of (sc_loops s') k = map_of (sc_loops s) k" "sc_ctxDone s' = sc_ctxDone s"
    "sc_opened s' = sc_opened s" "sc_redial s' = sc_redial s"
  shows "order_ok k H D s'"
  using assms by (auto simp: order_ok_def in_hand_def split: option.splits)

lemma order_read:
  assumes "order_ok k H D s" "ids_ok s"
  shows "order_ok k (H @ results_of (heard_by k (SRead i m) s)) D (loop_reads i m s)"
proof (cases "i < length (sc_loops s) \<and> snd (sc_loops s ! i) = None")
  case True
  let ?j = "fst (sc_loops s ! i)"
  have ds: "distinct (map fst (sc_loops s))" using assms(2) by (simp add: ids_ok_def)
  have j: "sc_loops s ! i = (?j, None)" using True by (cases "sc_loops s ! i") simp
  have jm: "map_of (sc_loops s) ?j = Some None" using map_of_at [OF ds, of i] True by simp
  have jo: "?j < sc_opened s" "sc_redial s \<noteq> Connected ?j" using assms(2) True by (auto simp: ids_ok_def known_def)
  show ?thesis
  proof (cases m)
    case None
    have l: "sc_loops (loop_reads i m s) = drop_at i (sc_loops s)" "sc_ctxDone (loop_reads i m s) = sc_ctxDone s"
      "sc_opened (loop_reads i m s) = sc_opened s" "sc_redial (loop_reads i m s) = sc_redial s"
      using True None by (simp_all add: loop_reads_def stt_invalidate_def Let_def)
    have h: "heard_by k (SRead i m) s = []" using None by (simp add: heard_by_def)
    show ?thesis
    proof (cases "k = ?j")
      case k: True
      have "H = D" using assms(1) jm k by (auto simp: order_ok_def in_hand_def)
      then show ?thesis using jo k h l map_of_drop_at [OF ds, of i] True by (simp add: order_ok_def)
    next
      case False
      have "order_ok k H D (loop_reads i m s)"
        using False l map_of_drop_at [OF ds, of i] True by (intro order_other [OF assms(1)]) simp_all
      then show ?thesis using h by simp
    qed
  next
    case (Some msg)
    have l: "sc_loops (loop_reads i m s) = (sc_loops s)[i := (?j, to_result msg)]" "sc_ctxDone (loop_reads i m s) = sc_ctxDone s"
      "sc_opened (loop_reads i m s) = sc_opened s" "sc_redial (loop_reads i m s) = sc_redial s"
      using True Some by (simp_all add: loop_reads_def Let_def)
    have u: "map_of (sc_loops (loop_reads i m s)) = (map_of (sc_loops s))(?j \<mapsto> to_result msg)"
      using map_of_update_at [OF ds, of i] True l by simp
    show ?thesis
    proof (cases "k = ?j")
      case k: True
      have "H = D" using assms(1) jm k by (auto simp: order_ok_def in_hand_def)
      moreover have "heard_by k (SRead i m) s = [msg]" using True Some j k by (simp add: heard_by_def)
      ultimately show ?thesis using jo k u l by (auto simp: order_ok_def in_hand_def split: option.splits)
    next
      case False
      have "heard_by k (SRead i m) s = []" using j False Some by (auto simp: heard_by_def)
      moreover have "order_ok k H D (loop_reads i m s)" using False l u by (intro order_other [OF assms(1)]) simp_all
      ultimately show ?thesis by simp
    qed
  qed
next
  case False
  then have "loop_reads i m s = s" "heard_by k (SRead i m) s = []" by (auto simp: loop_reads_def heard_by_def split: option.splits)
  then show ?thesis using assms(1) by simp
qed

lemma order_send:
  assumes "order_ok k H D s" "ids_ok s"
  shows "order_ok k H (D @ delivered k (snd (loop_sends i s))) (fst (loop_sends i s))"
proof (cases "i < length (sc_loops s) \<and> length (sc_results s) < resultsCapacity \<and> snd (sc_loops s ! i) \<noteq> None")
  case True
  let ?j = "fst (sc_loops s ! i)"
  obtain r where r: "sc_loops s ! i = (?j, Some r)" using True by (cases "sc_loops s ! i") auto
  let ?s = "s\<lparr>sc_results := sc_results s @ [r], sc_loops := (sc_loops s)[i := (?j, None)]\<rparr>"
  have "snd (sc_loops s ! i) = Some r" using r by (metis snd_conv)
  then have e: "loop_sends i s = (?s, [Delivered ?j r])" using True by (simp add: loop_sends_def split_beta)
  have ds: "distinct (map fst (sc_loops s))" using assms(2) by (simp add: ids_ok_def)
  have jm: "map_of (sc_loops s) ?j = Some (Some r)" using map_of_at [OF ds, of i] True r by (metis snd_conv)
  have jo: "?j < sc_opened s" "sc_redial s \<noteq> Connected ?j" using assms(2) True by (auto simp: ids_ok_def known_def)
  have u: "map_of (sc_loops ?s) = (map_of (sc_loops s))(?j \<mapsto> None)" using map_of_update_at [OF ds, of i] True by simp
  show ?thesis
  proof (cases "k = ?j")
    case k: True
    have "H = D @ [r]" using assms(1) jm k by (auto simp: order_ok_def in_hand_def)
    then show ?thesis using jo k u e by (simp add: order_ok_def in_hand_def)
  next
    case False
    have "order_ok k H D ?s" using False u by (intro order_other [OF assms(1)]) simp_all
    then show ?thesis using e False by simp
  qed
next
  case False
  then have "loop_sends i s = (s, [])" by (cases "sc_loops s ! i") (auto simp: loop_sends_def split: option.splits)
  then show ?thesis using assms(1) by simp
qed

lemma order_ends:
  assumes "order_ok k H D s" "ids_ok s" shows "order_ok k H D (loop_ends i s)"
proof (cases "sc_ctxDone s \<and> i < length (sc_loops s)")
  case True
  let ?j = "fst (sc_loops s ! i)"
  have ds: "distinct (map fst (sc_loops s))" using assms(2) by (simp add: ids_ok_def)
  have e: "loop_ends i s = s\<lparr>sc_loops := drop_at i (sc_loops s)\<rparr>" using True by (simp add: loop_ends_def)
  have u: "map_of (drop_at i (sc_loops s)) = (map_of (sc_loops s))(?j := None)" using map_of_drop_at [OF ds, of i] True by simp
  show ?thesis
  proof (cases "k = ?j")
    case k: True
    have "map_of (sc_loops s) k = Some (snd (sc_loops s ! i))" using map_of_at [OF ds, of i] True k by simp
    then have "\<exists>rest. H = D @ rest \<and> length rest \<le> 1" using assms(1) by (auto simp: order_ok_def in_hand_def split: option.splits)
    moreover have "k < sc_opened s" "sc_redial s \<noteq> Connected k" using assms(2) True k by (auto simp: ids_ok_def known_def)
    ultimately show ?thesis using e u k True by (auto simp: order_ok_def)
  next
    case False
    then show ?thesis using e u by (intro order_other [OF assms(1)]) simp_all
  qed
next
  case False
  then have "loop_ends i s = s" by (auto simp: loop_ends_def drop_at_def)
  then show ?thesis using assms(1) by simp
qed

lemma order_redial:
  assumes "order_ok k H D s" "ids_ok s" shows "order_ok k H D (redial_step ok now s)"
proof (cases "\<exists>j. sc_redial s = Connected j \<and> \<not> sc_closed s")
  case True
  then obtain j where j: "sc_redial s = Connected j" "\<not> sc_closed s" by blast
  then have l: "sc_loops (redial_step ok now s) = sc_loops s @ [(j, None)]" "sc_ctxDone (redial_step ok now s) = sc_ctxDone s"
    "sc_opened (redial_step ok now s) = sc_opened s" "sc_redial (redial_step ok now s) = Stored"
    by (simp_all add: redial_step_def)
  have jn: "map_of (sc_loops s) j = None" "j < sc_opened s"
    using assms(2) j by (auto simp: ids_ok_def known_def map_of_eq_None_iff)
  show ?thesis
  proof (cases "k = j")
    case k: True
    have "H = [] \<and> D = []" using assms(1) j k by (auto simp: order_ok_def)
    then show ?thesis using l jn k by (auto simp: order_ok_def in_hand_def map_add_def)
  next
    case False
    have "map_of (sc_loops s @ [(j, None)]) k = map_of (sc_loops s) k" using False by (simp add: map_add_def split: option.splits)
    then show ?thesis using assms(1) l by (auto simp: order_ok_def in_hand_def split: option.splits)
  qed
next
  case False
  then show ?thesis
    by (cases "sc_redial s") (auto simp: redial_step_def intro!: order_same [OF assms(1)])
qed

lemma order_step:
  assumes "order_ok k H D s" "ids_ok s"
  shows "order_ok k (H @ results_of (heard_by k op s)) (D @ delivered k (snd (stt_do op s))) (fst (stt_do op s))"
proof (cases op)
  case (SCallStep i ok now)
  have "delivered k (snd (call_step i ok now s)) = []"
    by (auto simp: call_step_def Let_def split: stt_call.splits option.splits)
  moreover have "order_ok k H D (fst (call_step i ok now s))"
    by (rule order_same [OF assms(1)])
      (auto simp: call_step_def stt_invalidate_def Let_def split: stt_call.splits option.splits if_splits)
  ultimately show ?thesis using SCallStep by (simp add: stt_do_def heard_by_def)
next
  case (SRedial ok now)
  then show ?thesis using order_redial [OF assms] by (simp add: stt_do_def heard_by_def)
next
  case (SRead i m)
  then show ?thesis using order_read [OF assms] by (simp add: stt_do_def)
next
  case (SSend i)
  then show ?thesis using order_send [OF assms] by (simp add: stt_do_def heard_by_def)
next
  case (SLoopEnds i)
  then show ?thesis using order_ends [OF assms] by (simp add: stt_do_def heard_by_def)
qed (auto simp: stt_do_def heard_by_def stt_close_def intro!: order_same [OF assms(1)])

lemma order_run:
  assumes "order_ok k H D s" "open_ok L s" "ids_ok s"
  shows "order_ok k (H @ results_of (heard k ops s)) (D @ delivered k (snd (stt_run ops s))) (fst (stt_run ops s))"
  using assms
proof (induction ops arbitrary: H D L s)
  case (Cons op ops)
  have t: "open_ok (L \<union> overwritten_by op s) (fst (stt_do op s))" "ids_ok (fst (stt_do op s))"
    using stt_step [OF Cons.prems(2,3), of op] by simp_all
  from Cons.IH [OF order_step [OF Cons.prems(1,3), of op] t] show ?case by (simp add: split_beta)
qed simp

section \<open>Waiting between redials\<close>

lemma backoff_loop: "d > 0 \<Longrightarrow> min (backoff_loop k d) reconnectBackoffMax = min (d * 2 ^ k) reconnectBackoffMax"
proof (induction k arbitrary: d)
  case (Suc k)
  have "(1::int) \<le> 2 ^ Suc k" by (rule one_le_power) simp
  then have "d \<le> d * 2 ^ Suc k" using mult_left_mono [of 1 "2 ^ Suc k" d] Suc.prems by simp
  then have "min (d * 2 ^ Suc k) reconnectBackoffMax = reconnectBackoffMax" if "\<not> d < reconnectBackoffMax" using that by linarith
  then show ?case using Suc.IH [of "d * 2"] Suc.prems by (cases "d < reconnectBackoffMax") (simp_all add: mult.assoc)
qed simp

section \<open>Properties\<close>

lemma stt_start_ok: "open_ok {} stt_start" "ids_ok stt_start" "redial_alone stt_start" "order_ok k [] [] stt_start"
  by (auto simp: open_ok_def ids_ok_def redial_alone_def order_ok_def in_hand_def stt_start_def dialed_def known_def)

text \<open>C20: Over any interleaving of calls, redial and receive loops, the connections open at the provider are exactly
  the current one, one just dialed, and those that a redial replaced; there is no current one after the end of the
  call, so none stays open then once the redial is over; and none is replaced when each redial begins without a
  connection.
\<close>
lemma stt_streams_exact:
  assumes "fst (stt_run ops stt_start) = s"
  shows "set_option (sc_conn s) \<union> dialed s \<subseteq> sc_open s
    \<and> sc_open s \<subseteq> set_option (sc_conn s) \<union> dialed s \<union> overwritten ops stt_start
    \<and> (sc_closed s \<longrightarrow> sc_conn s = None)
    \<and> (all_fresh ops stt_start \<longrightarrow> overwritten ops stt_start = {} \<and> card (sc_open s) \<le> 1
        \<and> (sc_closed s \<and> sc_redial s = NoRedial \<longrightarrow> sc_open s = {}))"
proof -
  have o: "open_ok (overwritten ops stt_start) s" using stt_run_ok [OF stt_start_ok(1,2), of ops] assms by simp
  have "card (sc_open s) \<le> 1 \<and> overwritten ops stt_start = {} \<and> (sc_closed s \<and> sc_redial s = NoRedial \<longrightarrow> sc_open s = {})"
    if f: "all_fresh ops stt_start"
  proof -
    have w: "overwritten ops stt_start = {}" "redial_alone s" using alone_run [OF stt_start_ok(3,1,2) f] assms by simp_all
    have c: "sc_conn s = None \<or> dialed s = {}" using w(2) by (auto simp: redial_alone_def dialed_def split: redial.splits)
    have e: "sc_open s = set_option (sc_conn s) \<union> dialed s" using o w(1) by (auto simp: open_ok_def)
    have "card (sc_open s) \<le> 1" using c unfolding e by (cases "sc_conn s") (auto simp: dialed_def split: redial.splits)
    then show ?thesis using o w(1) e by (auto simp: open_ok_def dialed_def)
  qed
  then show ?thesis using o by (auto simp: open_ok_def)
qed

definition stt_sample :: "stt_op list" where
  "stt_sample = [SRead 0 (Some \<lparr>sm_Type = ''events'', sm_Transcript = [], sm_SignalType = ''START_SPEECH''\<rparr>), SSend 0, SRead 0 None,
     SCall (AudioOut [1]), SCallStep 0 True 5, SCallStep 0 True 5, SRedial True 5, SRedial False 10, SRedial True 10,
     SCall (AudioOut [2]), SCallStep 0 True 20, SCall (AudioOut [3]), SCallStep 0 True 200000010, SCallStep 0 True 200000010,
     SRedial True 0, SRedial True 0, SRedial True 0, SRedial True 0, SCall (AudioOut [4]), SCallStep 0 True 0,
     SRead 0 (Some \<lparr>sm_Type = ''data'', sm_Transcript = [72], sm_SignalType = []\<rparr>), SSend 0, SCtxEnds, SClose]"

lemma stt_sample_run:
  "snd (stt_run stt_sample stt_start) = [Delivered 0 \<lparr>re_Text = [], re_Final = False, re_Signal = SpeechStarted\<rparr>, Wrote 1 (AudioOut [4]),
     Delivered 1 \<lparr>re_Text = [72], re_Final = True, re_Signal = NoSignal\<rparr>]"
  "all_fresh stt_sample stt_start"
  "sc_closed (fst (stt_run stt_sample stt_start)) \<and> sc_redial (fst (stt_run stt_sample stt_start)) = NoRedial"
  by code_simp+

lemma stt_streams_exact_witness: "sc_open (fst (stt_run stt_sample stt_start)) = {} \<and> overwritten stt_sample stt_start = {}"
  using stt_streams_exact [OF refl, of stt_sample] stt_sample_run(2,3) by blast

text \<open>The results of each connection are delivered in the order the provider sent its messages, each at most
  once; what is not delivered is at most the one the connection's receive loop holds, or held when the call ended.
\<close>
lemma stt_results_in_order:
  assumes "stt_run ops stt_start = (s, ev)"
  shows "\<exists>rest. results_of (heard k ops stt_start) = delivered k ev @ rest \<and> length rest \<le> 1
    \<and> (rest \<noteq> [] \<longrightarrow> sc_ctxDone s \<or> (k, Some (hd rest)) \<in> set (sc_loops s))"
proof -
  have "order_ok k (results_of (heard k ops stt_start)) (delivered k ev) s"
    using order_run [OF stt_start_ok(4,1,2), of k ops] assms by simp
  then show ?thesis
    by (auto simp: order_ok_def in_hand_def dest: map_of_SomeD split: option.splits)
qed

lemma stt_results_in_order_witness: "results_of (heard 1 stt_sample stt_start) = [\<lparr>re_Text = [72], re_Final = True, re_Signal = NoSignal\<rparr>]"
proof -
  let ?r = "stt_run stt_sample stt_start"
  have d: "delivered 1 (snd ?r) = [\<lparr>re_Text = [72], re_Final = True, re_Signal = NoSignal\<rparr>]" unfolding stt_sample_run(1) by simp
  have l: "length (results_of (heard 1 stt_sample stt_start)) = 1" by code_simp
  show ?thesis using stt_results_in_order [of stt_sample "fst ?r" "snd ?r" 1] d l by auto
qed

text \<open>The wait after the \<open>n\<close>-th failed redial.\<close>

lemma reconnectBackoff_exact: "reconnectBackoff n = min (200000000 * 2 ^ (n - 1)) 5000000000"
  using backoff_loop [of reconnectBackoffMin "n - 1"] by (simp add: reconnectBackoff_def reconnectBackoffMin_def reconnectBackoffMax_def)

text \<open>
  A call that found no connection before the redial stored one starts another redial when the first is over. The
  second connection replaces the first, which nothing closes: it is still open after the end of the call.
\<close>
definition stt_leak :: "stt_op list" where
  "stt_leak = [SRead 0 None, SCall (AudioOut [1]), SCallStep 0 True 5, SCallStep 0 True 5, SRedial True 5, SRedial True 5,
     SCall (AudioOut [2]), SRedial True 5, SRedial True 5, SCallStep 0 True 6, SCallStep 0 True 6,
     SRedial True 6, SRedial True 6, SRedial True 6, SRedial True 6, SCtxEnds, SClose]"

lemma stream_leaked:
  "let s = fst (stt_run stt_leak stt_start) in sc_closed s \<and> sc_redial s = NoRedial \<and> 1 \<in> sc_open s"
  by code_simp

text \<open>The same window lets a redial begin at once after a failed one.\<close>

lemma backoff_skipped:
  "let s = fst (stt_run [SRead 0 None, SCall (AudioOut [1]), SCallStep 0 True 5, SCallStep 0 True 5, SRedial True 5,
       SCall (AudioOut [2]), SCallStep 0 True 6, SRedial False 10, SRedial True 10, SCallStep 0 True 10] stt_start)
   in sc_redial s = Begun \<and> sc_nextDialAt s = Some 200000010"
  by code_simp

end
