(* ===== verification/Spec2Isabelle.thy ===== *)
theory Spec2Isabelle
  imports Port_Alloc Jitter_Claims Audio_Socket Call_Media Stt_Gate Barge_In Turn_Claims Turn_Talk
    Limiter_Claims Campaign_Config Campaign_Store Runner_Claims Ari_Claims Llm_Stream Esl_Claims Freeswitch_Claims
    Turn_Graph Call_Log Config_Claims Tts_Claims Stt_Claims
begin

text \<open>
  A verification development for Vaani, a telephone voice agent in Go: media from Asterisk or
  FreeSWITCH in, speech recognition, a language model and speech synthesis around a turn-taking
  loop, media out. All file names are under \<open>src/internal\<close>.

  \<^bold>\<open>Parts and how they interact.\<close> A call manager takes a port from \<open>media/portalloc.go\<close> (\<open>Port_Alloc\<close>)
  and starts a media pipeline (\<open>Call_Media\<close>): for RTP the socket of \<open>media/rtp.go\<close> (\<open>Rtp\<close>) feeds the
  jitter buffer of \<open>media/jitterbuffer.go\<close> (\<open>Jitter_Buffer\<close>), for AudioSocket and earshot the framings
  of \<open>media/audiosocket.go\<close> and \<open>media/earshot.go\<close> (\<open>Audio_Socket\<close>) deliver whole frames. Every 20 ms
  one frame goes through a frame handler (\<open>Frame_Handler\<close>, the contract of \<open>media/handler.go\<close>), perhaps
  wrapped in the \<open>MixRecorder\<close>, and what it answers is queued for the paced writer. The handler of a
  real call is the agent, \<open>ai/agent/handler.go\<close>: \<open>ProcessFrame\<close> runs on the media tick and shares a
  few fields with the event loop \<open>run\<close>, which takes transcripts, language model results, audio from
  the synthesis and timers (\<open>Turn_State\<close>, \<open>Turn_Loop\<close>). Outbound campaigns are dialed by
  \<open>campaign/runner.go\<close> (\<open>Campaign_Runner\<close>): it claims contacts from Dograh's tables
  (\<open>dograh/campaign.go\<close>, \<open>dograh/outbound.go\<close>; \<open>Campaign_Config\<close>, \<open>Campaign_Store\<close>) under limits that
  \<open>campaign/limiter.go\<close> keeps in Redis (\<open>Limiter\<close>) and has the call manager dial them. The call manager
  for Asterisk (\<open>Ari_Calls\<close>) turns channel events into calls: port, external media, bridge, media pipeline,
  transfer, cleanup. The one for FreeSWITCH (\<open>Freeswitch\<close>) takes earshot's connections and hears of hangups over the event
  socket (\<open>esl/esl.go\<close>; \<open>Esl_Wire\<close>, \<open>Esl_Client\<close>). The agent's turns ask the language model through
  \<open>ai/llm/client.go\<close> (\<open>Llm_Client\<close>), at the nodes of a workflow that \<open>dograh/workflow.go\<close> builds from Dograh's
  (\<open>Workflow_Build\<close>), and what happens is kept in the call's record (\<open>Call_Log\<close>).

  \<^bold>\<open>Theories.\<close>
  \<^item> \<open>Vaani_Prelude\<close>: machine integers of Go, non-blocking channel operations, shared lemmas.
  \<^item> \<open>Port_Alloc\<close>: \<open>PortAllocator\<close>; the locale \<open>port_pool\<close> is what a call manager relies on.
  \<^item> \<open>Jitter_Buffer\<close>, \<open>Jitter_Window\<close>, \<open>Jitter_Refine\<close>, \<open>Jitter_Claims\<close>: the buffer, its invariants, a
    reference buffer keyed by sequence number that it implements, and the properties.
  \<^item> \<open>Rtp\<close>, \<open>Pcm\<close>, \<open>Audio_Socket\<close>: packets, the outbound sender, the endpoint; byte order, mixing and the
    WAV header; the two framings.
  \<^item> \<open>Frame_Handler\<close>: the locale \<open>frame_handler\<close>, the loopback and silent handlers and the mix recorder,
    which turns a handler into a handler (a sublocale).
  \<^item> \<open>Call_Media\<close>: the goroutines of \<open>media/loopback.go\<close> and \<open>media/audiosocket_call.go\<close> as steps in any
    interleaving, and the dead-call watchdog.
  \<^item> \<open>Agent_Text\<close>: sentence chunker, junk and acknowledgement filters, fallback lines.
  \<^item> \<open>Stt_Gate\<close>, \<open>Barge_In\<close>: what reaches the speech recognition, and when the caller is speaking.
  \<^item> \<open>Turn_State\<close>, \<open>Turn_Loop\<close>: the agent's state and one definition per function of the two goroutines;
    \<open>agent_step\<close> is one step of either, \<open>agent_run\<close> any sequence of them.
  \<^item> \<open>Turn_Props\<close>, \<open>Turn_Cut\<close>, \<open>Turn_Drain\<close>: one preservation lemma per operation for what only grows,
    for the playout queue, for what may be played after a cut, and how a reply drains; the agent is
    shown to satisfy \<open>frame_handler\<close>. \<open>Turn_Claims\<close> has the properties.
  \<^item> \<open>Clip_Router\<close>: the recordings a model may play instead of speaking. \<open>Llm_Turn\<close>: the goroutine of a turn
    (\<open>runLLMTurn\<close> and the tools), whose effects include its writes to the agent's state and the events it
    posts. \<open>Llm_Claims\<close>: that it ends and what it promises. \<open>Turn_Talk\<close>: the history over a whole call.
  \<^item> \<open>Limiter\<close>: the limiter and its Lua scripts over a Redis that is a parameter. \<open>Limiter_Laws\<close>: the
    documented laws of sorted sets (locale \<open>redis_zsets\<close>), what the dialer relies on (locale
    \<open>slot_pool\<close>, a sublocale of \<open>limiter\<close>), and a concrete Redis on which both are interpreted.
    \<open>Limiter_Claims\<close>: the bounds on calls and call starts, and the circuit breaker's window.
  \<^item> \<open>Campaign_Config\<close>, \<open>Campaign_Store\<close>: a campaign's settings, calling windows, dial strings; the tables
    and one definition per statement on them.
  \<^item> \<open>Campaign_Runner\<close>: the dialer, \<open>dialOne\<close> to \<open>finished\<close>. \<open>Runner_Props\<close>: its steps in any interleaving
    (\<open>runner_run\<close>), with crashes (\<open>process_run\<close>), and what each helper leaves alone. \<open>Runner_Book\<close>,
    \<open>Runner_Rows\<close>: the two invariants. \<open>Runner_Claims\<close> has the properties.
  \<^item> \<open>Ari_State\<close>, \<open>Ari_Calls\<close>: the Asterisk call manager, \<open>session/call.go\<close> and \<open>ari/handlers.go\<close>, \<open>outbound.go\<close>,
    \<open>transfer.go\<close>: a call and its one cleanup, dialed calls, transfers; \<open>ari_handle\<close> is one step of the
    event loop, a timer, an agent, the dialer or a cleanup, \<open>ari_run\<close> any sequence of them. \<open>Ari_Ports\<close>: ports,
    channels and that live calls are found. \<open>Ari_Dials\<close>: what becomes of a dialed call. \<open>Ari_Claims\<close> has the
    properties, and runs that show where the code is not what its comments say.

  \<^item> \<open>Llm_Client\<close>: one attempt of a request (its event stream, the assembly of tool calls from fragments) and the
    retries. \<open>Llm_Stream\<close>: what is spoken and which calls come out, whatever the provider does.
  \<^item> \<open>Esl_Wire\<close>: messages of the event socket byte by byte, read back as they were framed. \<open>Esl_Client\<close>: its two
    goroutines and its commands as steps (\<open>esl_step\<close>, \<open>esl_run\<close>). \<open>Esl_Claims\<close>: events in order, replies to
    their own commands.
  \<^item> \<open>Freeswitch\<close>: registration, a call's end and its watcher, events, shutdown, as steps (\<open>fs_do\<close>, \<open>fs_run\<close>).
    \<open>Freeswitch_Claims\<close>: one call per channel, one end per channel, and that a shutdown drains.
  \<^item> \<open>Workflow_Template\<close>: \<open>dograh/template.go\<close>, its patterns as matchers. \<open>Template_Claims\<close>: what rendering gives.
  \<^item> \<open>Workflow_Build\<close>: \<open>dograh/workflow.go\<close> and \<open>tools.go\<close>, the recordings a workflow needs, and the graph of nodes built from
    the decoded workflow. \<open>Workflow_Claims\<close>: the graph is closed, when it is refused, and that the recordings
    loaded suffice. \<open>Turn_Graph\<close>: a turn never leaves the graph.
  \<^item> \<open>Configuration\<close>: \<open>config/config.go\<close>, one definition per group of settings. \<open>Config_Claims\<close>: what \<open>Load\<close> promises.
  \<^item> \<open>Tts_Client\<close>: \<open>ai/tts/sarvam.go\<close> and its provider as steps (\<open>tts_do\<close>, \<open>tts_run\<close>). \<open>Tts_Claims\<close>: to which request
    audio belongs, and when a generation is done.
  \<^item> \<open>Stt_Client\<close>: \<open>ai/stt/sarvam.go\<close>, its calls, the redial and the receive loops as steps (\<open>stt_do\<close>, \<open>stt_run\<close>).
    \<open>Stt_Claims\<close>: which connections are open, and the order of results.
  \<^item> \<open>Call_Log\<close>: the record of a call, \<open>ai/agent/calllog.go\<close>, and what its summary says.

  \<^bold>\<open>Conventions.\<close> A mutex makes an operation atomic, so an operation is a function of the state; several
  goroutines are sequences of steps in any order. Clock readings, random numbers and the outcome of
  I/O are arguments. Effects outside the state (hang up, start the model, speak, metrics that a
  property needs) are returned as a list of events, in order. A request to Redis or the database is
  answered, executed with its answer lost, or not executed (\<open>io\<close>). Times are nanoseconds. \<open>uint16\<close>, \<open>uint32\<close>
  and bytes are words of that width. Text is a list of Unicode code points. Third-party code
  (pion/rtp, the websocket library, the Unicode tables, the voice detection model, floating-point
  energy) is a parameter.

  \<^bold>\<open>Bounds.\<close> Loops are structural recursions or functions with a measure; no fuel is used. The drain
  of a reply is bounded by \<open>speakingDrainTimeoutTicks\<close> ticks, a pause by \<open>falseInterruptionMaxPause\<close>.

  A turn asks the model at most \<open>maxToolRounds\<close> times.

  \<^bold>\<open>Not modelled.\<close> The download and conversion of recordings, the requests of HTTP tools,
  Dograh's runs, costs and quality checks, post-call extraction, the assembly of an agent for a call, the
  HTTP requests to Asterisk, logging, metrics and the commands.
\<close>

end
